(* ===== verification/Xz_Prelude.thy ===== *)
theory Xz_Prelude
  imports Main "HOL-Library.Word"
begin

text \<open>
  Shared vocabulary of the development.

  The simulator computes on machine words: \<open>u64\<close> bit planes, \<open>u32\<close> signal ids and widths.
  The planes are modelled as \<open>64 word\<close>; ids, widths, register numbers and branch targets,
  which the code only compares and casts to \<open>usize\<close>, are \<open>nat\<close>.

  The release build of the code wraps: a shift amount is taken modulo the width of the
  shifted word (\<open>shl64\<close>, \<open>shr64\<close>), and \<open>u32\<close> differences wrap (\<open>sub_u32\<close>).  These are the
  functions used wherever the source writes \<open><<\<close>, \<open>>>\<close> or \<open>-\<close> on such values.
\<close>

unbundle bit_operations_syntax

type_synonym u64 = "64 word"
type_synonym u32 = "32 word"
type_synonym i32 = "32 word"

text \<open>Rules that unfold the executors' one-line helpers.\<close>

named_theorems ts_unfold

text \<open>Rules that compute single bits of plane expressions.\<close>

named_theorems plane_bits

section \<open>Shifts and casts of the release build\<close>

definition shl64 :: "u64 \<Rightarrow> nat \<Rightarrow> u64" where
  "shl64 v n = push_bit (n mod 64) v"

definition shr64 :: "u64 \<Rightarrow> nat \<Rightarrow> u64" where
  "shr64 v n = drop_bit (n mod 64) v"

text \<open>A \<open>u32\<close> difference, wrapped.\<close>

definition sub_u32 :: "nat \<Rightarrow> nat \<Rightarrow> nat" where
  "sub_u32 a b = unat ((of_nat a - of_nat b) :: u32)"

text \<open>The cast of a truth value to \<open>u64\<close>.\<close>

definition b2u :: "bool \<Rightarrow> u64" where
  "b2u b = (if b then 1 else 0)"

text \<open>\<open>u64::leading_zeros\<close>, \<open>u32::leading_zeros\<close> and \<open>u64::count_ones\<close>.\<close>

fun bit_len :: "nat \<Rightarrow> nat" where
  "bit_len n = (if n = 0 then 0 else Suc (bit_len (n div 2)))"

declare bit_len.simps [simp del]

definition leading_zeros64 :: "u64 \<Rightarrow> nat" where
  "leading_zeros64 v = 64 - bit_len (unat v)"

definition leading_zeros32 :: "nat \<Rightarrow> nat" where
  "leading_zeros32 n = 32 - bit_len n"

definition count_ones64 :: "u64 \<Rightarrow> nat" where
  "count_ones64 v = card {i. bit v i}"

lemma count_ones64_code [code]:
  "count_ones64 v = length (filter (bit v) [0..<64])"
proof -
  have "{i. bit v i} = {i. i < 64 \<and> bit v i}"
    using bit_imp_le_length [of v] by auto
  also have "\<dots> = set (filter (bit v) [0..<64])"
    by auto
  finally have "count_ones64 v = card (set (filter (bit v) [0..<64]))"
    by (simp add: count_ones64_def)
  also have "\<dots> = length (filter (bit v) [0..<64])"
    by (rule distinct_card) simp
  finally show ?thesis .
qed

section \<open>Bits of shifted words\<close>

lemma bit_shl64 [plane_bits]:
  "n < 64 \<Longrightarrow> bit (shl64 v n) i \<longleftrightarrow> n \<le> i \<and> i < 64 \<and> bit v (i - n)"
  by (auto simp: shl64_def bit_push_bit_iff)

lemma bit_shr64 [plane_bits]:
  "n < 64 \<Longrightarrow> bit (shr64 v n) i \<longleftrightarrow> bit v (n + i)"
  by (simp add: shr64_def bit_drop_bit_eq)

lemma shl64_0 [simp]: "shl64 v 0 = v" "shl64 0 n = 0"
  by (simp_all add: shl64_def)

lemma shr64_0 [simp]: "shr64 v 0 = v" "shr64 0 n = 0"
  by (simp_all add: shr64_def)

lemma b2u_simps [simp]: "b2u True = 1" "b2u False = 0"
  by (simp_all add: b2u_def)

lemma b2u_eq_0_iff [simp]: "b2u b = 0 \<longleftrightarrow> \<not> b"
  by (simp add: b2u_def)

lemma b2u_cases: "b2u b = 0 \<or> b2u b = 1"
  by (simp add: b2u_def)

section \<open>Bit length\<close>

lemma bit_len_0 [simp]: "bit_len 0 = 0"
  by (simp add: bit_len.simps)

lemma bit_len_le_iff: "bit_len n \<le> k \<longleftrightarrow> n < 2 ^ k"
proof (induction n arbitrary: k rule: bit_len.induct)
  case (1 n)
  show ?case
  proof (cases "n = 0")
    case True
    then show ?thesis by simp
  next
    case False
    show ?thesis
    proof (cases k)
      case 0
      with False show ?thesis by (simp add: bit_len.simps [of n])
    next
      case (Suc k')
      have "bit_len n \<le> k \<longleftrightarrow> bit_len (n div 2) \<le> k'"
        using False Suc by (simp add: bit_len.simps [of n])
      also have "\<dots> \<longleftrightarrow> n div 2 < 2 ^ k'"
        using 1 False by blast
      also have "\<dots> \<longleftrightarrow> n < 2 ^ k"
        using Suc by (simp add: less_mult_imp_div_less div_less_iff_less_mult mult.commute)
      finally show ?thesis .
    qed
  qed
qed

lemma less_two_power_bit_len: "n < 2 ^ bit_len n"
  using bit_len_le_iff [of n "bit_len n"] by simp

lemma bit_len_unat64: "bit_len (unat (v :: u64)) \<le> 64"
  using unsigned_less [of v, where ?'a = nat] by (simp add: bit_len_le_iff)

section \<open>Updates of functions and lists\<close>

lemma fun_upd_collapse [simp]: "f(a := x, a := y) = f(a := y)"
  by simp

lemma nth_append_le: "i < length xs \<Longrightarrow> (xs @ ys) ! i = xs ! i"
  by (simp add: nth_append)

section \<open>Lists of pairs grouped by their first component\<close>

text \<open>The leading group of a sorted list and what comes after it.\<close>

lemma same_time: "(t', b) \<in> set (takeWhile (\<lambda>(u, _). u = t) rest) \<Longrightarrow> t' = t"
  by (auto dest: set_takeWhileD)

lemma later_time:
  fixes t :: nat
  assumes "sorted (map fst ((t, c) # rest))" and "(t', b) \<in> set (dropWhile (\<lambda>(u, _). u = t) rest)"
  shows "t < t'"
  using assms
proof (induction rest)
  case (Cons x rest)
  obtain u d where x: "x = (u, d)" by force
  show ?case
  proof (cases "u = t")
    case True
    then show ?thesis using Cons by (simp add: x)
  next
    case False
    have "t \<le> u" using Cons.prems(1) by (simp add: x)
    with False have "t < u" by simp
    moreover have "(t', b) = x \<or> (t', b) \<in> set rest" using Cons.prems(2) False by (auto simp: x)
    ultimately show ?thesis using Cons.prems(1) by (force simp: x)
  qed
qed simp

lemma snd_imageE: "d \<in> snd ` S \<Longrightarrow> (\<And>u. (u, d) \<in> S \<Longrightarrow> thesis) \<Longrightarrow> thesis"
  by auto

lemma group_split:
  "set rest = set (takeWhile (\<lambda>(u, _). u = t) rest) \<union> set (dropWhile (\<lambda>(u, _). u = t) rest)"
  by (metis set_append takeWhile_dropWhile_id)

lemma later_sorted: "sorted (map fst rest) \<Longrightarrow> sorted (map fst (dropWhile P rest))"
  by (metis sorted_append map_append takeWhile_dropWhile_id)

lemma later_distinct: "distinct (map snd rest) \<Longrightarrow> distinct (map snd (dropWhile P rest))"
  by (metis distinct_append map_append takeWhile_dropWhile_id)

end
