(* ===== verification/Planes.thy ===== *)
theory Planes
  imports Xz_Prelude
begin

text \<open>
  Bit planes.  A four-state vector of at most 64 bits is a pair of words: the value plane and
  the x/z plane.  This theory holds the pure plane functions of the simulator: masks, the
  bit-granular sensitivity masks (\<^verbatim>\<open>sig_span_mask\<close>), the range splice
  \<^verbatim>\<open>compose_inline_range_bits\<close>, the narrow replicate, and the three-valued operations of
  the x-plane executor (\<^verbatim>\<open>ts_x.rs\<close>), each with the lemmas that say what it computes bit by
  bit.
\<close>

section \<open>Masks\<close>

definition ts_mask :: "nat \<Rightarrow> u64" where
  "ts_mask w = (if w \<ge> 64 then - 1 else shl64 1 w - 1)"

definition xmask :: "nat \<Rightarrow> u64" where
  "xmask w = (if w \<ge> 64 then - 1 else shl64 1 w - 1)"

lemma ts_mask_eq_mask: "ts_mask w = mask w"
proof (cases "w \<ge> 64")
  case True
  then have "mask w = (- 1 :: u64)"
    by (intro bit_word_eqI) (simp add: bit_mask_iff)
  with True show ?thesis by (simp add: ts_mask_def)
next
  case False
  then show ?thesis by (simp add: ts_mask_def shl64_def mask_eq_exp_minus_1 push_bit_of_1)
qed

lemma xmask_eq_ts_mask: "xmask w = ts_mask w"
  by (simp add: xmask_def ts_mask_def)

lemma bit_ts_mask [plane_bits]: "bit (ts_mask w) i \<longleftrightarrow> i < w \<and> i < 64"
  by (simp add: ts_mask_eq_mask bit_mask_iff) blast

text \<open>\<^verbatim>\<open>sig_chunk_shift\<close>: log2 of the chunk size of a signal's sensitivity mask.\<close>

definition sig_chunk_shift :: "nat \<Rightarrow> nat" where
  "sig_chunk_shift width =
     (if width \<le> 64 then 0
      else let c = (width + 63) div 64 in 32 - leading_zeros32 (c - 1))"

definition sig_span_mask :: "nat \<Rightarrow> nat \<Rightarrow> nat \<Rightarrow> u64" where
  "sig_span_mask width lo n =
     (if n = 0 then - 1
      else let sh = sig_chunk_shift width;
               first = min (lo div 2 ^ sh) 63;
               last = min (min (lo + (n - 1)) (2 ^ 32 - 1) div 2 ^ sh) 63
           in shr64 (- 1) (63 - last) AND shl64 (- 1) first)"

lemma bit_sig_span_mask:
  assumes "0 < n"
  shows "bit (sig_span_mask width lo n) k \<longleftrightarrow>
    min (lo div 2 ^ sig_chunk_shift width) 63 \<le> k \<and>
    k \<le> min (min (lo + (n - 1)) (2 ^ 32 - 1) div 2 ^ sig_chunk_shift width) 63"
  using assms by (auto simp: sig_span_mask_def Let_def plane_bits bit_and_iff)

text \<open>Bits below the width fall in one of the 64 chunks.\<close>

lemma chunk_shift_fits:
  assumes "b < width" "width < 2 ^ 32"
  shows "b div 2 ^ sig_chunk_shift width \<le> 63"
proof (cases "width \<le> 64")
  case True
  with assms show ?thesis by (simp add: sig_chunk_shift_def)
next
  case False
  define c where "c = (width + 63) div 64"
  have "c - 1 < 2 ^ 32" using assms(2) by (simp add: c_def)
  then have len: "bit_len (c - 1) \<le> 32" by (simp add: bit_len_le_iff)
  have sh: "sig_chunk_shift width = bit_len (c - 1)"
    using False len by (simp add: sig_chunk_shift_def c_def leading_zeros32_def)
  have "c - 1 < 2 ^ bit_len (c - 1)" by (rule less_two_power_bit_len)
  then have "c \<le> 2 ^ bit_len (c - 1)" by linarith
  moreover have "width \<le> 64 * c" by (simp add: c_def)
  ultimately have "b < 64 * 2 ^ bit_len (c - 1)" using assms(1) by linarith
  then have "b div 2 ^ bit_len (c - 1) < 64" by (simp add: div_less_iff_less_mult)
  with sh show ?thesis by simp
qed

text \<open>Two spans that share a bit share a mask bit.\<close>

lemma span_mask_shared_bit:
  assumes "lo \<le> b" "b < lo + n" "b < 2 ^ 32"
  shows "bit (sig_span_mask width lo n) (min (b div 2 ^ sig_chunk_shift width) 63)"
proof -
  let ?d = "2 ^ sig_chunk_shift width :: nat"
  have "b \<le> min (lo + (n - 1)) (2 ^ 32 - 1)" using assms by simp
  then have "b div ?d \<le> min (lo + (n - 1)) (2 ^ 32 - 1) div ?d" by (rule div_le_mono)
  moreover have "lo div ?d \<le> b div ?d" using assms(1) by (rule div_le_mono)
  ultimately show ?thesis
    using assms by (subst bit_sig_span_mask) (auto simp: min_def)
qed

section \<open>Splicing a range\<close>

definition compose_inline_range_bits ::
  "u64 \<Rightarrow> u64 \<Rightarrow> u64 \<Rightarrow> u64 \<Rightarrow> nat \<Rightarrow> nat \<Rightarrow> u64 \<times> u64" where
  "compose_inline_range_bits base_v base_x src_v src_x low high =
     (if high < low then (base_v, base_x)
      else let width = high - low + 1;
               src_mask = (if width \<ge> 64 then - 1 else shl64 1 width - 1);
               dst_mask = shl64 src_mask low
           in ((base_v AND NOT dst_mask) OR shl64 (src_v AND src_mask) low,
               (base_x AND NOT dst_mask) OR shl64 (src_x AND src_mask) low))"

lemma compose_bits:
  assumes "low \<le> high" "high < 64" "i < 64"
  shows "bit (fst (compose_inline_range_bits bv bx sv sx low high)) i \<longleftrightarrow>
           (if low \<le> i \<and> i \<le> high then bit sv (i - low) else bit bv i)"
    and "bit (snd (compose_inline_range_bits bv bx sv sx low high)) i \<longleftrightarrow>
           (if low \<le> i \<and> i \<le> high then bit sx (i - low) else bit bx i)"
proof -
  have m: "(if high - low + 1 \<ge> 64 then - 1 else shl64 1 (high - low + 1) - 1)
      = ts_mask (high - low + 1)"
    by (simp add: ts_mask_def)
  show "bit (fst (compose_inline_range_bits bv bx sv sx low high)) i \<longleftrightarrow>
           (if low \<le> i \<and> i \<le> high then bit sv (i - low) else bit bv i)"
    and "bit (snd (compose_inline_range_bits bv bx sv sx low high)) i \<longleftrightarrow>
           (if low \<le> i \<and> i \<le> high then bit sx (i - low) else bit bx i)"
    using assms unfolding compose_inline_range_bits_def Let_def m
    by (auto simp: plane_bits bit_or_iff bit_and_iff bit_not_iff)
qed

section \<open>Replication\<close>

definition repeated_word :: "u64 \<Rightarrow> nat \<Rightarrow> u64 option" where
  "repeated_word part width =
     (if width = 1 then Some (0 - (part AND 1))
      else if width = 2 then Some ((part AND 0x3) * 0x5555555555555555)
      else if width = 4 then Some ((part AND 0xf) * 0x1111111111111111)
      else if width = 8 then Some ((part AND 0xff) * 0x0101010101010101)
      else if width = 16 then Some ((part AND 0xffff) * 0x0001000100010001)
      else if width = 32 then Some ((part AND 0xffffffff) * 0x0000000100000001)
      else if width = 64 then Some part
      else None)"

text \<open>The doubling loop of \<^verbatim>\<open>replicate_narrow\<close>; \<open>copies\<close> halves in each round.\<close>

function replicate_loop :: "u64 \<Rightarrow> u64 \<Rightarrow> nat \<Rightarrow> nat \<Rightarrow> u64" where
  "replicate_loop acc chunk chunk_width copies =
     (if copies = 0 then acc
      else let acc' = (if copies AND 1 \<noteq> 0 then shl64 acc chunk_width OR chunk else acc);
               copies' = copies div 2
           in if copies' \<noteq> 0
              then replicate_loop acc' (chunk OR shl64 chunk chunk_width) (2 * chunk_width) copies'
              else acc')"
  by pat_completeness auto
termination
  by (relation "measure (\<lambda>(_, _, _, copies). copies)") auto

declare replicate_loop.simps [simp del]

definition replicate_narrow :: "u64 \<Rightarrow> nat \<Rightarrow> nat \<Rightarrow> u64" where
  "replicate_narrow part width count =
     (if count = 0 then 0
      else if count = 1 then part
      else let total = width * count
           in case repeated_word part width of
                Some word \<Rightarrow> if total \<ge> 64 then word else word AND (shl64 1 total - 1)
              | None \<Rightarrow> replicate_loop 0 part width count)"

text \<open>The reference: \<open>count\<close> copies of \<open>part\<close>, one after the other.\<close>

fun rep_ref :: "u64 \<Rightarrow> nat \<Rightarrow> nat \<Rightarrow> u64" where
  "rep_ref part w 0 = 0"
| "rep_ref part w (Suc n) = push_bit w (rep_ref part w n) OR part"

lemma bit_rep_ref:
  assumes "part = take_bit w part" "0 < w" "w * n \<le> 64"
  shows "bit (rep_ref part w n) i \<longleftrightarrow> i < w * n \<and> bit part (i mod w)"
  using assms(3)
proof (induction n arbitrary: i)
  case 0
  then show ?case by simp
next
  case (Suc n)
  have small: "bit part j \<Longrightarrow> j < w" for j
    using assms(1) by (metis bit_take_bit_iff)
  have IH: "bit (rep_ref part w n) (i - w) \<longleftrightarrow> i - w < w * n \<and> bit part ((i - w) mod w)"
    using Suc by simp
  have mw: "w \<le> i \<Longrightarrow> (i - w) mod w = i mod w"
    by (simp add: le_mod_geq)
  show ?case
  proof (cases "i < w")
    case True
    then show ?thesis using small by (auto simp: bit_or_iff bit_push_bit_iff)
  next
    case False
    then have "\<not> bit part i" using small by auto
    then show ?thesis
      using False IH mw Suc.prems
      by (auto simp: bit_or_iff bit_push_bit_iff dest: bit_imp_le_length)
  qed
qed

lemma rep_ref_or_shift:
  assumes "part = take_bit w part" "0 < w" "w * (m + n) \<le> 64"
  shows "push_bit (w * m) (rep_ref part w n) OR rep_ref part w m = rep_ref part w (m + n)"
proof (rule bit_word_eqI)
  fix i
  assume "i < LENGTH(64)"
  have bn: "w * n \<le> 64" "w * m \<le> 64" using assms(3) by (auto simp: distrib_left)
  have mm: "w * m \<le> i \<Longrightarrow> (i - w * m) mod w = i mod w"
    by (metis le_add_diff_inverse mod_mult_self2 mult.commute add.commute)
  show "bit (push_bit (w * m) (rep_ref part w n) OR rep_ref part w m) i =
      bit (rep_ref part w (m + n)) i"
    using mm \<open>i < LENGTH(64)\<close> assms(3)
    by (auto simp: bit_or_iff bit_push_bit_iff bit_rep_ref [OF assms(1,2)] bn distrib_left)
qed

lemma replicate_loop_ref:
  assumes "part = take_bit w part" "0 < w" "0 < m" "w * (k + m * c) \<le> 64"
  shows "replicate_loop (rep_ref part w k) (rep_ref part w m) (w * m) c
    = rep_ref part w (k + m * c)"
  using assms(3,4)
proof (induction c arbitrary: k m rule: less_induct)
  case (less c)
  note fits = less.prems(2)
  show ?case
  proof (cases "c = 0")
    case True
    then show ?thesis by (simp add: replicate_loop.simps)
  next
    case False
    have odd_iff: "(c AND 1 \<noteq> 0) = odd c" by (simp add: and_one_eq odd_iff_mod_2_eq_one)
    have step: "shl64 (rep_ref part w k) (w * m) OR rep_ref part w m = rep_ref part w (m + k)"
      if "w * (m + k) \<le> 64"
    proof (cases "k = 0")
      case True
      then show ?thesis by simp
    next
      case False
      then have "0 < w * k" using assms(2) by simp
      moreover have "w * m + w * k \<le> 64" using that by (simp add: distrib_left)
      ultimately have "w * m < 64" by linarith
      then show ?thesis using rep_ref_or_shift [OF assms(1,2) that] by (simp add: shl64_def)
    qed
    define k' where "k' = (if odd c then m + k else k)"
    have k': "k' + 2 * m * (c div 2) = k + m * c"
    proof (cases "odd c")
      case True
      then obtain d where "c = 2 * d + 1" by (rule oddE)
      then show ?thesis by (simp add: k'_def algebra_simps)
    next
      case False
      then obtain d where "c = 2 * d" by (auto elim: evenE)
      then show ?thesis by (simp add: k'_def)
    qed
    have le: "m + k \<le> k + m * c" using False by (cases c) auto
    have mk: "w * (m + k) \<le> 64"
      using le fits by (meson mult_le_mono2 order_trans)
    have acc: "(if c AND 1 \<noteq> 0 then shl64 (rep_ref part w k) (w * m) OR rep_ref part w m
        else rep_ref part w k) = rep_ref part w k'"
      unfolding odd_iff k'_def using step [OF mk] by simp
    show ?thesis
    proof (cases "c div 2 = 0")
      case True
      then have "c = 1" using False by simp
      then show ?thesis using acc by (subst replicate_loop.simps) (simp add: k'_def add.commute)
    next
      case c2: False
      then have "2 \<le> c" by simp
      then have "m + m \<le> k + m * c"
        by (metis add.commute mult.commute mult_2 mult_le_mono1 trans_le_add1)
      then have mm: "w * (m + m) \<le> 64"
        using fits by (meson mult_le_mono2 order_trans)
      moreover have "0 < w * m" using assms(2) less.prems(1) by simp
      ultimately have "w * m < 64" by (simp add: distrib_left)
      then have chunk: "rep_ref part w m OR shl64 (rep_ref part w m) (w * m) = rep_ref part w (2 * m)"
        using rep_ref_or_shift [OF assms(1,2) mm] by (simp add: shl64_def or.commute mult_2)
      have "replicate_loop (rep_ref part w k') (rep_ref part w (2 * m)) (w * (2 * m)) (c div 2)
          = rep_ref part w (k' + 2 * m * (c div 2))"
        using False less.prems fits k' by (intro less.IH) auto
      then show ?thesis
        using acc chunk False c2 k'
        by (subst replicate_loop.simps) (simp add: Let_def mult.assoc mult.left_commute)
    qed
  qed
qed

text \<open>Geometric constants: \<open>part\<close> times \<open>1 + 2\<^sup>w + 2\<^sup>2\<^sup>w + \<dots>\<close>.\<close>

fun geo :: "nat \<Rightarrow> nat \<Rightarrow> u64" where
  "geo w 0 = 0"
| "geo w (Suc n) = geo w n * 2 ^ w + 1"

lemma rep_ref_geo:
  assumes "part = take_bit w part"
  shows "rep_ref part w n = part * geo w n"
proof (induction n)
  case 0
  then show ?case by simp
next
  case (Suc n)
  have small: "bit part j \<Longrightarrow> j < w" for j
    using assms by (metis bit_take_bit_iff)
  have "push_bit w (rep_ref part w n) OR part = push_bit w (rep_ref part w n) + part"
    by (rule disjunctive_add [symmetric]) (auto simp: bit_push_bit_iff dest: small)
  with Suc show ?case by (simp add: push_bit_eq_mult algebra_simps)
qed

lemma geo_eval:
  "geo 1 64 = - 1" "geo 2 32 = 0x5555555555555555" "geo 4 16 = 0x1111111111111111"
  "geo 8 8 = 0x0101010101010101" "geo 16 4 = 0x0001000100010001" "geo 32 2 = 0x0000000100000001"
  "geo 64 1 = 1" "geo (Suc 0) 64 = - 1"
  by code_simp+

lemma repeated_word_ref:
  assumes "part = take_bit w part" "repeated_word part w = Some word"
  shows "0 < w \<and> w * (64 div w) = 64 \<and> word = rep_ref part w (64 div w)"
proof -
  have masked: "part AND mask w = part"
    using assms(1) by (simp add: take_bit_eq_mask)
  have masks: "mask 1 = (1 :: u64)" "mask 2 = (0x3 :: u64)" "mask 4 = (0xf :: u64)"
    "mask 8 = (0xff :: u64)" "mask 16 = (0xffff :: u64)" "mask 32 = (0xffffffff :: u64)"
    by (simp_all add: mask_eq_exp_minus_1)
  have "w \<in> {1, 2, 4, 8, 16, 32, 64}"
    using assms(2) by (auto simp: repeated_word_def split: if_splits)
  then show ?thesis
    using assms(2) masked masks
    by (auto simp: repeated_word_def rep_ref_geo [OF assms(1)] geo_eval)
qed

lemma replicate_narrow_ref:
  assumes "part = take_bit w part" "0 < w" "w * count \<le> 64"
  shows "replicate_narrow part w count = rep_ref part w count"
proof (cases "count \<le> 1")
  case True
  then have "count = 0 \<or> count = 1" by auto
  then show ?thesis by (auto simp: replicate_narrow_def)
next
  case False
  show ?thesis
  proof (cases "repeated_word part w")
    case None
    have "replicate_loop 0 part w count = rep_ref part w count"
      using replicate_loop_ref [of part w 1 0 count] assms by simp
    with None False show ?thesis by (simp add: replicate_narrow_def)
  next
    case (Some word)
    then have word: "w * (64 div w) = 64" "word = rep_ref part w (64 div w)"
      using repeated_word_ref [OF assms(1)] by auto
    have "word AND ts_mask (w * count) = rep_ref part w count"
      by (rule bit_word_eqI)
        (use assms word in \<open>auto simp: bit_and_iff plane_bits bit_rep_ref\<close>)
    moreover have "word AND (- 1) = word" by simp
    ultimately show ?thesis
      using Some False by (auto simp: replicate_narrow_def ts_mask_def Let_def split: if_splits)
  qed
qed

end
