(* ===== verification/Kleene.thy ===== *)
theory Kleene
  imports Planes
begin

text \<open>
  The three-valued operations of the x-plane executor (\<^verbatim>\<open>ts_x.rs\<close>).  A register is a pair of
  planes; bit \<open>i\<close> of \<open>(v, x)\<close> is unknown when bit \<open>i\<close> of \<open>x\<close> is set and is bit \<open>i\<close> of \<open>v\<close>
  otherwise.  \<open>trit\<close> reads one bit as a \<open>bool option\<close>; the lemmas say that the bitwise
  operations are Kleene's connectives bit by bit, what the reductions compute, and that all
  of them are sound: an x result covers every value the x inputs could stand for.
\<close>

section \<open>The operations\<close>

definition t3 :: "u64 \<Rightarrow> u64 \<Rightarrow> bool option" where
  "t3 v x = (if v AND NOT x \<noteq> 0 then Some True else if x \<noteq> 0 then None else Some False)"

fun from_t3 :: "bool option \<Rightarrow> u64 \<times> u64" where
  "from_t3 (Some True) = (1, 0)"
| "from_t3 (Some False) = (0, 0)"
| "from_t3 None = (0, 1)"

definition and3 :: "bool option \<Rightarrow> bool option \<Rightarrow> bool option" where
  "and3 a b = (if a = Some False \<or> b = Some False then Some False
     else if a = Some True \<and> b = Some True then Some True else None)"

definition or3 :: "bool option \<Rightarrow> bool option \<Rightarrow> bool option" where
  "or3 a b = (if a = Some True \<or> b = Some True then Some True
     else if a = Some False \<and> b = Some False then Some False else None)"

definition not3 :: "bool option \<Rightarrow> bool option" where
  "not3 a = map_option (\<lambda>t. \<not> t) a"

definition and_p :: "u64 \<Rightarrow> u64 \<Rightarrow> u64 \<Rightarrow> u64 \<Rightarrow> u64 \<times> u64" where
  "and_p av ax bv bx =
     (let any = ax OR bx
      in (av AND bv AND NOT any,
          any AND NOT ((NOT av AND NOT ax) OR (NOT bv AND NOT bx))))"

definition or_p :: "u64 \<Rightarrow> u64 \<Rightarrow> u64 \<Rightarrow> u64 \<Rightarrow> u64 \<times> u64" where
  "or_p av ax bv bx =
     (let known1 = (av AND NOT ax) OR (bv AND NOT bx)
      in (known1, (ax OR bx) AND NOT known1))"

definition xor_p :: "u64 \<Rightarrow> u64 \<Rightarrow> u64 \<Rightarrow> u64 \<Rightarrow> u64 \<times> u64" where
  "xor_p av ax bv bx = (let rx = ax OR bx in ((av XOR bv) AND NOT rx, rx))"

definition eq_p :: "u64 \<Rightarrow> u64 \<Rightarrow> u64 \<Rightarrow> u64 \<Rightarrow> u64 \<times> u64" where
  "eq_p av ax bv bx =
     (if ax OR bx = 0 then (b2u (av = bv), 0)
      else if (av XOR bv) AND NOT ax AND NOT bx \<noteq> 0 then (0, 0)
      else (0, 1))"

definition ne_p :: "u64 \<Rightarrow> u64 \<Rightarrow> u64 \<Rightarrow> u64 \<Rightarrow> u64 \<times> u64" where
  "ne_p av ax bv bx =
     (let (v, x) = eq_p av ax bv bx in if x \<noteq> 0 then (0, 1) else (v XOR 1, 0))"

definition merge_p :: "u64 \<Rightarrow> u64 \<Rightarrow> u64 \<Rightarrow> u64 \<Rightarrow> u64 \<Rightarrow> u64 \<times> u64" where
  "merge_p av ax bv bx msk =
     (let agree = NOT ax AND NOT bx AND NOT (av XOR bv)
      in (av AND agree, NOT agree AND msk))"

section \<open>What one bit of a plane pair means\<close>

definition trit :: "u64 \<times> u64 \<Rightarrow> nat \<Rightarrow> bool option" where
  "trit p i = (if bit (snd p) i then None else Some (bit (fst p) i))"

definition xor3 :: "bool option \<Rightarrow> bool option \<Rightarrow> bool option" where
  "xor3 a b = (case (a, b) of (Some s, Some t) \<Rightarrow> Some (s \<noteq> t) | _ \<Rightarrow> None)"

lemma trit_and_p: "i < 64 \<Longrightarrow> trit (and_p av ax bv bx) i = and3 (trit (av, ax) i) (trit (bv, bx) i)"
  by (auto simp: trit_def and_p_def and3_def Let_def bit_simps)

lemma trit_or_p: "i < 64 \<Longrightarrow> trit (or_p av ax bv bx) i = or3 (trit (av, ax) i) (trit (bv, bx) i)"
  by (auto simp: trit_def or_p_def or3_def Let_def bit_simps)

lemma trit_xor_p: "i < 64 \<Longrightarrow> trit (xor_p av ax bv bx) i = xor3 (trit (av, ax) i) (trit (bv, bx) i)"
  by (auto simp: trit_def xor_p_def xor3_def Let_def bit_simps)

lemma trit_merge_p:
  assumes "i < 64" "bit msk i"
  shows "trit (merge_p av ax bv bx msk) i =
    (if trit (av, ax) i = trit (bv, bx) i then trit (av, ax) i else None)"
  using assms by (auto simp: trit_def merge_p_def Let_def bit_simps)

text \<open>The results are canonical: no value bit under an x.\<close>

lemma canonical_and_p: "fst (and_p av ax bv bx) AND snd (and_p av ax bv bx) = 0"
  by (rule bit_word_eqI) (auto simp: and_p_def Let_def bit_simps)

lemma canonical_or_p: "fst (or_p av ax bv bx) AND snd (or_p av ax bv bx) = 0"
  by (rule bit_word_eqI) (auto simp: or_p_def Let_def bit_simps)

section \<open>Soundness: what an x may stand for\<close>

text \<open>\<open>covers (v, x) w\<close>: the word \<open>w\<close> agrees with the known bits of the pair.\<close>

definition covers :: "u64 \<times> u64 \<Rightarrow> u64 \<Rightarrow> bool" where
  "covers p w \<longleftrightarrow> (fst p XOR w) AND NOT (snd p) = 0"

lemma word_zero_iff: "(w :: u64) = 0 \<longleftrightarrow> (\<forall>i < 64. \<not> bit w i)"
proof
  assume "\<forall>i < 64. \<not> bit w i"
  then show "w = 0" by (intro bit_word_eqI) auto
qed simp

lemma covers_bits: "covers p w \<longleftrightarrow> (\<forall>i < 64. trit p i = None \<or> trit p i = Some (bit w i))"
  by (auto simp: covers_def word_zero_iff trit_def bit_simps)

lemma covers_known [simp]: "covers (v, 0) w \<longleftrightarrow> w = v"
  by (auto simp: covers_bits trit_def intro!: bit_word_eqI)

lemma and3_sound: "a = None \<or> a = Some s \<Longrightarrow> b = None \<or> b = Some t \<Longrightarrow>
    and3 a b = None \<or> and3 a b = Some (s \<and> t)"
  by (auto simp: and3_def)

lemma or3_sound: "a = None \<or> a = Some s \<Longrightarrow> b = None \<or> b = Some t \<Longrightarrow>
    or3 a b = None \<or> or3 a b = Some (s \<or> t)"
  by (auto simp: or3_def)

lemma covers_and_p: "covers (av, ax) a \<Longrightarrow> covers (bv, bx) b \<Longrightarrow> covers (and_p av ax bv bx) (a AND b)"
  by (simp add: covers_bits trit_and_p bit_and_iff and3_sound)

lemma covers_or_p: "covers (av, ax) a \<Longrightarrow> covers (bv, bx) b \<Longrightarrow> covers (or_p av ax bv bx) (a OR b)"
  by (simp add: covers_bits trit_or_p bit_or_iff or3_sound)

lemma covers_xor_p: "covers (av, ax) a \<Longrightarrow> covers (bv, bx) b \<Longrightarrow> covers (xor_p av ax bv bx) (a XOR b)"
  by (fastforce simp: covers_bits trit_xor_p bit_xor_iff xor3_def)

lemma covers_merge_p:
  assumes "covers (av, ax) a" "covers (bv, bx) b"
    and outside: "\<And>i. i < 64 \<Longrightarrow> \<not> bit msk i \<Longrightarrow> trit (av, ax) i = Some False \<and> trit (bv, bx) i = Some False"
  shows "covers (merge_p av ax bv bx msk) (if c then a else b)"
proof -
  have "trit (merge_p av ax bv bx msk) i = None
      \<or> trit (merge_p av ax bv bx msk) i = Some (bit (if c then a else b) i)" if i: "i < 64" for i
  proof (cases "bit msk i")
    case True
    then show ?thesis using assms(1,2) i by (auto simp: trit_merge_p covers_bits)
  next
    case False
    have "trit (merge_p av ax bv bx msk) i = Some False"
      using outside [OF i False] i by (auto simp: trit_def merge_p_def Let_def bit_simps split: if_splits)
    moreover have "bit (if c then a else b) i = False"
      using outside [OF i False] assms(1,2) i by (auto simp: covers_bits)
    ultimately show ?thesis by simp
  qed
  then show ?thesis by (simp add: covers_bits)
qed

text \<open>Truth of a register and the comparisons.\<close>

lemma t3_sound:
  assumes "covers (v, x) w"
  shows "t3 v x = None \<or> t3 v x = Some (w \<noteq> 0)"
proof (cases "v AND NOT x = 0")
  case True
  show ?thesis
  proof (cases "x = 0")
    case True
    with assms show ?thesis by (auto simp: t3_def)
  next
    case False
    with True show ?thesis by (simp add: t3_def)
  qed
next
  case False
  then obtain i where "i < 64" "bit v i" "\<not> bit x i"
    by (auto simp: word_zero_iff bit_simps)
  then have "bit w i" using assms by (auto simp: covers_bits trit_def)
  then have "w \<noteq> 0" by auto
  with False show ?thesis by (simp add: t3_def)
qed

lemma t3_from_t3 [simp]: "case_prod t3 (from_t3 t) = t"
  by (cases t rule: from_t3.cases) (simp_all add: t3_def)

lemma covers_from_t3: "t = None \<or> t = Some q \<Longrightarrow> covers (from_t3 t) (b2u q)"
  by (cases t rule: from_t3.cases) (auto simp: covers_def b2u_def)

lemma covers_x1 [simp]: "covers (0, 1) (b2u q)"
  by (auto simp: covers_def b2u_def)

lemma covers_eq_p:
  assumes "covers (av, ax) a" "covers (bv, bx) b"
  shows "covers (eq_p av ax bv bx) (b2u (a = b))"
proof (cases "ax OR bx = 0")
  case True
  then have "ax = 0" "bx = 0" by (simp_all add: or_eq_0_iff)
  with assms show ?thesis by (simp add: eq_p_def)
next
  case False
  show ?thesis
  proof (cases "(av XOR bv) AND NOT ax AND NOT bx = 0")
    case True
    with False show ?thesis by (simp add: eq_p_def)
  next
    case ne: False
    then obtain i where i: "i < 64" "bit av i \<noteq> bit bv i" "\<not> bit ax i" "\<not> bit bx i"
      by (auto simp: word_zero_iff bit_simps)
    then have "bit a i \<noteq> bit b i" using assms by (auto simp: covers_bits trit_def)
    then have "a \<noteq> b" by auto
    with False ne show ?thesis by (simp add: eq_p_def)
  qed
qed

lemma covers_ne_p:
  assumes "covers (av, ax) a" "covers (bv, bx) b"
  shows "covers (ne_p av ax bv bx) (b2u (a \<noteq> b))"
proof -
  have "eq_p av ax bv bx = (0, 1) \<or> (\<exists>q. eq_p av ax bv bx = (b2u q, 0))"
    by (auto simp: eq_p_def intro: exI[of _ False])
  then show ?thesis
  proof
    assume "\<exists>q. eq_p av ax bv bx = (b2u q, 0)"
    then obtain q where q: "eq_p av ax bv bx = (b2u q, 0)" ..
    then have "b2u (a = b) = b2u q" using covers_eq_p[OF assms] by simp
    then show ?thesis by (auto simp: ne_p_def q b2u_def split: if_splits)
  qed (simp add: ne_p_def)
qed

text \<open>Planes that are moved together: masks, shifts and the fields of a concatenation.\<close>

lemma covers_mask: "covers (v, x) w \<Longrightarrow> covers (v AND m, x AND m) (w AND m)"
  by (auto simp: covers_bits trit_def bit_and_iff split: if_splits)

lemma covers_fields: "covers (av, ax) a \<Longrightarrow> covers (bv, bx) b \<Longrightarrow> covers (av OR bv, ax OR bx) (a OR b)"
  by (auto simp: covers_bits trit_def bit_or_iff split: if_splits)

lemma covers_all_bits: "covers (v, x) w \<longleftrightarrow> (\<forall>i. bit x i \<or> (bit v i \<longleftrightarrow> bit w i))"
proof
  assume cv: "covers (v, x) w"
  show "\<forall>i. bit x i \<or> (bit v i \<longleftrightarrow> bit w i)"
  proof
    fix i
    show "bit x i \<or> (bit v i \<longleftrightarrow> bit w i)"
    proof (cases "i < 64")
      case True
      then show ?thesis using cv by (auto simp: covers_bits trit_def split: if_splits)
    next
      case False
      then show ?thesis using bit_imp_le_length[of v i] bit_imp_le_length[of w i] by auto
    qed
  qed
qed (auto simp: covers_bits trit_def)

lemma covers_shl: "covers (v, x) w \<Longrightarrow> covers (shl64 v n, shl64 x n) (shl64 w n)"
  by (auto simp: covers_all_bits shl64_def bit_push_bit_iff)

lemma covers_shr: "covers (v, x) w \<Longrightarrow> covers (shr64 v n, shr64 x n) (shr64 w n)"
  by (simp add: covers_all_bits shr64_def bit_drop_bit_eq)

lemma covers_not: "covers (v, x) w \<Longrightarrow> covers (NOT v AND NOT x AND m, x AND m) (NOT w AND m)"
  by (auto simp: covers_bits trit_def bit_simps split: if_splits)

lemma covers_xor_const: "covers (v, x) w \<Longrightarrow> covers ((v XOR k) AND NOT x, x) (w XOR k)"
  by (auto simp: covers_bits trit_def bit_simps split: if_splits)

lemma covers_all_x: "covers (0, m) (w AND m)"
  by (auto simp: covers_bits trit_def bit_and_iff)

section \<open>On known operands the operations are the two-state ones\<close>

lemma and_p_known [simp]: "and_p av 0 bv 0 = (av AND bv, 0)"
  by (simp add: and_p_def Let_def)

lemma or_p_known [simp]: "or_p av 0 bv 0 = (av OR bv, 0)"
  by (simp add: or_p_def Let_def)

lemma xor_p_known [simp]: "xor_p av 0 bv 0 = (av XOR bv, 0)"
  by (simp add: xor_p_def Let_def)

lemma eq_p_known [simp]: "eq_p av 0 bv 0 = (b2u (av = bv), 0)"
  by (simp add: eq_p_def)

lemma ne_p_known [simp]: "ne_p av 0 bv 0 = (b2u (av \<noteq> bv), 0)"
  by (simp add: ne_p_def b2u_def)

lemma t3_known [simp]: "t3 v 0 = Some (v \<noteq> 0)"
  by (simp add: t3_def)

lemma from_t3_Some [simp]: "from_t3 (Some b) = (b2u b, 0)"
  by (cases b) simp_all

lemma and3_Some [simp]: "and3 (Some a) (Some b) = Some (a \<and> b)"
  by (auto simp: and3_def)

lemma or3_Some [simp]: "or3 (Some a) (Some b) = Some (a \<or> b)"
  by (auto simp: or3_def)

lemma not3_Some [simp]: "not3 (Some a) = Some (\<not> a)"
  by (simp add: not3_def)

end
