(* ===== verification/Ts_Insn.thy ===== *)
theory Ts_Insn
  imports Kleene
begin

text \<open>
  The two-state instruction set (\<^verbatim>\<open>TsInsn\<close> of \<^verbatim>\<open>bytecode.rs\<close>) and the boxed payloads of its
  rare variants.  The source has one enum of some 130 variants.  Here it is cut, in the order
  of the source, into groups of consecutive variants, and \<open>ts_insn\<close> is the sum of the groups;
  the constructors and their arguments are the variants and their fields, in order.  Register
  numbers, signal ids, bit positions, widths and targets are \<open>nat\<close>, masks and constants
  \<open>u64\<close>, index bounds \<open>int\<close>.  \<open>'s\<close> is the type of the AST statements a \<open>Fallback\<close> carries.
\<close>

record ts_elem_op =
  el_first :: nat
  el_lo :: int
  el_hi :: int
  el_idx :: nat
  el_s :: nat
  el_w :: nat
  el_mask :: u64

record ts_elem_store_from_sig =
  es_sig :: nat
  es_dl :: nat
  es_op :: ts_elem_op

record ts_nba_from_elem =
  ne_dst :: nat
  ne_first :: nat
  ne_lo :: int
  ne_hi :: int
  ne_idx_sig :: nat
  ne_w :: nat

record ts_range_store_x =
  rx_sig :: nat
  rx_hi :: nat
  rx_lo :: nat
  rx_v :: u64
  rx_x :: u64

record case_jump_data =
  cj_table :: "nat list"
  cj_default :: nat

record case_mask_jump_data =
  mj_lo :: nat
  mj_width :: nat
  mj_table :: "nat list"
  mj_xz_path :: nat

record ts_case_mask_jmp =
  cm_mask :: u64
  cm_lo :: nat
  cm_wmask :: u64
  cm_mj :: case_mask_jump_data

text \<open>Loads, constants and the first register operations.\<close>

datatype ts_basic =
    LoadSig nat nat                  \<comment> \<open>d sig\<close>
  | Const nat u64                    \<comment> \<open>d v\<close>
  | SigBit nat nat nat               \<comment> \<open>d sig bit\<close>
  | SigRange nat nat nat u64         \<comment> \<open>d sig lo mask\<close>
  | SigBitW nat nat nat              \<comment> \<open>d sig bit\<close>
  | SigRangeW nat nat nat nat u64    \<comment> \<open>d sig lo w mask\<close>
  | Bit nat nat nat                  \<comment> \<open>d s bit\<close>
  | Range nat nat nat u64            \<comment> \<open>d s lo mask\<close>
  | Xor nat nat nat
  | And nat nat nat
  | Or nat nat nat
  | Sel nat nat nat nat u64          \<comment> \<open>d c a b m\<close>
  | Not' nat nat u64
  | XorC nat nat u64
  | EqC nat nat u64
  | Add nat nat nat u64
  | Sub nat nat nat u64
  | Eq nat nat nat
  | MaskEq nat nat u64 u64           \<comment> \<open>d s mask v\<close>
  | Neq nat nat nat

text \<open>Fused adjacent pairs, first and second batch.\<close>

datatype ts_fused =
    LoadSigNot nat nat nat                   \<comment> \<open>dl d sig\<close>
  | SigRangeEqC nat nat nat nat nat u64      \<comment> \<open>dr d sig lo w k\<close>
  | LoadSigLogAnd nat nat nat nat nat        \<comment> \<open>dl sig d a b\<close>
  | LogNotAnd nat nat nat nat nat            \<comment> \<open>dn s d a b\<close>
  | LogNotLogAnd nat nat nat nat nat
  | LogAndStore nat nat nat nat u64          \<comment> \<open>d a b sig mask\<close>
  | AndRangeStore nat nat nat nat nat nat    \<comment> \<open>d a b sig hi lo\<close>
  | SigBitNot nat nat nat nat                \<comment> \<open>db d sig bit\<close>

datatype ts_fused2 =
    LoadSig2 nat nat nat nat                 \<comment> \<open>d1 sig1 d2 sig2\<close>
  | SigBit2 nat nat nat nat nat nat          \<comment> \<open>d1 sig1 bit1 d2 sig2 bit2\<close>
  | LoadSigBrNz nat nat nat                  \<comment> \<open>dl sig t\<close>
  | BrFalseLoadSig nat nat nat nat           \<comment> \<open>s t dl sig\<close>
  | EqBrFalse nat nat nat nat                \<comment> \<open>d a b t\<close>
  | EqCBrFalse nat nat u64 nat               \<comment> \<open>d s k t\<close>
  | LoadSigLogOr nat nat nat nat nat
  | LoadSigAnd nat nat nat nat nat
  | LoadSigRepl nat nat nat nat nat          \<comment> \<open>dl sig d w count\<close>
  | LoadSigSigRange nat nat nat nat nat u64  \<comment> \<open>dl sig d sig2 lo mask\<close>
  | SigRangeAnd nat nat nat u64 nat nat nat  \<comment> \<open>dr sig lo mask d a b\<close>
  | SigRangeEq nat nat nat u64 nat nat nat
  | ConstEq nat u64 nat nat nat              \<comment> \<open>dc v d a b\<close>
  | LogOrStore nat nat nat nat u64
  | AndOr nat nat nat nat nat nat            \<comment> \<open>d1 a1 b1 d a b\<close>
  | OrRangeStore nat nat nat nat nat nat

text \<open>Comparisons, logical operations and concatenations.\<close>

datatype ts_cmp =
    Lt nat nat nat
  | CmpS nat nat nat nat nat nat             \<comment> \<open>d a b kind sa sb\<close>
  | BitStoreNbaDyn nat nat nat nat           \<comment> \<open>sig i s w\<close>
  | BitDyn nat nat nat nat                   \<comment> \<open>d s i w\<close>
  | Leq nat nat nat
  | Gt nat nat nat
  | Geq nat nat nat
  | LogNot nat nat
  | LogAnd nat nat nat
  | LogOr nat nat nat
  | Concat nat "(nat \<times> nat) list"
  | Concat2 nat nat nat nat nat              \<comment> \<open>d a wa b wb\<close>
  | Concat3 nat nat nat nat nat nat nat      \<comment> \<open>d a wa b wb c wc\<close>
  | Mask nat u64

text \<open>Branches; targets are stream indices.\<close>

datatype ts_ctrl =
    BrSigFalse nat nat nat                   \<comment> \<open>sig bit t\<close>
  | BrFalse nat nat
  | BrNz nat nat
  | Jmp nat
  | JmpPoll nat
  | LoopPoll
  | CaseJmp nat case_jump_data
  | CaseMaskJmp nat ts_case_mask_jmp

text \<open>Reductions and dynamic-offset accesses.\<close>

datatype ts_dyn =
    RedOr nat nat
  | WRedOr nat nat
  | WRedAnd nat nat nat
  | RedAnd nat nat u64
  | BitStoreDyn nat nat nat nat              \<comment> \<open>sig i s w\<close>
  | SigRangeDyn nat nat nat nat nat u64      \<comment> \<open>d sig i w sw mask\<close>
  | RangeStoreDyn nat nat nat nat nat u64    \<comment> \<open>sig i s w sw mask\<close>
  | RangeStoreNbaDyn nat nat nat nat nat u64
  | SaveSigW nat
  | WSel nat nat nat nat
  | RangeFillXW nat nat nat nat              \<comment> \<open>sig hi lo v\<close>

text \<open>Stores, blocking and non-blocking.\<close>

datatype ts_store_insn =
    ConstStoreX nat u64 u64                  \<comment> \<open>sig v x\<close>
  | RangeStoreX ts_range_store_x
  | Store nat nat u64                        \<comment> \<open>sig s mask\<close>
  | StoreNba nat nat nat u64                 \<comment> \<open>sig s w mask\<close>
  | ConstStoreNba nat u64 nat                \<comment> \<open>sig v w\<close>
  | RangeStoreNba nat nat nat nat u64        \<comment> \<open>sig hi lo s mask\<close>
  | RangeStore nat nat nat nat u64
  | RangeStoreW nat nat nat nat u64
  | RangeStoreNbaW nat nat nat nat u64
  | RangeFillW nat nat nat nat               \<comment> \<open>sig hi lo bit\<close>
  | RangeFillNbaW nat nat nat nat
  | RangeStoreXW ts_range_store_x

text \<open>Array elements.\<close>

datatype ts_elem =
    ElemLoad ts_elem_op
  | WElemLoad ts_elem_op
  | ElemStoreNba ts_elem_op
  | ElemStoreNbaFromSig ts_elem_store_from_sig
  | ElemStore ts_elem_op
  | NbaFromElem ts_nba_from_elem
  | WNbaFromElem ts_nba_from_elem

text \<open>The wide register bank.\<close>

datatype ts_wide =
    WLoadSig nat nat
  | WConst nat "u64 list"
  | WXor nat nat nat
  | WAnd nat nat nat
  | WOr nat nat nat
  | WNot nat nat nat
  | WRange nat nat nat nat
  | RangeFromW nat nat nat u64
  | BitFromW nat nat nat
  | WConcat nat "(nat \<times> nat \<times> bool) list"
  | WMask nat nat
  | WFromN nat
  | NFromW nat u64
  | WStore nat nat
  | WStoreNba nat nat nat
  | WRangeStore nat nat nat nat
  | WRangeStoreNba nat nat nat nat

text \<open>Arithmetic added later, fallbacks, hazard saves and process waits.\<close>

datatype 's ts_tail =
    Mul nat nat nat u64
  | WSigRange nat nat nat nat
  | AddC nat nat u64 u64                     \<comment> \<open>d s k mask\<close>
  | Shl nat nat nat nat u64                  \<comment> \<open>d a b w mask\<close>
  | Shr nat nat nat nat
  | Repl nat nat nat nat                     \<comment> \<open>d s w count\<close>
  | WRepl nat nat nat nat
  | Fallback 's
  | SaveSig nat
  | WaitEdge nat nat                         \<comment> \<open>ix resume\<close>
  | WaitDelayRaw u64 nat                     \<comment> \<open>raw resume\<close>
  | CovHit nat

datatype 's ts_insn =
    TBasic ts_basic
  | TFused ts_fused
  | TFused2 ts_fused2
  | TCmp ts_cmp
  | TCtrl ts_ctrl
  | TDyn ts_dyn
  | TStore ts_store_insn
  | TElem ts_elem
  | TWide ts_wide
  | TTail "'s ts_tail"

text \<open>\<^verbatim>\<open>tsx_insn_ok\<close>: the instructions the x-plane executor carries.\<close>

fun tsx_insn_ok :: "'s ts_insn \<Rightarrow> bool" where
  "tsx_insn_ok (TTail (Fallback _)) = False"
| "tsx_insn_ok (TTail (WaitEdge _ _)) = False"
| "tsx_insn_ok (TTail (WaitDelayRaw _ _)) = False"
| "tsx_insn_ok (TDyn (WRedOr _ _)) = False"
| "tsx_insn_ok (TDyn (WRedAnd _ _ _)) = False"
| "tsx_insn_ok (TDyn (WSel _ _ _ _)) = False"
| "tsx_insn_ok (TWide _) = False"
| "tsx_insn_ok (TTail (WSigRange _ _ _ _)) = False"
| "tsx_insn_ok (TTail (WRepl _ _ _ _)) = False"
| "tsx_insn_ok (TElem (WElemLoad _)) = False"
| "tsx_insn_ok _ = True"

end
