(* ===== verification/Ts_State.thy ===== *)
theory Ts_State
  imports Ts_Insn
begin

text \<open>
  The part of the simulator's state that two-state blocks read and write, and the store
  helpers of \<^verbatim>\<open>two_state.rs\<close> and \<^verbatim>\<open>ts_x.rs\<close>.

  A signal's \<^verbatim>\<open>Value\<close> belongs to the crate \<^verbatim>\<open>xezim-core\<close>, which is not part of this
  repository: its type is a type variable \<open>'v\<close> and the functions of it that the code calls are
  the fields of \<open>vops\<close>.  What a store triggers in the rest of the simulator (waveform marks,
  armed and edge notes, value traces) is the abstract observer state \<open>'o\<close>, changed by
  \<open>note_write\<close>; a \<open>Fallback\<close> statement is run by the AST interpreter, the parameter
  \<open>exec_fallback\<close>; \<open>fsm_ticks\<close> is the floating-point quantisation of a delay;
  \<open>take_interrupt\<close> is the shutdown the x-plane executor starts on Ctrl-C.

  Signal ids index the tables without a bounds check in the code (they are validated when a
  block is lowered), so the tables are functions on ids.
\<close>

section \<open>Values\<close>

record 'v vops =
  raw_bits :: "'v \<Rightarrow> u64 \<times> u64"
  set_inline_bits :: "u64 \<Rightarrow> u64 \<Rightarrow> 'v \<Rightarrow> bool \<times> 'v"
  from_inline :: "u64 \<Rightarrow> u64 \<Rightarrow> nat \<Rightarrow> 'v"
  from_u64 :: "u64 \<Rightarrow> nat \<Rightarrow> 'v"
  value_new :: "nat \<Rightarrow> 'v"
  set_signed :: "bool \<Rightarrow> 'v \<Rightarrow> 'v"
  splice_bits64 :: "nat \<Rightarrow> u64 \<Rightarrow> u64 \<Rightarrow> nat \<Rightarrow> 'v \<Rightarrow> bool \<times> 'v"
  slice_bits_swar :: "nat \<Rightarrow> nat \<Rightarrow> 'v \<Rightarrow> u64 \<times> u64"
  value_width :: "'v \<Rightarrow> nat"
  has_xz :: "'v \<Rightarrow> bool"
  value_ne :: "'v \<Rightarrow> 'v \<Rightarrow> bool"

section \<open>The index of pending non-blocking assignments\<close>

record nba_fast_index =
  dense_entries :: "nat list"
  sparse_entries :: "nat \<rightharpoonup> nat"
  dirty_dense :: "nat list"

definition u32_max :: nat where
  "u32_max = 2 ^ 32 - 1"

definition nbi_with_dense_prefix :: "nat \<Rightarrow> nba_fast_index" where
  "nbi_with_dense_prefix n =
     \<lparr>dense_entries = replicate n u32_max, sparse_entries = Map.empty, dirty_dense = []\<rparr>"

definition nbi_get :: "nba_fast_index \<Rightarrow> nat \<Rightarrow> nat option" where
  "nbi_get ix sid =
     (let e = (if sid < length (dense_entries ix) then Some (dense_entries ix ! sid)
               else sparse_entries ix sid)
      in case e of None \<Rightarrow> None | Some e \<Rightarrow> if e = u32_max then None else Some e)"

definition nbi_insert :: "nat \<Rightarrow> nat \<Rightarrow> nba_fast_index \<Rightarrow> nba_fast_index" where
  "nbi_insert sid idx ix =
     (let idx = idx mod 2 ^ 32
      in if sid < length (dense_entries ix)
         then ix\<lparr>dirty_dense := (if dense_entries ix ! sid = u32_max then dirty_dense ix @ [sid]
                                  else dirty_dense ix),
                 dense_entries := (dense_entries ix)[sid := idx]\<rparr>
         else ix\<lparr>sparse_entries := (sparse_entries ix)(sid \<mapsto> idx)\<rparr>)"

definition nbi_clear :: "nba_fast_index \<Rightarrow> nba_fast_index" where
  "nbi_clear ix =
     ix\<lparr>dense_entries := fold (\<lambda>sid es. es[sid := u32_max]) (dirty_dense ix) (dense_entries ix),
        dirty_dense := [], sparse_entries := Map.empty\<rparr>"

definition nbi_extend_dense :: "nat \<Rightarrow> nba_fast_index \<Rightarrow> nba_fast_index" where
  "nbi_extend_dense tot ix =
     (if tot > length (dense_entries ix)
      then ix\<lparr>dense_entries := dense_entries ix @ replicate (tot - length (dense_entries ix)) u32_max\<rparr>
      else ix)"

record 'v nba_fast =
  nf_signal_id :: nat
  nf_value :: 'v
  nf_block_index :: nat

section \<open>The state\<close>

datatype fsm_wait = FsmEdge nat | FsmDelay u64

record ('v, 'o) sim =
  signal_table :: "nat \<Rightarrow> 'v"
  signal_widths :: "nat \<Rightarrow> nat"
  signal_signed :: "nat \<Rightarrow> bool"
  signal_two_state :: "nat \<Rightarrow> bool"
  signal_inline_bits :: "(u64 \<times> u64) list"
  signal_has_xz :: "bool list"
  nba_queue :: "'v nba_fast list"
  nba_index :: nba_fast_index
  prof_nba_elided :: nat
  dirty_signals :: "nat \<Rightarrow> bool"
  dirty_list :: "nat list"
  dirty_any :: bool
  table_modified :: bool
  ts_direct_writes :: bool
  ts_rec0 :: "nat \<times> u64"
  ts_rec_n :: nat
  ts_recs :: "(nat \<times> u64) list"
  ts_save_list :: "(u32 \<times> u64 \<times> u64) list"
  ts_xread_bail :: bool
  fsm_suspend :: "(nat \<times> fsm_wait) option"
  code_cov_hits :: "nat list"
  prof_fallback_insns :: nat
  finished :: bool
  stop_polls :: "nat \<Rightarrow> bool"
  poll_count :: nat
  observers :: 'o

record ('v, 'o, 's) env =
  vo :: "'v vops"
  note_write :: "nat \<Rightarrow> 'v \<Rightarrow> 'o \<Rightarrow> 'o"
  exec_fallback :: "'s \<Rightarrow> ('v, 'o) sim \<Rightarrow> ('v, 'o) sim"
  fsm_ticks :: "u64 \<Rightarrow> u64"
  take_interrupt :: "('v, 'o) sim \<Rightarrow> ('v, 'o) sim"

text \<open>The stop flag is set by a signal handler at any time: each poll reads the next element
  of the sequence \<open>stop_polls\<close>.\<close>

definition loop_stop_requested :: "('v, 'o) sim \<Rightarrow> bool \<times> ('v, 'o) sim" where
  "loop_stop_requested s = (stop_polls s (poll_count s), s\<lparr>poll_count := Suc (poll_count s)\<rparr>)"

section \<open>Reading signals\<close>

definition sig_raw :: "('v, 'o, 's) env \<Rightarrow> ('v, 'o) sim \<Rightarrow> nat \<Rightarrow> u64 \<times> u64" where
  "sig_raw E s sig = raw_bits (vo E) (signal_table s sig)"

text \<open>The \<open>planes!\<close> macro of the executors and \<^verbatim>\<open>sig_planes\<close>: the mirror where it exists.\<close>

definition sig_planes :: "('v, 'o, 's) env \<Rightarrow> ('v, 'o) sim \<Rightarrow> nat \<Rightarrow> u64 \<times> u64" where
  "sig_planes E s sig =
     (if sig < length (signal_inline_bits s) then signal_inline_bits s ! sig
      else sig_raw E s sig)"

definition raw_bits_slice :: "('v, 'o, 's) env \<Rightarrow> 'v \<Rightarrow> nat \<Rightarrow> nat \<Rightarrow> u64 \<times> u64" where
  "raw_bits_slice E v lo w =
     (if value_width (vo E) v \<le> 64
      then let (rv, rx) = raw_bits (vo E) v; m = (if w \<ge> 64 then - 1 else shl64 1 w - 1)
           in (shr64 rv lo AND m, shr64 rx lo AND m)
      else slice_bits_swar (vo E) lo w v)"

section \<open>After a write\<close>

definition sync_mirror :: "('v, 'o, 's) env \<Rightarrow> nat \<Rightarrow> ('v, 'o) sim \<Rightarrow> ('v, 'o) sim" where
  "sync_mirror E sid s =
     (if sid < length (signal_inline_bits s)
      then s\<lparr>signal_inline_bits := (signal_inline_bits s)[sid := sig_raw E s sid],
             signal_has_xz := (signal_has_xz s)[sid := has_xz (vo E) (signal_table s sid)]\<rparr>
      else s)"

definition after_signal_write :: "('v, 'o, 's) env \<Rightarrow> nat \<Rightarrow> ('v, 'o) sim \<Rightarrow> ('v, 'o) sim" where
  "after_signal_write E sid s =
     (let s = s\<lparr>observers := note_write E sid (signal_table s sid) (observers s)\<rparr>
      in if sid < length (signal_inline_bits s)
         then s\<lparr>signal_inline_bits := (signal_inline_bits s)[sid := sig_raw E s sid]\<rparr> else s)"

definition ts_direct_dirty :: "nat \<Rightarrow> u64 \<Rightarrow> ('v, 'o) sim \<Rightarrow> ('v, 'o) sim" where
  "ts_direct_dirty sid m s =
     (let n = ts_rec_n s
      in if n = 0 then s\<lparr>ts_rec0 := (sid, m), ts_rec_n := 1\<rparr>
         else if n = 1 \<or> ts_recs s = []
         then (if fst (ts_rec0 s) = sid
               then s\<lparr>ts_rec0 := (sid, snd (ts_rec0 s) OR m)\<rparr>
               else s\<lparr>ts_recs := ts_recs s @ [(sid, m)], ts_rec_n := n + 1\<rparr>)
         else (if fst (last (ts_recs s)) = sid
               then s\<lparr>ts_recs := butlast (ts_recs s) @ [(sid, snd (last (ts_recs s)) OR m)]\<rparr>
               else s\<lparr>ts_recs := ts_recs s @ [(sid, m)], ts_rec_n := n + 1\<rparr>))"

text \<open>The common tail of every blocking store helper, after \<^verbatim>\<open>sync_mirror\<close>.\<close>

definition mark_written :: "('v, 'o, 's) env \<Rightarrow> nat \<Rightarrow> u64 \<Rightarrow> ('v, 'o) sim \<Rightarrow> ('v, 'o) sim" where
  "mark_written E sid chg s =
     (let s = (if ts_direct_writes s then ts_direct_dirty sid chg s
               else if \<not> dirty_signals s sid
               then s\<lparr>dirty_signals := (dirty_signals s)(sid := True),
                      dirty_list := dirty_list s @ [sid], dirty_any := True\<rparr>
               else s);
          s = s\<lparr>table_modified := True\<rparr>
      in after_signal_write E sid s)"

definition set_signal :: "nat \<Rightarrow> 'v \<Rightarrow> ('v, 'o) sim \<Rightarrow> ('v, 'o) sim" where
  "set_signal sid v s = s\<lparr>signal_table := (signal_table s)(sid := v)\<rparr>"

section \<open>Blocking stores\<close>

definition ts_scrub_two_state :: "('v, 'o) sim \<Rightarrow> nat \<Rightarrow> u64 \<Rightarrow> u64 \<Rightarrow> u64 \<times> u64" where
  "ts_scrub_two_state s sid v x = (if x \<noteq> 0 \<and> signal_two_state s sid then (v AND NOT x, 0) else (v, x))"

text \<open>Write planes into a signal in place, or replace it by a fresh inline value.\<close>

definition put_planes :: "('v, 'o, 's) env \<Rightarrow> nat \<Rightarrow> u64 \<Rightarrow> u64 \<Rightarrow> u64 \<Rightarrow> ('v, 'o) sim \<Rightarrow> ('v, 'o) sim" where
  "put_planes E sid v x chg s =
     (let (ok, e) = set_inline_bits (vo E) v x (signal_table s sid)
      in if ok then mark_written E sid chg (sync_mirror E sid (set_signal sid e s))
         else mark_written E sid (- 1) (sync_mirror E sid
           (set_signal sid (set_signed (vo E) (signal_signed s sid)
              (from_inline (vo E) v x (signal_widths s sid))) s)))"

definition ts_range_store_xz ::
  "('v, 'o, 's) env \<Rightarrow> nat \<Rightarrow> u64 \<Rightarrow> u64 \<Rightarrow> nat \<Rightarrow> nat \<Rightarrow> ('v, 'o) sim \<Rightarrow> ('v, 'o) sim" where
  "ts_range_store_xz E sid v x lo hi s =
     (let (v, x) = ts_scrub_two_state s sid v x;
          (base_v, base_x) = sig_raw E s sid;
          (new_v, new_x) = compose_inline_range_bits base_v base_x v x lo hi
      in if new_v = base_v \<and> new_x = base_x then s
         else put_planes E sid new_v new_x ((new_v XOR base_v) OR (new_x XOR base_x)) s)"

definition ts_range_store ::
  "('v, 'o, 's) env \<Rightarrow> nat \<Rightarrow> u64 \<Rightarrow> nat \<Rightarrow> nat \<Rightarrow> ('v, 'o) sim \<Rightarrow> ('v, 'o) sim" where
  "ts_range_store E sid v lo hi s = ts_range_store_xz E sid v 0 lo hi s"

definition ts_store_xz ::
  "('v, 'o, 's) env \<Rightarrow> nat \<Rightarrow> u64 \<Rightarrow> u64 \<Rightarrow> ('v, 'o) sim \<Rightarrow> ('v, 'o) sim" where
  "ts_store_xz E sid v x s =
     (let (v, x) = ts_scrub_two_state s sid v x;
          (dv, dx) = sig_raw E s sid
      in if v = dv \<and> x = dx then s
         else put_planes E sid v x ((v XOR dv) OR (x XOR dx)) s)"

definition ts_store ::
  "('v, 'o, 's) env \<Rightarrow> nat \<Rightarrow> u64 \<Rightarrow> u64 \<Rightarrow> ('v, 'o) sim \<Rightarrow> ('v, 'o) sim" where
  "ts_store E sid v m s =
     (let (dv, dx) = sig_raw E s sid
      in if v \<noteq> dv AND m \<or> dx AND m \<noteq> 0
         then let chg = ((v XOR dv) OR dx) AND m;
                  (ok, e) = set_inline_bits (vo E) v 0 (signal_table s sid)
              in if ok then mark_written E sid chg (sync_mirror E sid (set_signal sid e s))
                 else mark_written E sid (- 1) (sync_mirror E sid
                   (set_signal sid (set_signed (vo E) (signal_signed s sid)
                      (from_u64 (vo E) v (signal_widths s sid))) s))
         else s)"

definition ts_wide_range_store ::
  "('v, 'o, 's) env \<Rightarrow> nat \<Rightarrow> nat \<Rightarrow> nat \<Rightarrow> u64 \<Rightarrow> u64 \<Rightarrow> ('v, 'o) sim \<Rightarrow> ('v, 'o) sim" where
  "ts_wide_range_store E sid lo hi v x s =
     (let (v, x) = ts_scrub_two_state s sid v x;
          n = (sub_u32 hi lo + 1) mod 2 ^ 32;
          (changed, e) = splice_bits64 (vo E) lo v x n (signal_table s sid);
          s = set_signal sid e s
      in if \<not> changed then s
         else mark_written E sid (sig_span_mask (signal_widths s sid) lo n) (sync_mirror E sid s))"

definition ts_wide_bit_store ::
  "('v, 'o, 's) env \<Rightarrow> nat \<Rightarrow> nat \<Rightarrow> u64 \<Rightarrow> ('v, 'o) sim \<Rightarrow> ('v, 'o) sim" where
  "ts_wide_bit_store E sid idx b s = ts_wide_range_store E sid (idx mod 2 ^ 32) (idx mod 2 ^ 32) (b AND 1) 0 s"

text \<open>The 64-bits-at-a-time fill loops: \<open>planes n\<close> are the planes spliced for a chunk of \<open>n\<close>
  bits.\<close>

function fill_splices ::
  "('v, 'o, 's) env \<Rightarrow> (nat \<Rightarrow> u64 \<times> u64) \<Rightarrow> nat \<Rightarrow> nat \<Rightarrow> bool \<Rightarrow> 'v \<Rightarrow> bool \<times> 'v" where
  "fill_splices E planes pos end_pos changed v =
     (if pos < end_pos
      then let n = min (end_pos - pos) 64;
               (c, v) = splice_bits64 (vo E) pos (fst (planes n)) (snd (planes n)) n v
           in fill_splices E planes (pos + n) end_pos (changed \<or> c) v
      else (changed, v))"
  by pat_completeness auto
termination
  by (relation "measure (\<lambda>(_, _, pos, end_pos, _, _). end_pos - pos)") auto

declare fill_splices.simps [simp del]

definition fill_word :: "nat \<Rightarrow> u64" where
  "fill_word b = (if b \<noteq> 0 then - 1 else 0)"

definition ts_wide_range_fill ::
  "('v, 'o, 's) env \<Rightarrow> nat \<Rightarrow> nat \<Rightarrow> nat \<Rightarrow> nat \<Rightarrow> ('v, 'o) sim \<Rightarrow> ('v, 'o) sim" where
  "ts_wide_range_fill E sid lo hi b s =
     (let (changed, e) = fill_splices E (\<lambda>_. (fill_word b, 0)) lo (hi + 1) False (signal_table s sid);
          s = set_signal sid e s
      in if \<not> changed then s else mark_written E sid (- 1) (sync_mirror E sid s))"

definition ts_wide_range_fill_xz ::
  "('v, 'o, 's) env \<Rightarrow> nat \<Rightarrow> nat \<Rightarrow> nat \<Rightarrow> nat \<Rightarrow> ('v, 'o) sim \<Rightarrow> ('v, 'o) sim" where
  "ts_wide_range_fill_xz E sid lo hi vbit s =
     (if signal_two_state s sid then ts_wide_range_fill E sid lo hi 0 s
      else let (changed, e) = fill_splices E (\<lambda>n. (fill_word vbit AND ts_mask n, ts_mask n))
                  lo (hi + 1) False (signal_table s sid);
               s = set_signal sid e s
           in if \<not> changed then s else mark_written E sid (- 1) (sync_mirror E sid s))"

section \<open>Non-blocking stores\<close>

text \<open>Queue a fresh entry for \<open>sid\<close>.\<close>

definition nba_push :: "nat \<Rightarrow> 'v \<Rightarrow> ('v, 'o) sim \<Rightarrow> ('v, 'o) sim" where
  "nba_push sid v s =
     s\<lparr>nba_index := nbi_insert sid (length (nba_queue s)) (nba_index s),
       nba_queue := nba_queue s @ [\<lparr>nf_signal_id = sid, nf_value = v, nf_block_index = 0\<rparr>]\<rparr>"

definition nba_replace :: "nat \<Rightarrow> 'v \<Rightarrow> ('v, 'o) sim \<Rightarrow> ('v, 'o) sim" where
  "nba_replace i v s = s\<lparr>nba_queue := (nba_queue s)[i := (nba_queue s ! i)\<lparr>nf_value := v\<rparr>]\<rparr>"

definition nba_elide :: "('v, 'o) sim \<Rightarrow> ('v, 'o) sim" where
  "nba_elide s = s\<lparr>prof_nba_elided := prof_nba_elided s + 1\<rparr>"

definition ts_store_nba_val ::
  "('v, 'o, 's) env \<Rightarrow> nat \<Rightarrow> 'v \<Rightarrow> ('v, 'o) sim \<Rightarrow> ('v, 'o) sim" where
  "ts_store_nba_val E sid v s =
     (case nbi_get (nba_index s) sid of
        Some i \<Rightarrow> nba_replace i v s
      | None \<Rightarrow> if value_ne (vo E) (signal_table s sid) v then nba_push sid v s else nba_elide s)"

definition ts_store_nba ::
  "('v, 'o, 's) env \<Rightarrow> nat \<Rightarrow> u64 \<Rightarrow> nat \<Rightarrow> ('v, 'o) sim \<Rightarrow> ('v, 'o) sim" where
  "ts_store_nba E sid v w s =
     (let val = from_u64 (vo E) v w
      in case nbi_get (nba_index s) sid of
           Some i \<Rightarrow> nba_replace i val s
         | None \<Rightarrow> if value_ne (vo E) (signal_table s sid) val then nba_push sid val s else nba_elide s)"

definition ts_store_nba_xz ::
  "('v, 'o, 's) env \<Rightarrow> nat \<Rightarrow> u64 \<Rightarrow> u64 \<Rightarrow> nat \<Rightarrow> ('v, 'o) sim \<Rightarrow> ('v, 'o) sim" where
  "ts_store_nba_xz E sid v x w s =
     (if x = 0 then ts_store_nba E sid v w s
      else ts_store_nba_val E sid (set_signed (vo E) False (from_inline (vo E) v x (max w 1))) s)"

text \<open>Merge planes into \<open>[hi:lo]\<close> of the pending value, or of the signal's.\<close>

definition ts_range_store_nba_xz ::
  "('v, 'o, 's) env \<Rightarrow> nat \<Rightarrow> nat \<Rightarrow> nat \<Rightarrow> u64 \<Rightarrow> u64 \<Rightarrow> ('v, 'o) sim \<Rightarrow> ('v, 'o) sim" where
  "ts_range_store_nba_xz E sid lo hi v x s =
     (case nbi_get (nba_index s) sid of
        Some i \<Rightarrow>
          let target = nf_value (nba_queue s ! i);
              (base_v, base_x) = raw_bits (vo E) target;
              (new_v, new_x) = compose_inline_range_bits base_v base_x v x lo hi
          in nba_replace i (set_signed (vo E) (signal_signed s sid)
               (snd (set_inline_bits (vo E) new_v new_x target))) s
      | None \<Rightarrow>
          let (base_v, base_x) = sig_raw E s sid;
              (new_v, new_x) = compose_inline_range_bits base_v base_x v x lo hi
          in if new_v = base_v \<and> new_x = base_x then nba_elide s
             else nba_push sid (set_signed (vo E) (signal_signed s sid)
               (from_inline (vo E) new_v new_x (signal_widths s sid))) s)"

definition ts_range_store_nba ::
  "('v, 'o, 's) env \<Rightarrow> nat \<Rightarrow> nat \<Rightarrow> nat \<Rightarrow> u64 \<Rightarrow> ('v, 'o) sim \<Rightarrow> ('v, 'o) sim" where
  "ts_range_store_nba E sid lo hi v s =
     (case nbi_get (nba_index s) sid of
        Some i \<Rightarrow>
          let target = nf_value (nba_queue s ! i);
              (base_v, base_x) = raw_bits (vo E) target;
              (new_v, new_x) = compose_inline_range_bits base_v base_x v 0 lo hi
          in nba_replace i (set_signed (vo E) (signal_signed s sid)
               (snd (set_inline_bits (vo E) new_v new_x target))) s
      | None \<Rightarrow>
          let (base_v, base_x) = sig_raw E s sid;
              (new_v, new_x) = compose_inline_range_bits base_v base_x v 0 lo hi
          in if new_v = base_v \<and> new_x = base_x then nba_elide s
             else nba_push sid (set_signed (vo E) (signal_signed s sid)
               (from_inline (vo E) new_v new_x (signal_widths s sid))) s)"

definition ts_bit_store_nba ::
  "('v, 'o, 's) env \<Rightarrow> nat \<Rightarrow> nat \<Rightarrow> u64 \<Rightarrow> ('v, 'o) sim \<Rightarrow> ('v, 'o) sim" where
  "ts_bit_store_nba E sid idx b s =
     (case nbi_get (nba_index s) sid of
        Some i \<Rightarrow>
          let target = nf_value (nba_queue s ! i);
              (base_v, base_x) = raw_bits (vo E) target;
              (new_v, new_x) = compose_inline_range_bits base_v base_x b 0 idx idx
          in nba_replace i (set_signed (vo E) (signal_signed s sid)
               (snd (set_inline_bits (vo E) new_v new_x target))) s
      | None \<Rightarrow>
          let (base_v, base_x) = sig_raw E s sid;
              (new_v, new_x) = compose_inline_range_bits base_v base_x b 0 idx idx
          in if new_v = base_v \<and> new_x = base_x then nba_elide s
             else nba_push sid (set_signed (vo E) (signal_signed s sid)
               (from_inline (vo E) new_v new_x (signal_widths s sid))) s)"

definition ts_wide_range_store_nba_xz ::
  "('v, 'o, 's) env \<Rightarrow> nat \<Rightarrow> nat \<Rightarrow> nat \<Rightarrow> u64 \<Rightarrow> u64 \<Rightarrow> ('v, 'o) sim \<Rightarrow> ('v, 'o) sim" where
  "ts_wide_range_store_nba_xz E sid lo hi v x s =
     (let n = (sub_u32 hi lo + 1) mod 2 ^ 32
      in case nbi_get (nba_index s) sid of
           Some i \<Rightarrow> nba_replace i (snd (splice_bits64 (vo E) lo v x n (nf_value (nba_queue s ! i)))) s
         | None \<Rightarrow>
             let (changed, nv) = splice_bits64 (vo E) lo v x n (signal_table s sid)
             in if \<not> changed then nba_elide s
                else nba_push sid (set_signed (vo E) (signal_signed s sid) nv) s)"

definition ts_wide_range_store_nba ::
  "('v, 'o, 's) env \<Rightarrow> nat \<Rightarrow> nat \<Rightarrow> nat \<Rightarrow> u64 \<Rightarrow> ('v, 'o) sim \<Rightarrow> ('v, 'o) sim" where
  "ts_wide_range_store_nba E sid lo hi v s =
     (let n = (sub_u32 hi lo + 1) mod 2 ^ 32
      in case nbi_get (nba_index s) sid of
           Some i \<Rightarrow> nba_replace i (snd (splice_bits64 (vo E) lo v 0 n (nf_value (nba_queue s ! i)))) s
         | None \<Rightarrow>
             let (changed, nv) = splice_bits64 (vo E) lo v 0 n (signal_table s sid)
             in if \<not> changed then nba_elide s
                else nba_push sid (set_signed (vo E) (signal_signed s sid) nv) s)"

definition ts_wide_range_fill_nba ::
  "('v, 'o, 's) env \<Rightarrow> nat \<Rightarrow> nat \<Rightarrow> nat \<Rightarrow> nat \<Rightarrow> ('v, 'o) sim \<Rightarrow> ('v, 'o) sim" where
  "ts_wide_range_fill_nba E sid lo hi b s =
     (case nbi_get (nba_index s) sid of
        Some i \<Rightarrow> nba_replace i (snd (fill_splices E (\<lambda>_. (fill_word b, 0)) lo (hi + 1) False
                     (nf_value (nba_queue s ! i)))) s
      | None \<Rightarrow>
          let (changed, nv) = fill_splices E (\<lambda>_. (fill_word b, 0)) lo (hi + 1) False (signal_table s sid)
          in if \<not> changed then nba_elide s
             else nba_push sid (set_signed (vo E) (signal_signed s sid) nv) s)"

section \<open>Coverage counts and hazard saves\<close>

definition ts_save_wide :: u32 where
  "ts_save_wide = push_bit 31 1"

definition ts_save_cov :: u32 where
  "ts_save_cov = push_bit 30 1"

definition cov_count :: "nat \<Rightarrow> ('v, 'o) sim \<Rightarrow> ('v, 'o) sim" where
  "cov_count c s =
     (if c < length (code_cov_hits s)
      then s\<lparr>code_cov_hits := (code_cov_hits s)[c := code_cov_hits s ! c + 1]\<rparr> else s)"

definition push_save :: "u32 \<times> u64 \<times> u64 \<Rightarrow> ('v, 'o) sim \<Rightarrow> ('v, 'o) sim" where
  "push_save e s = s\<lparr>ts_save_list := ts_save_list s @ [e]\<rparr>"

definition ts_cov_hit :: "nat \<Rightarrow> ('v, 'o) sim \<Rightarrow> ('v, 'o) sim" where
  "ts_cov_hit c s = push_save (of_nat c OR ts_save_cov, 0, 0) (cov_count c s)"

text \<open>\<^verbatim>\<open>SaveSigW\<close>: one entry per 64-bit word, then a marker with the word count.\<close>

definition save_sig_w :: "('v, 'o, 's) env \<Rightarrow> nat \<Rightarrow> ('v, 'o) sim \<Rightarrow> ('v, 'o) sim" where
  "save_sig_w E sig s =
     (let w = signal_widths s sig; nw = (w + 63) div 64;
          word = (\<lambda>i. raw_bits_slice E (signal_table s sig) ((i * 64) mod 2 ^ 16) (min (w - i * 64) 64));
          s = fold (\<lambda>i s. push_save (of_nat sig OR ts_save_wide, fst (word i), snd (word i)) s) [0..<nw] s
      in push_save (of_nat sig OR ts_save_wide, of_nat nw, - 1) s)"

text \<open>\<^verbatim>\<open>ts_restore_saved\<close>: undo the saved stores, newest entry first.  \<open>rl\<close> is the save list with
  its last entry first.\<close>

fun restore_words ::
  "('v, 'o, 's) env \<Rightarrow> nat \<Rightarrow> nat \<Rightarrow> (u32 \<times> u64 \<times> u64) list \<Rightarrow> bool \<Rightarrow> ('v, 'o) sim \<Rightarrow> bool \<times> ('v, 'o) sim" where
  "restore_words E sid (Suc i) ((_, wv, wx) # rl) changed s =
     (let n = min (signal_widths s sid - i * 64) 64;
          (c, e) = splice_bits64 (vo E) (i * 64) wv wx n (signal_table s sid)
      in restore_words E sid i rl (changed \<or> c) (set_signal sid e s))"
| "restore_words E sid _ _ changed s = (changed, s)"

definition restore_narrow :: "('v, 'o, 's) env \<Rightarrow> nat \<Rightarrow> u64 \<Rightarrow> u64 \<Rightarrow> ('v, 'o) sim \<Rightarrow> ('v, 'o) sim" where
  "restore_narrow E sid v x s =
     (if sig_raw E s sid = (v, x) then s
      else let (ok, e) = set_inline_bits (vo E) v x (signal_table s sid);
               e = (if ok then e else set_signed (vo E) (signal_signed s sid)
                      (from_inline (vo E) v x (max (signal_widths s sid) 1)))
           in mark_written E sid (- 1) (sync_mirror E sid (set_signal sid e s)))"

function restore_loop ::
  "('v, 'o, 's) env \<Rightarrow> nat \<Rightarrow> (u32 \<times> u64 \<times> u64) list \<Rightarrow> ('v, 'o) sim \<Rightarrow> (u32 \<times> u64 \<times> u64) list \<times> ('v, 'o) sim" where
  "restore_loop E base rl s =
     (if length rl \<le> base then (rl, s)
      else case rl of
        [] \<Rightarrow> (rl, s)
      | (sig, v, x) # rl \<Rightarrow>
          if sig AND (ts_save_wide OR ts_save_cov) = ts_save_cov
          then let c = unat (sig AND NOT ts_save_cov);
                   s = (if c < length (code_cov_hits s)
                        then s\<lparr>code_cov_hits := (code_cov_hits s)[c := code_cov_hits s ! c - 1]\<rparr> else s)
               in restore_loop E base rl s
          else if sig AND ts_save_wide \<noteq> 0
          then let sid = unat (sig AND NOT ts_save_wide); nw = unat v;
                   (changed, s) = restore_words E sid nw rl False s;
                   s = (if changed then mark_written E sid (- 1) (sync_mirror E sid s) else s)
               in restore_loop E base (drop nw rl) s
          else restore_loop E base rl (restore_narrow E (unat sig) v x s))"
  by pat_completeness auto
termination
  by (relation "measure (\<lambda>(_, _, rl, _). length rl)") auto

declare restore_loop.simps [simp del]

definition ts_restore_saved :: "('v, 'o, 's) env \<Rightarrow> nat \<Rightarrow> ('v, 'o) sim \<Rightarrow> ('v, 'o) sim" where
  "ts_restore_saved E base s =
     (let (rl, s) = restore_loop E base (rev (ts_save_list s)) s
      in s\<lparr>ts_save_list := rev rl\<rparr>)"

section \<open>Dynamic-offset slices\<close>

datatype ts_dyn_result = DynOk u64 | DynOob | DynX

definition ts_sig_range_dyn ::
  "('v, 'o, 's) env \<Rightarrow> ('v, 'o) sim \<Rightarrow> nat \<Rightarrow> u64 \<Rightarrow> nat \<Rightarrow> nat \<Rightarrow> ts_dyn_result" where
  "ts_sig_range_dyn E s sig lo w sw =
     (if lo + of_nat w > of_nat sw then DynOob
      else let (v, x) = raw_bits_slice E (signal_table s sig) (unat lo mod 2 ^ 16) w
           in if x \<noteq> 0 then DynX else DynOk v)"

definition ts_range_store_dyn ::
  "('v, 'o, 's) env \<Rightarrow> nat \<Rightarrow> u64 \<Rightarrow> u64 \<Rightarrow> nat \<Rightarrow> nat \<Rightarrow> bool \<Rightarrow> ('v, 'o) sim \<Rightarrow> bool \<times> ('v, 'o) sim" where
  "ts_range_store_dyn E sig lo v w sw nba s =
     (if lo + of_nat w > of_nat sw then (False, s)
      else let lo32 = unat lo mod 2 ^ 32; hi = unat (ucast lo + of_nat w - 1 :: u32)
           in (True,
               if nba then (if sw > 64 then ts_wide_range_store_nba E sig lo32 hi v s
                            else ts_range_store_nba E sig lo32 hi v s)
               else (if sw > 64 then ts_wide_range_store E sig lo32 hi v 0 s
                     else ts_range_store E sig v lo32 hi s)))"

end
