(* ===== verification/Run_Loop.thy ===== *)
theory Run_Loop
  imports Xz_Prelude
begin

text \<open>
  Loops that may not end.  An executor is a step function that either goes on with a new
  configuration (\<open>Inl\<close>) or stops with a result (\<open>Inr\<close>); \<open>run_loop\<close> iterates it, and its value
  is \<open>None\<close> exactly when the loop never stops.  The locale \<open>step_refinement\<close> is the contract
  between two executors, used for every rewriting of instruction streams: each step of the
  second is matched by one or more steps of the first.
\<close>

partial_function (option) run_loop :: "('a \<Rightarrow> 'a + 'r) \<Rightarrow> 'a \<Rightarrow> 'r option" where
  "run_loop step a = (case step a of Inl a' \<Rightarrow> run_loop step a' | Inr r \<Rightarrow> Some r)"

declare run_loop.simps [code]

fun steps :: "('a \<Rightarrow> 'a + 'r) \<Rightarrow> nat \<Rightarrow> 'a \<Rightarrow> 'a + 'r" where
  "steps step 0 a = Inl a"
| "steps step (Suc k) a = (case step a of Inl a' \<Rightarrow> steps step k a' | Inr r \<Rightarrow> Inr r)"

lemma run_loop_Inl: "step a = Inl a' \<Longrightarrow> run_loop step a = run_loop step a'"
  by (subst run_loop.simps) simp

lemma run_loop_Inr: "step a = Inr r \<Longrightarrow> run_loop step a = Some r"
  by (subst run_loop.simps) simp

lemma run_loop_steps_Inl: "steps step k a = Inl a' \<Longrightarrow> run_loop step a = run_loop step a'"
proof (induction k arbitrary: a)
  case (Suc k)
  then obtain b where "step a = Inl b" "steps step k b = Inl a'"
    by (auto split: sum.splits)
  then show ?case using Suc.IH run_loop_Inl by metis
qed simp

lemma run_loop_steps_Inr: "steps step k a = Inr r \<Longrightarrow> run_loop step a = Some r"
proof (induction k arbitrary: a)
  case (Suc k)
  then show ?case
    by (cases "step a") (auto simp: run_loop_Inl run_loop_Inr)
qed simp

lemma steps_fuel_mono: "steps step k a = Inr r \<Longrightarrow> k \<le> m \<Longrightarrow> steps step m a = Inr r"
proof (induction k arbitrary: a m)
  case (Suc k)
  then obtain m' where [simp]: "m = Suc m'" by (cases m) auto
  from Suc show ?case by (auto split: sum.splits)
qed simp

lemma steps_add: "steps step (k + m) a = (case steps step k a of Inl b \<Rightarrow> steps step m b | Inr r \<Rightarrow> Inr r)"
  by (induction k arbitrary: a) (auto split: sum.splits)

text \<open>The value of the loop is what finitely many steps give.\<close>

lemma run_loop_Some_iff: "run_loop step a = Some r \<longleftrightarrow> (\<exists>k. steps step k a = Inr r)"
proof
  assume "run_loop step a = Some r"
  then show "\<exists>k. steps step k a = Inr r"
  proof (induction step a r rule: run_loop.raw_induct[rotated, consumes 1, case_names loop])
    case (loop f st b q)
    show ?case
    proof (cases "st b")
      case (Inl b')
      with loop obtain k where "steps st k b' = Inr q" by fastforce
      with Inl have "steps st (Suc k) b = Inr q" by simp
      then show ?thesis ..
    next
      case (Inr q')
      with loop have "steps st 1 b = Inr q" by simp
      then show ?thesis ..
    qed
  qed
qed (auto simp: run_loop_steps_Inr)

lemma run_loop_None_iff: "run_loop step a = None \<longleftrightarrow> (\<forall>k. \<exists>b. steps step k a = Inl b)"
proof -
  have "(\<exists>b. steps step k a = Inl b) \<longleftrightarrow> \<not> (\<exists>r. steps step k a = Inr r)" for k
    by (cases "steps step k a") auto
  then show ?thesis
    using run_loop_Some_iff[of step a] by (metis not_Some_eq)
qed

text \<open>
  One executor refines another.  \<open>matched\<close> says how related configurations go on: both make at
  least one step and are related again, or both stop with the same result.  A result of
  \<open>step_a\<close> that is not \<open>good\<close> ends the obligation.
\<close>

locale step_refinement =
  fixes step_a :: "'a \<Rightarrow> 'a + 'r"
    and step_b :: "'b \<Rightarrow> 'b + 'r"
    and rel :: "'a \<Rightarrow> 'b \<Rightarrow> bool"
    and good :: "'r \<Rightarrow> bool"
  assumes matched: "rel a b \<Longrightarrow>
      (\<exists>k r. steps step_a k a = Inr r \<and> \<not> good r) \<or>
      (\<exists>k m a' b'. steps step_a (Suc k) a = Inl a' \<and> steps step_b (Suc m) b = Inl b' \<and> rel a' b') \<or>
      (\<exists>k m r. steps step_a k a = Inr r \<and> steps step_b m b = Inr r)"
begin

lemma steps_rest: "steps st n a = Inr r \<Longrightarrow> steps st (Suc k) a = Inl a' \<Longrightarrow>
    Suc k < n \<and> steps st (n - Suc k) a' = Inr r"
  using steps_fuel_mono[of st n a r "Suc k"] steps_add[of st "Suc k" "n - Suc k" a]
  by (cases "n \<le> Suc k") auto

lemma forward: "steps step_a n a = Inr r \<Longrightarrow> good r \<Longrightarrow> rel a b \<Longrightarrow> run_loop step_b b = Some r"
proof (induction n arbitrary: a b rule: less_induct)
  case (less n)
  have "\<not> (\<exists>k r. steps step_a k a = Inr r \<and> \<not> good r)"
    using less.prems(1,2) by (metis option.inject run_loop_steps_Inr)
  with matched[OF less.prems(3)] consider
      k m a' b' where "steps step_a (Suc k) a = Inl a'" "steps step_b (Suc m) b = Inl b'" "rel a' b'"
    | k m r' where "steps step_a k a = Inr r'" "steps step_b m b = Inr r'" by blast
  then show ?case
  proof cases
    case 1
    have rest: "Suc k < n" "steps step_a (n - Suc k) a' = Inr r"
      using steps_rest[OF less.prems(1) 1(1)] by auto
    have "run_loop step_b b' = Some r"
      by (rule less.IH[OF _ rest(2) less.prems(2) 1(3)]) (use rest(1) in simp)
    then show ?thesis using 1(2) run_loop_steps_Inl by metis
  next
    case 2
    then show ?thesis using less.prems(1) run_loop_steps_Inr by metis
  qed
qed

lemma backward: "steps step_b n b = Inr r \<Longrightarrow> rel a b \<Longrightarrow>
    run_loop step_a a = Some r \<or> (\<exists>q. run_loop step_a a = Some q \<and> \<not> good q)"
proof (induction n arbitrary: a b rule: less_induct)
  case (less n)
  from matched[OF less.prems(2)] consider
      k q where "steps step_a k a = Inr q" "\<not> good q"
    | k m a' b' where "steps step_a (Suc k) a = Inl a'" "steps step_b (Suc m) b = Inl b'" "rel a' b'"
    | k m r' where "steps step_a k a = Inr r'" "steps step_b m b = Inr r'" by blast
  then show ?case
  proof cases
    case 1
    then show ?thesis using run_loop_steps_Inr by metis
  next
    case 2
    have rest: "Suc m < n" "steps step_b (n - Suc m) b' = Inr r"
      using steps_rest[OF less.prems(1) 2(2)] by auto
    have "run_loop step_a a' = Some r \<or> (\<exists>q. run_loop step_a a' = Some q \<and> \<not> good q)"
      by (rule less.IH[OF _ rest(2) 2(3)]) (use rest(1) in simp)
    then show ?thesis using run_loop_steps_Inl[OF 2(1)] by simp
  next
    case 3
    then show ?thesis using less.prems(1) run_loop_steps_Inr by metis
  qed
qed

theorem run_equal:
  assumes "rel a b"
  shows "run_loop step_a a = run_loop step_b b \<or> (\<exists>q. run_loop step_a a = Some q \<and> \<not> good q)"
proof (cases "run_loop step_b b")
  case None
  show ?thesis
  proof (cases "run_loop step_a a")
    case (Some r)
    then obtain k where "steps step_a k a = Inr r" using run_loop_Some_iff by metis
    then show ?thesis using forward[OF _ _ assms] None Some by fastforce
  qed (simp add: None)
next
  case (Some r)
  then obtain k where "steps step_b k b = Inr r" using run_loop_Some_iff by metis
  from backward[OF this assms] show ?thesis using Some by auto
qed

corollary run_good: "rel a b \<Longrightarrow> run_loop step_a a = Some r \<Longrightarrow> good r \<Longrightarrow> run_loop step_b b = Some r"
  using run_equal by fastforce

end

end
