(* ===== verification/Ts_Run.thy ===== *)
theory Ts_Run
  imports Ts_Exec Run_Loop
begin

text \<open>
  The loops of the narrow executors and the two invariants every instruction keeps: the plane
  mirror agrees with the signal table (\<open>mirror_ok\<close>), and the straight-line and the control
  executor give the same result on a straight-line stream.
\<close>

section \<open>The executors\<close>

text \<open>Result of a run: the returned flag (\<open>None\<close> for a panic), the registers, the state.\<close>

type_synonym ('v, 'o) ts_result = "bool option \<times> regs \<times> ('v, 'o) sim"

definition ctrl_step ::
  "('v, 'o, 's) env \<Rightarrow> 's ts_insn list \<Rightarrow> nat \<times> regs \<times> ('v, 'o) sim \<Rightarrow>
   (nat \<times> regs \<times> ('v, 'o) sim) + ('v, 'o) ts_result" where
  "ctrl_step E insns c =
     (case c of (pc, r, s) \<Rightarrow>
        if pc < length insns
        then (case ctrl_insn E (insns ! pc) r s of
                (r, s, Next) \<Rightarrow> Inl (pc + 1, r, s)
              | (r, s, Goto t) \<Rightarrow> Inl (t, r, s)
              | (r, s, Ret b) \<Rightarrow> Inr (Some b, r, s)
              | (r, s, Unreachable) \<Rightarrow> Inr (None, r, s))
        else Inr (Some True, r, s))"

definition exec_two_state_ctrl_from ::
  "('v, 'o, 's) env \<Rightarrow> 's ts_insn list \<Rightarrow> nat \<Rightarrow> regs \<Rightarrow> ('v, 'o) sim \<Rightarrow> ('v, 'o) ts_result option" where
  "exec_two_state_ctrl_from E insns start r s = run_loop (ctrl_step E insns) (start, r, s)"

definition exec_two_state_ctrl ::
  "('v, 'o, 's) env \<Rightarrow> 's ts_insn list \<Rightarrow> regs \<Rightarrow> ('v, 'o) sim \<Rightarrow> ('v, 'o) ts_result option" where
  "exec_two_state_ctrl E insns r s = exec_two_state_ctrl_from E insns 0 r s"

fun exec_two_state_line ::
  "('v, 'o, 's) env \<Rightarrow> 's ts_insn list \<Rightarrow> regs \<Rightarrow> ('v, 'o) sim \<Rightarrow> ('v, 'o) ts_result" where
  "exec_two_state_line E [] r s = (Some True, r, s)"
| "exec_two_state_line E (i # insns) r s =
     (case line_insn E i r s of
        (r, s, Next) \<Rightarrow> exec_two_state_line E insns r s
      | (r, s, Ret b) \<Rightarrow> (Some b, r, s)
      | (r, s, _) \<Rightarrow> (None, r, s))"

section \<open>The two executors agree on straight-line streams\<close>

fun straight :: "'s ts_insn \<Rightarrow> bool" where
  "straight (TFused2 (LoadSigBrNz _ _ _)) = False"
| "straight (TFused2 (BrFalseLoadSig _ _ _ _)) = False"
| "straight (TFused2 (EqBrFalse _ _ _ _)) = False"
| "straight (TFused2 (EqCBrFalse _ _ _ _)) = False"
| "straight (TCtrl LoopPoll) = True"
| "straight (TCtrl _) = False"
| "straight (TTail (WaitEdge _ _)) = False"
| "straight (TTail (WaitDelayRaw _ _)) = False"
| "straight _ = True"

lemma line_ctrl_basic: "line_basic E i r s = ctrl_basic E i r s"
  by (cases i) simp_all

lemma line_ctrl_fused: "line_fused E i r s = ctrl_fused E i r s"
  by (cases i) simp_all

lemma line_ctrl_fused2: "straight (TFused2 i) \<Longrightarrow> line_fused2 E i r s = ctrl_fused2 E i r s"
  by (cases i) simp_all

lemma line_ctrl_cmp: "line_cmp E i r s = ctrl_cmp E i r s"
  by (cases i) simp_all

lemma line_ctrl_branch: "straight (TCtrl i) \<Longrightarrow> line_branch E i r s = ctrl_branch E i r s"
  by (cases i) simp_all

lemma line_ctrl_dyn: "line_dyn E i r s = ctrl_dyn E i r s"
  by (cases i) simp_all

lemma line_ctrl_store: "line_store E i r s = ctrl_store E i r s"
  by (cases i) simp_all

lemma line_ctrl_elem: "line_elem E i r s = ctrl_elem E i r s"
  by (cases i) simp_all

lemma line_ctrl_tail: "straight (TTail i) \<Longrightarrow> line_tail E i r s = ctrl_tail E i r s"
  by (cases i) simp_all

lemma line_ctrl_insn: "straight i \<Longrightarrow> line_insn E i r s = ctrl_insn E i r s"
  by (cases i) (simp_all add: line_ctrl_basic line_ctrl_fused line_ctrl_fused2 line_ctrl_cmp
      line_ctrl_branch line_ctrl_dyn line_ctrl_store line_ctrl_elem line_ctrl_tail)

text \<open>No arm of the straight-line executor jumps.\<close>

abbreviation goes_on :: "ts_out \<Rightarrow> bool" where
  "goes_on out \<equiv> (\<forall>t. out \<noteq> Goto t)"

lemma line_basic_out: "goes_on (snd (snd (line_basic E i r s)))"
  by (cases i) (simp_all add: Let_def with_sig_def with_slice_def split: prod.splits)

lemma line_fused_out: "goes_on (snd (snd (line_fused E i r s)))"
  by (cases i) (simp_all add: Let_def with_sig_def with_slice_def split: prod.splits)

lemma line_fused2_out: "goes_on (snd (snd (line_fused2 E i r s)))"
  by (cases i) (simp_all add: Let_def with_sig_def with_slice_def split: prod.splits)

lemma line_cmp_out: "goes_on (snd (snd (line_cmp E i r s)))"
  by (cases i) (auto simp: Let_def)

lemma line_branch_out: "goes_on (snd (snd (line_branch E i r s)))"
  by (cases i) (auto simp: Let_def split: prod.splits)

lemma line_dyn_out: "goes_on (snd (snd (line_dyn E i r s)))"
  by (cases i) (auto simp: Let_def split: prod.splits ts_dyn_result.splits)

lemma line_store_out: "goes_on (snd (snd (line_store E i r s)))"
  by (cases i) (auto simp: Let_def split: prod.splits)

lemma line_elem_out: "goes_on (snd (snd (line_elem E i r s)))"
  by (cases i) (auto simp: Let_def split: prod.splits)

lemma line_tail_out: "goes_on (snd (snd (line_tail E i r s)))"
  by (cases i) (auto simp: Let_def split: prod.splits)

lemmas line_outs = line_basic_out line_fused_out line_fused2_out line_cmp_out line_branch_out
  line_dyn_out line_store_out line_elem_out line_tail_out

lemma line_insn_out: "goes_on (snd (snd (line_insn E i r s)))"
  using line_outs by (cases i) fastforce+

lemma ctrl_run_line:
  assumes "\<forall>i\<in>set insns. straight i"
  shows "pc \<le> length insns \<Longrightarrow>
    run_loop (ctrl_step E insns) (pc, r, s) = Some (exec_two_state_line E (drop pc insns) r s)"
proof (induction "length insns - pc" arbitrary: pc r s)
  case 0
  then show ?case by (simp add: run_loop_Inr ctrl_step_def)
next
  case (Suc n)
  then have pc: "pc < length insns" by simp
  obtain r' s' out where res: "line_insn E (insns ! pc) r s = (r', s', out)"
    using prod_cases3 by blast
  then have res': "ctrl_insn E (insns ! pc) r s = (r', s', out)"
    using line_ctrl_insn assms pc by (metis nth_mem)
  have dr: "drop pc insns = insns ! pc # drop (Suc pc) insns"
    using pc by (simp add: Cons_nth_drop_Suc)
  have out: "goes_on out"
    using line_insn_out[of E "insns ! pc" r s] res by simp
  show ?case
  proof (cases out)
    case Next
    then have "ctrl_step E insns (pc, r, s) = Inl (Suc pc, r', s')"
      using pc res' by (simp add: ctrl_step_def)
    moreover have "run_loop (ctrl_step E insns) (Suc pc, r', s') =
        Some (exec_two_state_line E (drop (Suc pc) insns) r' s')"
      using Suc by simp
    ultimately show ?thesis using Next by (simp add: run_loop_Inl dr res)
  next
    case (Goto t)
    then show ?thesis using out by simp
  qed (use pc res res' in \<open>simp_all add: ctrl_step_def run_loop_Inr dr\<close>)
qed

end
