(* ===== verification/Nba.thy ===== *)
theory Nba
  imports Ts_State
begin

text \<open>
  The queue of pending non-blocking assignments and its index.  The interface between them is
  the locale \<open>pending_index\<close>: what a lookup returns after an insert and after a clear.  It is
  interpreted on \<^verbatim>\<open>NbaFastIndex\<close> (a dense prefix with a sentinel and a list of touched slots,
  and a hash map for the rest).  The queue lemmas, proved from the interface only, say that a
  signal has at most one pending entry and that the index finds it.
\<close>

section \<open>The interface\<close>

text \<open>\<open>g\<close> finds, for every signal, the one entry of the queue that carries it.\<close>

definition linked :: "(nat \<Rightarrow> nat option) \<Rightarrow> 'v nba_fast list \<Rightarrow> bool" where
  "linked g q \<longleftrightarrow> (\<forall>sid i. g sid = Some i \<longleftrightarrow> i < length q \<and> nf_signal_id (q ! i) = sid)"

lemma linkedD: "linked g q \<Longrightarrow> g sid = Some i \<Longrightarrow> i < length q \<and> nf_signal_id (q ! i) = sid"
  unfolding linked_def by blast

lemma linked_unique:
  "linked g q \<Longrightarrow> i < length q \<Longrightarrow> j < length q \<Longrightarrow> nf_signal_id (q ! i) = nf_signal_id (q ! j) \<Longrightarrow> i = j"
  unfolding linked_def by (metis option.inject)

lemma linked_distinct: "linked g q \<Longrightarrow> distinct (map nf_signal_id q)"
  by (simp add: distinct_conv_nth) (metis linked_unique)

locale pending_index =
  fixes get :: "'i \<Rightarrow> nat \<Rightarrow> nat option"
    and put :: "nat \<Rightarrow> nat \<Rightarrow> 'i \<Rightarrow> 'i"
    and clear :: "'i \<Rightarrow> 'i"
    and wf :: "'i \<Rightarrow> bool"
    and limit :: nat
  assumes wf_put: "wf ix \<Longrightarrow> i < limit \<Longrightarrow> wf (put sid i ix)"
    and get_put: "wf ix \<Longrightarrow> i < limit \<Longrightarrow> get (put sid i ix) = (get ix)(sid \<mapsto> i)"
    and wf_clear: "wf ix \<Longrightarrow> wf (clear ix)"
    and get_clear: "wf ix \<Longrightarrow> get (clear ix) = Map.empty"
begin

lemma linked_push:
  assumes "wf ix" and "length q < limit" and "linked (get ix) q" and "get ix sid = None"
    and "nf_signal_id e = sid"
  shows "linked (get (put sid (length q) ix)) (q @ [e])"
proof -
  have "i < length q \<Longrightarrow> nf_signal_id (q ! i) \<noteq> sid" for i
    using assms(3,4) unfolding linked_def by (metis option.distinct(1))
  then show ?thesis
    using assms by (auto simp: linked_def get_put nth_append less_Suc_eq)
qed

lemma linked_replace:
  assumes "linked (get ix) q" and "nf_signal_id e = nf_signal_id (q ! i)"
  shows "linked (get ix) (q[i := e])"
proof -
  have "j < length q \<Longrightarrow> nf_signal_id (q[i := e] ! j) = nf_signal_id (q ! j)" for j
    using assms(2) by (cases "j = i") auto
  then show ?thesis using assms(1) unfolding linked_def by (metis length_list_update)
qed

lemma linked_clear: "wf ix \<Longrightarrow> linked (get (clear ix)) []"
  by (simp add: get_clear linked_def)

end

section \<open>The index of the code\<close>

definition nbi_wf :: "nba_fast_index \<Rightarrow> bool" where
  "nbi_wf ix \<longleftrightarrow>
     (\<forall>sid < length (dense_entries ix). dense_entries ix ! sid \<noteq> u32_max \<longrightarrow> sid \<in> set (dirty_dense ix))"

lemma fold_reset_nth:
  "k < length es \<Longrightarrow> fold (\<lambda>sid es. es[sid := c]) ds es ! k = (if k \<in> set ds then c else es ! k)"
  by (induction ds arbitrary: es) (auto simp: nth_list_update)

lemma fold_reset_length [simp]: "length (fold (\<lambda>sid es. es[sid := c]) ds es) = length es"
  by (induction ds arbitrary: es) auto

interpretation nbi: pending_index nbi_get nbi_insert nbi_clear nbi_wf u32_max
proof unfold_locales
  show "nbi_wf (nbi_insert sid i ix)" if "nbi_wf ix" "i < u32_max" for ix i sid
    using that by (auto simp: nbi_wf_def nbi_insert_def Let_def nth_list_update)
  show "nbi_get (nbi_insert sid i ix) = (nbi_get ix)(sid \<mapsto> i)" if "nbi_wf ix" "i < u32_max" for ix i sid
  proof
    have i: "i mod 2 ^ 32 = i" using that by (simp add: u32_max_def)
    show "nbi_get (nbi_insert sid i ix) k = ((nbi_get ix)(sid \<mapsto> i)) k" for k
      using that(2) i by (auto simp: nbi_get_def nbi_insert_def Let_def nth_list_update)
  qed
  show "nbi_wf (nbi_clear ix)" if "nbi_wf ix" for ix
    using that by (auto simp: nbi_wf_def nbi_clear_def fold_reset_nth split: if_splits)
  show "nbi_get (nbi_clear ix) = Map.empty" if "nbi_wf ix" for ix
  proof
    show "nbi_get (nbi_clear ix) k = Map.empty k" for k
      using that by (auto simp: nbi_wf_def nbi_get_def nbi_clear_def fold_reset_nth)
  qed
qed

lemma nbi_wf_prefix: "nbi_wf (nbi_with_dense_prefix n)"
  by (simp add: nbi_wf_def nbi_with_dense_prefix_def)

lemma nbi_get_prefix: "nbi_get (nbi_with_dense_prefix n) sid = None"
  by (simp add: nbi_get_def nbi_with_dense_prefix_def Let_def)

text \<open>Growing the dense prefix keeps every pending entry, if none of the signals it takes over
  is pending in the hash map.\<close>

lemma nbi_get_extend:
  assumes "\<And>k. length (dense_entries ix) \<le> k \<Longrightarrow> k < n \<Longrightarrow> sparse_entries ix k = None"
  shows "nbi_get (nbi_extend_dense n ix) sid = nbi_get ix sid"
  using assms by (auto simp: nbi_get_def nbi_extend_dense_def nth_append Let_def split: option.splits)

lemma nbi_wf_extend: "nbi_wf ix \<Longrightarrow> nbi_wf (nbi_extend_dense n ix)"
  by (auto simp: nbi_wf_def nbi_extend_dense_def nth_append)

section \<open>The queue\<close>

definition nba_ok :: "('v, 'o) sim \<Rightarrow> bool" where
  "nba_ok s \<longleftrightarrow> nbi_wf (nba_index s) \<and> linked (nbi_get (nba_index s)) (nba_queue s)"

text \<open>What the queue means: the value each signal will take.\<close>

definition pending :: "('v, 'o) sim \<Rightarrow> nat \<rightharpoonup> 'v" where
  "pending s = map_of (map (\<lambda>e. (nf_signal_id e, nf_value e)) (nba_queue s))"

lemma nba_ok_push:
  assumes "nba_ok s" and "nbi_get (nba_index s) sid = None" and "length (nba_queue s) < u32_max"
  shows "nba_ok (nba_push sid v s)"
  using assms by (auto simp: nba_ok_def nba_push_def intro!: nbi.wf_put nbi.linked_push)

lemma nba_ok_replace:
  assumes "nba_ok s"
  shows "nba_ok (nba_replace i v s)"
  using assms by (auto simp: nba_ok_def nba_replace_def intro!: nbi.linked_replace)

lemma pending_lookup:
  assumes "nba_ok s"
  shows "pending s sid = map_option (\<lambda>i. nf_value (nba_queue s ! i)) (nbi_get (nba_index s) sid)"
proof (cases "nbi_get (nba_index s) sid")
  case None
  then have "nf_signal_id (nba_queue s ! i) \<noteq> sid" if "i < length (nba_queue s)" for i
    using assms that unfolding nba_ok_def linked_def by (metis option.distinct(1))
  then have "sid \<notin> nf_signal_id ` set (nba_queue s)"
    by (metis imageE in_set_conv_nth)
  then have "map_of (map (\<lambda>e. (nf_signal_id e, nf_value e)) (nba_queue s)) sid = None"
    by (simp add: map_of_eq_None_iff image_image)
  then show ?thesis using None by (simp add: pending_def)
next
  case (Some i)
  let ?f = "\<lambda>e. (nf_signal_id e, nf_value e)"
  have i: "i < length (nba_queue s)" "nf_signal_id (nba_queue s ! i) = sid"
    using assms Some linkedD unfolding nba_ok_def by blast+
  have "distinct (map nf_signal_id (nba_queue s))"
    using assms linked_distinct unfolding nba_ok_def by blast
  then have "distinct (map fst (map ?f (nba_queue s)))"
    by (simp add: o_def)
  moreover have "(sid, nf_value (nba_queue s ! i)) \<in> set (map ?f (nba_queue s))"
    using i by (auto simp: image_iff intro!: bexI[of _ "nba_queue s ! i"])
  ultimately have "map_of (map ?f (nba_queue s)) sid = Some (nf_value (nba_queue s ! i))"
    by (rule map_of_is_SomeI)
  then show ?thesis using Some by (simp add: pending_def)
qed

lemma pending_push:
  assumes "nba_ok s" and "nbi_get (nba_index s) sid = None"
  shows "pending (nba_push sid v s) = (pending s)(sid \<mapsto> v)"
proof
  have "pending s sid = None" using pending_lookup[OF assms(1)] assms(2) by simp
  then show "pending (nba_push sid v s) k = ((pending s)(sid \<mapsto> v)) k" for k
    by (auto simp: pending_def nba_push_def map_add_def split: option.splits)
qed

lemma pending_replace:
  assumes "nba_ok s" and "nbi_get (nba_index s) sid = Some i"
  shows "pending (nba_replace i v s) = (pending s)(sid \<mapsto> v)"
proof
  fix k
  have ok: "nba_ok (nba_replace i v s)" using nba_ok_replace[OF assms(1)] .
  have i: "i < length (nba_queue s)" "nf_signal_id (nba_queue s ! i) = sid"
    using assms linkedD unfolding nba_ok_def by blast+
  have uniq: "nbi_get (nba_index s) k = Some i \<Longrightarrow> k = sid"
    using assms(1) i linkedD unfolding nba_ok_def by blast
  have ix: "nba_index (nba_replace i v s) = nba_index s"
    and q: "nba_queue (nba_replace i v s) = (nba_queue s)[i := (nba_queue s ! i)\<lparr>nf_value := v\<rparr>]"
    by (simp_all add: nba_replace_def)
  show "pending (nba_replace i v s) k = ((pending s)(sid \<mapsto> v)) k"
  proof (cases "k = sid")
    case True
    then show ?thesis using i assms(2) by (simp add: pending_lookup[OF ok] ix q)
  next
    case False
    then have "nbi_get (nba_index s) k \<noteq> Some i" using uniq by blast
    then show ?thesis using False
      by (cases "nbi_get (nba_index s) k") (simp_all add: pending_lookup[OF ok] pending_lookup[OF assms(1)] ix q)
  qed
qed

lemma pending_elide [simp]: "pending (nba_elide s) = pending s"
  by (simp add: pending_def nba_elide_def)

lemma nba_ok_store_nba:
  assumes "nba_ok s" and "length (nba_queue s) < u32_max"
  shows "nba_ok (ts_store_nba_val E sid v s)"
proof -
  have "nba_ok (nba_elide s)" using assms(1) by (simp add: nba_ok_def nba_elide_def)
  then show ?thesis
    using assms by (simp add: ts_store_nba_val_def nba_ok_push nba_ok_replace split: option.splits)
qed

text \<open>A whole-signal non-blocking store: the last value wins, and a store of the value the signal
  already holds is dropped when nothing is pending.\<close>

lemma pending_store_nba_val:
  assumes "nba_ok s"
  shows "pending (ts_store_nba_val E sid v s) =
    (if sid \<in> dom (pending s) \<or> value_ne (vo E) (signal_table s sid) v
     then (pending s)(sid \<mapsto> v) else pending s)"
proof (cases "nbi_get (nba_index s) sid")
  case None
  then have "sid \<notin> dom (pending s)" using pending_lookup[OF assms] by (simp add: domIff)
  then show ?thesis using None assms by (simp add: ts_store_nba_val_def pending_push)
next
  case (Some i)
  then have "sid \<in> dom (pending s)" using pending_lookup[OF assms] by (simp add: domIff)
  then show ?thesis using Some assms by (simp add: ts_store_nba_val_def pending_replace)
qed

lemma ts_store_nba_as_val: "ts_store_nba E sid v w s = ts_store_nba_val E sid (from_u64 (vo E) v w) s"
  by (simp add: ts_store_nba_def ts_store_nba_val_def Let_def)

end
