(* ===== verification/Ts_Inv.thy ===== *)
theory Ts_Inv
  imports Ts_Run Nba
begin

text \<open>
  Invariants of the state that every instruction keeps.  The locale \<open>state_invariant\<close> lists
  the primitive changes of state the store helpers are made of; whatever those keep, every
  instruction and every run keep.  It is interpreted for the plane mirror and for the index of
  pending non-blocking assignments.
\<close>

section \<open>From the primitive changes to whole runs\<close>

locale state_invariant =
  fixes E :: "('v, 'o, 's) env" and I :: "('v, 'o) sim \<Rightarrow> bool"
  assumes written: "I s \<Longrightarrow> I (mark_written E sid m (sync_mirror E sid (set_signal sid e s)))"
    and splice_same: "I s \<Longrightarrow> splice_bits64 (vo E) lo v x n (signal_table s sid) = (False, e) \<Longrightarrow>
      I (set_signal sid e s)"
    and fill_same: "I s \<Longrightarrow> fill_splices E planes lo hi False (signal_table s sid) = (False, e) \<Longrightarrow>
      I (set_signal sid e s)"
    and push: "I s \<Longrightarrow> nbi_get (nba_index s) sid = None \<Longrightarrow> I (nba_push sid nv s)"
    and replace: "I s \<Longrightarrow> nbi_get (nba_index s) sid = Some i \<Longrightarrow> I (nba_replace i nv s)"
    and elide: "I s \<Longrightarrow> I (nba_elide s)"
    and save: "I s \<Longrightarrow> I (push_save entry s)"
    and count: "I s \<Longrightarrow> I (cov_count c s)"
    and xread: "I s \<Longrightarrow> I (s\<lparr>ts_xread_bail := True\<rparr>)"
    and poll: "I s \<Longrightarrow> I (s\<lparr>poll_count := Suc (poll_count s)\<rparr>)"
    and suspend: "I s \<Longrightarrow> I (s\<lparr>fsm_suspend := w\<rparr>)"
    and fallback: "I s \<Longrightarrow> I (exec_fallback E st (s\<lparr>prof_fallback_insns := cnt\<rparr>))"
begin

lemma put_planes: "I s \<Longrightarrow> I (put_planes E sid v x chg s)"
  by (simp add: put_planes_def written split: prod.splits)

lemma range_store_xz: "I s \<Longrightarrow> I (ts_range_store_xz E sid v x lo hi s)"
  by (simp add: ts_range_store_xz_def put_planes split: prod.splits)

lemma range_store: "I s \<Longrightarrow> I (ts_range_store E sid v lo hi s)"
  by (simp add: ts_range_store_def range_store_xz)

lemma store_xz: "I s \<Longrightarrow> I (ts_store_xz E sid v x s)"
  by (simp add: ts_store_xz_def put_planes split: prod.splits)

lemma store: "I s \<Longrightarrow> I (ts_store E sid v m s)"
  by (simp add: ts_store_def written Let_def split: prod.splits)

lemma wide_range_store: "I s \<Longrightarrow> I (ts_wide_range_store E sid lo hi v x s)"
  using splice_same written
  by (auto simp: ts_wide_range_store_def Let_def split: prod.splits)

lemma wide_bit_store: "I s \<Longrightarrow> I (ts_wide_bit_store E sid i b s)"
  by (simp add: ts_wide_bit_store_def wide_range_store)

lemma wide_range_fill: "I s \<Longrightarrow> I (ts_wide_range_fill E sid lo hi b s)"
  using fill_same written
  by (auto simp: ts_wide_range_fill_def Let_def split: prod.splits)

lemma wide_range_fill_xz: "I s \<Longrightarrow> I (ts_wide_range_fill_xz E sid lo hi b s)"
  using fill_same written wide_range_fill
  by (auto simp: ts_wide_range_fill_xz_def Let_def split: prod.splits)

lemma store_nba_val: "I s \<Longrightarrow> I (ts_store_nba_val E sid v s)"
  by (simp add: ts_store_nba_val_def push replace elide split: option.splits)

lemma store_nba: "I s \<Longrightarrow> I (ts_store_nba E sid v w s)"
  by (simp add: ts_store_nba_as_val store_nba_val)

lemma store_nba_xz: "I s \<Longrightarrow> I (ts_store_nba_xz E sid v x w s)"
  by (simp add: ts_store_nba_xz_def store_nba store_nba_val)

lemma range_store_nba_xz: "I s \<Longrightarrow> I (ts_range_store_nba_xz E sid lo hi v x s)"
  by (simp add: ts_range_store_nba_xz_def Let_def push replace elide split: option.splits prod.splits)

lemma range_store_nba: "I s \<Longrightarrow> I (ts_range_store_nba E sid lo hi v s)"
  by (simp add: ts_range_store_nba_def Let_def push replace elide split: option.splits prod.splits)

lemma bit_store_nba: "I s \<Longrightarrow> I (ts_bit_store_nba E sid i b s)"
  by (simp add: ts_bit_store_nba_def Let_def push replace elide split: option.splits prod.splits)

lemma wide_range_store_nba_xz: "I s \<Longrightarrow> I (ts_wide_range_store_nba_xz E sid lo hi v x s)"
  by (simp add: ts_wide_range_store_nba_xz_def Let_def push replace elide split: option.splits prod.splits)

lemma wide_range_store_nba: "I s \<Longrightarrow> I (ts_wide_range_store_nba E sid lo hi v s)"
  by (simp add: ts_wide_range_store_nba_def Let_def push replace elide split: option.splits prod.splits)

lemma wide_range_fill_nba: "I s \<Longrightarrow> I (ts_wide_range_fill_nba E sid lo hi b s)"
  by (simp add: ts_wide_range_fill_nba_def Let_def push replace elide split: option.splits prod.splits)

lemma range_store_dyn: "I s \<Longrightarrow> I (snd (ts_range_store_dyn E sig lo v w sw nba s))"
  by (simp add: ts_range_store_dyn_def Let_def wide_range_store_nba range_store_nba
      wide_range_store range_store)

lemma range_store_dyn': "I s \<Longrightarrow> ts_range_store_dyn E sig lo v w sw nba s = (ok, s') \<Longrightarrow> I s'"
  using range_store_dyn by (metis snd_conv)

lemma cov_hit: "I s \<Longrightarrow> I (ts_cov_hit c s)"
  by (simp add: ts_cov_hit_def save count)

lemma save_words: "I s \<Longrightarrow> I (fold (\<lambda>i s. push_save (f i) s) xs s)"
  by (induction xs arbitrary: s) (simp_all add: save)

lemma save_w: "I s \<Longrightarrow> I (save_sig_w E sig s)"
  by (simp add: save_sig_w_def Let_def save save_words)

lemma stop_requested: "I s \<Longrightarrow> loop_stop_requested s = (b, s') \<Longrightarrow> I s'"
  by (auto simp: loop_stop_requested_def poll)

lemmas store_rules = range_store_xz range_store store_xz store wide_range_store wide_bit_store
  wide_range_fill wide_range_fill_xz store_nba_val store_nba store_nba_xz range_store_nba_xz
  range_store_nba bit_store_nba wide_range_store_nba_xz wide_range_store_nba wide_range_fill_nba
  cov_hit save_w save xread suspend fallback

lemma with_sig_keeps:
  "I s \<Longrightarrow> (\<And>v. I (fst (snd (k v)))) \<Longrightarrow> I (fst (snd (with_sig E s sig r k)))"
  by (simp add: with_sig_def xread split: prod.splits)

lemma with_slice_keeps:
  "I s \<Longrightarrow> (\<And>v. I (fst (snd (k v)))) \<Longrightarrow> I (fst (snd (with_slice E s sig lo w r k)))"
  by (simp add: with_slice_def xread split: prod.splits)

lemma ctrl_basic_keeps: "I s \<Longrightarrow> I (fst (snd (ctrl_basic E i r s)))"
  by (cases i) (simp_all add: with_sig_keeps with_slice_keeps)

lemma ctrl_fused_keeps: "I s \<Longrightarrow> I (fst (snd (ctrl_fused E i r s)))"
  by (cases i) (simp_all add: with_sig_keeps Let_def store_rules)

lemma ctrl_fused2_keeps: "I s \<Longrightarrow> I (fst (snd (ctrl_fused2 E i r s)))"
  by (cases i) (simp_all add: with_sig_keeps Let_def store_rules)

lemma ctrl_cmp_keeps: "I s \<Longrightarrow> I (fst (snd (ctrl_cmp E i r s)))"
  by (cases i) (simp_all add: Let_def store_rules)

lemma ctrl_branch_keeps: "I s \<Longrightarrow> I (fst (snd (ctrl_branch E i r s)))"
  by (cases i) (auto simp: Let_def xread dest: stop_requested split: prod.splits)

lemma ctrl_dyn_keeps: "I s \<Longrightarrow> I (fst (snd (ctrl_dyn E i r s)))"
  by (cases i) (auto simp: store_rules dest: range_store_dyn' split: prod.splits ts_dyn_result.splits)

lemma ctrl_store_keeps: "I s \<Longrightarrow> I (fst (snd (ctrl_store E i r s)))"
  by (cases i) (simp_all add: store_rules)

lemma ctrl_elem_keeps: "I s \<Longrightarrow> I (fst (snd (ctrl_elem E i r s)))"
  by (cases i) (simp_all add: Let_def store_rules split: prod.splits)

lemma ctrl_tail_keeps: "I s \<Longrightarrow> I (fst (snd (ctrl_tail E i r s)))"
  by (cases i) (simp_all add: Let_def store_rules split: prod.splits)

lemmas ctrl_keeps = ctrl_basic_keeps ctrl_fused_keeps ctrl_fused2_keeps ctrl_cmp_keeps
  ctrl_branch_keeps ctrl_dyn_keeps ctrl_store_keeps ctrl_elem_keeps ctrl_tail_keeps

lemma ctrl_insn_keeps: "I s \<Longrightarrow> I (fst (snd (ctrl_insn E i r s)))"
  by (cases i) (simp_all add: ctrl_keeps)

lemma ctrl_insn_keeps': "I s \<Longrightarrow> ctrl_insn E i r s = (r', s', out) \<Longrightarrow> I s'"
  using ctrl_insn_keeps by (metis fst_conv snd_conv)

lemma ctrl_steps_keep:
  "steps (ctrl_step E insns) k (pc, r, s) = Inr (b, r', s') \<Longrightarrow> I s \<Longrightarrow> I s'"
proof (induction k arbitrary: pc r s)
  case (Suc k)
  then show ?case
    using ctrl_insn_keeps'[OF \<open>I s\<close>]
    by (auto simp: ctrl_step_def split: if_splits prod.splits ts_out.splits)
qed simp

theorem ctrl_run_keeps:
  "I s \<Longrightarrow> exec_two_state_ctrl_from E insns start r s = Some (b, r', s') \<Longrightarrow> I s'"
  unfolding exec_two_state_ctrl_from_def run_loop_Some_iff using ctrl_steps_keep by blast

end

section \<open>The plane mirror\<close>

definition mirror_ok :: "('v, 'o, 's) env \<Rightarrow> ('v, 'o) sim \<Rightarrow> bool" where
  "mirror_ok E s \<longleftrightarrow> (\<forall>sid < length (signal_inline_bits s). signal_inline_bits s ! sid = sig_raw E s sid)"

lemma mirror_sig_planes: "mirror_ok E s \<Longrightarrow> sig_planes E s sig = sig_raw E s sig"
  by (simp add: mirror_ok_def sig_planes_def)

text \<open>What the mirror needs of the code outside: a splice that reports no change leaves the bits
  alone, and the AST interpreter keeps the mirror.\<close>

definition splice_reports :: "'v vops \<Rightarrow> bool" where
  "splice_reports V \<longleftrightarrow>
     (\<forall>lo v x n e e'. splice_bits64 V lo v x n e = (False, e') \<longrightarrow> raw_bits V e' = raw_bits V e)"

lemma splice_reportsD:
  "splice_reports V \<Longrightarrow> splice_bits64 V lo v x n e = (False, e') \<Longrightarrow> raw_bits V e' = raw_bits V e"
  unfolding splice_reports_def by blast

definition mirror_env :: "('v, 'o, 's) env \<Rightarrow> bool" where
  "mirror_env E \<longleftrightarrow> splice_reports (vo E) \<and>
     (\<forall>st s n. mirror_ok E s \<longrightarrow> mirror_ok E (exec_fallback E st (s\<lparr>prof_fallback_insns := n\<rparr>)))"

lemma mirror_ok_cong:
  "signal_table s' = signal_table s \<Longrightarrow> signal_inline_bits s' = signal_inline_bits s \<Longrightarrow>
   mirror_ok E s' = mirror_ok E s"
  by (simp add: mirror_ok_def sig_raw_def)

lemma mirror_ok_sync:
  assumes "mirror_ok E s"
  shows "mirror_ok E (sync_mirror E sid (set_signal sid e s))"
  using assms by (auto simp: mirror_ok_def sync_mirror_def set_signal_def sig_raw_def nth_list_update)

lemma ts_direct_dirty_frame [simp]:
  "signal_table (ts_direct_dirty sid m s) = signal_table s"
  "signal_inline_bits (ts_direct_dirty sid m s) = signal_inline_bits s"
  "nba_queue (ts_direct_dirty sid m s) = nba_queue s"
  "nba_index (ts_direct_dirty sid m s) = nba_index s"
  by (simp_all add: ts_direct_dirty_def Let_def)

lemma mark_written_frame [simp]:
  "signal_table (mark_written E sid m s) = signal_table s"
  "nba_queue (mark_written E sid m s) = nba_queue s"
  "nba_index (mark_written E sid m s) = nba_index s"
  by (simp_all add: mark_written_def after_signal_write_def Let_def)

lemma sync_mirror_frame [simp]:
  "signal_table (sync_mirror E sid s) = signal_table s"
  "nba_queue (sync_mirror E sid s) = nba_queue s"
  "nba_index (sync_mirror E sid s) = nba_index s"
  by (simp_all add: sync_mirror_def)

lemma set_signal_frame [simp]:
  "signal_table (set_signal sid e s) = (signal_table s)(sid := e)"
  "signal_inline_bits (set_signal sid e s) = signal_inline_bits s"
  "nba_queue (set_signal sid e s) = nba_queue s"
  "nba_index (set_signal sid e s) = nba_index s"
  by (simp_all add: set_signal_def)

lemma mirror_ok_marked: "mirror_ok E s \<Longrightarrow> mirror_ok E (mark_written E sid m s)"
  by (auto simp: mirror_ok_def mark_written_def after_signal_write_def sig_raw_def Let_def nth_list_update)

lemma mirror_ok_same:
  assumes "mirror_ok E s" and "raw_bits (vo E) e = raw_bits (vo E) (signal_table s sid)"
  shows "mirror_ok E (set_signal sid e s)"
  using assms by (auto simp: mirror_ok_def sig_raw_def)

lemma fill_splices_same:
  "fill_splices E planes pos end_pos changed v = (False, v') \<Longrightarrow> splice_reports (vo E) \<Longrightarrow>
   \<not> changed \<and> raw_bits (vo E) v' = raw_bits (vo E) v"
proof (induction E planes pos end_pos changed v rule: fill_splices.induct)
  case (1 E planes pos end_pos changed v)
  let ?n = "min (end_pos - pos) 64"
  obtain c w where sp: "splice_bits64 (vo E) pos (fst (planes ?n)) (snd (planes ?n)) ?n v = (c, w)"
    by force
  show ?case
  proof (cases "pos < end_pos")
    case True
    then have "fill_splices E planes (pos + ?n) end_pos (changed \<or> c) w = (False, v')"
      using "1.prems"(1) sp by (subst (asm) fill_splices.simps) (simp add: Let_def)
    then have "\<not> (changed \<or> c) \<and> raw_bits (vo E) v' = raw_bits (vo E) w"
      using "1.IH"[OF True refl sp[symmetric] refl] "1.prems"(2) by blast
    moreover from this have "raw_bits (vo E) w = raw_bits (vo E) v"
      using splice_reportsD[OF "1.prems"(2)] sp by simp
    ultimately show ?thesis by simp
  next
    case False
    then show ?thesis using "1.prems"(1) by (subst (asm) fill_splices.simps) simp
  qed
qed

interpretation mirror: state_invariant E "\<lambda>s. mirror_env E \<longrightarrow> mirror_ok E s" for E
proof unfold_locales
  fix s :: "('a, 'b) sim" and sid lo v x n e planes hi nv i
  assume I: "mirror_env E \<longrightarrow> mirror_ok E s"
  show "mirror_env E \<longrightarrow> mirror_ok E (mark_written E sid m (sync_mirror E sid (set_signal sid e s)))" for m
    using I by (simp add: mirror_ok_marked mirror_ok_sync)
  show "mirror_env E \<longrightarrow> mirror_ok E (set_signal sid e s)"
    if "splice_bits64 (vo E) lo v x n (signal_table s sid) = (False, e)"
    using I splice_reportsD[OF _ that] by (simp add: mirror_env_def mirror_ok_same)
  show "mirror_env E \<longrightarrow> mirror_ok E (set_signal sid e s)"
    if "fill_splices E planes lo hi False (signal_table s sid) = (False, e)"
    using I fill_splices_same[OF that] by (simp add: mirror_env_def mirror_ok_same)
qed (auto simp: mirror_env_def mirror_ok_def sig_raw_def nba_push_def nba_replace_def nba_elide_def
    push_save_def cov_count_def)

section \<open>The index of pending assignments\<close>

definition queue_env :: "('v, 'o, 's) env \<Rightarrow> bool" where
  "queue_env E \<longleftrightarrow> (\<forall>st s n. (length (nba_queue s) \<le> u32_max \<longrightarrow> nba_ok s) \<longrightarrow>
     (let s' = exec_fallback E st (s\<lparr>prof_fallback_insns := n\<rparr>)
      in length (nba_queue s') \<le> u32_max \<longrightarrow> nba_ok s'))"

lemma nba_ok_cong:
  "nba_queue s' = nba_queue s \<Longrightarrow> nba_index s' = nba_index s \<Longrightarrow> nba_ok s' = nba_ok s"
  by (simp add: nba_ok_def)

interpretation queue: state_invariant E
  "\<lambda>s. queue_env E \<longrightarrow> length (nba_queue s) \<le> u32_max \<longrightarrow> nba_ok s" for E
proof unfold_locales
  fix s :: "('a, 'b) sim" and sid nv i
  assume I: "queue_env E \<longrightarrow> length (nba_queue s) \<le> u32_max \<longrightarrow> nba_ok s"
  show "queue_env E \<longrightarrow> length (nba_queue (nba_push sid nv s)) \<le> u32_max \<longrightarrow> nba_ok (nba_push sid nv s)"
    if "nbi_get (nba_index s) sid = None"
    using I that nba_ok_push[of s sid nv] by (auto simp: nba_push_def)
  show "queue_env E \<longrightarrow> length (nba_queue (nba_replace i nv s)) \<le> u32_max \<longrightarrow> nba_ok (nba_replace i nv s)"
    using I nba_ok_replace[of s i nv] by (auto simp: nba_replace_def)
  show "queue_env E \<longrightarrow> length (nba_queue (exec_fallback E st (s\<lparr>prof_fallback_insns := cnt\<rparr>))) \<le> u32_max \<longrightarrow>
      nba_ok (exec_fallback E st (s\<lparr>prof_fallback_insns := cnt\<rparr>))" for st cnt
    using I unfolding queue_env_def Let_def by blast
qed (auto simp: nba_ok_def nba_elide_def push_save_def cov_count_def)

end
