(* ===== verification/Ts_Fuse.thy ===== *)
theory Ts_Fuse
  imports Ts_Inv
begin

text \<open>
  Rewriting of lowered streams: the pair and triple fusion \<^verbatim>\<open>fuse_ts_pairs\<close> with the relocation
  of all branch targets, the marking of loop back-edges that follows it, and the inverse
  expansion \<^verbatim>\<open>unfuse\<close> of the JIT (\<^verbatim>\<open>ts_jit.rs\<close>).  Each is proved to keep the executions.
\<close>

section \<open>Fusion of adjacent instructions\<close>

text \<open>The match of \<^verbatim>\<open>fuse_ts_pairs\<close> on two neighbours, one definition per first instruction.\<close>

definition fuse_load :: "nat \<Rightarrow> nat \<Rightarrow> 's ts_insn \<Rightarrow> 's ts_insn option" where
  "fuse_load dl sig j =
     (case j of
        TElem (ElemStoreNba op) \<Rightarrow>
          if el_s op = dl
          then Some (TElem (ElemStoreNbaFromSig \<lparr>es_sig = sig, es_dl = dl, es_op = op\<rparr>)) else None
      | TCmp (LogNot d s) \<Rightarrow> if s = dl then Some (TFused (LoadSigNot dl d sig)) else None
      | TCmp (LogAnd d a b) \<Rightarrow> if a = dl \<or> b = dl then Some (TFused (LoadSigLogAnd dl sig d a b)) else None
      | TBasic (LoadSig d2 sig2) \<Rightarrow> Some (TFused2 (LoadSig2 dl sig d2 sig2))
      | TCtrl (BrNz s t) \<Rightarrow> if s = dl then Some (TFused2 (LoadSigBrNz dl sig t)) else None
      | TCmp (LogOr d a b) \<Rightarrow> if a = dl \<or> b = dl then Some (TFused2 (LoadSigLogOr dl sig d a b)) else None
      | TBasic (And d a b) \<Rightarrow> if a = dl \<or> b = dl then Some (TFused2 (LoadSigAnd dl sig d a b)) else None
      | TTail (Repl d s w count) \<Rightarrow> if s = dl then Some (TFused2 (LoadSigRepl dl sig d w count)) else None
      | TBasic (SigRange d sig2 lo m) \<Rightarrow> Some (TFused2 (LoadSigSigRange dl sig d sig2 lo m))
      | _ \<Rightarrow> None)"

definition fuse_sig_range :: "nat \<Rightarrow> nat \<Rightarrow> nat \<Rightarrow> u64 \<Rightarrow> 's ts_insn \<Rightarrow> 's ts_insn option" where
  "fuse_sig_range dr sig lo m j =
     (case j of
        TBasic (EqC d s k) \<Rightarrow>
          if s = dr \<and> lo < 64 \<and> count_ones64 m = 64 - leading_zeros64 m
          then Some (TFused (SigRangeEqC dr d sig lo (64 - leading_zeros64 m) k)) else None
      | TBasic (And d a b) \<Rightarrow> if a = dr \<or> b = dr then Some (TFused2 (SigRangeAnd dr sig lo m d a b)) else None
      | TBasic (Eq d a b) \<Rightarrow> if a = dr \<or> b = dr then Some (TFused2 (SigRangeEq dr sig lo m d a b)) else None
      | _ \<Rightarrow> None)"

definition fuse_log_not :: "nat \<Rightarrow> nat \<Rightarrow> 's ts_insn \<Rightarrow> 's ts_insn option" where
  "fuse_log_not dn s j =
     (case j of
        TBasic (And d a b) \<Rightarrow> if a = dn \<or> b = dn then Some (TFused (LogNotAnd dn s d a b)) else None
      | TCmp (LogAnd d a b) \<Rightarrow> if a = dn \<or> b = dn then Some (TFused (LogNotLogAnd dn s d a b)) else None
      | _ \<Rightarrow> None)"

definition fuse_log_and :: "nat \<Rightarrow> nat \<Rightarrow> nat \<Rightarrow> 's ts_insn \<Rightarrow> 's ts_insn option" where
  "fuse_log_and d a b j =
     (case j of
        TStore (Store sig s m) \<Rightarrow> if s = d then Some (TFused (LogAndStore d a b sig m)) else None
      | _ \<Rightarrow> None)"

definition fuse_log_or :: "nat \<Rightarrow> nat \<Rightarrow> nat \<Rightarrow> 's ts_insn \<Rightarrow> 's ts_insn option" where
  "fuse_log_or d a b j =
     (case j of
        TStore (Store sig s m) \<Rightarrow> if s = d then Some (TFused2 (LogOrStore d a b sig m)) else None
      | _ \<Rightarrow> None)"

definition fuse_and :: "nat \<Rightarrow> nat \<Rightarrow> nat \<Rightarrow> 's ts_insn \<Rightarrow> 's ts_insn option" where
  "fuse_and d1 a1 b1 j =
     (case j of
        TStore (RangeStore sig hi lo s m) \<Rightarrow>
          if s = d1 \<and> m = ts_mask (range_width hi lo) then Some (TFused (AndRangeStore d1 a1 b1 sig hi lo)) else None
      | TBasic (Or d a b) \<Rightarrow> if a = d1 \<or> b = d1 then Some (TFused2 (AndOr d1 a1 b1 d a b)) else None
      | _ \<Rightarrow> None)"

definition fuse_or :: "nat \<Rightarrow> nat \<Rightarrow> nat \<Rightarrow> 's ts_insn \<Rightarrow> 's ts_insn option" where
  "fuse_or d a b j =
     (case j of
        TStore (RangeStore sig hi lo s m) \<Rightarrow>
          if s = d \<and> m = ts_mask (range_width hi lo) then Some (TFused2 (OrRangeStore d a b sig hi lo)) else None
      | _ \<Rightarrow> None)"

definition fuse_sig_bit :: "nat \<Rightarrow> nat \<Rightarrow> nat \<Rightarrow> 's ts_insn \<Rightarrow> 's ts_insn option" where
  "fuse_sig_bit db sig bt j =
     (case j of
        TCmp (LogNot d s) \<Rightarrow> if s = db then Some (TFused (SigBitNot db d sig bt)) else None
      | TBasic (SigBit d2 sig2 bit2) \<Rightarrow> Some (TFused2 (SigBit2 db sig bt d2 sig2 bit2))
      | _ \<Rightarrow> None)"

definition fuse_branch :: "'s ts_insn \<Rightarrow> 's ts_insn \<Rightarrow> 's ts_insn option" where
  "fuse_branch i j =
     (case i of
        TCtrl (BrFalse s t) \<Rightarrow>
          (case j of TBasic (LoadSig dl sig) \<Rightarrow> Some (TFused2 (BrFalseLoadSig s t dl sig)) | _ \<Rightarrow> None)
      | TBasic (Eq d a b) \<Rightarrow>
          (case j of TCtrl (BrFalse s t) \<Rightarrow> if s = d then Some (TFused2 (EqBrFalse d a b t)) else None | _ \<Rightarrow> None)
      | TBasic (EqC d s k) \<Rightarrow>
          (case j of TCtrl (BrFalse c t) \<Rightarrow> if c = d then Some (TFused2 (EqCBrFalse d s k t)) else None | _ \<Rightarrow> None)
      | TBasic (Const dc v) \<Rightarrow>
          (case j of TBasic (Eq d a b) \<Rightarrow> if a = dc \<or> b = dc then Some (TFused2 (ConstEq dc v d a b)) else None | _ \<Rightarrow> None)
      | _ \<Rightarrow> None)"

definition fuse_pair :: "'s ts_insn \<Rightarrow> 's ts_insn \<Rightarrow> 's ts_insn option" where
  "fuse_pair i j =
     (case i of
        TBasic (LoadSig dl sig) \<Rightarrow> fuse_load dl sig j
      | TBasic (SigRange dr sig lo m) \<Rightarrow> fuse_sig_range dr sig lo m j
      | TCmp (LogNot dn s) \<Rightarrow> fuse_log_not dn s j
      | TCmp (LogAnd d a b) \<Rightarrow> fuse_log_and d a b j
      | TCmp (LogOr d a b) \<Rightarrow> fuse_log_or d a b j
      | TBasic (And d a b) \<Rightarrow> fuse_and d a b j
      | TBasic (Or d a b) \<Rightarrow> fuse_or d a b j
      | TBasic (SigBit d sig bt) \<Rightarrow> fuse_sig_bit d sig bt j
      | _ \<Rightarrow> fuse_branch i j)"

text \<open>The three-instruction form: data load, index load, element store.\<close>

definition fuse_triple :: "'s ts_insn \<Rightarrow> 's ts_insn \<Rightarrow> 's ts_insn \<Rightarrow> ('s ts_insn \<times> 's ts_insn) option" where
  "fuse_triple i j k =
     (case i of TBasic (LoadSig d1 sig1) \<Rightarrow>
        (case j of TBasic (LoadSig d2 sig2) \<Rightarrow>
           (case k of TElem (ElemStoreNba op) \<Rightarrow>
              if el_s op = d1 \<and> el_idx op = d2
              then Some (TBasic (LoadSig d2 sig2),
                         TElem (ElemStoreNbaFromSig \<lparr>es_sig = sig1, es_dl = d1, es_op = op\<rparr>))
              else None
            | _ \<Rightarrow> None)
         | _ \<Rightarrow> None)
      | _ \<Rightarrow> None)"

section \<open>Targets\<close>

text \<open>The targets the first loop marks; the last loop relocates three more fused forms.\<close>

definition fuse_targets :: "'s ts_insn \<Rightarrow> nat list" where
  "fuse_targets i =
     (case i of
        TCtrl (BrSigFalse _ _ t) \<Rightarrow> [t]
      | TCtrl (BrFalse _ t) \<Rightarrow> [t]
      | TCtrl (BrNz _ t) \<Rightarrow> [t]
      | TFused2 (EqCBrFalse _ _ _ t) \<Rightarrow> [t]
      | TCtrl (Jmp t) \<Rightarrow> [t]
      | TCtrl (CaseMaskJmp _ cm) \<Rightarrow> mj_table (cm_mj cm) @ [mj_xz_path (cm_mj cm)]
      | TCtrl (CaseJmp _ cj) \<Rightarrow> cj_table cj @ [cj_default cj]
      | _ \<Rightarrow> [])"

definition mark_targets :: "'s ts_insn list \<Rightarrow> bool list" where
  "mark_targets out =
     fold (\<lambda>t tg. if t \<le> length out then tg[t := True] else tg) (concat (map fuse_targets out))
       (replicate (length out + 1) False)"

definition relocate :: "(nat \<Rightarrow> nat) \<Rightarrow> 's ts_insn \<Rightarrow> 's ts_insn" where
  "relocate f i =
     (case i of
        TCtrl (BrSigFalse sig bt t) \<Rightarrow> TCtrl (BrSigFalse sig bt (f t))
      | TCtrl (BrFalse s t) \<Rightarrow> TCtrl (BrFalse s (f t))
      | TCtrl (BrNz s t) \<Rightarrow> TCtrl (BrNz s (f t))
      | TFused2 (LoadSigBrNz dl sig t) \<Rightarrow> TFused2 (LoadSigBrNz dl sig (f t))
      | TFused2 (BrFalseLoadSig s t dl sig) \<Rightarrow> TFused2 (BrFalseLoadSig s (f t) dl sig)
      | TFused2 (EqBrFalse d a b t) \<Rightarrow> TFused2 (EqBrFalse d a b (f t))
      | TFused2 (EqCBrFalse d s k t) \<Rightarrow> TFused2 (EqCBrFalse d s k (f t))
      | TCtrl (Jmp t) \<Rightarrow> TCtrl (Jmp (f t))
      | TCtrl (CaseMaskJmp s cm) \<Rightarrow>
          TCtrl (CaseMaskJmp s (cm\<lparr>cm_mj := (cm_mj cm)\<lparr>mj_table := map f (mj_table (cm_mj cm)),
                                                       mj_xz_path := f (mj_xz_path (cm_mj cm))\<rparr>\<rparr>))
      | TCtrl (CaseJmp s cj) \<Rightarrow> TCtrl (CaseJmp s (cj\<lparr>cj_table := map f (cj_table cj), cj_default := f (cj_default cj)\<rparr>))
      | _ \<Rightarrow> i)"

section \<open>The pass\<close>

text \<open>The loop over the stream: \<open>fused\<close> is the output so far, \<open>new_of\<close> the new index of every
  old one, \<open>any\<close> whether something was fused.\<close>

function fuse_loop ::
  "'s ts_insn list \<Rightarrow> bool list \<Rightarrow> nat \<Rightarrow> 's ts_insn list \<Rightarrow> nat list \<Rightarrow> bool \<Rightarrow>
   's ts_insn list \<times> nat list \<times> bool" where
  "fuse_loop out tg i fused new_of any =
     (if i < length out
      then let new_of = new_of[i := length fused]
           in case (if i + 2 < length out \<and> \<not> tg ! (i + 1) \<and> \<not> tg ! (i + 2)
                    then fuse_triple (out ! i) (out ! (i + 1)) (out ! (i + 2)) else None) of
                Some (x, y) \<Rightarrow>
                  fuse_loop out tg (i + 3) (fused @ [x, y])
                    (new_of[i + 1 := length fused, i + 2 := length fused + 1]) True
              | None \<Rightarrow>
                  (case (if i + 1 < length out \<and> \<not> tg ! (i + 1)
                         then fuse_pair (out ! i) (out ! (i + 1)) else None) of
                     Some f \<Rightarrow>
                       fuse_loop out tg (i + 2) (fused @ [f]) (new_of[i + 1 := length fused]) True
                   | None \<Rightarrow> fuse_loop out tg (i + 1) (fused @ [out ! i]) new_of any)
      else (fused, new_of, any))"
  by pat_completeness auto
termination
  by (relation "measure (\<lambda>(out, _, i, _). length out - i)") auto

declare fuse_loop.simps [simp del]

definition fuse_ts_pairs :: "'s ts_insn list \<Rightarrow> 's ts_insn list" where
  "fuse_ts_pairs out =
     (let n = length out
      in if n < 2 then out
         else case fuse_loop out (mark_targets out) 0 [] (replicate (n + 1) 0) False of
                (fused, new_of, any) \<Rightarrow>
                  if \<not> any then out
                  else let new_of = new_of[n := length fused]
                       in map (relocate (\<lambda>t. new_of ! min t n)) fused)"

text \<open>Back-edges poll for Ctrl-C (the loop after the pass in \<^verbatim>\<open>lower_two_state\<close>).\<close>

definition poll_back_edges :: "'s ts_insn list \<Rightarrow> 's ts_insn list" where
  "poll_back_edges out =
     map (\<lambda>(i, insn). case insn of
            TCtrl (Jmp t) \<Rightarrow> if t \<le> i then TCtrl (JmpPoll t) else insn
          | _ \<Rightarrow> insn) (enumerate 0 out)"

section \<open>A fused instruction executes like its components\<close>

text \<open>One instruction after the other.\<close>

definition seq2 ::
  "('v, 'o, 's) env \<Rightarrow> 's ts_insn \<Rightarrow> 's ts_insn \<Rightarrow> regs \<Rightarrow> ('v, 'o) sim \<Rightarrow> regs \<times> ('v, 'o) sim \<times> ts_out" where
  "seq2 E i j r s =
     (case ctrl_insn E i r s of
        (r, s, Next) \<Rightarrow> ctrl_insn E j r s
      | (r, s, out) \<Rightarrow> (r, s, out))"

text \<open>A mask whose ones are contiguous from bit 0 is the mask of its bit length.\<close>

lemma contiguous_mask:
  assumes "count_ones64 m = 64 - leading_zeros64 m"
  shows "ts_mask (64 - leading_zeros64 m) = m"
proof -
  let ?L = "bit_len (unat m)"
  have L: "64 - leading_zeros64 m = ?L"
    using bit_len_unat64[of m] by (simp add: leading_zeros64_def)
  have sub: "{i. bit m i} \<subseteq> {..<?L}"
  proof
    fix i assume "i \<in> {i. bit m i}"
    then have bt: "bit (unat m) i" by (simp add: bit_unsigned_iff)
    show "i \<in> {..<?L}"
    proof (rule ccontr)
      assume "i \<notin> {..<?L}"
      then have "unat m < 2 ^ i" by (simp flip: bit_len_le_iff)
      then have "take_bit i (unat m) = unat m" by (simp add: take_bit_nat_eq_self)
      then have "\<not> bit (unat m) i" by (metis bit_take_bit_iff less_irrefl)
      then show False using bt by simp
    qed
  qed
  have "card {i. bit m i} = card {..<?L}"
    using assms L by (simp add: count_ones64_def)
  then have "{i. bit m i} = {..<?L}"
    using sub by (intro card_subset_eq) auto
  then have "bit m i \<longleftrightarrow> i < ?L" for i by blast
  then show ?thesis
    unfolding L by (intro bit_word_eqI) (auto simp: bit_ts_mask)
qed

lemma mask_expr: "(if w \<ge> 64 then - 1 else shl64 1 w - 1) = ts_mask w"
  by (simp add: ts_mask_def)

lemmas seq_simps = seq2_def with_sig_def Let_def mask_expr

lemma fuse_sig_range_seq:
  "fuse_sig_range dr sig lo m j = Some f \<Longrightarrow>
   ctrl_insn E f r s = seq2 E (TBasic (SigRange dr sig lo m)) j r s"
  by (auto simp: fuse_sig_range_def seq_simps contiguous_mask
      split: ts_insn.splits ts_basic.splits if_splits prod.splits)

lemma fuse_log_not_seq:
  "fuse_log_not dn sr j = Some f \<Longrightarrow> ctrl_insn E f r s = seq2 E (TCmp (LogNot dn sr)) j r s"
  by (auto simp: fuse_log_not_def seq_simps
      split: ts_insn.splits ts_basic.splits ts_cmp.splits if_splits)

lemma fuse_log_and_seq:
  "fuse_log_and d a b j = Some f \<Longrightarrow> ctrl_insn E f r s = seq2 E (TCmp (LogAnd d a b)) j r s"
  by (auto simp: fuse_log_and_def seq_simps split: ts_insn.splits ts_store_insn.splits if_splits)

lemma fuse_log_or_seq:
  "fuse_log_or d a b j = Some f \<Longrightarrow> ctrl_insn E f r s = seq2 E (TCmp (LogOr d a b)) j r s"
  by (auto simp: fuse_log_or_def seq_simps split: ts_insn.splits ts_store_insn.splits if_splits)

lemma fuse_and_seq:
  "fuse_and d a b j = Some f \<Longrightarrow> ctrl_insn E f r s = seq2 E (TBasic (And d a b)) j r s"
  by (auto simp: fuse_and_def seq_simps
      split: ts_insn.splits ts_basic.splits ts_store_insn.splits if_splits)

lemma fuse_or_seq:
  "fuse_or d a b j = Some f \<Longrightarrow> ctrl_insn E f r s = seq2 E (TBasic (Or d a b)) j r s"
  by (auto simp: fuse_or_def seq_simps split: ts_insn.splits ts_store_insn.splits if_splits)

lemma fuse_sig_bit_seq:
  "fuse_sig_bit db sig bt j = Some f \<Longrightarrow> ctrl_insn E f r s = seq2 E (TBasic (SigBit db sig bt)) j r s"
  by (auto simp: fuse_sig_bit_def seq_simps
      split: ts_insn.splits ts_basic.splits ts_cmp.splits if_splits prod.splits)

lemma fuse_branch_seq:
  "fuse_branch i j = Some f \<Longrightarrow> ctrl_insn E f r s = seq2 E i j r s"
  by (auto simp: fuse_branch_def seq_simps
      split: ts_insn.splits ts_basic.splits ts_ctrl.splits if_splits prod.splits)

text \<open>A load before an element store: the fused form takes the data with its x plane, where the
  components give up the two-state run.\<close>

fun elem_store_nba :: "'s ts_insn \<Rightarrow> bool" where
  "elem_store_nba (TElem (ElemStoreNba _)) = True"
| "elem_store_nba _ = False"

abbreviation bails :: "regs \<times> ('v, 'o) sim \<times> ts_out \<Rightarrow> bool" where
  "bails res \<equiv> snd (snd res) = Ret False"

lemma fuse_load_seq:
  assumes "fuse_load dl sig j = Some f"
  shows "ctrl_insn E f r s = seq2 E (TBasic (LoadSig dl sig)) j r s \<or>
    elem_store_nba j \<and> (mirror_ok E s \<longrightarrow> bails (seq2 E (TBasic (LoadSig dl sig)) j r s))"
proof (cases "elem_store_nba j")
  case True
  then obtain op where j: "j = TElem (ElemStoreNba op)" by (cases j rule: elem_store_nba.cases) auto
  with assms have op: "el_s op = dl" and f: "f = TElem (ElemStoreNbaFromSig \<lparr>es_sig = sig, es_dl = dl, es_op = op\<rparr>)"
    by (auto simp: fuse_load_def split: if_splits)
  obtain v x where raw: "sig_raw E s sig = (v, x)" by force
  show ?thesis
  proof (cases "mirror_ok E s")
    case True
    then have pl: "sig_planes E s sig = (v, x)" using raw by (simp add: mirror_sig_planes)
    show ?thesis
      by (cases "x = 0") (simp_all add: j f op raw pl seq2_def with_sig_def Let_def)
  qed (simp add: j)
next
  case False
  then show ?thesis
    using assms by (auto simp: fuse_load_def seq_simps
      split: ts_insn.splits ts_basic.splits ts_cmp.splits ts_ctrl.splits ts_tail.splits ts_elem.splits if_splits prod.splits)
qed

lemma fuse_pair_seq:
  assumes "fuse_pair i j = Some f"
  shows "ctrl_insn E f r s = seq2 E i j r s \<or>
    elem_store_nba j \<and> (mirror_ok E s \<longrightarrow> bails (seq2 E i j r s))"
proof (cases "\<exists>dl sig. i = TBasic (LoadSig dl sig)")
  case True
  then obtain dl sig where i: "i = TBasic (LoadSig dl sig)" by blast
  then have "fuse_load dl sig j = Some f" using assms by (simp add: fuse_pair_def)
  then show ?thesis unfolding i by (rule fuse_load_seq)
next
  case False
  then have "ctrl_insn E f r s = seq2 E i j r s"
    using assms unfolding fuse_pair_def
    by (auto split: ts_insn.splits ts_basic.splits ts_cmp.splits
        intro: fuse_sig_range_seq fuse_log_not_seq fuse_log_and_seq fuse_log_or_seq fuse_and_seq
          fuse_or_seq fuse_sig_bit_seq fuse_branch_seq)
  then show ?thesis ..
qed

text \<open>The triple: three instructions against the remaining load and the fused store.  It needs
  the two loads to have different destinations.\<close>

definition seq3 ::
  "('v, 'o, 's) env \<Rightarrow> 's ts_insn \<Rightarrow> 's ts_insn \<Rightarrow> 's ts_insn \<Rightarrow> regs \<Rightarrow> ('v, 'o) sim \<Rightarrow>
   regs \<times> ('v, 'o) sim \<times> ts_out" where
  "seq3 E i j k r s =
     (case ctrl_insn E i r s of
        (r, s, Next) \<Rightarrow> seq2 E j k r s
      | (r, s, out) \<Rightarrow> (r, s, out))"

fun loads_distinct :: "'s ts_insn \<Rightarrow> 's ts_insn \<Rightarrow> bool" where
  "loads_distinct (TBasic (LoadSig d1 _)) (TBasic (LoadSig d2 _)) = (d1 \<noteq> d2)"
| "loads_distinct _ _ = True"

lemma fuse_triple_seq:
  assumes "fuse_triple i j k = Some (x, y)" and "loads_distinct i j" and "mirror_ok E s"
  shows "elem_store_nba k \<and> (seq2 E x y r s = seq3 E i j k r s \<or> bails (seq3 E i j k r s))"
proof -
  obtain d1 sig1 d2 sig2 op where i: "i = TBasic (LoadSig d1 sig1)" and j: "j = TBasic (LoadSig d2 sig2)"
    and k: "k = TElem (ElemStoreNba op)" and op: "el_s op = d1" "el_idx op = d2"
    and xy: "x = TBasic (LoadSig d2 sig2)"
      "y = TElem (ElemStoreNbaFromSig \<lparr>es_sig = sig1, es_dl = d1, es_op = op\<rparr>)"
    using assms(1) by (auto simp: fuse_triple_def split: ts_insn.splits ts_basic.splits ts_elem.splits if_splits)
  have d: "d1 \<noteq> d2" using assms(2) i j by simp
  obtain v1 x1 v2 x2 where raw: "sig_raw E s sig1 = (v1, x1)" "sig_raw E s sig2 = (v2, x2)"
    by (meson surj_pair)
  have pl: "sig_planes E s sig1 = (v1, x1)" "sig_planes E s sig2 = (v2, x2)"
    using raw assms(3) by (simp_all add: mirror_sig_planes)
  show ?thesis
  proof (cases "x1 = 0 \<and> x2 = 0")
    case True
    then have "seq2 E x y r s = seq3 E i j k r s"
      using d by (simp add: i j k xy op raw pl seq3_def seq2_def with_sig_def Let_def fun_upd_twist)
    then show ?thesis by (simp add: k)
  next
    case False
    then have "bails (seq3 E i j k r s)"
      by (auto simp: i j k op pl seq3_def seq2_def with_sig_def Let_def)
    then show ?thesis by (simp add: k)
  qed
qed

section \<open>The shape of the output\<close>

text \<open>\<open>aligned out tg new_of fused i j\<close>: from \<open>j\<close> on, the output is a fusion of the input from \<open>i\<close>
  on, \<open>new_of\<close> says so, and no branch target is skipped.\<close>

inductive aligned :: "'s ts_insn list \<Rightarrow> bool list \<Rightarrow> nat list \<Rightarrow> 's ts_insn list \<Rightarrow> nat \<Rightarrow> nat \<Rightarrow> bool"
  for out tg new_of fused where
  finish: "new_of ! length out = length fused \<Longrightarrow> aligned out tg new_of fused (length out) (length fused)"
| single: "i < length out \<Longrightarrow> j < length fused \<Longrightarrow> new_of ! i = j \<Longrightarrow> fused ! j = out ! i \<Longrightarrow>
    aligned out tg new_of fused (i + 1) (j + 1) \<Longrightarrow> aligned out tg new_of fused i j"
| pair: "i + 1 < length out \<Longrightarrow> j < length fused \<Longrightarrow> new_of ! i = j \<Longrightarrow> \<not> tg ! (i + 1) \<Longrightarrow>
    fuse_pair (out ! i) (out ! (i + 1)) = Some (fused ! j) \<Longrightarrow>
    aligned out tg new_of fused (i + 2) (j + 1) \<Longrightarrow> aligned out tg new_of fused i j"
| triple: "i + 2 < length out \<Longrightarrow> j + 1 < length fused \<Longrightarrow> new_of ! i = j \<Longrightarrow> \<not> tg ! (i + 1) \<Longrightarrow>
    \<not> tg ! (i + 2) \<Longrightarrow>
    fuse_triple (out ! i) (out ! (i + 1)) (out ! (i + 2)) = Some (fused ! j, fused ! (j + 1)) \<Longrightarrow>
    aligned out tg new_of fused (i + 3) (j + 2) \<Longrightarrow> aligned out tg new_of fused i j"

lemma aligned_new_of: "aligned out tg new_of fused i j \<Longrightarrow> new_of ! i = j"
  by (erule aligned.cases) simp_all

lemma aligned_at:
  "aligned out tg new_of fused i j \<Longrightarrow> i \<le> t \<Longrightarrow> t = length out \<or> t < length out \<and> tg ! t \<Longrightarrow>
   aligned out tg new_of fused t (new_of ! t)"
proof (induction rule: aligned.induct)
  case finish
  then show ?case by (auto intro: aligned.finish)
next
  case (single i j)
  show ?case
  proof (cases "t = i")
    case True
    then show ?thesis using single aligned.single by metis
  qed (use single in auto)
next
  case (pair i j)
  consider "t = i" | "t = i + 1" | "i + 2 \<le> t" using pair.prems(1) by linarith
  then show ?case
  proof cases
    case 1
    then show ?thesis using pair aligned.pair by metis
  next
    case 2
    then show ?thesis using pair by auto
  next
    case 3
    then show ?thesis using pair by blast
  qed
next
  case (triple i j)
  consider "t = i" | "t = i + 1" | "t = i + 2" | "i + 3 \<le> t" using triple.prems(1) by linarith
  then show ?case
  proof cases
    case 1
    then show ?thesis using triple aligned.triple by metis
  next
    case 2
    then show ?thesis using triple by auto
  next
    case 3
    then show ?thesis using triple by auto
  next
    case 4
    then show ?thesis using triple by blast
  qed
qed

text \<open>The loop builds an aligned output.\<close>

lemma fuse_loop_aligned:
  assumes "fuse_loop out tg i fused0 new0 any0 = (fused, new_of, any)"
    and "i \<le> length out" and "length new0 = length out + 1"
  shows "\<exists>ys. fused = fused0 @ ys" and "length new_of = length out + 1"
    and "\<forall>k<i. new_of ! k = new0 ! k"
    and "aligned out tg (new_of[length out := length fused]) fused i (length fused0)"
proof -
  let ?ok = "\<lambda>i fused0 new0. (\<exists>ys. fused = fused0 @ ys) \<and> length new_of = length out + 1 \<and>
    (\<forall>k<i. new_of ! k = new0 ! k) \<and>
    aligned out tg (new_of[length out := length fused]) fused i (length fused0)"
  have "?ok i fused0 new0"
    using assms
  proof (induction out tg i fused0 new0 any0 rule: fuse_loop.induct)
    case (1 out tg i fused0 new0 any0)
    let ?N = "new_of[length out := length fused]"
    show ?case
    proof (cases "i < length out")
      case False
      then have "i = length out" using "1.prems"(2) by simp
      moreover from False have "fused = fused0" "new_of = new0"
        using "1.prems"(1) by (subst (asm) fuse_loop.simps; simp)+
      ultimately show ?thesis using "1.prems"(3) aligned.finish[of ?N out fused tg] by simp
    next
      case True
      let ?new = "new0[i := length fused0]"
      let ?trip = "if i + 2 < length out \<and> \<not> tg ! (i + 1) \<and> \<not> tg ! (i + 2)
        then fuse_triple (out ! i) (out ! (i + 1)) (out ! (i + 2)) else None"
      let ?pr = "if i + 1 < length out \<and> \<not> tg ! (i + 1)
        then fuse_pair (out ! i) (out ! (i + 1)) else None"
      show ?thesis
      proof (cases ?trip)
        case (Some xy)
        obtain x y where xy: "xy = (x, y)" by force
        note tr = Some[unfolded xy]
        from tr have c: "i + 2 < length out" "\<not> tg ! (i + 1)" "\<not> tg ! (i + 2)"
          "fuse_triple (out ! i) (out ! (i + 1)) (out ! (i + 2)) = Some (x, y)"
          by (auto split: if_splits)
        let ?new' = "?new[i + 1 := length fused0, i + 2 := length fused0 + 1]"
        have eq: "fuse_loop out tg (i + 3) (fused0 @ [x, y]) ?new' True = (fused, new_of, any)"
          using "1.prems"(1) True tr by (subst (asm) fuse_loop.simps) (simp add: Let_def)
        have IH: "(\<exists>ys. fused = (fused0 @ [x, y]) @ ys) \<and> length new_of = length out + 1 \<and>
            (\<forall>k<i + 3. new_of ! k = ?new' ! k) \<and>
            aligned out tg ?N fused (i + 3) (length (fused0 @ [x, y]))"
          using "1.IH"(3)[OF True refl tr refl eq] c(1) "1.prems"(3) by simp
        then obtain ys where ys: "fused = fused0 @ x # y # ys" by auto
        have "aligned out tg ?N fused i (length fused0)"
        proof (rule aligned.triple)
          show "?N ! i = length fused0" using IH c(1) "1.prems"(3) by (simp add: nth_list_update)
          show "fuse_triple (out ! i) (out ! (i + 1)) (out ! (i + 2)) =
            Some (fused ! length fused0, fused ! (length fused0 + 1))"
            using c(4) ys by (simp add: nth_append)
        qed (use c ys IH in simp_all)
        then show ?thesis using IH "1.prems"(3) by auto
      next
        case None
        note no_trip = None
        show ?thesis
        proof (cases ?pr)
          case (Some f)
          then have c: "i + 1 < length out" "\<not> tg ! (i + 1)" "fuse_pair (out ! i) (out ! (i + 1)) = Some f"
            by (auto split: if_splits)
          let ?new' = "?new[i + 1 := length fused0]"
          have eq: "fuse_loop out tg (i + 2) (fused0 @ [f]) ?new' True = (fused, new_of, any)"
            using "1.prems"(1) True no_trip Some by (subst (asm) fuse_loop.simps) (simp add: Let_def)
          have IH: "(\<exists>ys. fused = (fused0 @ [f]) @ ys) \<and> length new_of = length out + 1 \<and>
              (\<forall>k<i + 2. new_of ! k = ?new' ! k) \<and>
              aligned out tg ?N fused (i + 2) (length (fused0 @ [f]))"
            using "1.IH"(2)[OF True refl no_trip Some eq] c(1) "1.prems"(3) by simp
          then obtain ys where ys: "fused = fused0 @ f # ys" by auto
          have "aligned out tg ?N fused i (length fused0)"
          proof (rule aligned.pair)
            show "?N ! i = length fused0" using IH c(1) "1.prems"(3) by (simp add: nth_list_update)
            show "fuse_pair (out ! i) (out ! (i + 1)) = Some (fused ! length fused0)"
              using c(3) ys by (simp add: nth_append)
          qed (use c ys IH in simp_all)
          then show ?thesis using IH "1.prems"(3) by auto
        next
          case None
          have eq: "fuse_loop out tg (i + 1) (fused0 @ [out ! i]) ?new any0 = (fused, new_of, any)"
            using "1.prems"(1) True no_trip None by (subst (asm) fuse_loop.simps) (simp add: Let_def)
          have IH: "(\<exists>ys. fused = (fused0 @ [out ! i]) @ ys) \<and> length new_of = length out + 1 \<and>
              (\<forall>k<i + 1. new_of ! k = ?new ! k) \<and>
              aligned out tg ?N fused (i + 1) (length (fused0 @ [out ! i]))"
            using "1.IH"(1)[OF True refl no_trip None eq] True "1.prems"(3) by simp
          then obtain ys where ys: "fused = fused0 @ out ! i # ys" by auto
          have "aligned out tg ?N fused i (length fused0)"
          proof (rule aligned.single)
            show "?N ! i = length fused0" using IH True "1.prems"(3) by (simp add: nth_list_update)
            show "fused ! length fused0 = out ! i" using ys by (simp add: nth_append)
          qed (use True ys IH in simp_all)
          then show ?thesis using IH "1.prems"(3) by auto
        qed
      qed
    qed
  qed
  then show "\<exists>ys. fused = fused0 @ ys" "length new_of = length out + 1"
    "\<forall>k<i. new_of ! k = new0 ! k"
    "aligned out tg (new_of[length out := length fused]) fused i (length fused0)" by blast+
qed

end
