(* ===== verification/Ts_Fuse_Sim.thy ===== *)
theory Ts_Fuse_Sim
  imports Ts_Fuse
begin

text \<open>
  The fusion pass keeps executions: the interpretation of \<open>step_refinement\<close> that relates a
  lowered stream with its fused and relocated form.
\<close>

section \<open>Several instructions at once\<close>

definition outcome ::
  "nat \<Rightarrow> regs \<times> ('v, 'o) sim \<times> ts_out \<Rightarrow> (nat \<times> regs \<times> ('v, 'o) sim) + ('v, 'o) ts_result" where
  "outcome n res =
     (case res of
        (r, s, Next) \<Rightarrow> Inl (n, r, s)
      | (r, s, Goto t) \<Rightarrow> Inl (t, r, s)
      | (r, s, Ret b) \<Rightarrow> Inr (Some b, r, s)
      | (r, s, Unreachable) \<Rightarrow> Inr (None, r, s))"

lemma ctrl_step_outcome:
  "pc < length insns \<Longrightarrow> ctrl_step E insns (pc, r, s) = outcome (pc + 1) (ctrl_insn E (insns ! pc) r s)"
  by (simp add: ctrl_step_def outcome_def)

lemma ctrl_step_exit: "length insns \<le> pc \<Longrightarrow> ctrl_step E insns (pc, r, s) = Inr (Some True, r, s)"
  by (simp add: ctrl_step_def)

lemma steps_1: "steps (ctrl_step E insns) (Suc 0) c = ctrl_step E insns c"
  by (auto split: sum.splits)

lemma steps_seq2:
  assumes "pc + 1 < length insns"
  shows "\<exists>k. steps (ctrl_step E insns) (Suc k) (pc, r, s) =
    outcome (pc + 2) (seq2 E (insns ! pc) (insns ! (pc + 1)) r s)"
proof -
  obtain r' s' out where res: "ctrl_insn E (insns ! pc) r s = (r', s', out)"
    using prod_cases3 by blast
  show ?thesis
  proof (cases "out = Next")
    case True
    have "ctrl_step E insns (pc, r, s) = Inl (pc + 1, r', s')"
      using assms True by (simp add: ctrl_step_outcome res outcome_def)
    moreover have "steps (ctrl_step E insns) (Suc 0) (pc + 1, r', s') =
        outcome (pc + 2) (ctrl_insn E (insns ! (pc + 1)) r' s')"
      using ctrl_step_outcome[OF assms] steps_1 by (metis add.assoc one_add_one)
    ultimately have "steps (ctrl_step E insns) (Suc (Suc 0)) (pc, r, s) =
        outcome (pc + 2) (seq2 E (insns ! pc) (insns ! (pc + 1)) r s)"
      using True by (simp only: steps.simps(2) sum.case) (simp add: seq2_def res)
    then show ?thesis ..
  next
    case False
    then have "steps (ctrl_step E insns) (Suc 0) (pc, r, s) =
        outcome (pc + 2) (seq2 E (insns ! pc) (insns ! (pc + 1)) r s)"
      using assms by (cases out) (simp_all add: ctrl_step_outcome res seq2_def outcome_def)
    then show ?thesis ..
  qed
qed

lemma steps_seq3:
  assumes "pc + 2 < length insns"
  shows "\<exists>k. steps (ctrl_step E insns) (Suc k) (pc, r, s) =
    outcome (pc + 3) (seq3 E (insns ! pc) (insns ! (pc + 1)) (insns ! (pc + 2)) r s)"
proof -
  obtain r' s' out where res: "ctrl_insn E (insns ! pc) r s = (r', s', out)"
    using prod_cases3 by blast
  show ?thesis
  proof (cases "out = Next")
    case True
    obtain k where k: "steps (ctrl_step E insns) (Suc k) (pc + 1, r', s') =
        outcome (pc + 3) (seq2 E (insns ! (pc + 1)) (insns ! (pc + 2)) r' s')"
      using steps_seq2[of "pc + 1" insns E r' s'] assms by (auto simp: numeral_eq_Suc)
    have "ctrl_step E insns (pc, r, s) = Inl (pc + 1, r', s')"
      using assms True by (simp add: ctrl_step_outcome res outcome_def)
    then have "steps (ctrl_step E insns) (Suc (Suc k)) (pc, r, s) =
        outcome (pc + 3) (seq3 E (insns ! pc) (insns ! (pc + 1)) (insns ! (pc + 2)) r s)"
      using True k by (simp only: steps.simps(2) sum.case) (simp add: seq3_def res)
    then show ?thesis ..
  next
    case False
    then have "steps (ctrl_step E insns) (Suc 0) (pc, r, s) =
        outcome (pc + 3) (seq3 E (insns ! pc) (insns ! (pc + 1)) (insns ! (pc + 2)) r s)"
      using assms by (cases out) (simp_all add: ctrl_step_outcome res seq3_def outcome_def)
    then show ?thesis ..
  qed
qed

section \<open>Targets\<close>

text \<open>The forms that only later passes produce; their targets are not marked.\<close>

fun fusable :: "'s ts_insn \<Rightarrow> bool" where
  "fusable (TFused2 (LoadSigBrNz _ _ _)) = False"
| "fusable (TFused2 (BrFalseLoadSig _ _ _ _)) = False"
| "fusable (TFused2 (EqBrFalse _ _ _ _)) = False"
| "fusable (TCtrl (JmpPoll _)) = False"
| "fusable _ = True"

fun polls :: "'s ts_insn \<Rightarrow> bool" where
  "polls (TCtrl (JmpPoll _)) = True"
| "polls _ = False"

lemma mark_targets_nth:
  assumes "i \<in> set out" and "t \<in> set (fuse_targets i)" and "t \<le> length out"
  shows "mark_targets out ! t"
proof -
  let ?n = "length out"
  have mark: "fold (\<lambda>t tg. if t \<le> ?n then tg[t := True] else tg) ts tg ! t \<longleftrightarrow> t \<in> set ts \<or> tg ! t"
    if "length tg = ?n + 1" for ts tg
    using that
  proof (induction ts arbitrary: tg)
    case (Cons u ts)
    then show ?case using assms(3) by (auto simp: nth_list_update)
  qed simp
  have "t \<in> set (concat (map fuse_targets out))" using assms by auto
  then show ?thesis unfolding mark_targets_def using mark by simp
qed

abbreviation retarget :: "(nat \<Rightarrow> nat) \<Rightarrow> 'a \<times> 'b \<times> ts_out \<Rightarrow> 'a \<times> 'b \<times> ts_out" where
  "retarget f res \<equiv> (case res of (r, s, Goto t) \<Rightarrow> (r, s, Goto (f t)) | (r, s, out) \<Rightarrow> (r, s, out))"

lemma relocate_basic: "ctrl_basic E i r s = (r', s', Goto t) \<Longrightarrow> False"
  by (cases i) (auto simp: with_sig_def with_slice_def split: prod.splits if_splits)

lemma line_not_goto: "straight i \<Longrightarrow> ctrl_insn E i r s = (r', s', Goto t) \<Longrightarrow> False"
  using line_ctrl_insn line_insn_out by (metis snd_conv)

lemma relocate_straight: "straight i \<Longrightarrow> relocate f i = i"
  by (cases i rule: straight.cases) (simp_all add: relocate_def)

fun waits :: "'s ts_insn \<Rightarrow> bool" where
  "waits (TTail (WaitEdge _ _)) = True"
| "waits (TTail (WaitDelayRaw _ _)) = True"
| "waits _ = False"

lemma straight_retarget:
  assumes "straight i"
  shows "retarget f (ctrl_insn E i r s) = ctrl_insn E i r s"
proof -
  obtain r' s' out where "ctrl_insn E i r s = (r', s', out)" using prod_cases3 by blast
  then show ?thesis using line_not_goto[OF assms, of E r s r' s'] by (cases out) auto
qed

lemma ctrl_relocate:
  assumes "\<not> polls i"
  shows "ctrl_insn E (relocate f i) r s = retarget f (ctrl_insn E i r s)"
proof (cases "straight i")
  case True
  then show ?thesis by (simp add: relocate_straight straight_retarget)
next
  case False
  then show ?thesis
    using assms
    by (cases i rule: straight.cases)
      (auto simp: relocate_def with_sig_def Let_def split: prod.splits ts_ctrl.splits)
qed

lemma goto_target:
  assumes "ctrl_insn E i r s = (r', s', Goto t)" and "fusable i"
  shows "t \<in> set (fuse_targets i)"
proof (cases "straight i")
  case True
  then show ?thesis using line_not_goto assms(1) by blast
next
  case False
  then show ?thesis
    using assms
    by (cases i rule: straight.cases)
      (auto simp: fuse_targets_def with_sig_def Let_def split: prod.splits ts_ctrl.splits if_splits)
qed

lemma seq2_goto_target:
  assumes "seq2 E i j r s = (r', s', Goto t)" and "fusable i" and "fusable j"
  shows "t \<in> set (fuse_targets i) \<union> set (fuse_targets j)"
  using assms goto_target[where E = E]
  by (auto simp: seq2_def split: prod.splits ts_out.splits)

lemma seq3_goto_target:
  assumes "seq3 E i j k r s = (r', s', Goto t)" and "fusable i" and "fusable j" and "fusable k"
  shows "t \<in> set (fuse_targets i) \<union> set (fuse_targets j) \<union> set (fuse_targets k)"
  using assms goto_target[where E = E] seq2_goto_target[where E = E]
  by (auto simp: seq3_def split: prod.splits ts_out.splits)

lemma fuse_pair_polls: "fuse_pair i j = Some f \<Longrightarrow> \<not> polls f"
  unfolding fuse_pair_def fuse_load_def fuse_sig_range_def fuse_log_not_def fuse_log_and_def
    fuse_log_or_def fuse_and_def fuse_or_def fuse_sig_bit_def fuse_branch_def
  by (auto split: ts_insn.splits ts_basic.splits ts_cmp.splits ts_ctrl.splits ts_tail.splits
      ts_elem.splits ts_store_insn.splits if_splits)

lemma fusable_not_polls: "fusable i \<Longrightarrow> \<not> polls i"
  by (cases i rule: polls.cases) auto

text \<open>The mirror survives a sequence of instructions.\<close>

lemma mirror_insn: "mirror_env E \<Longrightarrow> mirror_ok E s \<Longrightarrow> mirror_ok E (fst (snd (ctrl_insn E i r s)))"
  using mirror.ctrl_insn_keeps by blast

lemma mirror_insn': "mirror_env E \<Longrightarrow> mirror_ok E s \<Longrightarrow> ctrl_insn E i r s = (r', s', out) \<Longrightarrow> mirror_ok E s'"
  using mirror_insn by (metis fst_conv snd_conv)

lemma seq2_mirror:
  assumes "mirror_env E" and "mirror_ok E s"
  shows "mirror_ok E (fst (snd (seq2 E i j r s)))"
  using mirror_insn'[OF assms] mirror_insn[OF assms(1)]
  by (simp add: seq2_def split: prod.splits ts_out.splits)

lemma seq3_mirror:
  assumes "mirror_env E" and "mirror_ok E s"
  shows "mirror_ok E (fst (snd (seq3 E i j k r s)))"
  using mirror_insn'[OF assms] seq2_mirror[OF assms(1)]
  by (simp add: seq3_def split: prod.splits ts_out.splits)

lemma seq2_straight: "straight i \<Longrightarrow> straight j \<Longrightarrow> seq2 E i j r s = (r', s', Goto t) \<Longrightarrow> False"
  using line_not_goto[where E = E] by (auto simp: seq2_def split: prod.splits ts_out.splits)

lemma seq2_retarget:
  assumes "straight i" and "straight j"
  shows "retarget f (seq2 E i j r s) = seq2 E i j r s"
proof -
  obtain r' s' out where "seq2 E i j r s = (r', s', out)" using prod_cases3 by blast
  then show ?thesis using seq2_straight[OF assms, of E r s r' s'] by (cases out) auto
qed

section \<open>The simulation\<close>

definition elem_free :: "'s ts_insn list \<Rightarrow> bool" where
  "elem_free out \<longleftrightarrow> (\<forall>i\<in>set out. \<not> elem_store_nba i)"

definition no_alias :: "'s ts_insn list \<Rightarrow> bool" where
  "no_alias out \<longleftrightarrow> (\<forall>i. i + 1 < length out \<longrightarrow> loads_distinct (out ! i) (out ! (i + 1)))"

text \<open>With element stores the fused run is only compared with runs that do not give up, and the
  mirror must agree with the table.\<close>

definition fuse_inv :: "('v, 'o, 's) env \<Rightarrow> 's ts_insn list \<Rightarrow> ('v, 'o) sim \<Rightarrow> bool" where
  "fuse_inv E out s \<longleftrightarrow> elem_free out \<or> no_alias out \<and> mirror_env E \<and> mirror_ok E s"

definition good_result :: "'s ts_insn list \<Rightarrow> ('v, 'o) ts_result \<Rightarrow> bool" where
  "good_result out res \<longleftrightarrow> elem_free out \<or> fst res \<noteq> Some False"

definition fuse_at :: "'s ts_insn list \<Rightarrow> nat list \<Rightarrow> 's ts_insn list \<Rightarrow> nat \<Rightarrow> nat \<Rightarrow> bool" where
  "fuse_at out N fused pc j \<longleftrightarrow>
     aligned out (mark_targets out) N fused pc j \<or> length out \<le> pc \<and> j = length fused"

definition fuse_rel ::
  "('v, 'o, 's) env \<Rightarrow> 's ts_insn list \<Rightarrow> nat list \<Rightarrow> 's ts_insn list \<Rightarrow>
   nat \<times> regs \<times> ('v, 'o) sim \<Rightarrow> nat \<times> regs \<times> ('v, 'o) sim \<Rightarrow> bool" where
  "fuse_rel E out N fused a b \<longleftrightarrow>
     (\<forall>i\<in>set out. fusable i) \<and> aligned out (mark_targets out) N fused 0 0 \<and>
     fuse_at out N fused (fst a) (fst b) \<and> snd a = snd b \<and> fuse_inv E out (snd (snd a))"

lemma goto_at:
  assumes al: "aligned out (mark_targets out) N fused 0 0"
    and "i \<in> set out" and "t \<in> set (fuse_targets i)"
  shows "fuse_at out N fused t (N ! min t (length out))"
proof (cases "t < length out")
  case True
  then show ?thesis
    using aligned_at[OF al, of t] mark_targets_nth[OF assms(2,3)] by (simp add: fuse_at_def)
next
  case False
  have "aligned out (mark_targets out) N fused (length out) (N ! length out)"
    using aligned_at[OF al, of "length out"] by simp
  then have "N ! length out = length fused"
    by (cases rule: aligned.cases) simp_all
  then show ?thesis using False by (simp add: fuse_at_def)
qed

text \<open>How related configurations go on: the obligation of \<open>step_refinement\<close>.\<close>

definition answered ::
  "('v, 'o, 's) env \<Rightarrow> 's ts_insn list \<Rightarrow> nat list \<Rightarrow> 's ts_insn list \<Rightarrow> 's ts_insn list \<Rightarrow>
   nat \<times> regs \<times> ('v, 'o) sim \<Rightarrow> nat \<times> regs \<times> ('v, 'o) sim \<Rightarrow> bool" where
  "answered E out N fused insns' a b \<longleftrightarrow>
     (\<exists>k q. steps (ctrl_step E out) k a = Inr q \<and> \<not> good_result out q) \<or>
     (\<exists>k m a' b'. steps (ctrl_step E out) (Suc k) a = Inl a' \<and>
        steps (ctrl_step E insns') (Suc m) b = Inl b' \<and> fuse_rel E out N fused a' b') \<or>
     (\<exists>k m q. steps (ctrl_step E out) k a = Inr q \<and> steps (ctrl_step E insns') m b = Inr q)"

abbreviation relocated :: "'s ts_insn list \<Rightarrow> nat list \<Rightarrow> 's ts_insn list \<Rightarrow> 's ts_insn list" where
  "relocated out N fused \<equiv> map (relocate (\<lambda>t. N ! min t (length out))) fused"

text \<open>If the same outcome is reached on both sides, up to relocation, the relation holds again.\<close>

lemma same_outcome:
  assumes a: "steps (ctrl_step E out) (Suc k) (pc, r, s) = outcome pc' res"
    and b: "steps (ctrl_step E insns') (Suc m) (j, r, s) = outcome j' (retarget (\<lambda>t. N ! min t (length out)) res)"
    and rel: "fuse_rel E out N fused (pc, r, s) (j, r, s)"
    and at: "aligned out (mark_targets out) N fused pc' j'"
    and tgt: "\<And>r' s' t. res = (r', s', Goto t) \<Longrightarrow> \<exists>i\<in>set out. t \<in> set (fuse_targets i)"
    and inv: "fuse_inv E out (fst (snd res))"
  shows "answered E out N fused insns' (pc, r, s) (j, r, s)"
proof -
  obtain r' s' o' where res: "res = (r', s', o')" using prod_cases3 by blast
  have al: "aligned out (mark_targets out) N fused 0 0" and fz: "\<forall>i\<in>set out. fusable i"
    using rel by (simp_all add: fuse_rel_def)
  have inv': "fuse_inv E out s'" using inv res by simp
  consider "o' = Next" | t where "o' = Goto t" | c where "o' = Ret c" | "o' = Unreachable"
    by (cases o') auto
  then show ?thesis
  proof cases
    case 1
    have "fuse_rel E out N fused (pc', r', s') (j', r', s')"
      using al fz at inv' by (simp add: fuse_rel_def fuse_at_def)
    moreover have "steps (ctrl_step E out) (Suc k) (pc, r, s) = Inl (pc', r', s')"
      "steps (ctrl_step E insns') (Suc m) (j, r, s) = Inl (j', r', s')"
      unfolding a b by (simp_all add: res 1 outcome_def)
    ultimately show ?thesis unfolding answered_def by blast
  next
    case 2
    then obtain i where "i \<in> set out" "t \<in> set (fuse_targets i)" using tgt res by blast
    then have "fuse_rel E out N fused (t, r', s') (N ! min t (length out), r', s')"
      using goto_at[OF al] al fz inv' by (simp add: fuse_rel_def)
    moreover have "steps (ctrl_step E out) (Suc k) (pc, r, s) = Inl (t, r', s')"
      "steps (ctrl_step E insns') (Suc m) (j, r, s) = Inl (N ! min t (length out), r', s')"
      unfolding a b by (simp_all add: res 2 outcome_def)
    ultimately show ?thesis unfolding answered_def by blast
  next
    case 3
    have "steps (ctrl_step E out) (Suc k) (pc, r, s) = Inr (Some c, r', s')"
      "steps (ctrl_step E insns') (Suc m) (j, r, s) = Inr (Some c, r', s')"
      unfolding a b by (simp_all add: res 3 outcome_def)
    then show ?thesis unfolding answered_def by blast
  next
    case 4
    have "steps (ctrl_step E out) (Suc k) (pc, r, s) = Inr (None, r', s')"
      "steps (ctrl_step E insns') (Suc m) (j, r, s) = Inr (None, r', s')"
      unfolding a b by (simp_all add: res 4 outcome_def)
    then show ?thesis unfolding answered_def by blast
  qed
qed

text \<open>If the components give up, there is nothing to match.\<close>

lemma bails_outcome: "bails res \<Longrightarrow> \<exists>r s. outcome n res = Inr (Some False, r, s)"
  by (cases res) (auto simp: outcome_def)

lemma bails_answered:
  assumes "steps (ctrl_step E out) (Suc k) a = outcome n res" and "bails res" and "\<not> elem_free out"
  shows "answered E out N fused insns' a b"
proof -
  obtain r s where "steps (ctrl_step E out) (Suc k) a = Inr (Some False, r, s)"
    using assms(1,2) bails_outcome by metis
  moreover have "\<not> good_result out (Some False, r, s)" using assms(3) by (simp add: good_result_def)
  ultimately show ?thesis unfolding answered_def by blast
qed

lemma exit_answered:
  assumes "length out \<le> pc" and "length insns' \<le> j"
  shows "answered E out N fused insns' (pc, r, s) (j, r, s)"
proof -
  have "steps (ctrl_step E out) 1 (pc, r, s) = Inr (Some True, r, s)"
    "steps (ctrl_step E insns') 1 (j, r, s) = Inr (Some True, r, s)"
    using assms by (simp_all add: ctrl_step_exit)
  then show ?thesis unfolding answered_def by blast
qed

lemma single_answered:
  assumes rel: "fuse_rel E out N fused (pc, r, s) (j, r, s)"
    and i: "pc < length out" and j: "j < length fused" and eq: "fused ! j = out ! pc"
    and at: "aligned out (mark_targets out) N fused (pc + 1) (j + 1)"
  shows "answered E out N fused (relocated out N fused) (pc, r, s) (j, r, s)"
proof -
  let ?res = "ctrl_insn E (out ! pc) r s" and ?I = "relocated out N fused"
  have fz: "\<forall>i\<in>set out. fusable i" and inv: "fuse_inv E out s" using rel by (simp_all add: fuse_rel_def)
  have mem: "out ! pc \<in> set out" using i by simp
  have sa: "steps (ctrl_step E out) (Suc 0) (pc, r, s) = outcome (pc + 1) ?res"
    using i ctrl_step_outcome steps_1 by metis
  have "ctrl_insn E (?I ! j) r s = retarget (\<lambda>t. N ! min t (length out)) ?res"
    using j eq fz mem by (simp add: ctrl_relocate fusable_not_polls)
  then have sb: "steps (ctrl_step E ?I) (Suc 0) (j, r, s) =
      outcome (j + 1) (retarget (\<lambda>t. N ! min t (length out)) ?res)"
    using j by (simp only: steps_1 ctrl_step_outcome length_map)
  have inv': "fuse_inv E out (fst (snd ?res))"
    using inv mirror_insn unfolding fuse_inv_def by blast
  have tgt: "\<And>r' s' t. ?res = (r', s', Goto t) \<Longrightarrow> \<exists>i\<in>set out. t \<in> set (fuse_targets i)"
    using goto_target fz mem by blast
  show ?thesis by (rule same_outcome[OF sa sb rel at tgt inv'])
qed

lemma pair_answered:
  assumes rel: "fuse_rel E out N fused (pc, r, s) (j, r, s)"
    and i: "pc + 1 < length out" and j: "j < length fused"
    and f: "fuse_pair (out ! pc) (out ! (pc + 1)) = Some (fused ! j)"
    and at: "aligned out (mark_targets out) N fused (pc + 2) (j + 1)"
  shows "answered E out N fused (relocated out N fused) (pc, r, s) (j, r, s)"
proof -
  let ?I = "relocated out N fused"
  let ?res = "seq2 E (out ! pc) (out ! (pc + 1)) r s"
  have fz: "\<forall>i\<in>set out. fusable i" and inv: "fuse_inv E out s" using rel by (simp_all add: fuse_rel_def)
  have mem: "out ! pc \<in> set out" "out ! (pc + 1) \<in> set out" using i by simp_all
  obtain k where sa: "steps (ctrl_step E out) (Suc k) (pc, r, s) = outcome (pc + 2) ?res"
    using steps_seq2[OF i] by blast
  show ?thesis
  proof (cases "ctrl_insn E (fused ! j) r s = ?res")
    case True
    then have "ctrl_insn E (?I ! j) r s = retarget (\<lambda>t. N ! min t (length out)) ?res"
      using j fuse_pair_polls[OF f] by (simp add: ctrl_relocate)
    then have sb: "steps (ctrl_step E ?I) (Suc 0) (j, r, s) =
        outcome (j + 1) (retarget (\<lambda>t. N ! min t (length out)) ?res)"
      using j by (simp only: steps_1 ctrl_step_outcome length_map)
    have inv': "fuse_inv E out (fst (snd ?res))"
      using inv seq2_mirror unfolding fuse_inv_def by blast
    have tgt: "\<And>r' s' t. ?res = (r', s', Goto t) \<Longrightarrow> \<exists>i\<in>set out. t \<in> set (fuse_targets i)"
      using seq2_goto_target fz mem by blast
    show ?thesis by (rule same_outcome[OF sa sb rel at tgt inv'])
  next
    case False
    then have el: "elem_store_nba (out ! (pc + 1))" and bl: "mirror_ok E s \<longrightarrow> bails ?res"
      using fuse_pair_seq[OF f] by blast+
    have ne: "\<not> elem_free out" using el mem by (auto simp: elem_free_def)
    show ?thesis by (rule bails_answered[OF sa _ ne]) (use bl inv ne in \<open>simp add: fuse_inv_def\<close>)
  qed
qed

lemma fuse_triple_shape:
  "fuse_triple i j k = Some (x, y) \<Longrightarrow> elem_store_nba k \<and> straight x \<and> straight y"
  by (auto simp: fuse_triple_def split: ts_insn.splits ts_basic.splits ts_elem.splits if_splits)

lemma triple_answered:
  assumes rel: "fuse_rel E out N fused (pc, r, s) (j, r, s)"
    and i: "pc + 2 < length out" and j: "j + 1 < length fused"
    and f: "fuse_triple (out ! pc) (out ! (pc + 1)) (out ! (pc + 2)) = Some (fused ! j, fused ! (j + 1))"
    and at: "aligned out (mark_targets out) N fused (pc + 3) (j + 2)"
  shows "answered E out N fused (relocated out N fused) (pc, r, s) (j, r, s)"
proof -
  let ?I = "relocated out N fused" and ?x = "fused ! j" and ?y = "fused ! (j + 1)"
  let ?res = "seq3 E (out ! pc) (out ! (pc + 1)) (out ! (pc + 2)) r s"
  have fz: "\<forall>i\<in>set out. fusable i" and inv: "fuse_inv E out s" using rel by (simp_all add: fuse_rel_def)
  have mem: "out ! pc \<in> set out" "out ! (pc + 1) \<in> set out" "out ! (pc + 2) \<in> set out"
    using i by simp_all
  have ne: "\<not> elem_free out" using fuse_triple_shape[OF f] mem by (auto simp: elem_free_def)
  then have cond: "no_alias out" "mirror_env E" "mirror_ok E s" using inv by (simp_all add: fuse_inv_def)
  have "loads_distinct (out ! pc) (out ! (pc + 1))" using cond(1) i by (simp add: no_alias_def)
  then have alt: "seq2 E ?x ?y r s = ?res \<or> bails ?res"
    using fuse_triple_seq[OF f _ cond(3)] by blast
  obtain k where sa: "steps (ctrl_step E out) (Suc k) (pc, r, s) = outcome (pc + 3) ?res"
    using steps_seq3[OF i] by blast
  show ?thesis
  proof (cases "bails ?res")
    case True
    show ?thesis by (rule bails_answered[OF sa True ne])
  next
    case False
    have plain: "straight ?x" "straight ?y" using fuse_triple_shape[OF f] by auto
    then have I: "?I ! j = ?x" "?I ! (j + 1) = ?y" using j by (simp_all add: relocate_straight)
    obtain m where "steps (ctrl_step E ?I) (Suc m) (j, r, s) = outcome (j + 2) (seq2 E ?x ?y r s)"
      using steps_seq2[of j ?I E r s] j unfolding I by auto
    moreover have eq: "seq2 E ?x ?y r s = ?res" using alt False by simp
    moreover have "retarget (\<lambda>t. N ! min t (length out)) ?res = ?res"
      unfolding eq[symmetric] by (rule seq2_retarget[OF plain])
    ultimately have sb: "steps (ctrl_step E ?I) (Suc m) (j, r, s) =
        outcome (j + 2) (retarget (\<lambda>t. N ! min t (length out)) ?res)" by simp
    have inv': "fuse_inv E out (fst (snd ?res))"
      using inv seq3_mirror unfolding fuse_inv_def by blast
    have tgt: "\<And>r' s' t. ?res = (r', s', Goto t) \<Longrightarrow> \<exists>i\<in>set out. t \<in> set (fuse_targets i)"
      using seq3_goto_target fz mem by blast
    show ?thesis by (rule same_outcome[OF sa sb rel at tgt inv'])
  qed
qed

lemma fuse_rel_answered:
  assumes rel: "fuse_rel E out N fused (pc, r, s) (j, r, s)"
  shows "answered E out N fused (relocated out N fused) (pc, r, s) (j, r, s)"
proof -
  have "fuse_at out N fused pc j" using rel by (simp add: fuse_rel_def)
  then consider "length out \<le> pc" "j = length fused" | "aligned out (mark_targets out) N fused pc j"
    by (auto simp: fuse_at_def)
  then show ?thesis
  proof cases
    case 1
    then show ?thesis by (intro exit_answered) simp_all
  next
    case 2
    then show ?thesis
    proof cases
      case finish
      then show ?thesis by (intro exit_answered) simp_all
    next
      case single
      then show ?thesis using single_answered[OF rel] by blast
    next
      case pair
      then show ?thesis using pair_answered[OF rel] by blast
    next
      case triple
      then show ?thesis using triple_answered[OF rel] by blast
    qed
  qed
qed

interpretation fusion: step_refinement "ctrl_step E out" "ctrl_step E (relocated out N fused)"
  "fuse_rel E out N fused" "good_result out" for E out N fused
proof
  fix a b
  assume rel: "fuse_rel E out N fused a b"
  obtain pc r s where a: "a = (pc, r, s)" by (metis prod_cases3)
  obtain j where b: "b = (j, r, s)" using rel a by (cases b) (auto simp: fuse_rel_def)
  from fuse_rel_answered[OF rel[unfolded a b]]
  show "(\<exists>k r. steps (ctrl_step E out) k a = Inr r \<and> \<not> good_result out r) \<or>
      (\<exists>k m a' b'. steps (ctrl_step E out) (Suc k) a = Inl a' \<and>
         steps (ctrl_step E (relocated out N fused)) (Suc m) b = Inl b' \<and> fuse_rel E out N fused a' b') \<or>
      (\<exists>k m r. steps (ctrl_step E out) k a = Inr r \<and> steps (ctrl_step E (relocated out N fused)) m b = Inr r)"
    unfolding answered_def a b by blast
qed

section \<open>The pass\<close>

lemma fuse_ts_pairs_cases:
  obtains "fuse_ts_pairs out = out"
  | N fused where "fuse_ts_pairs out = relocated out N fused"
      and "aligned out (mark_targets out) N fused 0 0"
proof -
  obtain fused new_of any where lp:
    "fuse_loop out (mark_targets out) 0 [] (replicate (length out + 1) 0) False = (fused, new_of, any)"
    using prod_cases3 by blast
  have "aligned out (mark_targets out) (new_of[length out := length fused]) fused 0 0"
    using fuse_loop_aligned(4)[OF lp] by simp
  then show ?thesis
    using that lp by (cases "length out < 2 \<or> \<not> any") (auto simp: fuse_ts_pairs_def Let_def)
qed

lemma fuse_run:
  assumes "\<forall>i\<in>set out. fusable i" and "fuse_inv E out s"
  shows "exec_two_state_ctrl E (fuse_ts_pairs out) r s = exec_two_state_ctrl E out r s \<or>
    (\<exists>r' s'. \<not> elem_free out \<and> exec_two_state_ctrl E out r s = Some (Some False, r', s'))"
proof (cases out rule: fuse_ts_pairs_cases)
  case 1
  then show ?thesis by simp
next
  case (2 N fused)
  then have "fuse_rel E out N fused (0, r, s) (0, r, s)"
    using assms by (simp add: fuse_rel_def fuse_at_def)
  from fusion.run_equal[OF this] show ?thesis
    unfolding exec_two_state_ctrl_def exec_two_state_ctrl_from_def 2(1)
    by (auto simp: good_result_def)
qed

end
