(* ===== verification/Ts_Unfuse.thy ===== *)
theory Ts_Unfuse
  imports Ts_Fuse
begin

text \<open>
  The expansion of fused instructions by the JIT (\<^verbatim>\<open>unfuse\<close> in \<^verbatim>\<open>ts_jit.rs\<close>): it executes like the
  instruction it expands and undoes the pair fusion.
\<close>

definition range_mask :: "nat \<Rightarrow> nat \<Rightarrow> u64" where
  "range_mask hi lo = (let rw = range_width hi lo in if rw \<ge> 64 then - 1 else shl64 1 rw - 1)"

fun unfuse_fused :: "ts_fused \<Rightarrow> 's ts_insn list" where
  "unfuse_fused (LoadSigNot dl d sig) = [TBasic (LoadSig dl sig), TCmp (LogNot d dl)]"
| "unfuse_fused (SigRangeEqC dr d sig lo w k) =
     [TBasic (SigRange dr sig lo (if w \<ge> 64 then - 1 else shl64 1 w - 1)), TBasic (EqC d dr k)]"
| "unfuse_fused (LoadSigLogAnd dl sig d a b) = [TBasic (LoadSig dl sig), TCmp (LogAnd d a b)]"
| "unfuse_fused (LogNotAnd dn s d a b) = [TCmp (LogNot dn s), TBasic (And d a b)]"
| "unfuse_fused (LogNotLogAnd dn s d a b) = [TCmp (LogNot dn s), TCmp (LogAnd d a b)]"
| "unfuse_fused (LogAndStore d a b sig m) = [TCmp (LogAnd d a b), TStore (Store sig d m)]"
| "unfuse_fused (AndRangeStore d a b sig hi lo) =
     [TBasic (And d a b), TStore (RangeStore sig hi lo d (range_mask hi lo))]"
| "unfuse_fused (SigBitNot db d sig bt) = [TBasic (SigBit db sig bt), TCmp (LogNot d db)]"

fun unfuse_fused2 :: "ts_fused2 \<Rightarrow> 's ts_insn list option" where
  "unfuse_fused2 (LoadSig2 d1 sig1 d2 sig2) = Some [TBasic (LoadSig d1 sig1), TBasic (LoadSig d2 sig2)]"
| "unfuse_fused2 (SigBit2 d1 sig1 bit1 d2 sig2 bit2) =
     Some [TBasic (SigBit d1 sig1 bit1), TBasic (SigBit d2 sig2 bit2)]"
| "unfuse_fused2 (LoadSigLogOr dl sig d a b) = Some [TBasic (LoadSig dl sig), TCmp (LogOr d a b)]"
| "unfuse_fused2 (LoadSigAnd dl sig d a b) = Some [TBasic (LoadSig dl sig), TBasic (And d a b)]"
| "unfuse_fused2 (LoadSigRepl dl sig d w count) = Some [TBasic (LoadSig dl sig), TTail (Repl d dl w count)]"
| "unfuse_fused2 (LoadSigSigRange dl sig d sig2 lo m) =
     Some [TBasic (LoadSig dl sig), TBasic (SigRange d sig2 lo m)]"
| "unfuse_fused2 (SigRangeAnd dr sig lo m d a b) = Some [TBasic (SigRange dr sig lo m), TBasic (And d a b)]"
| "unfuse_fused2 (SigRangeEq dr sig lo m d a b) = Some [TBasic (SigRange dr sig lo m), TBasic (Eq d a b)]"
| "unfuse_fused2 (ConstEq dc v d a b) = Some [TBasic (Const dc v), TBasic (Eq d a b)]"
| "unfuse_fused2 (LogOrStore d a b sig m) = Some [TCmp (LogOr d a b), TStore (Store sig d m)]"
| "unfuse_fused2 (AndOr d1 a1 b1 d a b) = Some [TBasic (And d1 a1 b1), TBasic (Or d a b)]"
| "unfuse_fused2 (OrRangeStore d a b sig hi lo) =
     Some [TBasic (Or d a b), TStore (RangeStore sig hi lo d (range_mask hi lo))]"
| "unfuse_fused2 (LoadSigBrNz _ _ _) = None"
| "unfuse_fused2 (BrFalseLoadSig _ _ _ _) = None"
| "unfuse_fused2 (EqBrFalse _ _ _ _) = None"
| "unfuse_fused2 (EqCBrFalse _ _ _ _) = None"

definition unfuse :: "'s ts_insn \<Rightarrow> 's ts_insn list option" where
  "unfuse i =
     (case i of
        TFused f \<Rightarrow> Some (unfuse_fused f)
      | TFused2 f \<Rightarrow> unfuse_fused2 f
      | TCmp (Concat2 d a wa b wb) \<Rightarrow> Some [TCmp (Concat d [(a, wa), (b, wb)])]
      | TCmp (Concat3 d a wa b wb c wc) \<Rightarrow> Some [TCmp (Concat d [(a, wa), (b, wb), (c, wc)])]
      | TElem (ElemStoreNbaFromSig f) \<Rightarrow>
          Some [TBasic (LoadSig (es_dl f) (es_sig f)), TElem (ElemStoreNba (es_op f))]
      | _ \<Rightarrow> Some [i])"

fun exec_seq :: "('v, 'o, 's) env \<Rightarrow> 's ts_insn list \<Rightarrow> regs \<Rightarrow> ('v, 'o) sim \<Rightarrow> regs \<times> ('v, 'o) sim \<times> ts_out" where
  "exec_seq E [] r s = (r, s, Next)"
| "exec_seq E (i # is) r s =
     (case ctrl_insn E i r s of
        (r, s, Next) \<Rightarrow> exec_seq E is r s
      | (r, s, out) \<Rightarrow> (r, s, out))"

lemma exec_seq_single: "exec_seq E [i] r s = ctrl_insn E i r s"
  by (simp split: prod.splits ts_out.splits)

lemma exec_seq_pair: "exec_seq E [i, j] r s = seq2 E i j r s"
  by (simp add: seq2_def split: prod.splits ts_out.splits)

lemma range_mask_eq: "range_mask hi lo = ts_mask (range_width hi lo)"
  by (simp add: range_mask_def ts_mask_def Let_def)

lemma unfuse_fused_exec: "exec_seq E (unfuse_fused f) r s = ctrl_fused E f r s"
  by (cases f) (auto simp: exec_seq_pair seq_simps range_mask_eq split: prod.splits)

lemma unfuse_fused2_exec: "unfuse_fused2 f = Some is \<Longrightarrow> exec_seq E is r s = ctrl_fused2 E f r s"
  by (cases f) (auto simp: exec_seq_pair seq_simps range_mask_eq split: prod.splits)

text \<open>An element store from a signal reads a clean signal, through its own load register.\<close>

definition clean_elem_source :: "('v, 'o, 's) env \<Rightarrow> 's ts_insn \<Rightarrow> ('v, 'o) sim \<Rightarrow> bool" where
  "clean_elem_source E i s \<longleftrightarrow>
     (case i of
        TElem (ElemStoreNbaFromSig f) \<Rightarrow>
          el_s (es_op f) = es_dl f \<and> mirror_ok E s \<and> snd (sig_raw E s (es_sig f)) = 0
      | _ \<Rightarrow> True)"

lemma unfuse_elem_exec:
  assumes "el_s (es_op f) = es_dl f" and "mirror_ok E s" and "snd (sig_raw E s (es_sig f)) = 0"
  shows "exec_seq E [TBasic (LoadSig (es_dl f) (es_sig f)), TElem (ElemStoreNba (es_op f))] r s =
    ctrl_elem E (ElemStoreNbaFromSig f) r s"
  using assms by (cases "sig_raw E s (es_sig f)")
    (simp add: exec_seq_pair seq2_def with_sig_def mirror_sig_planes Let_def)

lemma unfuse_exec:
  assumes "unfuse i = Some is" and "clean_elem_source E i s"
  shows "exec_seq E is r s = ctrl_insn E i r s"
proof (cases i)
  case (TFused f)
  then show ?thesis using assms(1) unfuse_fused_exec by (auto simp: unfuse_def)
next
  case (TFused2 f)
  then show ?thesis using assms(1) unfuse_fused2_exec by (auto simp: unfuse_def)
next
  case (TElem f)
  then show ?thesis using assms
    by (cases f) (simp_all add: unfuse_def exec_seq_single clean_elem_source_def
        unfuse_elem_exec[unfolded exec_seq_pair] flip: exec_seq_pair del: exec_seq.simps,
        auto simp: exec_seq_single unfuse_elem_exec simp del: exec_seq.simps)
next
  case (TCmp f)
  then show ?thesis using assms(1)
    by (cases f) (auto simp: unfuse_def exec_seq_single simp del: exec_seq.simps)
qed (use assms(1) in \<open>auto simp: unfuse_def exec_seq_single simp del: exec_seq.simps\<close>)

text \<open>Fusing and expanding gives the pair back; a fusion with a branch is not expanded.\<close>

fun has_branch :: "'s ts_insn \<Rightarrow> bool" where
  "has_branch (TCtrl (BrNz _ _)) = True"
| "has_branch (TCtrl (BrFalse _ _)) = True"
| "has_branch _ = False"

lemma unfuse_fuse_pair:
  "fuse_pair i j = Some f \<Longrightarrow> unfuse f = (if has_branch i \<or> has_branch j then None else Some [i, j])"
  unfolding fuse_pair_def fuse_load_def fuse_sig_range_def fuse_log_not_def fuse_log_and_def
    fuse_log_or_def fuse_and_def fuse_or_def fuse_sig_bit_def fuse_branch_def
  by (auto simp: unfuse_def range_mask_eq mask_expr contiguous_mask
      split: ts_insn.splits ts_basic.splits ts_cmp.splits ts_ctrl.splits ts_tail.splits
        ts_elem.splits ts_store_insn.splits if_splits)

end
