(* ===== verification/Ts_X.thy ===== *)
theory Ts_X
  imports Ts_Run
begin

text \<open>
  The x-plane executor (\<^verbatim>\<open>exec_two_state_x\<close> of \<^verbatim>\<open>ts_x.rs\<close>): the same instructions on pairs of
  planes.  It never gives up on an x read; it stops early only for an instruction it does not
  carry (result \<open>False\<close>) or after a Ctrl-C (\<open>take_interrupt\<close>, result \<open>True\<close>).
\<close>

type_synonym pregs = "nat \<Rightarrow> u64 \<times> u64"

abbreviation pv :: "pregs \<Rightarrow> nat \<Rightarrow> u64" where "pv p i \<equiv> fst (p i)"
abbreviation px :: "pregs \<Rightarrow> nat \<Rightarrow> u64" where "px p i \<equiv> snd (p i)"

text \<open>The two operands and the truth value of a register, as the arms read them.\<close>

definition t3r :: "pregs \<Rightarrow> nat \<Rightarrow> bool option" where
  "t3r p i = t3 (pv p i) (px p i)"

definition op_p :: "(u64 \<Rightarrow> u64 \<Rightarrow> u64 \<Rightarrow> u64 \<Rightarrow> 'a) \<Rightarrow> pregs \<Rightarrow> nat \<Rightarrow> nat \<Rightarrow> 'a" where
  "op_p f p a b = f (pv p a) (px p a) (pv p b) (px p b)"

text \<open>Arithmetic: any x makes the whole result x.\<close>

definition arith_p :: "(u64 \<Rightarrow> u64 \<Rightarrow> u64) \<Rightarrow> u64 \<Rightarrow> pregs \<Rightarrow> nat \<Rightarrow> nat \<Rightarrow> u64 \<times> u64" where
  "arith_p f m p a b = (if px p a OR px p b \<noteq> 0 then (0, m) else (f (pv p a) (pv p b) AND m, 0))"

definition rel_p :: "(u64 \<Rightarrow> u64 \<Rightarrow> bool) \<Rightarrow> pregs \<Rightarrow> nat \<Rightarrow> nat \<Rightarrow> u64 \<times> u64" where
  "rel_p f p a b = (if px p a OR px p b \<noteq> 0 then (0, 1) else (b2u (f (pv p a) (pv p b)), 0))"

definition cmps_op :: "nat \<Rightarrow> nat \<Rightarrow> nat \<Rightarrow> u64 \<Rightarrow> u64 \<Rightarrow> bool" where
  "cmps_op kind sa sb a b =
     (let x = sint (sshr64 (shl64 a sa) sa); y = sint (sshr64 (shl64 b sb) sb)
      in if kind = 0 then x < y else if kind = 1 then x \<le> y else if kind = 2 then x > y else x \<ge> y)"

type_synonym ('v, 'o) x_res = "pregs \<times> ('v, 'o) sim \<times> ts_out"

fun x_basic :: "('v, 'o, 's) env \<Rightarrow> ts_basic \<Rightarrow> pregs \<Rightarrow> ('v, 'o) sim \<Rightarrow> ('v, 'o) x_res" where
  "x_basic E (LoadSig d sig) p s = (p(d := sig_planes E s sig), s, Next)"
| "x_basic E (Const d v) p s = (p(d := (v, 0)), s, Next)"
| "x_basic E (SigBit d sig bt) p s =
     (let (v, x) = sig_planes E s sig in (p(d := (shr64 v bt AND 1, shr64 x bt AND 1)), s, Next))"
| "x_basic E (SigRange d sig lo m) p s =
     (let (v, x) = sig_planes E s sig in (p(d := (shr64 v lo AND m, shr64 x lo AND m)), s, Next))"
| "x_basic E (SigBitW d sig bt) p s = (p(d := raw_bits_slice E (signal_table s sig) bt 1), s, Next)"
| "x_basic E (SigRangeW d sig lo w m) p s =
     (let (v, x) = raw_bits_slice E (signal_table s sig) lo w in (p(d := (v AND m, x AND m)), s, Next))"
| "x_basic E (Bit d sr bt) p s = (p(d := (shr64 (pv p sr) bt AND 1, shr64 (px p sr) bt AND 1)), s, Next)"
| "x_basic E (Range d sr lo m) p s = (p(d := (shr64 (pv p sr) lo AND m, shr64 (px p sr) lo AND m)), s, Next)"
| "x_basic E (Xor d a b) p s = (p(d := op_p xor_p p a b), s, Next)"
| "x_basic E (And d a b) p s = (p(d := op_p and_p p a b), s, Next)"
| "x_basic E (Or d a b) p s = (p(d := op_p or_p p a b), s, Next)"
| "x_basic E (Sel d c a b m) p s =
     (p(d := if px p c \<noteq> 0 then merge_p (pv p a) (px p a) (pv p b) (px p b) m
             else if pv p c \<noteq> 0 then p a else p b), s, Next)"
| "x_basic E (Not' d sr m) p s =
     (p(d := (NOT (pv p sr) AND NOT (px p sr) AND m, px p sr AND m)), s, Next)"
| "x_basic E (XorC d sr k) p s = (p(d := ((pv p sr XOR k) AND NOT (px p sr), px p sr)), s, Next)"
| "x_basic E (MaskEq d sr m v) p s = (p(d := eq_p (pv p sr AND m) (px p sr AND m) v 0), s, Next)"
| "x_basic E (EqC d sr k) p s = (p(d := eq_p (pv p sr) (px p sr) k 0), s, Next)"
| "x_basic E (Add d a b m) p s = (p(d := arith_p (+) m p a b), s, Next)"
| "x_basic E (Sub d a b m) p s = (p(d := arith_p (-) m p a b), s, Next)"
| "x_basic E (Eq d a b) p s = (p(d := op_p eq_p p a b), s, Next)"
| "x_basic E (Neq d a b) p s = (p(d := op_p ne_p p a b), s, Next)"

fun x_fused :: "('v, 'o, 's) env \<Rightarrow> ts_fused \<Rightarrow> pregs \<Rightarrow> ('v, 'o) sim \<Rightarrow> ('v, 'o) x_res" where
  "x_fused E (LoadSigNot dl d sig) p s =
     (let (v, x) = sig_planes E s sig in (p(dl := (v, x), d := from_t3 (not3 (t3 v x))), s, Next))"
| "x_fused E (SigRangeEqC dr d sig lo w k) p s =
     (let m = xmask w; (v, x) = sig_planes E s sig; rv = shr64 v lo AND m; rx = shr64 x lo AND m
      in (p(dr := (rv, rx), d := eq_p rv rx k 0), s, Next))"
| "x_fused E (LoadSigLogAnd dl sig d a b) p s =
     (let p = p(dl := sig_planes E s sig) in (p(d := from_t3 (and3 (t3r p a) (t3r p b))), s, Next))"
| "x_fused E (LogNotAnd dn sr d a b) p s =
     (let p = p(dn := from_t3 (not3 (t3r p sr))) in (p(d := op_p and_p p a b), s, Next))"
| "x_fused E (LogNotLogAnd dn sr d a b) p s =
     (let p = p(dn := from_t3 (not3 (t3r p sr)))
      in (p(d := from_t3 (and3 (t3r p a) (t3r p b))), s, Next))"
| "x_fused E (LogAndStore d a b sig m) p s =
     (let (rv, rx) = from_t3 (and3 (t3r p a) (t3r p b))
      in (p(d := (rv, rx)), ts_store_xz E sig (rv AND m) (rx AND m) s, Next))"
| "x_fused E (AndRangeStore d a b sig hi lo) p s =
     (let m = xmask (range_width hi lo); (rv, rx) = op_p and_p p a b
      in (p(d := (rv, rx)), ts_range_store_xz E sig (rv AND m) (rx AND m) lo hi s, Next))"
| "x_fused E (SigBitNot db d sig bt) p s =
     (let (v, x) = sig_planes E s sig; bv = shr64 v bt AND 1; bx = shr64 x bt AND 1
      in (p(db := (bv, bx), d := from_t3 (not3 (t3 bv bx))), s, Next))"

fun x_fused2 :: "('v, 'o, 's) env \<Rightarrow> ts_fused2 \<Rightarrow> pregs \<Rightarrow> ('v, 'o) sim \<Rightarrow> ('v, 'o) x_res" where
  "x_fused2 E (LoadSig2 d1 sig1 d2 sig2) p s =
     (p(d1 := sig_planes E s sig1, d2 := sig_planes E s sig2), s, Next)"
| "x_fused2 E (SigBit2 d1 sig1 bit1 d2 sig2 bit2) p s =
     (let (v, x) = sig_planes E s sig1; p = p(d1 := (shr64 v bit1 AND 1, shr64 x bit1 AND 1));
          (v, x) = sig_planes E s sig2
      in (p(d2 := (shr64 v bit2 AND 1, shr64 x bit2 AND 1)), s, Next))"
| "x_fused2 E (LoadSigBrNz dl sig t) p s =
     (let (v, x) = sig_planes E s sig
      in (p(dl := (v, x)), s, if t3 v x = Some True then Goto t else Next))"
| "x_fused2 E (BrFalseLoadSig sr t dl sig) p s =
     (if t3r p sr \<noteq> Some True then (p, s, Goto t) else (p(dl := sig_planes E s sig), s, Next))"
| "x_fused2 E (EqBrFalse d a b t) p s =
     (let (rv, rx) = op_p eq_p p a b
      in (p(d := (rv, rx)), s, if t3 rv rx \<noteq> Some True then Goto t else Next))"
| "x_fused2 E (EqCBrFalse d sr k t) p s =
     (let (rv, rx) = eq_p (pv p sr) (px p sr) k 0
      in (p(d := (rv, rx)), s, if t3 rv rx \<noteq> Some True then Goto t else Next))"
| "x_fused2 E (LoadSigLogOr dl sig d a b) p s =
     (let p = p(dl := sig_planes E s sig) in (p(d := from_t3 (or3 (t3r p a) (t3r p b))), s, Next))"
| "x_fused2 E (LoadSigAnd dl sig d a b) p s =
     (let p = p(dl := sig_planes E s sig) in (p(d := op_p and_p p a b), s, Next))"
| "x_fused2 E (LoadSigRepl dl sig d w count) p s =
     (let (v, x) = sig_planes E s sig
      in (p(dl := (v, x), d := (replicate_narrow v w count, replicate_narrow x w count)), s, Next))"
| "x_fused2 E (LoadSigSigRange dl sig d sig2 lo m) p s =
     (let p = p(dl := sig_planes E s sig); (v, x) = sig_planes E s sig2
      in (p(d := (shr64 v lo AND m, shr64 x lo AND m)), s, Next))"
| "x_fused2 E (SigRangeAnd dr sig lo m d a b) p s =
     (let (v, x) = sig_planes E s sig; p = p(dr := (shr64 v lo AND m, shr64 x lo AND m))
      in (p(d := op_p and_p p a b), s, Next))"
| "x_fused2 E (SigRangeEq dr sig lo m d a b) p s =
     (let (v, x) = sig_planes E s sig; p = p(dr := (shr64 v lo AND m, shr64 x lo AND m))
      in (p(d := op_p eq_p p a b), s, Next))"
| "x_fused2 E (ConstEq dc v d a b) p s =
     (let p = p(dc := (v, 0)) in (p(d := op_p eq_p p a b), s, Next))"
| "x_fused2 E (LogOrStore d a b sig m) p s =
     (let (rv, rx) = from_t3 (or3 (t3r p a) (t3r p b))
      in (p(d := (rv, rx)), ts_store_xz E sig (rv AND m) (rx AND m) s, Next))"
| "x_fused2 E (AndOr d1 a1 b1 d a b) p s =
     (let p = p(d1 := op_p and_p p a1 b1) in (p(d := op_p or_p p a b), s, Next))"
| "x_fused2 E (OrRangeStore d a b sig hi lo) p s =
     (let m = xmask (range_width hi lo); (rv, rx) = op_p or_p p a b
      in (p(d := (rv, rx)), ts_range_store_xz E sig (rv AND m) (rx AND m) lo hi s, Next))"

text \<open>The dynamic bit stores, blocking and not.\<close>

definition x_bit_store ::
  "('v, 'o, 's) env \<Rightarrow> bool \<Rightarrow> nat \<Rightarrow> nat \<Rightarrow> nat \<Rightarrow> nat \<Rightarrow> pregs \<Rightarrow> ('v, 'o) sim \<Rightarrow> ('v, 'o) sim" where
  "x_bit_store E nba sig i sr w p s =
     (if px p i = 0 \<and> pv p i < of_nat w
      then let bv = pv p sr AND 1; bx = px p sr AND 1; b = unat (pv p i) mod 2 ^ 32
           in if nba then (if w > 64 then ts_wide_range_store_nba_xz E sig b b bv bx s
                           else ts_range_store_nba_xz E sig b b bv bx s)
              else (if w > 64 then ts_wide_range_store E sig b b bv bx s
                    else ts_range_store_xz E sig bv bx b b s)
      else s)"

fun x_cmp :: "('v, 'o, 's) env \<Rightarrow> ts_cmp \<Rightarrow> pregs \<Rightarrow> ('v, 'o) sim \<Rightarrow> ('v, 'o) x_res" where
  "x_cmp E (Lt d a b) p s = (p(d := rel_p (<) p a b), s, Next)"
| "x_cmp E (Leq d a b) p s = (p(d := rel_p (\<le>) p a b), s, Next)"
| "x_cmp E (Gt d a b) p s = (p(d := rel_p (>) p a b), s, Next)"
| "x_cmp E (Geq d a b) p s = (p(d := rel_p (\<ge>) p a b), s, Next)"
| "x_cmp E (CmpS d a b kind sa sb) p s = (p(d := rel_p (cmps_op kind sa sb) p a b), s, Next)"
| "x_cmp E (BitStoreNbaDyn sig i sr w) p s = (p, x_bit_store E True sig i sr w p s, Next)"
| "x_cmp E (BitDyn d sr i w) p s =
     (p(d := if px p i \<noteq> 0 \<or> pv p i \<ge> of_nat w then (0, 1)
             else (shr64 (pv p sr) (unat (pv p i)) AND 1, shr64 (px p sr) (unat (pv p i)) AND 1)), s, Next)"
| "x_cmp E (LogNot d sr) p s = (p(d := from_t3 (not3 (t3r p sr))), s, Next)"
| "x_cmp E (LogAnd d a b) p s = (p(d := from_t3 (and3 (t3r p a) (t3r p b))), s, Next)"
| "x_cmp E (LogOr d a b) p s = (p(d := from_t3 (or3 (t3r p a) (t3r p b))), s, Next)"
| "x_cmp E (Concat d parts) p s =
     (p(d := foldl (\<lambda>(av, ax) (q, w). if w \<ge> 64 then (pv p q, px p q)
                                     else (shl64 av w OR pv p q, shl64 ax w OR px p q))
               (case parts of [] \<Rightarrow> (0, 0) | (q, _) # _ \<Rightarrow> (pv p q, px p q)) (drop 1 parts)), s, Next)"
| "x_cmp E (Concat2 d a wa b wb) p s =
     (p(d := (shl64 (pv p a) wb OR pv p b, shl64 (px p a) wb OR px p b)), s, Next)"
| "x_cmp E (Concat3 d a wa b wb c wc) p s =
     (p(d := (shl64 (shl64 (pv p a) wb OR pv p b) wc OR pv p c,
              shl64 (shl64 (px p a) wb OR px p b) wc OR px p c)), s, Next)"
| "x_cmp E (Mask d m) p s = (p(d := (pv p d AND m, px p d AND m)), s, Next)"

fun x_ctrl :: "('v, 'o, 's) env \<Rightarrow> ts_ctrl \<Rightarrow> pregs \<Rightarrow> ('v, 'o) sim \<Rightarrow> ('v, 'o) x_res" where
  "x_ctrl E (BrSigFalse sig bt t) p s =
     (let (v, x) = (if bt = u32_max then sig_raw E s sig
                    else raw_bits_slice E (signal_table s sig) (bt mod 2 ^ 16) 1)
      in (p, s, if t3 v x \<noteq> Some True then Goto t else Next))"
| "x_ctrl E (BrFalse sr t) p s = (p, s, if t3r p sr \<noteq> Some True then Goto t else Next)"
| "x_ctrl E (BrNz sr t) p s = (p, s, if t3r p sr = Some True then Goto t else Next)"
| "x_ctrl E (Jmp t) p s = (p, s, Goto t)"
| "x_ctrl E (JmpPoll t) p s =
     (let (stop, s) = loop_stop_requested s
      in if stop then (p, take_interrupt E s, Ret True) else (p, s, Goto t))"
| "x_ctrl E (CaseJmp sr cj) p s =
     (p, s, Goto (if px p sr \<noteq> 0 then cj_default cj
                  else if unat (pv p sr) < length (cj_table cj) then cj_table cj ! unat (pv p sr)
                  else cj_default cj))"
| "x_ctrl E (CaseMaskJmp sr cm) p s =
     (if px p sr AND cm_mask cm \<noteq> 0 then (p, s, Goto (mj_xz_path (cm_mj cm)))
      else let ix = unat (shr64 (pv p sr AND cm_mask cm) (cm_lo cm) AND cm_wmask cm); tb = mj_table (cm_mj cm)
           in (p, s, if ix < length tb then Goto (tb ! ix) else Unreachable))"
| "x_ctrl E LoopPoll p s =
     (let (stop, s) = loop_stop_requested s
      in if stop then (p, take_interrupt E s, Ret True) else (p, s, Next))"

text \<open>The dynamic range stores.\<close>

definition x_range_store_dyn ::
  "('v, 'o, 's) env \<Rightarrow> bool \<Rightarrow> nat \<Rightarrow> nat \<Rightarrow> nat \<Rightarrow> nat \<Rightarrow> nat \<Rightarrow> u64 \<Rightarrow> pregs \<Rightarrow> ('v, 'o) sim \<Rightarrow> ('v, 'o) sim" where
  "x_range_store_dyn E nba sig i sr w sw m p s =
     (let lo = pv p i
      in if px p i = 0 \<and> lo + of_nat w \<le> of_nat sw
         then let lo32 = unat lo mod 2 ^ 32; hi = unat (ucast lo + of_nat w - 1 :: u32);
                  qv = pv p sr AND m; qx = px p sr AND m
              in if nba then (if sw > 64 then ts_wide_range_store_nba_xz E sig lo32 hi qv qx s
                              else ts_range_store_nba_xz E sig lo32 hi qv qx s)
                 else (if sw > 64 then ts_wide_range_store E sig lo32 hi qv qx s
                       else ts_range_store_xz E sig qv qx lo32 hi s)
         else s)"

fun x_dyn :: "('v, 'o, 's) env \<Rightarrow> ts_dyn \<Rightarrow> pregs \<Rightarrow> ('v, 'o) sim \<Rightarrow> ('v, 'o) x_res" where
  "x_dyn E (RedOr d sr) p s = (p(d := from_t3 (t3r p sr)), s, Next)"
| "x_dyn E (RedAnd d sr m) p s =
     (p(d := if NOT (pv p sr) AND NOT (px p sr) AND m \<noteq> 0 then (0, 0)
             else if px p sr AND m \<noteq> 0 then (0, 1) else (1, 0)), s, Next)"
| "x_dyn E (BitStoreDyn sig i sr w) p s = (p, x_bit_store E False sig i sr w p s, Next)"
| "x_dyn E (SigRangeDyn d sig i w sw m) p s =
     (p(d := if px p i \<noteq> 0 \<or> pv p i + of_nat w > of_nat sw then (0, m)
             else let (v, x) = raw_bits_slice E (signal_table s sig) (unat (pv p i) mod 2 ^ 16) w
                  in (v AND m, x AND m)), s, Next)"
| "x_dyn E (RangeStoreDyn sig i sr w sw m) p s = (p, x_range_store_dyn E False sig i sr w sw m p s, Next)"
| "x_dyn E (RangeStoreNbaDyn sig i sr w sw m) p s = (p, x_range_store_dyn E True sig i sr w sw m p s, Next)"
| "x_dyn E (SaveSigW sig) p s = (p, s, Next)"
| "x_dyn E (RangeFillXW sig hi lo v) p s = (p, ts_wide_range_fill_xz E sig lo hi v s, Next)"
| "x_dyn E (WRedOr d sr) p s = (p, s, Ret False)"
| "x_dyn E (WRedAnd d sr w) p s = (p, s, Ret False)"
| "x_dyn E (WSel d c a b) p s = (p, s, Ret False)"

fun x_store :: "('v, 'o, 's) env \<Rightarrow> ts_store_insn \<Rightarrow> pregs \<Rightarrow> ('v, 'o) sim \<Rightarrow> ('v, 'o) x_res" where
  "x_store E (Store sig sr m) p s = (p, ts_store_xz E sig (pv p sr AND m) (px p sr AND m) s, Next)"
| "x_store E (RangeStore sig hi lo sr m) p s =
     (p, ts_range_store_xz E sig (pv p sr AND m) (px p sr AND m) lo hi s, Next)"
| "x_store E (StoreNba sig sr w m) p s = (p, ts_store_nba_xz E sig (pv p sr AND m) (px p sr AND m) w s, Next)"
| "x_store E (ConstStoreNba sig v w) p s = (p, ts_store_nba E sig v w s, Next)"
| "x_store E (RangeStoreNba sig hi lo sr m) p s =
     (p, ts_range_store_nba_xz E sig lo hi (pv p sr AND m) (px p sr AND m) s, Next)"
| "x_store E (RangeStoreW sig hi lo sr m) p s =
     (p, ts_wide_range_store E sig lo hi (pv p sr AND m) (px p sr AND m) s, Next)"
| "x_store E (RangeStoreNbaW sig hi lo sr m) p s =
     (p, ts_wide_range_store_nba_xz E sig lo hi (pv p sr AND m) (px p sr AND m) s, Next)"
| "x_store E (ConstStoreX sig v x) p s = (p, ts_store_xz E sig v x s, Next)"
| "x_store E (RangeStoreX q) p s = (p, ts_range_store_xz E (rx_sig q) (rx_v q) (rx_x q) (rx_lo q) (rx_hi q) s, Next)"
| "x_store E (RangeStoreXW q) p s = (p, ts_wide_range_store E (rx_sig q) (rx_lo q) (rx_hi q) (rx_v q) (rx_x q) s, Next)"
| "x_store E (RangeFillW sig hi lo b) p s = (p, ts_wide_range_fill E sig lo hi b s, Next)"
| "x_store E (RangeFillNbaW sig hi lo b) p s = (p, ts_wide_range_fill_nba E sig lo hi b s, Next)"

text \<open>A non-blocking copy of an array element; \<open>wide\<close> takes the element whole.\<close>

definition x_nba_from_elem ::
  "('v, 'o, 's) env \<Rightarrow> bool \<Rightarrow> ts_nba_from_elem \<Rightarrow> ('v, 'o) sim \<Rightarrow> ('v, 'o) sim" where
  "x_nba_from_elem E wide op s =
     (let (iv, ix) = sig_planes E s (ne_idx_sig op); i = sint iv
      in if ix \<noteq> 0 \<or> i < ne_lo op \<or> i > ne_hi op
         then ts_store_nba_val E (ne_dst op) (set_signed (vo E) False (value_new (vo E) (max (ne_w op) 1))) s
         else let eid = ne_first op + nat (i - ne_lo op)
              in if wide then ts_store_nba_val E (ne_dst op) (set_signed (vo E) False (signal_table s eid)) s
                 else let (ev, ex) = sig_raw E s eid; m = xmask (ne_w op)
                      in ts_store_nba_xz E (ne_dst op) (ev AND m) (ex AND m) (ne_w op) s)"

fun x_elem :: "('v, 'o, 's) env \<Rightarrow> ts_elem \<Rightarrow> pregs \<Rightarrow> ('v, 'o) sim \<Rightarrow> ('v, 'o) x_res" where
  "x_elem E (ElemLoad op) p s =
     (let ew = signal_widths s (el_first op); i = sint (pv p (el_idx op))
      in (p(el_s op := if px p (el_idx op) \<noteq> 0 \<or> i < el_lo op \<or> i > el_hi op then (0, xmask ew)
                       else sig_raw E s (el_first op + nat (i - el_lo op))), s, Next))"
| "x_elem E (ElemStore op) p s =
     (let i = sint (pv p (el_idx op))
      in (p, if px p (el_idx op) = 0 \<and> i \<ge> el_lo op \<and> i \<le> el_hi op
             then ts_store_xz E (el_first op + nat (i - el_lo op))
                    (pv p (el_s op) AND el_mask op) (px p (el_s op) AND el_mask op) s
             else s, Next))"
| "x_elem E (ElemStoreNba op) p s =
     (let i = sint (pv p (el_idx op))
      in (p, if px p (el_idx op) = 0 \<and> i \<ge> el_lo op \<and> i \<le> el_hi op
             then ts_store_nba_xz E (el_first op + nat (i - el_lo op))
                    (pv p (el_s op) AND el_mask op) (px p (el_s op) AND el_mask op) (el_w op) s
             else s, Next))"
| "x_elem E (ElemStoreNbaFromSig f) p s =
     (let op = es_op f; (sv, sx) = sig_raw E s (es_sig f); p = p(es_dl f := (sv, sx)); i = sint (pv p (el_idx op))
      in (p, if px p (el_idx op) = 0 \<and> i \<ge> el_lo op \<and> i \<le> el_hi op
             then ts_store_nba_xz E (el_first op + nat (i - el_lo op))
                    (sv AND el_mask op) (sx AND el_mask op) (el_w op) s
             else s, Next))"
| "x_elem E (NbaFromElem op) p s = (p, x_nba_from_elem E False op s, Next)"
| "x_elem E (WNbaFromElem op) p s = (p, x_nba_from_elem E True op s, Next)"
| "x_elem E (WElemLoad op) p s = (p, s, Ret False)"

fun x_tail :: "('v, 'o, 's) env \<Rightarrow> 's ts_tail \<Rightarrow> pregs \<Rightarrow> ('v, 'o) sim \<Rightarrow> ('v, 'o) x_res" where
  "x_tail E (Mul d a b m) p s = (p(d := arith_p (*) m p a b), s, Next)"
| "x_tail E (AddC d sr k m) p s =
     (p(d := if px p sr \<noteq> 0 then (0, m) else ((pv p sr + k) AND m, 0)), s, Next)"
| "x_tail E (Shl d a b w m) p s =
     (p(d := if px p b \<noteq> 0 then (0, m)
             else if pv p b \<ge> of_nat w then (0, 0)
             else (shl64 (pv p a) (unat (pv p b)) AND m, shl64 (px p a) (unat (pv p b)) AND m)), s, Next)"
| "x_tail E (Shr d a b w) p s =
     (p(d := if px p b \<noteq> 0 then (0, xmask w)
             else if pv p b \<ge> of_nat w then (0, 0)
             else (shr64 (pv p a) (unat (pv p b)), shr64 (px p a) (unat (pv p b)))), s, Next)"
| "x_tail E (Repl d sr w count) p s =
     (p(d := (replicate_narrow (pv p sr) w count, replicate_narrow (px p sr) w count)), s, Next)"
| "x_tail E (SaveSig sig) p s = (p, s, Next)"
| "x_tail E (CovHit c) p s = (p, ts_cov_hit c s, Next)"
| "x_tail E (Fallback st) p s = (p, s, Ret False)"
| "x_tail E (WaitEdge ix resume) p s = (p, s, Ret False)"
| "x_tail E (WaitDelayRaw raw resume) p s = (p, s, Ret False)"
| "x_tail E (WSigRange d sig lo w) p s = (p, s, Ret False)"
| "x_tail E (WRepl d sr w count) p s = (p, s, Ret False)"

fun x_insn :: "('v, 'o, 's) env \<Rightarrow> 's ts_insn \<Rightarrow> pregs \<Rightarrow> ('v, 'o) sim \<Rightarrow> ('v, 'o) x_res" where
  "x_insn E (TBasic i) p s = x_basic E i p s"
| "x_insn E (TFused i) p s = x_fused E i p s"
| "x_insn E (TFused2 i) p s = x_fused2 E i p s"
| "x_insn E (TCmp i) p s = x_cmp E i p s"
| "x_insn E (TCtrl i) p s = x_ctrl E i p s"
| "x_insn E (TDyn i) p s = x_dyn E i p s"
| "x_insn E (TStore i) p s = x_store E i p s"
| "x_insn E (TElem i) p s = x_elem E i p s"
| "x_insn E (TTail i) p s = x_tail E i p s"
| "x_insn E (TWide i) p s = (p, s, Ret False)"

definition x_step ::
  "('v, 'o, 's) env \<Rightarrow> 's ts_insn list \<Rightarrow> nat \<times> pregs \<times> ('v, 'o) sim \<Rightarrow>
   (nat \<times> pregs \<times> ('v, 'o) sim) + (bool option \<times> pregs \<times> ('v, 'o) sim)" where
  "x_step E insns c =
     (case c of (pc, p, s) \<Rightarrow>
        if pc < length insns
        then (case x_insn E (insns ! pc) p s of
                (p, s, Next) \<Rightarrow> Inl (pc + 1, p, s)
              | (p, s, Goto t) \<Rightarrow> Inl (t, p, s)
              | (p, s, Ret b) \<Rightarrow> Inr (Some b, p, s)
              | (p, s, Unreachable) \<Rightarrow> Inr (None, p, s))
        else Inr (Some True, p, s))"

definition exec_two_state_x ::
  "('v, 'o, 's) env \<Rightarrow> 's ts_insn list \<Rightarrow> pregs \<Rightarrow> ('v, 'o) sim \<Rightarrow>
   (bool option \<times> pregs \<times> ('v, 'o) sim) option" where
  "exec_two_state_x E insns p s = run_loop (x_step E insns) (0, p, s)"

end
