(* ===== verification/Ts_X_Agree.thy ===== *)
theory Ts_X_Agree
  imports Ts_X Ts_Inv
begin

text \<open>
  The x-plane executor against the two-state executor.  On registers without x, and as long as
  the two-state run does not give up, both make the same steps; and a screened stream
  (\<open>tsx_insn_ok\<close>) never makes the x-plane executor report failure.
\<close>

section \<open>Screened streams are carried\<close>

lemma x_basic_out: "snd (snd (x_basic E i p s)) = Next"
  by (cases i) (auto split: prod.splits)

lemma x_fused_out: "snd (snd (x_fused E i p s)) = Next"
  by (cases i) (auto simp: Let_def split: prod.splits)

lemma x_fused2_out: "snd (snd (x_fused2 E i p s)) \<noteq> Ret b"
  by (cases i) (auto simp: Let_def split: prod.splits)

lemma x_cmp_out: "snd (snd (x_cmp E i p s)) = Next"
  by (cases i) auto

lemma x_ctrl_out: "snd (snd (x_ctrl E i p s)) \<noteq> Ret False"
  by (cases i) (auto simp: Let_def split: prod.splits)

lemma x_dyn_out: "tsx_insn_ok (TDyn i) \<Longrightarrow> snd (snd (x_dyn E i p s)) = Next"
  by (cases i) (auto split: prod.splits)

lemma x_store_out: "snd (snd (x_store E i p s)) = Next"
  by (cases i) auto

lemma x_elem_out: "tsx_insn_ok (TElem i) \<Longrightarrow> snd (snd (x_elem E i p s)) = Next"
  by (cases i) (auto simp: Let_def split: prod.splits)

lemma x_tail_out: "tsx_insn_ok (TTail i) \<Longrightarrow> snd (snd (x_tail E i p s)) = Next"
  by (cases i) auto

lemmas x_outs = x_basic_out x_fused_out x_fused2_out x_cmp_out x_ctrl_out x_dyn_out x_store_out
  x_elem_out x_tail_out

lemma x_insn_carries: "tsx_insn_ok i \<Longrightarrow> snd (snd (x_insn E i p s)) \<noteq> Ret False"
  by (cases i) (simp_all add: x_outs)

lemma x_steps_carry:
  assumes "\<forall>i\<in>set insns. tsx_insn_ok i"
  shows "steps (x_step E insns) k (pc, p, s) = Inr (b, p', s') \<Longrightarrow> b \<noteq> Some False"
proof (induction k arbitrary: pc p s)
  case (Suc k)
  show ?case
  proof (cases "pc < length insns")
    case True
    then have "snd (snd (x_insn E (insns ! pc) p s)) \<noteq> Ret False"
      using assms x_insn_carries by (metis nth_mem)
    then show ?thesis using Suc True
      by (auto simp: x_step_def split: prod.splits ts_out.splits)
  qed (use Suc.prems in \<open>auto simp: x_step_def\<close>)
qed simp

section \<open>Stores without x\<close>

definition same_inline :: "'v vops \<Rightarrow> bool" where
  "same_inline V \<longleftrightarrow> (\<forall>v w. from_u64 V v w = from_inline V v 0 w)"

text \<open>The signal's planes lie within a mask.\<close>

definition fits :: "('v, 'o, 's) env \<Rightarrow> ('v, 'o) sim \<Rightarrow> nat \<Rightarrow> u64 \<Rightarrow> bool" where
  "fits E s sid m \<longleftrightarrow> fst (sig_raw E s sid) AND m = fst (sig_raw E s sid) \<and>
                      snd (sig_raw E s sid) AND m = snd (sig_raw E s sid)"

lemma and_of_masked: "(v AND m) XOR dv = ((v AND m) XOR dv) AND m" if "dv AND m = (dv :: u64)"
proof -
  have "bit m i" if "bit dv i" for i using that \<open>dv AND m = dv\<close> by (metis bit_and_iff)
  then show ?thesis by (intro bit_word_eqI) (auto simp: bit_and_iff bit_xor_iff)
qed

lemma masked_change:
  assumes "dv AND m = (dv :: u64)" and "dx AND m = dx"
  shows "(((v AND m) XOR dv) OR dx) AND m = ((v AND m) XOR dv) OR dx"
  using assms by (simp add: bit.conj_disj_distrib2 and_of_masked[OF assms(1), symmetric])

lemma ts_store_clean:
  assumes "same_inline (vo E)" and "fits E s sid m"
  shows "ts_store E sid (v AND m) m s = ts_store_xz E sid (v AND m) 0 s"
proof -
  obtain dv dx where raw: "sig_raw E s sid = (dv, dx)" by force
  then have m: "dv AND m = dv" "dx AND m = dx" using assms(2) by (simp_all add: fits_def)
  show ?thesis
    using assms(1) m by (simp add: ts_store_def ts_store_xz_def ts_scrub_two_state_def put_planes_def
        raw same_inline_def masked_change Let_def split: prod.splits)
qed

lemma ts_store_clean_1:
  assumes "same_inline (vo E)" and "fits E s sid m"
  shows "ts_store E sid (b2u b AND m) m s = ts_store_xz E sid (b2u b AND m) 0 s"
  by (rule ts_store_clean[OF assms])

lemma range_store_nba_clean: "ts_range_store_nba E sid lo hi v s = ts_range_store_nba_xz E sid lo hi v 0 s"
  by (simp add: ts_range_store_nba_def ts_range_store_nba_xz_def)

lemma bit_store_nba_clean: "ts_bit_store_nba E sid i b s = ts_range_store_nba_xz E sid i i b 0 s"
  by (simp add: ts_bit_store_nba_def ts_range_store_nba_xz_def)

lemma wide_range_store_nba_clean:
  "ts_wide_range_store_nba E sid lo hi v s = ts_wide_range_store_nba_xz E sid lo hi v 0 s"
  by (simp add: ts_wide_range_store_nba_def ts_wide_range_store_nba_xz_def)

lemma store_nba_clean: "ts_store_nba E sid v w s = ts_store_nba_xz E sid v 0 w s"
  by (simp add: ts_store_nba_xz_def)

lemma wide_bit_store_clean:
  "ts_wide_bit_store E sid i (v AND 1) s = ts_wide_range_store E sid (i mod 2 ^ 32) (i mod 2 ^ 32) (v AND 1) 0 s"
  by (simp add: ts_wide_bit_store_def)

lemmas clean_stores = ts_range_store_def range_store_nba_clean bit_store_nba_clean
  wide_range_store_nba_clean store_nba_clean wide_bit_store_clean

section \<open>One instruction\<close>

definition clean :: "regs \<Rightarrow> pregs" where
  "clean r = (\<lambda>j. (r j, 0))"

lemma clean_nth [simp]: "clean r j = (r j, 0)"
  by (simp add: clean_def)

lemma clean_upd [simp]: "(clean r)(d := (v, 0)) = clean (r(d := v))"
  by (auto simp: clean_def)

text \<open>What the lowering guarantees at an instruction, and the two cases the executors treat
  differently on purpose: hazard saves, and an element store whose source carries x.\<close>

definition agree_at :: "('v, 'o, 's) env \<Rightarrow> 's ts_insn \<Rightarrow> regs \<Rightarrow> ('v, 'o) sim \<Rightarrow> bool" where
  "agree_at E i r s \<longleftrightarrow>
     (case i of
        TDyn (RedAnd d sr m) \<Rightarrow> r sr AND m = r sr
      | TDyn (SaveSigW sig) \<Rightarrow> False
      | TTail (SaveSig sig) \<Rightarrow> False
      | TStore (Store sig sr m) \<Rightarrow> fits E s sig m
      | TFused (LogAndStore d a b sig m) \<Rightarrow> fits E s sig m
      | TFused2 (LogOrStore d a b sig m) \<Rightarrow> fits E s sig m
      | TElem (ElemStore op) \<Rightarrow> \<forall>k \<le> nat (el_hi op - el_lo op). fits E s (el_first op + k) (el_mask op)
      | TElem (ElemStoreNbaFromSig f) \<Rightarrow> snd (sig_raw E s (es_sig f)) = 0
      | TCmp (Concat d parts) \<Rightarrow> \<forall>(q, w)\<in>set (drop 1 parts). w < 64
      | TCmp (BitStoreNbaDyn sig i sr w) \<Rightarrow> w \<le> 64
      | _ \<Rightarrow> tsx_insn_ok i)"

lemma replicate_loop_0: "replicate_loop 0 0 w c = 0"
proof (induction c arbitrary: w rule: less_induct)
  case (less c)
  show ?case
  proof (cases "c = 0")
    case True
    then show ?thesis by (simp add: replicate_loop.simps)
  next
    case False
    then show ?thesis
      using less[of "c div 2" "2 * w"] by (subst replicate_loop.simps) (simp add: Let_def)
  qed
qed

lemma replicate_narrow_0 [simp]: "replicate_narrow 0 w c = 0"
  by (auto simp: replicate_narrow_def repeated_word_def replicate_loop_0)

lemma x_basic_agree:
  "ctrl_basic E i r s = (r', s', out) \<Longrightarrow> out \<noteq> Ret False \<Longrightarrow> x_basic E i (clean r) s = (clean r', s', out)"
  by (cases i) (auto simp: with_sig_def with_slice_def op_p_def arith_p_def split: prod.splits if_splits)

lemma x_fused_agree:
  "ctrl_fused E i r s = (r', s', out) \<Longrightarrow> out \<noteq> Ret False \<Longrightarrow> same_inline (vo E) \<Longrightarrow>
   agree_at E (TFused i) r s \<Longrightarrow> x_fused E i (clean r) s = (clean r', s', out)"
  by (cases i) (auto simp: with_sig_def op_p_def t3r_def Let_def agree_at_def ts_store_clean
      clean_stores xmask_def split: prod.splits if_splits)

lemma x_fused2_agree:
  "ctrl_fused2 E i r s = (r', s', out) \<Longrightarrow> out \<noteq> Ret False \<Longrightarrow> same_inline (vo E) \<Longrightarrow>
   agree_at E (TFused2 i) r s \<Longrightarrow> x_fused2 E i (clean r) s = (clean r', s', out)"
  by (cases i) (auto simp: with_sig_def op_p_def t3r_def Let_def agree_at_def ts_store_clean
      clean_stores xmask_def split: prod.splits if_splits)

lemma foldl_clean:
  "\<forall>(q, w)\<in>set parts. w < 64 \<Longrightarrow>
   foldl (\<lambda>(av, ax) (q, w). if w \<ge> 64 then (pv (clean r) q, px (clean r) q)
       else (shl64 av w OR pv (clean r) q, shl64 ax w OR px (clean r) q)) (a, 0) parts =
   (foldl (\<lambda>acc (q, w). shl64 acc w OR r q) a parts, 0)"
  by (induction parts arbitrary: a) auto

lemma x_cmp_agree:
  "ctrl_cmp E i r s = (r', s', out) \<Longrightarrow> out \<noteq> Ret False \<Longrightarrow>
   agree_at E (TCmp i) r s \<Longrightarrow> x_cmp E i (clean r) s = (clean r', s', out)"
proof (cases i)
  case (Concat d parts)
  assume "ctrl_cmp E i r s = (r', s', out)" "agree_at E (TCmp i) r s"
  then show ?thesis
    using Concat foldl_clean[of "drop 1 parts" r]
    by (cases parts) (auto simp: agree_at_def)
qed (auto simp: rel_p_def cmps_op_def t3r_def Let_def agree_at_def x_bit_store_def clean_stores
      split: if_splits)

lemma x_ctrl_agree:
  "ctrl_branch E i r s = (r', s', out) \<Longrightarrow> out \<noteq> Ret False \<Longrightarrow>
   x_ctrl E i (clean r) s = (clean r', s', out)"
  by (cases i) (auto simp: t3r_def Let_def split: prod.splits if_splits)

lemma x_range_store_dyn_agree:
  "ts_range_store_dyn E sig (r i) (r sr AND m) w sw nba s = (True, s') \<Longrightarrow>
   x_range_store_dyn E nba sig i sr w sw m (clean r) s = s'"
  by (auto simp: ts_range_store_dyn_def x_range_store_dyn_def Let_def clean_stores not_less split: if_splits)

lemma range_dyn_ok:
  "ts_sig_range_dyn E s sig lo w sw = DynOk v \<Longrightarrow>
   \<not> lo + of_nat w > of_nat sw \<and> raw_bits_slice E (signal_table s sig) (unat lo mod 2 ^ 16) w = (v, 0)"
  by (auto simp: ts_sig_range_dyn_def split: if_splits prod.splits)

lemma x_dyn_agree:
  "ctrl_dyn E i r s = (r', s', out) \<Longrightarrow> out \<noteq> Ret False \<Longrightarrow>
   agree_at E (TDyn i) r s \<Longrightarrow> x_dyn E i (clean r) s = (clean r', s', out)"
proof (cases i)
  case (RedAnd d sr m)
  assume "ctrl_dyn E i r s = (r', s', out)" "agree_at E (TDyn i) r s"
  moreover from this have "r sr AND m = r sr" by (simp add: RedAnd agree_at_def)
  moreover have "m = (r sr AND m) OR (NOT (r sr) AND m)"
    by (simp add: bit.conj_disj_distrib2[symmetric])
  then have "NOT (r sr) AND m = 0 \<longleftrightarrow> r sr = m"
    using calculation(3) by (metis and.commute bit.conj_cancel_left or.right_neutral and_zero_eq bit.conj_zero_left)
  ultimately show ?thesis by (auto simp: RedAnd)
qed (auto simp: t3r_def agree_at_def x_bit_store_def clean_stores Let_def dest!: x_range_store_dyn_agree range_dyn_ok
      split: prod.splits if_splits ts_dyn_result.splits)

lemma x_store_agree:
  "ctrl_store E i r s = (r', s', out) \<Longrightarrow> same_inline (vo E) \<Longrightarrow>
   agree_at E (TStore i) r s \<Longrightarrow> x_store E i (clean r) s = (clean r', s', out)"
  by (cases i) (auto simp: agree_at_def ts_store_clean clean_stores)

lemma x_tail_agree:
  "ctrl_tail E i r s = (r', s', out) \<Longrightarrow> out \<noteq> Ret False \<Longrightarrow>
   agree_at E (TTail i) r s \<Longrightarrow> x_tail E i (clean r) s = (clean r', s', out)"
  by (cases i) (auto simp: agree_at_def arith_p_def split: if_splits)

lemma elem_index: "el_lo op \<le> i \<Longrightarrow> i \<le> el_hi op \<Longrightarrow> nat (i - el_lo op) \<le> nat (el_hi op - el_lo op)"
  by simp

lemma x_elem_agree:
  "ctrl_elem E i r s = (r', s', out) \<Longrightarrow> out \<noteq> Ret False \<Longrightarrow> same_inline (vo E) \<Longrightarrow> mirror_ok E s \<Longrightarrow>
   agree_at E (TElem i) r s \<Longrightarrow> x_elem E i (clean r) s = (clean r', s', out)"
proof (cases i)
  case (ElemStore op)
  assume "ctrl_elem E i r s = (r', s', out)" "same_inline (vo E)" "agree_at E (TElem i) r s"
  then show ?thesis
    using elem_index[of op "sint (r (el_idx op))"]
    by (auto simp: ElemStore agree_at_def ts_store_clean Let_def)
qed (auto simp: agree_at_def clean_stores x_nba_from_elem_def mirror_sig_planes xmask_def Let_def
      split: prod.splits if_splits)

text \<open>The instruction-level agreement.\<close>

lemma x_insn_agree:
  assumes "ctrl_insn E i r s = (r', s', out)" and "out \<noteq> Ret False"
    and "same_inline (vo E)" and "mirror_ok E s" and "agree_at E i r s"
  shows "x_insn E i (clean r) s = (clean r', s', out)"
proof (cases i)
  case (TWide w)
  then show ?thesis using assms(5) by (simp add: agree_at_def)
qed (use assms in \<open>simp_all add: x_basic_agree x_fused_agree x_fused2_agree x_cmp_agree
    x_ctrl_agree x_dyn_agree x_store_agree x_elem_agree x_tail_agree\<close>)

section \<open>Runs\<close>

text \<open>A configuration the two-state run reaches.\<close>

definition reaches ::
  "('v, 'o, 's) env \<Rightarrow> 's ts_insn list \<Rightarrow> nat \<times> regs \<times> ('v, 'o) sim \<Rightarrow> nat \<times> regs \<times> ('v, 'o) sim \<Rightarrow> bool" where
  "reaches E insns a b \<longleftrightarrow> (\<exists>k. steps (ctrl_step E insns) k a = Inl b)"

definition agree_run ::
  "('v, 'o, 's) env \<Rightarrow> 's ts_insn list \<Rightarrow> nat \<times> regs \<times> ('v, 'o) sim \<Rightarrow> bool" where
  "agree_run E insns a \<longleftrightarrow> (\<forall>pc r s. reaches E insns a (pc, r, s) \<longrightarrow> pc < length insns \<longrightarrow>
     agree_at E (insns ! pc) r s)"

lemma reaches_after:
  assumes "ctrl_step E insns a = Inl b" and "reaches E insns b c"
  shows "reaches E insns a c"
proof -
  obtain k where "steps (ctrl_step E insns) k b = Inl c" using assms(2) by (auto simp: reaches_def)
  then have "steps (ctrl_step E insns) (Suc k) a = Inl c" using assms(1) by simp
  then show ?thesis unfolding reaches_def ..
qed

lemma agree_run_step: "agree_run E insns a \<Longrightarrow> ctrl_step E insns a = Inl b \<Longrightarrow> agree_run E insns b"
  using reaches_after unfolding agree_run_def by blast

text \<open>Both step functions as one map of results, so that the contract of \<open>step_refinement\<close> (equal
  results) applies.\<close>

definition clean_res :: "('v, 'o) ts_result \<Rightarrow> bool option \<times> pregs \<times> ('v, 'o) sim" where
  "clean_res res = (case res of (b, r, s) \<Rightarrow> (b, clean r, s))"

definition ctrl_step_clean ::
  "('v, 'o, 's) env \<Rightarrow> 's ts_insn list \<Rightarrow> nat \<times> regs \<times> ('v, 'o) sim \<Rightarrow>
   (nat \<times> regs \<times> ('v, 'o) sim) + (bool option \<times> pregs \<times> ('v, 'o) sim)" where
  "ctrl_step_clean E insns c = map_sum (\<lambda>c. c) clean_res (ctrl_step E insns c)"

lemma steps_clean: "steps (ctrl_step_clean E insns) k c = map_sum (\<lambda>c. c) clean_res (steps (ctrl_step E insns) k c)"
  by (induction k arbitrary: c) (auto simp: ctrl_step_clean_def split: sum.splits)

lemma run_loop_clean:
  assumes "run_loop (ctrl_step E insns) a = Some (b, r', s')"
  shows "run_loop (ctrl_step_clean E insns) a = Some (b, clean r', s')"
proof -
  obtain k where "steps (ctrl_step E insns) k a = Inr (b, r', s')"
    using assms run_loop_Some_iff by metis
  then have "steps (ctrl_step_clean E insns) k a = Inr (b, clean r', s')"
    by (simp add: steps_clean clean_res_def)
  then show ?thesis by (rule run_loop_steps_Inr)
qed

definition x_rel ::
  "('v, 'o, 's) env \<Rightarrow> 's ts_insn list \<Rightarrow> nat \<times> regs \<times> ('v, 'o) sim \<Rightarrow> nat \<times> pregs \<times> ('v, 'o) sim \<Rightarrow> bool" where
  "x_rel E insns a b \<longleftrightarrow>
     (case a of (pc, r, s) \<Rightarrow> b = (pc, clean r, s) \<and> mirror_env E \<and> mirror_ok E s) \<and>
     same_inline (vo E) \<and> agree_run E insns a"

lemma x_step_agree:
  assumes "x_rel E insns (pc, r, s) b"
  shows "(\<exists>r' s'. ctrl_step E insns (pc, r, s) = Inr (Some False, r', s')) \<or>
    (\<exists>a' b'. ctrl_step E insns (pc, r, s) = Inl a' \<and> x_step E insns b = Inl b' \<and> x_rel E insns a' b') \<or>
    (\<exists>q. ctrl_step E insns (pc, r, s) = Inr q \<and> x_step E insns b = Inr (clean_res q))"
proof (cases "pc < length insns")
  case False
  then show ?thesis using assms by (auto simp: x_rel_def ctrl_step_def x_step_def clean_res_def)
next
  case True
  obtain r' s' out where res: "ctrl_insn E (insns ! pc) r s = (r', s', out)" using prod_cases3 by blast
  have b: "b = (pc, clean r, s)" and env: "mirror_env E" "mirror_ok E s" "same_inline (vo E)"
    and run: "agree_run E insns (pc, r, s)" using assms by (simp_all add: x_rel_def)
  have "reaches E insns (pc, r, s) (pc, r, s)" unfolding reaches_def by (rule exI[of _ 0]) simp
  then have "agree_at E (insns ! pc) r s" using run True by (simp add: agree_run_def)
  then have x: "x_insn E (insns ! pc) (clean r) s = (clean r', s', out)" if "out \<noteq> Ret False"
    using x_insn_agree[OF res that] env by blast
  have ok: "mirror_ok E s'" using mirror.ctrl_insn_keeps'[OF _ res] env by blast
  have go_on: "x_rel E insns (t, r', s') (t, clean r', s')" if "ctrl_step E insns (pc, r, s) = Inl (t, r', s')" for t
  proof -
    have "agree_run E insns (t, r', s')" by (rule agree_run_step[OF run that])
    then show ?thesis using env ok by (simp add: x_rel_def)
  qed
  show ?thesis
  proof (cases out)
    case Next
    then have "ctrl_step E insns (pc, r, s) = Inl (Suc pc, r', s')" "x_step E insns b = Inl (Suc pc, clean r', s')"
      using True res x by (simp_all add: ctrl_step_def x_step_def b)
    then show ?thesis using go_on by blast
  next
    case (Goto t)
    then have "ctrl_step E insns (pc, r, s) = Inl (t, r', s')" "x_step E insns b = Inl (t, clean r', s')"
      using True res x by (simp_all add: ctrl_step_def x_step_def b)
    then show ?thesis using go_on by blast
  next
    case (Ret c)
    then have "ctrl_step E insns (pc, r, s) = Inr (Some c, r', s')"
      "c \<Longrightarrow> x_step E insns b = Inr (clean_res (Some c, r', s'))"
      using True res x by (simp_all add: ctrl_step_def x_step_def b clean_res_def)
    then show ?thesis by (cases c) (blast, simp)
  next
    case Unreachable
    then have "ctrl_step E insns (pc, r, s) = Inr (None, r', s')"
      "x_step E insns b = Inr (clean_res (None, r', s'))"
      using True res x by (simp_all add: ctrl_step_def x_step_def b clean_res_def)
    then show ?thesis by blast
  qed
qed

interpretation x_plane: step_refinement "ctrl_step_clean E insns" "x_step E insns" "x_rel E insns"
  "\<lambda>q. fst q \<noteq> Some False" for E insns
proof
  fix a b
  assume rel: "x_rel E insns a b"
  obtain pc r s where a: "a = (pc, r, s)" by (metis prod_cases3)
  from x_step_agree[OF rel[unfolded a]]
  consider r' s' where "ctrl_step E insns a = Inr (Some False, r', s')"
    | a' b' where "ctrl_step E insns a = Inl a'" "x_step E insns b = Inl b'" "x_rel E insns a' b'"
    | q where "ctrl_step E insns a = Inr q" "x_step E insns b = Inr (clean_res q)"
    unfolding a by blast
  then show "(\<exists>k r. steps (ctrl_step_clean E insns) k a = Inr r \<and> \<not> fst r \<noteq> Some False) \<or>
      (\<exists>k m a' b'. steps (ctrl_step_clean E insns) (Suc k) a = Inl a' \<and>
         steps (x_step E insns) (Suc m) b = Inl b' \<and> x_rel E insns a' b') \<or>
      (\<exists>k m r. steps (ctrl_step_clean E insns) k a = Inr r \<and> steps (x_step E insns) m b = Inr r)"
  proof cases
    case 1
    then have "steps (ctrl_step_clean E insns) 1 a = Inr (Some False, clean r', s')"
      by (simp add: ctrl_step_clean_def clean_res_def)
    then show ?thesis by (intro disjI1 exI[of _ 1] exI[of _ "(Some False, clean r', s')"]) simp
  next
    case 2
    then have "steps (ctrl_step_clean E insns) (Suc 0) a = Inl a'" "steps (x_step E insns) (Suc 0) b = Inl b'"
      by (simp_all add: ctrl_step_clean_def)
    then show ?thesis using 2(3) by blast
  next
    case 3
    then have "steps (ctrl_step_clean E insns) 1 a = Inr (clean_res q)" "steps (x_step E insns) 1 b = Inr (clean_res q)"
      by (simp_all add: ctrl_step_clean_def)
    then show ?thesis by blast
  qed
qed

end
