(* ===== verification/Ts_X_Sound.thy ===== *)
theory Ts_X_Sound
  imports Ts_X
begin

text \<open>
  Soundness of the x-plane registers.  A register pair covers a word when the word agrees with
  all its known bits.  Whatever values the x bits of the operands stand for, the word the
  two-state executor computes from them is covered by the pair the x-plane executor computes:
  the x-plane executor never claims to know a bit that depends on an unknown one.
\<close>

definition covers_all :: "pregs \<Rightarrow> regs \<Rightarrow> bool" where
  "covers_all p r \<longleftrightarrow> (\<forall>j. covers (p j) (r j))"

lemma covers_allD: "covers_all p r \<Longrightarrow> covers (pv p j, px p j) (r j)"
  by (simp add: covers_all_def)

lemma covers_all_upd: "covers_all p r \<Longrightarrow> covers q w \<Longrightarrow> covers_all (p(d := q)) (r(d := w))"
  by (simp add: covers_all_def)

text \<open>A pair whose planes lie within a mask.\<close>

definition within :: "u64 \<times> u64 \<Rightarrow> u64 \<Rightarrow> bool" where
  "within q m \<longleftrightarrow> (fst q OR snd q) AND NOT m = 0"

text \<open>The register instructions, with the width facts that lowering provides.\<close>

fun alu :: "'s ts_insn \<Rightarrow> pregs \<Rightarrow> bool" where
  "alu (TBasic (Const _ _)) p = True"
| "alu (TBasic (Bit _ _ _)) p = True"
| "alu (TBasic (Range _ _ _ _)) p = True"
| "alu (TBasic (Xor _ _ _)) p = True"
| "alu (TBasic (And _ _ _)) p = True"
| "alu (TBasic (Or _ _ _)) p = True"
| "alu (TBasic (Sel d c a b m)) p = (within (p a) m \<and> within (p b) m)"
| "alu (TBasic (Not' _ _ _)) p = True"
| "alu (TBasic (XorC _ _ _)) p = True"
| "alu (TBasic (EqC _ _ _)) p = True"
| "alu (TBasic (Add _ _ _ _)) p = True"
| "alu (TBasic (Sub _ _ _ _)) p = True"
| "alu (TBasic (Eq _ _ _)) p = True"
| "alu (TBasic (MaskEq _ _ _ _)) p = True"
| "alu (TBasic (Neq _ _ _)) p = True"
| "alu (TFused (LogNotAnd _ _ _ _ _)) p = True"
| "alu (TFused (LogNotLogAnd _ _ _ _ _)) p = True"
| "alu (TFused2 (ConstEq _ _ _ _ _)) p = True"
| "alu (TFused2 (AndOr _ _ _ _ _ _)) p = True"
| "alu (TCmp (Lt _ _ _)) p = True"
| "alu (TCmp (CmpS _ _ _ _ _ _)) p = True"
| "alu (TCmp (Leq _ _ _)) p = True"
| "alu (TCmp (Gt _ _ _)) p = True"
| "alu (TCmp (Geq _ _ _)) p = True"
| "alu (TCmp (LogNot _ _)) p = True"
| "alu (TCmp (LogAnd _ _ _)) p = True"
| "alu (TCmp (LogOr _ _ _)) p = True"
| "alu (TCmp (BitDyn _ _ _ _)) p = True"
| "alu (TCmp (Concat d parts)) p = (\<forall>(q, w)\<in>set (drop 1 parts). w < 64)"
| "alu (TCmp (Concat2 _ _ _ _ _)) p = True"
| "alu (TCmp (Concat3 _ _ _ _ _ _ _)) p = True"
| "alu (TCmp (Mask _ _)) p = True"
| "alu (TDyn (RedOr _ _)) p = True"
| "alu (TDyn (RedAnd d sr m)) p = within (p sr) m"
| "alu (TTail (Mul _ _ _ _)) p = True"
| "alu (TTail (AddC _ _ _ _)) p = True"
| "alu (TTail (Shl _ _ _ _ _)) p = True"
| "alu (TTail (Shr d a b w)) p = within (p a) (xmask w)"
| "alu _ p = False"

text \<open>The operand combinators.\<close>

lemma covers_op:
  assumes "covers_all p r"
    and "\<And>av ax a bv bx b. covers (av, ax) a \<Longrightarrow> covers (bv, bx) b \<Longrightarrow> covers (f av ax bv bx) (g a b)"
  shows "covers (op_p f p a b) (g (r a) (r b))"
  unfolding op_p_def by (rule assms(2)) (rule covers_allD[OF assms(1)])+

lemmas covers_bitwise =
  covers_op[where f = and_p and g = "(AND)", OF _ covers_and_p]
  covers_op[where f = or_p and g = "(OR)", OF _ covers_or_p]
  covers_op[where f = xor_p and g = "(XOR)", OF _ covers_xor_p]
  covers_op[where f = eq_p and g = "\<lambda>a b. b2u (a = b)", OF _ covers_eq_p]
  covers_op[where f = ne_p and g = "\<lambda>a b. b2u (a \<noteq> b)", OF _ covers_ne_p]

lemma known_reg: "covers_all p r \<Longrightarrow> px p a = 0 \<Longrightarrow> pv p a = r a"
  using covers_allD[of p r a] by simp

lemma covers_arith: "covers_all p r \<Longrightarrow> covers (arith_p f m p a b) (f (r a) (r b) AND m)"
  using known_reg[of p r a] known_reg[of p r b]
  by (auto simp: arith_p_def covers_all_x or_eq_0_iff)

lemma covers_rel: "covers_all p r \<Longrightarrow> covers (rel_p f p a b) (b2u (f (r a) (r b)))"
  using known_reg[of p r a] known_reg[of p r b]
  by (auto simp: rel_p_def or_eq_0_iff)

lemma t3r_sound: "covers_all p r \<Longrightarrow> t3r p a = None \<or> t3r p a = Some (r a \<noteq> 0)"
  unfolding t3r_def by (rule t3_sound) (rule covers_allD)

lemma covers_log_not: "covers_all p r \<Longrightarrow> covers (from_t3 (not3 (t3r p a))) (b2u (r a = 0))"
  using t3r_sound[of p r a] by (intro covers_from_t3) (auto simp: not3_def)

lemma covers_log_and:
  "covers_all p r \<Longrightarrow> covers (from_t3 (and3 (t3r p a) (t3r p b))) (b2u (r a \<noteq> 0 \<and> r b \<noteq> 0))"
  using and3_sound[OF t3r_sound[of p r a] t3r_sound[of p r b]] by (intro covers_from_t3) auto

lemma covers_log_or:
  "covers_all p r \<Longrightarrow> covers (from_t3 (or3 (t3r p a) (t3r p b))) (b2u (r a \<noteq> 0 \<or> r b \<noteq> 0))"
  using or3_sound[OF t3r_sound[of p r a] t3r_sound[of p r b]] by (intro covers_from_t3) auto

lemma covers_red_or: "covers_all p r \<Longrightarrow> covers (from_t3 (t3r p a)) (b2u (r a \<noteq> 0))"
  using t3r_sound[of p r a] by (intro covers_from_t3) auto

lemma within_trit: "within q m \<Longrightarrow> \<not> bit m i \<Longrightarrow> trit q i = Some False"
proof -
  assume w: "within q m" and b: "\<not> bit m i"
  have "bit ((fst q OR snd q) AND NOT m) i = False" using w by (simp add: within_def)
  then show ?thesis using b bit_imp_le_length[of "fst q" i] bit_imp_le_length[of "snd q" i]
    by (auto simp: trit_def bit_simps)
qed

lemma within_word:
  assumes "within q m" and "covers q w"
  shows "w AND m = w"
proof -
  have "bit m i" if "bit w i" "i < 64" for i
  proof (rule ccontr)
    assume "\<not> bit m i"
    then have "trit q i = Some False" by (rule within_trit[OF assms(1)])
    then show False using assms(2) that by (auto simp: covers_bits)
  qed
  then show ?thesis by (intro bit_word_eqI) (auto simp: bit_and_iff)
qed

lemma covers_sel:
  assumes "covers_all p r" and "within (p a) m" and "within (p b) m"
  shows "covers (if px p c \<noteq> 0 then merge_p (pv p a) (px p a) (pv p b) (px p b) m
                 else if pv p c \<noteq> 0 then p a else p b) (if r c \<noteq> 0 then r a else r b)"
proof (cases "px p c = 0")
  case True
  then show ?thesis using known_reg[OF assms(1) True] assms(1) by (simp add: covers_all_def)
next
  case False
  have "covers (merge_p (pv p a) (px p a) (pv p b) (px p b) m) (if r c \<noteq> 0 then r a else r b)"
    using assms within_trit[of "p a" m] within_trit[of "p b" m]
    by (intro covers_merge_p covers_allD) auto
  with False show ?thesis by simp
qed

lemma covers_red_and:
  assumes "covers_all p r" and "within (p a) m"
  shows "covers (if NOT (pv p a) AND NOT (px p a) AND m \<noteq> 0 then (0, 0)
                 else if px p a AND m \<noteq> 0 then (0, 1) else (1, 0)) (b2u (r a = m))"
proof -
  have cv: "covers (pv p a, px p a) (r a)" by (rule covers_allD[OF assms(1)])
  have low: "r a AND m = r a" using within_word[OF assms(2)] cv by simp
  consider "NOT (pv p a) AND NOT (px p a) AND m \<noteq> 0"
    | "NOT (pv p a) AND NOT (px p a) AND m = 0" "px p a AND m \<noteq> 0"
    | "NOT (pv p a) AND NOT (px p a) AND m = 0" "px p a AND m = 0" by blast
  then show ?thesis
  proof cases
    case 1
    then obtain i where "i < 64" "\<not> bit (pv p a) i" "\<not> bit (px p a) i" "bit m i"
      by (auto simp: word_zero_iff bit_simps)
    then have "\<not> bit (r a) i" "bit m i" using cv[unfolded covers_all_bits] by auto
    then have "r a \<noteq> m" by auto
    with 1 show ?thesis by simp
  next
    case 3
    then have "bit m i \<Longrightarrow> bit (pv p a) i \<and> \<not> bit (px p a) i" for i
      using bit_imp_le_length[of m i] by (fastforce simp: word_zero_iff bit_simps)
    then have "bit m i \<Longrightarrow> bit (r a) i" for i using cv[unfolded covers_all_bits] by auto
    moreover have "bit (r a) i \<Longrightarrow> bit m i" for i using low by (metis bit_and_iff)
    ultimately have "r a = m" by (intro bit_word_eqI) blast
    with 3 show ?thesis by simp
  qed simp
qed

lemma covers_shift:
  assumes "covers_all p r" and "\<And>n. covers (f (pv p a) n, f (px p a) n) (g (r a) n)" and "covers (0, m) (g (r a) (unat (r b)))"
    and "covers (0, m) 0"
  shows "covers (if px p b \<noteq> 0 then (0, m) else if pv p b \<ge> of_nat w then (0, 0)
            else (f (pv p a) (unat (pv p b)), f (px p a) (unat (pv p b))))
          (if r b \<ge> of_nat w then 0 else g (r a) (unat (r b)))"
  using known_reg[OF assms(1), of b] assms(2)[of "unat (r b)"] assms(3,4) by auto

lemma covers_0: "covers (0, m) 0"
  by (simp add: covers_def)

lemma covers_shl_reg:
  assumes "covers_all p r"
  shows "covers (if px p b \<noteq> 0 then (0, m) else if pv p b \<ge> of_nat w then (0, 0)
            else (shl64 (pv p a) (unat (pv p b)) AND m, shl64 (px p a) (unat (pv p b)) AND m))
          (if r b \<ge> of_nat w then 0 else shl64 (r a) (unat (r b)) AND m)"
  by (rule covers_shift[where f = "\<lambda>v n. shl64 v n AND m" and g = "\<lambda>v n. shl64 v n AND m", OF assms])
    (rule covers_mask covers_shl covers_allD[OF assms] covers_all_x covers_0)+

lemma covers_shr_reg:
  assumes "covers_all p r" and "within (p a) (xmask w)"
  shows "covers (if px p b \<noteq> 0 then (0, xmask w) else if pv p b \<ge> of_nat w then (0, 0)
            else (shr64 (pv p a) (unat (pv p b)), shr64 (px p a) (unat (pv p b))))
          (if r b \<ge> of_nat w then 0 else shr64 (r a) (unat (r b)))"
proof (rule covers_shift[OF assms(1)])
  have low: "r a AND xmask w = r a"
    using within_word[OF assms(2)] covers_allD[OF assms(1)] by simp
  have "bit (xmask w) i" if "bit (shr64 (r a) n) i" for i n
  proof -
    have "bit (r a) (n mod 64 + i)" using that by (simp add: shr64_def bit_drop_bit_eq)
    then have "bit (xmask w) (n mod 64 + i)" using low by (metis bit_and_iff)
    then show ?thesis by (simp add: xmask_eq_ts_mask bit_ts_mask)
  qed
  then show "covers (0, xmask w) (shr64 (r a) (unat (r b)))"
    by (auto simp: covers_all_bits)
qed (rule covers_shr covers_allD[OF assms(1)] covers_0)+

lemma covers_bit_dyn:
  assumes "covers_all p r" and "r i < of_nat w"
  shows "covers (if px p i \<noteq> 0 \<or> pv p i \<ge> of_nat w then (0, 1)
            else (shr64 (pv p a) (unat (pv p i)) AND 1, shr64 (px p a) (unat (pv p i)) AND 1))
          (shr64 (r a) (unat (r i)) AND 1)"
proof (cases "px p i = 0")
  case True
  have "covers (shr64 (pv p a) (unat (r i)) AND 1, shr64 (px p a) (unat (r i)) AND 1)
      (shr64 (r a) (unat (r i)) AND 1)"
    by (rule covers_mask covers_shr covers_allD[OF assms(1)])+
  moreover have "\<not> of_nat w \<le> r i" using assms(2) by (simp add: not_le)
  ultimately show ?thesis using True known_reg[OF assms(1) True] by simp
qed (simp add: covers_all_x)

lemma covers_concat:
  assumes "covers_all p r" and "\<forall>(q, w)\<in>set parts. w < 64" and "covers (av, ax) a"
  shows "covers (foldl (\<lambda>(av, ax) (q, w). if w \<ge> 64 then (pv p q, px p q)
                    else (shl64 av w OR pv p q, shl64 ax w OR px p q)) (av, ax) parts)
          (foldl (\<lambda>acc (q, w). shl64 acc w OR r q) a parts)"
  using assms(2,3)
proof (induction parts arbitrary: av ax a)
  case (Cons part parts)
  obtain q w where part: "part = (q, w)" by force
  have "covers (shl64 av w OR pv p q, shl64 ax w OR px p q) (shl64 a w OR r q)"
    using Cons.prems(2) covers_allD[OF assms(1)] by (intro covers_fields covers_shl)
  then show ?case using Cons part by simp
qed simp

lemma covers_concat_first:
  assumes "covers_all p r"
  shows "covers (case parts of [] \<Rightarrow> (0, 0) | (q, _) # _ \<Rightarrow> (pv p q, px p q))
           (case parts of [] \<Rightarrow> 0 | (q, _) # _ \<Rightarrow> r q)"
  using covers_allD[OF assms] by (auto split: list.split)

section \<open>The instructions\<close>

text \<open>What a register instruction does to both files.\<close>

definition sound_pair ::
  "pregs \<times> ('v, 'o) sim \<times> ts_out \<Rightarrow> regs \<times> ('v, 'o) sim \<times> ts_out \<Rightarrow> ('v, 'o) sim \<Rightarrow> bool" where
  "sound_pair x c s \<longleftrightarrow> covers_all (fst x) (fst c) \<and> snd x = (s, Next) \<and> snd c = (s, Next)"

lemma sound_pairI: "covers_all p' r' \<Longrightarrow> sound_pair (p', s, Next) (r', s, Next) s"
  by (simp add: sound_pair_def)

lemma covers_const: "covers (v, 0) v"
  by simp

lemmas sound_rules = sound_pairI covers_all_upd covers_mask covers_shr covers_shl covers_not
  covers_xor_const covers_bitwise covers_arith covers_rel covers_log_not covers_log_and
  covers_log_or covers_red_or covers_sel covers_red_and covers_shl_reg covers_shr_reg
  covers_fields covers_const

lemma eq_const: "covers_all p r \<Longrightarrow> covers (eq_p (pv p a) (px p a) k 0) (b2u (r a = k))"
  by (intro covers_eq_p covers_allD covers_const)

lemma mask_eq_const:
  "covers_all p r \<Longrightarrow> covers (eq_p (pv p a AND m) (px p a AND m) k 0) (b2u (r a AND m = k))"
  by (intro covers_eq_p covers_mask covers_allD covers_const)

lemma x_basic_sound:
  "alu (TBasic i) p \<Longrightarrow> covers_all p r \<Longrightarrow> sound_pair (x_basic E i p s) (ctrl_basic E i r s) s"
  by (cases i)
    (simp_all only: alu.simps x_basic.simps ctrl_basic.simps simp_thms,
      (intro sound_rules eq_const mask_eq_const covers_allD; simp)+)


lemma x_fused_sound:
  "alu (TFused i) p \<Longrightarrow> covers_all p r \<Longrightarrow> sound_pair (x_fused E i p s) (ctrl_fused E i r s) s"
  by (cases i)
    (simp_all only: alu.simps x_fused.simps ctrl_fused.simps simp_thms Let_def,
      (intro sound_rules covers_allD; simp)+)

lemma x_fused2_sound:
  "alu (TFused2 i) p \<Longrightarrow> covers_all p r \<Longrightarrow> sound_pair (x_fused2 E i p s) (ctrl_fused2 E i r s) s"
  by (cases i)
    (simp_all only: alu.simps x_fused2.simps ctrl_fused2.simps simp_thms Let_def,
      (intro sound_rules covers_allD; simp)+)

lemma cmps_op_ctrl: "ctrl_cmp E (CmpS d a b kind sa sb) r s = (r(d := b2u (cmps_op kind sa sb (r a) (r b))), s, Next)"
  by (simp add: cmps_op_def Let_def)

text \<open>A dynamic bit select with an index out of range ends the two-state run.\<close>

lemma x_cmp_sound:
  assumes "alu (TCmp i) p" and "covers_all p r" and "snd (snd (ctrl_cmp E i r s)) = Next"
  shows "sound_pair (x_cmp E i p s) (ctrl_cmp E i r s) s"
proof (cases i)
  case (BitDyn d a j w)
  then have lt: "r j < of_nat w" using assms(3) by (auto simp: not_le split: if_splits)
  then have "\<not> r j \<ge> of_nat w" by (simp add: not_le)
  then show ?thesis
    unfolding BitDyn x_cmp.simps ctrl_cmp.simps
    using covers_bit_dyn[OF assms(2) lt] by (simp only: if_False) (intro sound_pairI covers_all_upd assms(2))
next
  case (Concat d parts)
  obtain av ax where first: "(case parts of [] \<Rightarrow> (0, 0) | (q, _) # _ \<Rightarrow> (pv p q, px p q)) = (av, ax)" by force
  have "covers (av, ax) (case parts of [] \<Rightarrow> 0 | (q, _) # _ \<Rightarrow> r q)"
    using covers_concat_first[OF assms(2), of parts] first by simp
  then show ?thesis
    using assms(1) unfolding Concat x_cmp.simps ctrl_cmp.simps first
    by (intro sound_pairI covers_all_upd assms(2) covers_concat) simp_all
next
  case (CmpS d a b kind sa sb)
  show ?thesis unfolding CmpS cmps_op_ctrl x_cmp.simps by (intro sound_rules assms(2))
qed (use assms(1,2) in \<open>(simp_all only: alu.simps x_cmp.simps ctrl_cmp.simps simp_thms Let_def,
      (intro sound_rules covers_allD; simp)+)\<close>)

lemma x_dyn_sound:
  "alu (TDyn i) p \<Longrightarrow> covers_all p r \<Longrightarrow> sound_pair (x_dyn E i p s) (ctrl_dyn E i r s) s"
  by (cases i)
    (simp_all only: alu.simps x_dyn.simps ctrl_dyn.simps simp_thms Let_def,
      (intro sound_rules covers_allD; simp)+)

lemma covers_addc:
  "covers_all p r \<Longrightarrow> covers (if px p a \<noteq> 0 then (0, m) else ((pv p a + k) AND m, 0)) ((r a + k) AND m)"
  using known_reg[of p r a] by (auto simp: covers_all_x)

lemma x_tail_sound:
  "alu (TTail i) p \<Longrightarrow> covers_all p r \<Longrightarrow> sound_pair (x_tail E i p s) (ctrl_tail E i r s) s"
  by (cases i)
    (simp_all only: alu.simps x_tail.simps ctrl_tail.simps simp_thms Let_def,
      (intro sound_rules covers_addc covers_allD; simp)+)

lemma x_insn_sound:
  assumes "alu i p" and "covers_all p r" and "snd (snd (ctrl_insn E i r s)) = Next"
  shows "sound_pair (x_insn E i p s) (ctrl_insn E i r s) s"
  using assms x_basic_sound x_fused_sound x_fused2_sound x_cmp_sound x_dyn_sound x_tail_sound
  by (cases i) auto

end
