(* ===== verification/Udp.thy ===== *)
theory Udp
  imports Nba
begin

text \<open>
  User-defined primitives (\<^verbatim>\<open>udp.rs\<close>): the matching of table rows, the compilation of a table to
  a ternary transition table and of an event filter from it, and the evaluation of one instance
  and of a batch of instances.

  A level is 0, 1 or 2 (x); a bit code read from a signal is 0, 1, 2 or 3 (z).  A vector of
  levels is encoded in base 3, the first terminal being the least significant digit.  A panic (an
  index out of the table, a filtered instance without a table) is \<open>None\<close>.
\<close>

section \<open>Tables\<close>

datatype udp_sym = SymLevel char | SymAnyQ | SymB | SymEdge char char | SymEdgeShort char

datatype udp_out = OutLevel char | OutNoChange

record udp_row =
  row_inputs :: "udp_sym list"
  row_state :: "udp_sym option"
  row_output :: udp_out

definition udp_level_match :: "udp_sym \<Rightarrow> nat \<Rightarrow> bool" where
  "udp_level_match sy c =
     (case sy of
        SymLevel ch \<Rightarrow> if ch = CHR ''0'' then c = 0 else if ch = CHR ''1'' then c = 1 else c = 2
      | SymAnyQ \<Rightarrow> True
      | SymB \<Rightarrow> c = 0 \<or> c = 1
      | SymEdge _ _ \<Rightarrow> False
      | SymEdgeShort _ \<Rightarrow> False)"

definition level_char :: "nat \<Rightarrow> char" where
  "level_char code = (if code = 0 then CHR ''0'' else if code = 1 then CHR ''1'' else CHR ''x'')"

definition udp_edge_match :: "udp_sym \<Rightarrow> nat \<Rightarrow> nat \<Rightarrow> bool" where
  "udp_edge_match sy p c =
     (let pc = level_char p; cc = level_char c; ml = (\<lambda>s a. s = CHR ''?'' \<or> s = a)
      in case sy of
           SymEdge f t \<Rightarrow> ml f pc \<and> ml t cc
         | SymEdgeShort k \<Rightarrow>
             if k = CHR ''r'' then pc = CHR ''0'' \<and> cc = CHR ''1''
             else if k = CHR ''f'' then pc = CHR ''1'' \<and> cc = CHR ''0''
             else if k = CHR ''p'' then (pc, cc) \<in> {(CHR ''0'', CHR ''1''), (CHR ''0'', CHR ''x''), (CHR ''x'', CHR ''1'')}
             else if k = CHR ''n'' then (pc, cc) \<in> {(CHR ''1'', CHR ''0''), (CHR ''1'', CHR ''x''), (CHR ''x'', CHR ''0'')}
             else if k = CHR ''*'' then pc \<noteq> cc
             else False
         | _ \<Rightarrow> False)"

fun is_edge :: "udp_sym \<Rightarrow> bool" where
  "is_edge (SymEdge _ _) = True"
| "is_edge (SymEdgeShort _) = True"
| "is_edge _ = False"

text \<open>The position of the edge symbol: \<open>None\<close> if the row has two of them.\<close>

fun find_edge :: "nat \<Rightarrow> nat option \<Rightarrow> udp_sym list \<Rightarrow> nat option option" where
  "find_edge i e [] = Some e"
| "find_edge i e (sy # sys) =
     (if is_edge sy then (if e \<noteq> None then None else find_edge (i + 1) (Some i) sys)
      else find_edge (i + 1) e sys)"

definition row_level :: "udp_out \<Rightarrow> nat option" where
  "row_level out =
     (case out of
        OutLevel ch \<Rightarrow> Some (if ch = CHR ''0'' then 0 else if ch = CHR ''1'' then 1 else 2)
      | OutNoChange \<Rightarrow> None)"

definition udp_match_row ::
  "udp_row \<Rightarrow> nat list \<Rightarrow> nat list \<Rightarrow> nat \<Rightarrow> bool \<Rightarrow> nat option option" where
  "udp_match_row row cur prev cur_state is_seq =
     (if length (row_inputs row) \<noteq> length cur then None
      else case find_edge 0 None (row_inputs row) of
        None \<Rightarrow> None
      | Some edge_pos \<Rightarrow>
          if \<not> (\<forall>i \<in> set [0..<length (row_inputs row)].
                  Some i = edge_pos \<or> udp_level_match (row_inputs row ! i) (cur ! i))
          then None
          else if (case edge_pos of None \<Rightarrow> False
                   | Some e \<Rightarrow> prev ! e = cur ! e \<or> \<not> udp_edge_match (row_inputs row ! e) (prev ! e) (cur ! e))
          then None
          else if is_seq \<and> (case row_state row of None \<Rightarrow> False
                            | Some sy \<Rightarrow> \<not> udp_level_match sy cur_state)
          then None
          else Some (row_level (row_output row)))"

text \<open>The first matching row, and the next state it gives; x if none matches.\<close>

fun first_match :: "udp_row list \<Rightarrow> nat list \<Rightarrow> nat list \<Rightarrow> nat \<Rightarrow> bool \<Rightarrow> nat option option" where
  "first_match [] cur prev st is_seq = None"
| "first_match (row # rows) cur prev st is_seq =
     (case udp_match_row row cur prev st is_seq of
        Some out \<Rightarrow> Some out
      | None \<Rightarrow> first_match rows cur prev st is_seq)"

definition udp_next :: "udp_row list \<Rightarrow> nat list \<Rightarrow> nat list \<Rightarrow> nat \<Rightarrow> bool \<Rightarrow> nat" where
  "udp_next rows cur prev st is_seq =
     (case first_match rows cur prev st is_seq of
        Some (Some out) \<Rightarrow> out
      | Some None \<Rightarrow> st
      | None \<Rightarrow> 2)"

section \<open>Base 3\<close>

fun decode_ternary :: "nat \<Rightarrow> nat \<Rightarrow> nat list" where
  "decode_ternary 0 encoded = []"
| "decode_ternary (Suc n) encoded = (encoded mod 3) # decode_ternary n (encoded div 3)"

fun encode_ternary :: "nat list \<Rightarrow> nat" where
  "encode_ternary [] = 0"
| "encode_ternary (c # cs) = c + 3 * encode_ternary cs"

text \<open>The loop that encodes terminal codes.\<close>

definition encode_loop :: "nat list \<Rightarrow> nat" where
  "encode_loop cs = fst (fold (\<lambda>c (acc, place). (acc + c * place, place * 3)) cs (0, 1))"

section \<open>Compilation\<close>

definition max_lut_entries :: nat where
  "max_lut_entries = 200000"

text \<open>The entries in the order of their indices: state, previous inputs, current inputs.\<close>

definition lut_entries :: "udp_row list \<Rightarrow> nat \<Rightarrow> bool \<Rightarrow> nat \<Rightarrow> nat list" where
  "lut_entries rows input_count is_seq input_states =
     concat (map (\<lambda>st. concat (map (\<lambda>prev_idx.
       map (\<lambda>cur_idx. udp_next rows (decode_ternary input_count cur_idx)
                       (decode_ternary input_count prev_idx) st is_seq)
         [0..<input_states]) [0..<input_states])) [0..<3])"

definition compile_udp_transition_lut :: "udp_row list \<Rightarrow> nat \<Rightarrow> bool \<Rightarrow> (nat list \<times> nat) option" where
  "compile_udp_transition_lut rows input_count is_seq =
     (let input_states = 3 ^ input_count; entries = input_states * input_states * 3
      in if entries > max_lut_entries then None
         else Some (lut_entries rows input_count is_seq input_states, input_states))"

definition lut_index :: "nat \<Rightarrow> nat \<Rightarrow> nat \<Rightarrow> nat \<Rightarrow> nat" where
  "lut_index input_states st prev_idx cur_idx = (st * input_states + prev_idx) * input_states + cur_idx"

definition digit3 :: "nat \<Rightarrow> nat \<Rightarrow> nat" where
  "digit3 place encoded = encoded div place mod 3"

definition passive_holds :: "nat list \<Rightarrow> nat \<Rightarrow> nat \<Rightarrow> bool" where
  "passive_holds lut input_states place \<longleftrightarrow>
     (\<forall>st \<in> set [0..<3]. \<forall>prev_idx \<in> set [0..<input_states]. \<forall>cur_idx \<in> set [0..<input_states].
        prev_idx \<noteq> cur_idx \<and> digit3 place prev_idx = digit3 place cur_idx \<longrightarrow>
        lut ! lut_index input_states st prev_idx cur_idx = st)"

text \<open>The mask bits, as a list of transitions \<open>3 * prev + cur\<close> in the order the loop sets them.\<close>

definition event_transitions :: "nat list \<Rightarrow> nat \<Rightarrow> nat \<Rightarrow> nat list" where
  "event_transitions lut input_states place =
     concat (map (\<lambda>st. concat (map (\<lambda>cur_idx. concat (map (\<lambda>prev_digit.
       let cur_digit = digit3 place cur_idx
       in if prev_digit = cur_digit then []
          else let prev_idx = cur_idx - cur_digit * place + prev_digit * place;
                   next_st = lut ! lut_index input_states st prev_idx cur_idx
               in if next_st \<noteq> st then [prev_digit * 3 + cur_digit] else [])
       [0..<3])) [0..<input_states])) [0..<3])"

definition event_mask :: "nat list \<Rightarrow> nat \<Rightarrow> nat \<Rightarrow> 16 word" where
  "event_mask lut input_states place =
     fold (\<lambda>t m. m OR push_bit t 1) (event_transitions lut input_states place) 0"

fun find_event :: "nat list \<Rightarrow> nat \<Rightarrow> nat list \<Rightarrow> (nat \<times> 16 word) option" where
  "find_event lut input_states [] = None"
| "find_event lut input_states (event_input # rest) =
     (let place = 3 ^ event_input
      in if \<not> passive_holds lut input_states place then find_event lut input_states rest
         else let m = event_mask lut input_states place
              in if m \<noteq> 0 then Some (event_input, m) else find_event lut input_states rest)"

definition compile_udp_event_filter :: "nat list \<Rightarrow> nat \<Rightarrow> nat \<Rightarrow> (nat \<times> 16 word) option" where
  "compile_udp_event_filter lut input_states input_count = find_event lut input_states [0..<input_count]"

section \<open>The encoding\<close>

lemma decode_length [simp]: "length (decode_ternary n k) = n"
  by (induction n k rule: decode_ternary.induct) auto

lemma decode_trits: "i < n \<Longrightarrow> decode_ternary n k ! i < 3"
  by (induction n k arbitrary: i rule: decode_ternary.induct) (auto simp: nth_Cons')

lemma decode_nth: "i < n \<Longrightarrow> decode_ternary n k ! i = digit3 (3 ^ i) k"
proof (induction n k arbitrary: i rule: decode_ternary.induct)
  case (2 n k)
  then show ?case by (cases i) (auto simp: digit3_def div_mult2_eq)
qed simp

lemma encode_decode: "k < 3 ^ n \<Longrightarrow> encode_ternary (decode_ternary n k) = k"
proof (induction n k rule: decode_ternary.induct)
  case (2 n k)
  then have "k div 3 < 3 ^ n" by (simp add: less_mult_imp_div_less mult.commute)
  with 2 show ?case by simp
qed simp

lemma decode_encode: "\<forall>c\<in>set cs. c < 3 \<Longrightarrow> decode_ternary (length cs) (encode_ternary cs) = cs"
  by (induction cs) auto

lemma encode_bound: "\<forall>c\<in>set cs. c < 3 \<Longrightarrow> encode_ternary cs < 3 ^ length cs"
proof (induction cs)
  case (Cons c cs)
  then have "c < 3" "encode_ternary cs < 3 ^ length cs" by auto
  then show ?case by simp
qed simp

lemma digit3_encode: "\<forall>c\<in>set cs. c < 3 \<Longrightarrow> i < length cs \<Longrightarrow> digit3 (3 ^ i) (encode_ternary cs) = cs ! i"
  using decode_nth[of i "length cs" "encode_ternary cs"] decode_encode[of cs] by simp

lemma encode_fold:
  "fold (\<lambda>c (acc, place). (acc + c * place, place * 3)) cs (acc, place) =
   (acc + place * encode_ternary cs, place * 3 ^ length cs)"
  by (induction cs arbitrary: acc place) (simp_all add: algebra_simps)

lemma encode_loop_eq: "encode_loop cs = encode_ternary cs"
  by (simp add: encode_loop_def encode_fold)

lemma encode_update:
  "i < length cs \<Longrightarrow> encode_ternary (cs[i := c]) + (cs ! i) * 3 ^ i = encode_ternary cs + c * 3 ^ i"
proof (induction cs arbitrary: i)
  case (Cons a cs)
  show ?case
  proof (cases i)
    case (Suc k)
    then have "encode_ternary (cs[k := c]) + (cs ! k) * 3 ^ k = encode_ternary cs + c * 3 ^ k"
      using Cons by simp
    then show ?thesis using Suc by (simp add: algebra_simps)
  qed simp
qed simp

lemma encode_ge: "i < length cs \<Longrightarrow> (cs ! i) * 3 ^ i \<le> encode_ternary cs"
proof (induction cs arbitrary: i)
  case (Cons a cs)
  then show ?case by (cases i) (auto simp: algebra_simps intro: trans_le_add2)
qed simp

lemma encode_replace:
  "i < length cs \<Longrightarrow> encode_ternary (cs[i := c]) = encode_ternary cs - (cs ! i) * 3 ^ i + c * 3 ^ i"
  using encode_update[of i cs c] encode_ge[of i cs] by simp

section \<open>The transition table\<close>

lemma length_concat_const:
  "(\<And>x. x \<in> set xs \<Longrightarrow> length (f x) = m) \<Longrightarrow> length (concat (map f xs)) = length xs * m"
  by (induction xs) auto

lemma concat_const_nth:
  assumes "\<And>x. length (f x) = m" and "i < n" and "j < m"
  shows "concat (map f [0..<n]) ! (i * m + j) = f i ! j"
  using assms(2)
proof (induction n)
  case (Suc n)
  have len: "length (concat (map f [0..<n])) = n * m"
    by (subst length_concat_const[where m = m]) (simp_all add: assms(1))
  show ?case
  proof (cases "i = n")
    case True
    then show ?thesis using assms(1,3) len by (simp add: nth_append)
  next
    case False
    then have i: "i < n" using Suc.prems by simp
    then have "Suc i * m \<le> n * m" by (intro mult_le_mono1) simp
    then have "i * m + j < n * m" using assms(3) by simp
    then show ?thesis using Suc.IH[OF i] len by (simp add: nth_append)
  qed
qed simp

lemma compile_lut_eq:
  "compile_udp_transition_lut rows n is_seq = Some (lut, states) \<Longrightarrow>
   states = 3 ^ n \<and> lut = lut_entries rows n is_seq states"
  by (auto simp: compile_udp_transition_lut_def Let_def split: if_splits)

lemma compile_lut_nth:
  assumes "compile_udp_transition_lut rows n is_seq = Some (lut, states)"
    and "st < 3" and "prev_idx < states" and "cur_idx < states"
  shows "states = 3 ^ n" and "length lut = 3 * states * states"
    and "lut ! lut_index states st prev_idx cur_idx =
      udp_next rows (decode_ternary n cur_idx) (decode_ternary n prev_idx) st is_seq"
proof -
  let ?row = "\<lambda>st prev_idx. map (\<lambda>cur_idx. udp_next rows (decode_ternary n cur_idx)
    (decode_ternary n prev_idx) st is_seq) [0..<states]"
  let ?plane = "\<lambda>st. concat (map (?row st) [0..<states])"
  have states: "states = 3 ^ n" and lut: "lut = concat (map ?plane [0..<3])"
    using compile_lut_eq[OF assms(1)] unfolding lut_entries_def by blast+
  have plane: "length (?plane st) = states * states" for st
    by (subst length_concat_const[where m = states]) auto
  have "prev_idx * states + cur_idx < states * states"
  proof -
    have "Suc prev_idx * states \<le> states * states" using assms(3) by (intro mult_le_mono1) simp
    then show ?thesis using assms(4) by simp
  qed
  then have "lut ! (st * (states * states) + (prev_idx * states + cur_idx)) =
      ?plane st ! (prev_idx * states + cur_idx)"
    unfolding lut by (intro concat_const_nth plane assms(2))
  also have "\<dots> = ?row st prev_idx ! cur_idx"
    by (rule concat_const_nth) (use assms(3,4) in simp_all)
  finally show "lut ! lut_index states st prev_idx cur_idx =
      udp_next rows (decode_ternary n cur_idx) (decode_ternary n prev_idx) st is_seq"
    using assms(4) by (simp add: lut_index_def algebra_simps)
  show "states = 3 ^ n" by (rule states)
  show "length lut = 3 * states * states"
    unfolding lut by (subst length_concat_const[where m = "states * states"]) (simp_all only: plane length_upt, simp)
qed

text \<open>On vectors of levels.\<close>

lemma lut_lookup:
  assumes "compile_udp_transition_lut rows n is_seq = Some (lut, states)"
    and "st < 3" and "length prev = n" and "length cur = n"
    and "\<forall>c\<in>set prev. c < 3" and "\<forall>c\<in>set cur. c < 3"
  shows "lut ! lut_index states st (encode_ternary prev) (encode_ternary cur) = udp_next rows cur prev st is_seq"
proof -
  have s: "states = 3 ^ n" using compile_lut_eq[OF assms(1)] by simp
  then have "encode_ternary prev < states" "encode_ternary cur < states"
    using encode_bound[OF assms(5)] encode_bound[OF assms(6)] assms(3,4) by simp_all
  from compile_lut_nth(3)[OF assms(1,2) this]
  show ?thesis using decode_encode[OF assms(5)] decode_encode[OF assms(6)] assms(3,4) by simp
qed

end
