(* ===== verification/Udp_Eval.thy ===== *)
theory Udp_Eval
  imports Udp
begin

text \<open>
  The evaluation of UDP instances, up to what they do to their outputs (Udp_Drive): one instance
  alone, and one instance of a batch that shares an event terminal.  The state of an instance is
  the record \<open>udp_runtime\<close>; the functions on it return the new record and the code to drive, if
  any.  \<open>rd sig bit\<close> is the bit code read from the signal table.
\<close>

record bit_ref =
  br_sig :: nat
  br_bit :: nat

record udp_runtime =
  out_ref :: bit_ref
  in_refs :: "bit_ref list"
  is_sequential :: bool
  delay_rise :: nat
  delay_fall :: nat
  rows :: "udp_row list"
  transition_lut :: "nat list option"
  lut_input_states :: nat
  input_state_idx :: nat
  event_input :: "nat option"
  event_transition_mask :: "16 word"
  ustate :: nat
  prev_inputs :: "nat list"
  initialized :: bool
  warned :: bool

text \<open>Terminal codes: a reference with id \<open>u32_max\<close> is a constant whose bit field is the code.\<close>

definition term_code :: "(nat \<Rightarrow> nat \<Rightarrow> nat) \<Rightarrow> bit_ref \<Rightarrow> nat" where
  "term_code rd b = (if br_sig b = u32_max then br_bit b mod 256 else rd (br_sig b) (br_bit b))"

text \<open>As the filtered paths read them: signals clamped, constants not.\<close>

definition event_code :: "(nat \<Rightarrow> nat \<Rightarrow> nat) \<Rightarrow> bit_ref \<Rightarrow> nat" where
  "event_code rd b = (if br_sig b = u32_max then br_bit b mod 256 else min (rd (br_sig b) (br_bit b)) 2)"

text \<open>The loop that replaces the digits of all terminals but \<open>e\<close> by \<open>f i\<close>.\<close>

definition replace_digits :: "nat \<Rightarrow> nat \<Rightarrow> (nat \<Rightarrow> nat) \<Rightarrow> nat \<Rightarrow> nat" where
  "replace_digits n e f encoded =
     fst (fold (\<lambda>i (enc, place).
            (if i \<noteq> e then enc - (enc div place mod 3) * place + f i * place else enc, place * 3))
          [0..<n] (encoded, 1))"

definition set_digit :: "nat \<Rightarrow> nat \<Rightarrow> nat \<Rightarrow> nat \<Rightarrow> nat" where
  "set_digit enc place old new = enc - old * place + new * place"

definition lut_step :: "udp_runtime \<Rightarrow> nat \<Rightarrow> nat \<Rightarrow> nat option" where
  "lut_step rt prev_idx cur_idx =
     (case transition_lut rt of
        None \<Rightarrow> None
      | Some lut \<Rightarrow>
          let i = lut_index (lut_input_states rt) (ustate rt) prev_idx cur_idx
          in if i < length lut then Some (lut ! i) else None)"

definition eval_filtered ::
  "(nat \<Rightarrow> nat \<Rightarrow> nat) \<Rightarrow> udp_runtime \<Rightarrow> nat \<Rightarrow> (udp_runtime \<times> nat option) option" where
  "eval_filtered rd rt e =
     (let n = length (in_refs rt); code = event_code rd (in_refs rt ! e); place = 3 ^ e;
          prev = input_state_idx rt div place mod 3
      in if prev = code
         then Some (rt\<lparr>input_state_idx :=
                         replace_digits n e (\<lambda>i. event_code rd (in_refs rt ! i)) (input_state_idx rt)\<rparr>, None)
         else if \<not> bit (event_transition_mask rt) ((prev * 3 + code) mod 16)
         then Some (rt\<lparr>input_state_idx := set_digit (input_state_idx rt) place prev code\<rparr>, None)
         else let cur_idx = encode_loop (map (event_code rd) (in_refs rt));
                  prev_idx = set_digit cur_idx place code prev
              in map_option (\<lambda>c. (rt\<lparr>ustate := c, input_state_idx := cur_idx\<rparr>, Some c))
                   (lut_step rt prev_idx cur_idx))"

definition eval_general ::
  "(nat \<Rightarrow> nat \<Rightarrow> nat) \<Rightarrow> udp_runtime \<Rightarrow> (udp_runtime \<times> nat option) option" where
  "eval_general rd rt =
     (let n = length (in_refs rt);
          cur = map (\<lambda>b. let code = term_code rd b in if code \<ge> 2 then 2 else code) (in_refs rt);
          cur_idx = encode_loop cur;
          first = (\<not> initialized rt);
          has_lut = (transition_lut rt \<noteq> None);
          prev = (if has_lut then replicate n 2
                  else map (\<lambda>i. if first then 2 else prev_inputs rt ! i) [0..<n]);
          any_change = (first \<or> (if has_lut then cur_idx \<noteq> input_state_idx rt
                                 else \<exists>i\<in>set [0..<n]. cur ! i \<noteq> prev ! i))
      in if \<not> any_change then Some (rt, None)
         else let new_code =
                (if has_lut
                 then let prev_idx = (if first then lut_input_states rt - 1 else input_state_idx rt);
                          prev_idx = (case event_input rt of None \<Rightarrow> prev_idx
                                      | Some e \<Rightarrow> replace_digits n e (\<lambda>i. cur ! i) prev_idx)
                      in lut_step rt prev_idx cur_idx
                 else Some (udp_next (rows rt) cur prev (ustate rt) (is_sequential rt)))
              in map_option (\<lambda>c. (rt\<lparr>ustate := c, input_state_idx := cur_idx, prev_inputs := cur,
                                     initialized := True\<rparr>, Some c)) new_code)"

definition eval_udp_rt ::
  "(nat \<Rightarrow> nat \<Rightarrow> nat) \<Rightarrow> udp_runtime \<Rightarrow> (udp_runtime \<times> nat option) option" where
  "eval_udp_rt rd rt =
     (if length (in_refs rt) > 32 then Some (rt\<lparr>warned := True\<rparr>, None)
      else case (initialized rt, event_input rt) of
             (True, Some e) \<Rightarrow> eval_filtered rd rt e
           | _ \<Rightarrow> eval_general rd rt)"

text \<open>One instance of a batch; \<open>forced\<close> are the forced signals, \<open>shared\<close> the event code read once.\<close>

definition batch_udp_rt ::
  "(nat \<Rightarrow> nat \<Rightarrow> nat) \<Rightarrow> (nat \<Rightarrow> bool) \<Rightarrow> nat \<Rightarrow> udp_runtime \<Rightarrow> (udp_runtime \<times> nat option) option" where
  "batch_udp_rt rd forced shared rt =
     (if \<not> initialized rt then eval_udp_rt rd rt
      else case event_input rt of
        None \<Rightarrow> None
      | Some e \<Rightarrow>
          let b = in_refs rt ! e;
              code = (if forced (br_sig b) then min (rd (br_sig b) (br_bit b)) 2 else shared);
              place = 3 ^ e;
              prev = input_state_idx rt div place mod 3
          in if prev = code then Some (rt, None)
             else if \<not> bit (event_transition_mask rt) ((prev * 3 + code) mod 16)
             then Some (rt\<lparr>input_state_idx := set_digit (input_state_idx rt) place prev code\<rparr>, None)
             else let cur_idx = encode_loop (map (\<lambda>i. if i = e then code else event_code rd (in_refs rt ! i))
                                              [0..<length (in_refs rt)]);
                      prev_idx = set_digit cur_idx place code prev
                  in map_option (\<lambda>c. (rt\<lparr>ustate := c, input_state_idx := cur_idx\<rparr>, Some c))
                       (lut_step rt prev_idx cur_idx))"

end
