(* ===== verification/Udp_Props.thy ===== *)
theory Udp_Props
  imports Udp_Eval
begin

text \<open>
  Correctness of the UDP evaluation: the event filter only skips changes that hold the state,
  the table path and the row path agree, and the batch agrees with the single evaluation.
\<close>

section \<open>The event filter\<close>

lemma fold_or_bits:
  fixes m :: "16 word"
  shows "t < 16 \<Longrightarrow> bit (fold (\<lambda>t m. m OR push_bit t 1) ts m) t \<longleftrightarrow> bit m t \<or> t \<in> set ts"
proof (induction ts arbitrary: m)
  case (Cons a ts)
  have "bit (push_bit a 1 :: 16 word) t \<longleftrightarrow> t = a"
    using Cons.prems by (auto simp: bit_exp_iff)
  then show ?case using Cons by (auto simp: bit_or_iff)
qed simp

lemma event_mask_bit: "t < 16 \<Longrightarrow> bit (event_mask lut states place) t \<longleftrightarrow> t \<in> set (event_transitions lut states place)"
  unfolding event_mask_def by (subst fold_or_bits) simp_all

lemma event_transitions_mem:
  assumes "st < 3" and "cur_idx < states" and "prev_digit < 3" and "prev_digit \<noteq> digit3 place cur_idx"
    and "lut ! lut_index states st (cur_idx - digit3 place cur_idx * place + prev_digit * place) cur_idx \<noteq> st"
  shows "prev_digit * 3 + digit3 place cur_idx \<in> set (event_transitions lut states place)"
proof -
  have "st \<in> set [0..<3]" "cur_idx \<in> set [0..<states]" "prev_digit \<in> set [0..<3]"
    using assms by simp_all
  then show ?thesis
    using assms(4,5) unfolding event_transitions_def Let_def set_concat set_map by force
qed

lemma find_event_props:
  "find_event lut states es = Some (e, m) \<Longrightarrow>
   e \<in> set es \<and> passive_holds lut states (3 ^ e) \<and> m = event_mask lut states (3 ^ e)"
  by (induction lut states es rule: find_event.induct) (auto simp: Let_def split: if_splits)

lemma filter_props:
  "compile_udp_event_filter lut states n = Some (e, m) \<Longrightarrow>
   e < n \<and> passive_holds lut states (3 ^ e) \<and> m = event_mask lut states (3 ^ e)"
  using find_event_props by (fastforce simp: compile_udp_event_filter_def)

lemma passive_holdsD:
  assumes "passive_holds lut states place" and "st < 3" and "p < states" and "c < states"
    and "p \<noteq> c" and "digit3 place p = digit3 place c"
  shows "lut ! lut_index states st p c = st"
  using assms unfolding passive_holds_def by simp

definition trits :: "nat list \<Rightarrow> bool" where
  "trits cs \<longleftrightarrow> (\<forall>c\<in>set cs. c < 3)"

lemma trits_update: "trits cs \<Longrightarrow> c < 3 \<Longrightarrow> trits (cs[i := c])"
  unfolding trits_def using set_update_subset_insert by fastforce

lemma encode_inj: "trits a \<Longrightarrow> trits b \<Longrightarrow> length a = length b \<Longrightarrow> encode_ternary a = encode_ternary b \<Longrightarrow> a = b"
  using decode_encode unfolding trits_def by metis

text \<open>A change of data terminals only holds the state.\<close>

lemma filter_passive:
  assumes lut: "compile_udp_transition_lut rs n is_seq = Some (lut, states)"
    and flt: "compile_udp_event_filter lut states n = Some (e, m)"
    and st: "st < 3" and len: "length prev = n" "length cur = n" and tr: "trits prev" "trits cur"
    and eq: "prev ! e = cur ! e" and ne: "prev \<noteq> cur"
  shows "udp_next rs cur prev st is_seq = st"
proof -
  have e: "e < n" and pas: "passive_holds lut states (3 ^ e)" using filter_props[OF flt] by auto
  have s: "states = 3 ^ n" using compile_lut_eq[OF lut] by simp
  have b: "encode_ternary prev < states" "encode_ternary cur < states"
    using encode_bound[of prev] encode_bound[of cur] tr len s by (simp_all add: trits_def)
  have "digit3 (3 ^ e) (encode_ternary prev) = digit3 (3 ^ e) (encode_ternary cur)"
    using digit3_encode[of prev e] digit3_encode[of cur e] tr len e eq by (simp add: trits_def)
  moreover have "encode_ternary prev \<noteq> encode_ternary cur"
    using encode_inj[OF tr] len ne by auto
  ultimately have "lut ! lut_index states st (encode_ternary prev) (encode_ternary cur) = st"
    using passive_holdsD[OF pas st b] by simp
  then show ?thesis using lut_lookup[OF lut st len] tr by (simp add: trits_def)
qed

text \<open>So does a transition of the event terminal outside the mask.\<close>

lemma filter_transition:
  assumes lut: "compile_udp_transition_lut rs n is_seq = Some (lut, states)"
    and flt: "compile_udp_event_filter lut states n = Some (e, m)"
    and st: "st < 3" and len: "length cur = n" and tr: "trits cur" and p: "p < 3" "p \<noteq> cur ! e"
    and off: "\<not> bit m (p * 3 + cur ! e)"
  shows "udp_next rs cur (cur[e := p]) st is_seq = st"
proof -
  have e: "e < n" and m: "m = event_mask lut states (3 ^ e)" using filter_props[OF flt] by auto
  have s: "states = 3 ^ n" using compile_lut_eq[OF lut] by simp
  have dig: "digit3 (3 ^ e) (encode_ternary cur) = cur ! e"
    using digit3_encode[of cur e] tr len e by (simp add: trits_def)
  have c3: "cur ! e < 3" using tr len e by (simp add: trits_def)
  have b: "encode_ternary cur < states" using encode_bound[of cur] tr len s by (simp add: trits_def)
  have prev: "encode_ternary cur - cur ! e * 3 ^ e + p * 3 ^ e = encode_ternary (cur[e := p])"
    using encode_replace[of e cur p] len e by simp
  have "p * 3 + cur ! e < 16" using p c3 by simp
  then have "p * 3 + cur ! e \<notin> set (event_transitions lut states (3 ^ e))"
    using off m event_mask_bit by blast
  then have "lut ! lut_index states st (encode_ternary (cur[e := p])) (encode_ternary cur) = st"
    using event_transitions_mem[OF st b p(1), of "3 ^ e" lut] p(2) dig prev by auto
  then show ?thesis
    using lut_lookup[OF lut st _ len, of "cur[e := p]"] trits_update[OF tr p(1)] tr len by (simp add: trits_def)
qed

section \<open>The filtered path\<close>

lemma replace_digits_step:
  assumes "trits cs" and "k \<le> length cs" and "\<forall>i<k. f i < 3"
  shows "fold (\<lambda>i (enc, place). (if i \<noteq> e then enc - (enc div place mod 3) * place + f i * place else enc, place * 3))
      [0..<k] (encode_ternary cs, 1) =
    (encode_ternary (map (\<lambda>i. if i < k \<and> i \<noteq> e then f i else cs ! i) [0..<length cs]), 3 ^ k)"
  using assms(2,3)
proof (induction k)
  case 0
  then show ?case by (simp add: map_nth)
next
  case (Suc k)
  let ?v = "\<lambda>k. map (\<lambda>i. if i < k \<and> i \<noteq> e then f i else cs ! i) [0..<length cs]"
  have k: "k < length cs" using Suc.prems by simp
  have tr: "trits (?v k)"
    using assms(1) Suc.prems(2) by (auto simp: trits_def)
  have dig: "encode_ternary (?v k) div 3 ^ k mod 3 = cs ! k"
    using digit3_encode[of "?v k" k] tr k by (simp add: trits_def digit3_def)
  have upd: "(?v k)[k := f k] = ?v (Suc k)" if "k \<noteq> e"
    using that k by (intro nth_equalityI) (auto simp: nth_list_update less_Suc_eq)
  have keep: "?v k = ?v (Suc k)" if "k = e"
    using that by (auto simp: less_Suc_eq)
  have same: "encode_ternary (?v k) = encode_ternary (?v (Suc k))" if "k = e"
    by (rule arg_cong[OF keep[OF that]])
  have nth: "?v k ! k = cs ! k" using k by simp
  have repl: "encode_ternary (?v k) - cs ! k * 3 ^ k + f k * 3 ^ k = encode_ternary (?v (Suc k))" if "k \<noteq> e"
    using encode_replace[of k "?v k" "f k"] k nth upd[OF that] by simp
  have IH: "fold (\<lambda>i (enc, place). (if i \<noteq> e then enc - (enc div place mod 3) * place + f i * place else enc, place * 3))
      [0..<k] (encode_ternary cs, 1) = (encode_ternary (?v k), 3 ^ k)"
    using Suc by simp
  have upt: "[0..<Suc k] = [0..<k] @ [k]" by simp
  show ?case
    unfolding upt fold_append o_apply IH using dig same repl by simp
qed

lemma replace_digits_eq:
  assumes "trits cs" and "length cs = n" and "\<forall>i<n. f i < 3"
  shows "replace_digits n e f (encode_ternary cs) = encode_ternary (map (\<lambda>i. if i \<noteq> e then f i else cs ! i) [0..<n])"
proof -
  have "map (\<lambda>i. if i < n \<and> i \<noteq> e then f i else cs ! i) [0..<n] = map (\<lambda>i. if i \<noteq> e then f i else cs ! i) [0..<n]"
    by auto
  moreover have "replace_digits n e f (encode_ternary cs) =
      encode_ternary (map (\<lambda>i. if i < n \<and> i \<noteq> e then f i else cs ! i) [0..<length cs])"
    unfolding replace_digits_def by (subst replace_digits_step[OF assms(1)]) (use assms(2,3) in simp_all)
  ultimately show ?thesis using assms(2) by (simp only:)
qed

text \<open>An instance as \<^verbatim>\<open>build_udp_entries\<close> makes it: table and filter are compiled from its rows.\<close>

definition udp_built :: "udp_runtime \<Rightarrow> bool" where
  "udp_built rt \<longleftrightarrow>
     length (in_refs rt) \<le> 32 \<and> ustate rt < 3 \<and>
     (case compile_udp_transition_lut (rows rt) (length (in_refs rt)) (is_sequential rt) of
        None \<Rightarrow> transition_lut rt = None \<and> event_input rt = None
      | Some (lut, states) \<Rightarrow>
          transition_lut rt = Some lut \<and> lut_input_states rt = states \<and>
          (case event_input rt of None \<Rightarrow> True
           | Some e \<Rightarrow> is_sequential rt \<and>
               compile_udp_event_filter lut states (length (in_refs rt)) = Some (e, event_transition_mask rt)))"

lemma udp_builtD:
  assumes "udp_built rt" and "event_input rt = Some e"
  obtains lut states where
    "compile_udp_transition_lut (rows rt) (length (in_refs rt)) True = Some (lut, states)"
    "transition_lut rt = Some lut" "lut_input_states rt = states" "is_sequential rt"
    "compile_udp_event_filter lut states (length (in_refs rt)) = Some (e, event_transition_mask rt)"
proof -
  obtain lut states where c:
    "compile_udp_transition_lut (rows rt) (length (in_refs rt)) (is_sequential rt) = Some (lut, states)"
    using assms by (cases "compile_udp_transition_lut (rows rt) (length (in_refs rt)) (is_sequential rt)")
      (auto simp: udp_built_def)
  have "is_sequential rt" using assms c by (simp add: udp_built_def)
  then show ?thesis using that[of lut states] assms c by (simp add: udp_built_def)
qed

text \<open>The levels of the terminals, as both paths should read them.\<close>

definition levels :: "(nat \<Rightarrow> nat \<Rightarrow> nat) \<Rightarrow> udp_runtime \<Rightarrow> nat list" where
  "levels rd rt = map (\<lambda>b. min (term_code rd b) 2) (in_refs rt)"

lemma levels_trits: "trits (levels rd rt)"
  by (auto simp: levels_def trits_def)

lemma levels_length [simp]: "length (levels rd rt) = length (in_refs rt)"
  by (simp add: levels_def)

text \<open>No terminal is tied to the constant z; the filtered paths do not clamp it.\<close>

definition no_constant_z :: "udp_runtime \<Rightarrow> bool" where
  "no_constant_z rt \<longleftrightarrow> (\<forall>b\<in>set (in_refs rt). br_sig b = u32_max \<longrightarrow> br_bit b mod 256 \<le> 2)"

lemma event_code_level:
  "no_constant_z rt \<Longrightarrow> i < length (in_refs rt) \<Longrightarrow> event_code rd (in_refs rt ! i) = levels rd rt ! i"
  by (auto simp: no_constant_z_def levels_def event_code_def term_code_def)

lemma event_codes: "no_constant_z rt \<Longrightarrow> map (event_code rd) (in_refs rt) = levels rd rt"
  by (rule nth_equalityI) (simp_all add: event_code_level)

lemma level_lt: "i < length (in_refs rt) \<Longrightarrow> levels rd rt ! i < 3"
  using levels_trits[of rd rt] by (simp add: trits_def)

lemma set_digit_encode:
  "i < length cs \<Longrightarrow> set_digit (encode_ternary cs) (3 ^ i) (cs ! i) c = encode_ternary (cs[i := c])"
  by (simp add: set_digit_def encode_replace)

lemma lut_step_next:
  assumes "compile_udp_transition_lut (rows rt) n is_seq = Some (lut, states)"
    and "transition_lut rt = Some lut" and "lut_input_states rt = states" and "ustate rt < 3"
    and "length prev = n" and "length cur = n" and "trits prev" and "trits cur"
  shows "lut_step rt (encode_ternary prev) (encode_ternary cur) = Some (udp_next (rows rt) cur prev (ustate rt) is_seq)"
proof -
  have s: "states = 3 ^ n" using compile_lut_eq[OF assms(1)] by simp
  have b: "encode_ternary prev < states" "encode_ternary cur < states"
    using encode_bound[of prev] encode_bound[of cur] assms s by (simp_all add: trits_def)
  have len: "length lut = 3 * states * states" by (rule compile_lut_nth(2)[OF assms(1,4) b])
  have "(ustate rt * states + encode_ternary prev) * states + encode_ternary cur < 3 * states * states"
  proof -
    have "Suc (ustate rt * states + encode_ternary prev) \<le> 3 * states"
    proof -
      have "Suc (ustate rt) * states \<le> 3 * states" by (rule mult_le_mono1) (use assms(4) in simp)
      then have "states + ustate rt * states \<le> 3 * states" by (simp only: mult_Suc)
      then show ?thesis using b(1) by linarith
    qed
    then have "Suc (ustate rt * states + encode_ternary prev) * states \<le> 3 * states * states"
      by (rule mult_le_mono1)
    then show ?thesis using b(2) by simp
  qed
  then show ?thesis
    using lut_lookup[OF assms(1,4,5,6)] assms(2,3,7,8) len
    by (simp add: lut_step_def lut_index_def trits_def)
qed

text \<open>What the filtered path computes from the old level of the event terminal: the new state and
  the level to drive.\<close>

definition filtered_out :: "(nat \<Rightarrow> nat \<Rightarrow> nat) \<Rightarrow> udp_runtime \<Rightarrow> nat \<Rightarrow> nat \<Rightarrow> nat \<times> nat option" where
  "filtered_out rd rt e old =
     (let cur = levels rd rt
      in if old = cur ! e \<or> \<not> bit (event_transition_mask rt) (old * 3 + cur ! e) then (ustate rt, None)
         else let c = udp_next (rows rt) cur (cur[e := old]) (ustate rt) True in (c, Some c))"

definition event_digit :: "udp_runtime \<Rightarrow> nat \<Rightarrow> nat" where
  "event_digit rt e = digit3 (3 ^ e) (input_state_idx rt)"

definition udp_ok :: "udp_runtime \<Rightarrow> bool" where
  "udp_ok rt \<longleftrightarrow> udp_built rt \<and> no_constant_z rt \<and> input_state_idx rt < 3 ^ length (in_refs rt)"

text \<open>The result of an evaluation of the event path: only the state and the cached inputs change,
  and the cache holds the new level of the event terminal.\<close>

definition filtered_result ::
  "(nat \<Rightarrow> nat \<Rightarrow> nat) \<Rightarrow> udp_runtime \<Rightarrow> nat \<Rightarrow> (udp_runtime \<times> nat option) option \<Rightarrow> bool" where
  "filtered_result rd rt e out \<longleftrightarrow>
     (\<exists>k < 3 ^ length (in_refs rt). digit3 (3 ^ e) k = levels rd rt ! e \<and>
        out = Some (rt\<lparr>ustate := fst (filtered_out rd rt e (event_digit rt e)), input_state_idx := k\<rparr>,
                    snd (filtered_out rd rt e (event_digit rt e))))"

lemma filtered_resultI:
  assumes "length cs = length (in_refs rt)" and "trits cs" and "cs ! e = levels rd rt ! e" and "e < length cs"
    and "out = Some (rt\<lparr>ustate := fst (filtered_out rd rt e (event_digit rt e)),
                       input_state_idx := encode_ternary cs\<rparr>,
                    snd (filtered_out rd rt e (event_digit rt e)))"
  shows "filtered_result rd rt e out"
  unfolding filtered_result_def
  using assms encode_bound[of cs] digit3_encode[of cs e] by (auto simp: trits_def)

text \<open>The cached inputs as a list, and the facts both event paths use.\<close>

lemma udp_okE:
  assumes "udp_ok rt" and "event_input rt = Some e"
  obtains cached lut states where
    "input_state_idx rt = encode_ternary cached" "length cached = length (in_refs rt)" "trits cached"
    "event_digit rt e = cached ! e" "cached ! e < 3" "e < length (in_refs rt)" "ustate rt < 3"
    "compile_udp_transition_lut (rows rt) (length (in_refs rt)) True = Some (lut, states)"
    "transition_lut rt = Some lut" "lut_input_states rt = states"
    "compile_udp_event_filter lut states (length (in_refs rt)) = Some (e, event_transition_mask rt)"
proof -
  obtain lut states where
    c: "compile_udp_transition_lut (rows rt) (length (in_refs rt)) True = Some (lut, states)"
      "transition_lut rt = Some lut" "lut_input_states rt = states"
      "compile_udp_event_filter lut states (length (in_refs rt)) = Some (e, event_transition_mask rt)"
    using udp_builtD[of rt e] assms by (metis udp_ok_def)
  have e: "e < length (in_refs rt)" using filter_props[OF c(4)] by simp
  define cached where "cached = decode_ternary (length (in_refs rt)) (input_state_idx rt)"
  have cached: "input_state_idx rt = encode_ternary cached" "length cached = length (in_refs rt)" "trits cached"
    using assms(1) encode_decode decode_trits
    by (auto simp: cached_def udp_ok_def trits_def in_set_conv_nth)
  have "event_digit rt e = cached ! e" "cached ! e < 3"
    using cached digit3_encode[of cached e] e by (auto simp: trits_def event_digit_def)
  then show ?thesis using that[OF cached _ _ e] c assms(1) by (simp add: udp_ok_def udp_built_def)
qed

lemma eval_filtered_result:
  assumes ok: "udp_ok rt" and ev: "event_input rt = Some e"
  shows "filtered_result rd rt e (eval_filtered rd rt e)"
proof -
  let ?cur = "levels rd rt" and ?n = "length (in_refs rt)"
  obtain cached lut states where
    idx: "input_state_idx rt = encode_ternary cached" and cl: "length cached = ?n" and ct: "trits cached"
    and dig: "event_digit rt e = cached ! e" and c3: "cached ! e < 3" and e: "e < ?n" and st: "ustate rt < 3"
    and lut: "compile_udp_transition_lut (rows rt) ?n True = Some (lut, states)"
    and rl: "transition_lut rt = Some lut" "lut_input_states rt = states"
    using udp_okE[OF ok ev] by metis
  have nz: "no_constant_z rt" using ok by (simp add: udp_ok_def)
  have code: "event_code rd (in_refs rt ! e) = ?cur ! e" by (rule event_code_level[OF nz e])
  have old: "input_state_idx rt div 3 ^ e mod 3 = cached ! e" using dig by (simp add: event_digit_def digit3_def)
  have lev: "?cur ! e < 3" by (rule level_lt[OF e])
  have self: "rt\<lparr>ustate := ustate rt, input_state_idx := k\<rparr> = rt\<lparr>input_state_idx := k\<rparr>" for k by simp
  consider (same) "cached ! e = ?cur ! e"
    | (off) "cached ! e \<noteq> ?cur ! e" "\<not> bit (event_transition_mask rt) (cached ! e * 3 + ?cur ! e)"
    | (on) "cached ! e \<noteq> ?cur ! e" "bit (event_transition_mask rt) (cached ! e * 3 + ?cur ! e)" by blast
  then show ?thesis
  proof cases
    case same
    let ?new = "map (\<lambda>i. if i \<noteq> e then ?cur ! i else cached ! i) [0..<?n]"
    have "replace_digits ?n e (\<lambda>i. event_code rd (in_refs rt ! i)) (input_state_idx rt) = encode_ternary ?new"
    proof -
      have "map (\<lambda>i. if i \<noteq> e then event_code rd (in_refs rt ! i) else cached ! i) [0..<?n] = ?new"
        by (auto simp: event_code_level[OF nz])
      moreover have "replace_digits ?n e (\<lambda>i. event_code rd (in_refs rt ! i)) (input_state_idx rt) =
          encode_ternary (map (\<lambda>i. if i \<noteq> e then event_code rd (in_refs rt ! i) else cached ! i) [0..<?n])"
        unfolding idx by (rule replace_digits_eq[OF ct cl]) (simp add: event_code_level[OF nz] level_lt)
      ultimately show ?thesis by (simp only:)
    qed
    moreover have "trits ?new" using level_lt ct cl by (auto simp: trits_def)
    ultimately show ?thesis
      using same code old e dig
      by (intro filtered_resultI[of ?new]) (simp_all add: eval_filtered_def Let_def filtered_out_def self)
  next
    case off
    have "cached ! e * 3 + ?cur ! e < 16" using c3 lev by simp
    then show ?thesis
      using off code old e dig cl idx trits_update[OF ct lev] set_digit_encode[of e cached "?cur ! e"]
      by (intro filtered_resultI[of "cached[e := ?cur ! e]"])
        (simp_all add: eval_filtered_def Let_def filtered_out_def self)
  next
    case on
    have c16: "(cached ! e * 3 + ?cur ! e) mod 16 = cached ! e * 3 + ?cur ! e" using c3 lev by simp
    have ci: "encode_loop (map (event_code rd) (in_refs rt)) = encode_ternary ?cur"
      by (simp add: event_codes[OF nz] encode_loop_eq)
    have pi: "set_digit (encode_ternary ?cur) (3 ^ e) (?cur ! e) (cached ! e) = encode_ternary (?cur[e := cached ! e])"
      by (rule set_digit_encode) (simp add: e)
    have "lut_step rt (encode_ternary (?cur[e := cached ! e])) (encode_ternary ?cur) =
        Some (udp_next (rows rt) ?cur (?cur[e := cached ! e]) (ustate rt) True)"
      by (rule lut_step_next[OF lut rl st]) (simp_all add: levels_trits trits_update c3)
    then show ?thesis
      using on code old c16 ci pi e dig levels_trits[of rd rt]
      by (intro filtered_resultI[of ?cur]) (simp_all add: eval_filtered_def Let_def filtered_out_def)
  qed
qed

lemma filtered_out_ref:
  assumes ok: "udp_ok rt" and ev: "event_input rt = Some e"
  shows "fst (filtered_out rd rt e (event_digit rt e)) =
    (let cur = levels rd rt; old = event_digit rt e
     in if cur ! e = old then ustate rt else udp_next (rows rt) cur (cur[e := old]) (ustate rt) True)"
proof -
  let ?cur = "levels rd rt" and ?n = "length (in_refs rt)"
  obtain cached lut states where dig: "event_digit rt e = cached ! e" and c3: "cached ! e < 3" and st: "ustate rt < 3"
    and lut: "compile_udp_transition_lut (rows rt) ?n True = Some (lut, states)"
    and flt: "compile_udp_event_filter lut states ?n = Some (e, event_transition_mask rt)"
    using udp_okE[OF ok ev] by metis
  have "udp_next (rows rt) ?cur (?cur[e := cached ! e]) (ustate rt) True = ustate rt"
    if "cached ! e \<noteq> ?cur ! e" "\<not> bit (event_transition_mask rt) (cached ! e * 3 + ?cur ! e)"
    by (rule filter_transition[OF lut flt st _ levels_trits c3 that]) simp
  then show ?thesis using dig by (auto simp: filtered_out_def Let_def)
qed

end
