(* ===== verification/Udp_Batch.thy ===== *)
theory Udp_Batch
  imports Udp_Props
begin

text \<open>
  The two other ways an instance is evaluated: the general path, by the transition table or by the
  table rows, and the batch of the instances that share an event terminal.
\<close>

section \<open>Next states\<close>

lemma row_level_lt: "row_level out = Some c \<Longrightarrow> c < 3"
  by (auto simp: row_level_def split: udp_out.splits if_splits)

lemma match_row_lt: "udp_match_row row cur prev st is_seq = Some (Some c) \<Longrightarrow> c < 3"
  by (auto simp: udp_match_row_def row_level_lt split: if_splits option.splits)

lemma first_match_lt: "first_match rs cur prev st is_seq = Some (Some c) \<Longrightarrow> c < 3"
  by (induction rs) (auto simp: match_row_lt split: option.splits)

lemma udp_next_lt: "st < 3 \<Longrightarrow> udp_next rs cur prev st is_seq < 3"
  by (auto simp: udp_next_def first_match_lt split: option.splits)

section \<open>The general path\<close>

text \<open>The cached previous inputs, as both the table path and the row path keep them.\<close>

definition inputs_cached :: "udp_runtime \<Rightarrow> bool" where
  "inputs_cached rt \<longleftrightarrow>
     (initialized rt \<longrightarrow> length (prev_inputs rt) = length (in_refs rt) \<and> trits (prev_inputs rt) \<and>
        input_state_idx rt = encode_ternary (prev_inputs rt))"

lemma encode_all_x: "Suc (encode_ternary (replicate n 2)) = 3 ^ n"
  by (induction n) simp_all

lemma clamp_levels: "map (\<lambda>b. let code = term_code rd b in if code \<ge> 2 then 2 else code) (in_refs rt) = levels rd rt"
  by (simp add: levels_def Let_def min_def)

lemma ex_nth_neq: "length a = length b \<Longrightarrow> (\<exists>i\<in>set [0..<length a]. a ! i \<noteq> b ! i) \<longleftrightarrow> a \<noteq> b"
  using nth_equalityI[of a b] by force

definition without_lut :: "udp_runtime \<Rightarrow> udp_runtime" where
  "without_lut rt = rt\<lparr>transition_lut := None\<rparr>"

lemma without_lut_sel [simp]:
  "in_refs (without_lut rt) = in_refs rt" "initialized (without_lut rt) = initialized rt"
  "transition_lut (without_lut rt) = None" "prev_inputs (without_lut rt) = prev_inputs rt"
  "rows (without_lut rt) = rows rt" "ustate (without_lut rt) = ustate rt"
  "is_sequential (without_lut rt) = is_sequential rt" "levels rd (without_lut rt) = levels rd rt"
  by (simp_all add: without_lut_def levels_def)

text \<open>What an evaluation commits, and the previous inputs it starts from.\<close>

definition commit :: "udp_runtime \<Rightarrow> nat list \<Rightarrow> nat \<Rightarrow> udp_runtime" where
  "commit rt cur c = rt\<lparr>ustate := c, input_state_idx := encode_ternary cur, prev_inputs := cur, initialized := True\<rparr>"

definition before :: "udp_runtime \<Rightarrow> nat list" where
  "before rt = (if initialized rt then prev_inputs rt else replicate (length (in_refs rt)) 2)"

definition general_ref :: "(nat \<Rightarrow> nat \<Rightarrow> nat) \<Rightarrow> udp_runtime \<Rightarrow> udp_runtime \<times> nat option" where
  "general_ref rd rt =
     (if initialized rt \<and> levels rd rt = before rt then (rt, None)
      else let c = udp_next (rows rt) (levels rd rt) (before rt) (ustate rt) (is_sequential rt)
           in (commit rt (levels rd rt) c, Some c))"

lemma before_props:
  assumes "inputs_cached rt"
  shows "length (before rt) = length (in_refs rt)" and "trits (before rt)"
  using assms by (auto simp: before_def inputs_cached_def trits_def)

lemma before_map:
  assumes "inputs_cached rt"
  shows "map (\<lambda>i. if \<not> initialized rt then 2 else prev_inputs rt ! i) [0..<length (in_refs rt)] = before rt"
  using before_props(1)[OF assms] by (intro nth_equalityI) (simp_all add: before_def)

lemma eval_general_rows:
  assumes "inputs_cached rt" and "transition_lut rt = None"
  shows "eval_general rd rt = Some (general_ref rd rt)"
proof -
  have "(\<exists>i\<in>set [0..<length (in_refs rt)]. levels rd rt ! i \<noteq> before rt ! i) \<longleftrightarrow> levels rd rt \<noteq> before rt"
    using ex_nth_neq[of "levels rd rt" "before rt"] before_props[OF assms(1)] by simp
  then show ?thesis
    unfolding eval_general_def Let_def[of "length _"] clamp_levels assms(2)
    by (simp add: before_map[OF assms(1)] general_ref_def commit_def Let_def encode_loop_eq del: set_upt)
qed

lemma before_idx:
  assumes "inputs_cached rt" and "lut_input_states rt = 3 ^ length (in_refs rt)"
  shows "(if \<not> initialized rt then lut_input_states rt - 1 else input_state_idx rt) = encode_ternary (before rt)"
proof -
  have "encode_ternary (replicate n 2) = 3 ^ n - 1" for n using encode_all_x[of n] by simp
  then show ?thesis using assms by (simp add: before_def inputs_cached_def)
qed

lemma eval_general_lut:
  assumes built: "udp_built rt" and ev: "event_input rt = None" and cached: "inputs_cached rt"
    and lut: "transition_lut rt = Some lut"
  shows "eval_general rd rt = Some (general_ref rd rt)"
proof -
  let ?n = "length (in_refs rt)" and ?cur = "levels rd rt"
  obtain states where c: "compile_udp_transition_lut (rows rt) ?n (is_sequential rt) = Some (lut, states)"
    and st: "lut_input_states rt = states" "ustate rt < 3"
    using built lut by (auto simp: udp_built_def split: option.splits prod.splits)
  have states: "lut_input_states rt = 3 ^ ?n" using compile_lut_eq[OF c] st by simp
  note idx = before_idx[OF cached states]
  have step: "lut_step rt (encode_ternary (before rt)) (encode_ternary ?cur) =
      Some (udp_next (rows rt) ?cur (before rt) (ustate rt) (is_sequential rt))"
    using lut_step_next[OF c lut st] before_props[OF cached] levels_trits by simp
  have change: "encode_ternary ?cur = input_state_idx rt \<longleftrightarrow> ?cur = before rt" if "initialized rt"
    using encode_inj[OF levels_trits[of rd rt] before_props(2)[OF cached]] before_props(1)[OF cached] idx that
    by auto
  show ?thesis
  proof (cases "initialized rt \<and> ?cur = before rt")
    case True
    then show ?thesis
      using change unfolding eval_general_def Let_def[of "length _"] clamp_levels lut
      by (simp add: general_ref_def Let_def encode_loop_eq)
  next
    case False
    then have "\<not> initialized rt \<or> encode_ternary ?cur \<noteq> input_state_idx rt" using change by blast
    then show ?thesis
      using False step idx unfolding eval_general_def Let_def[of "length _"] clamp_levels lut
      by (simp add: general_ref_def commit_def Let_def encode_loop_eq ev)
  qed
qed

lemma eval_general_eq:
  assumes "udp_built rt" and "event_input rt = None" and "inputs_cached rt"
  shows "eval_general rd rt = Some (general_ref rd rt)"
  using eval_general_lut[OF assms] eval_general_rows[OF assms(3)] by (cases "transition_lut rt") blast+

lemma eval_udp_rt_general:
  assumes "udp_built rt" and "event_input rt = None" and "inputs_cached rt"
  shows "eval_udp_rt rd rt = Some (general_ref rd rt)"
  using eval_general_eq[OF assms] assms
  by (cases "initialized rt") (simp_all add: eval_udp_rt_def udp_built_def)

text \<open>The cache stays one.\<close>

lemma general_ref_cached: "inputs_cached rt \<Longrightarrow> inputs_cached (fst (general_ref rd rt))"
  by (simp add: general_ref_def commit_def inputs_cached_def levels_trits Let_def)

lemma general_ref_built: "udp_built rt \<Longrightarrow> event_input rt = None \<Longrightarrow> udp_built (fst (general_ref rd rt))"
  by (auto simp: general_ref_def commit_def udp_built_def udp_next_lt Let_def split: option.splits)

section \<open>One instance of a batch\<close>

text \<open>The event code read once is the level of the instance's event terminal, unless that terminal
  is forced.\<close>

definition shared_ok :: "(nat \<Rightarrow> nat \<Rightarrow> nat) \<Rightarrow> (nat \<Rightarrow> bool) \<Rightarrow> nat \<Rightarrow> udp_runtime \<Rightarrow> nat \<Rightarrow> bool" where
  "shared_ok rd forced shared rt e \<longleftrightarrow>
     br_sig (in_refs rt ! e) \<noteq> u32_max \<and>
     (forced (br_sig (in_refs rt ! e)) \<or> shared = levels rd rt ! e)"

lemma batch_unfold:
  assumes "initialized rt" and "event_input rt = Some e"
    and "(if forced (br_sig (in_refs rt ! e)) then min (rd (br_sig (in_refs rt ! e)) (br_bit (in_refs rt ! e))) 2
      else shared) = code"
  shows "batch_udp_rt rd forced shared rt =
    (let place = 3 ^ e; prev = input_state_idx rt div place mod 3
     in if prev = code then Some (rt, None)
        else if \<not> bit (event_transition_mask rt) ((prev * 3 + code) mod 16)
        then Some (rt\<lparr>input_state_idx := set_digit (input_state_idx rt) place prev code\<rparr>, None)
        else let cur_idx = encode_loop (map (\<lambda>i. if i = e then code else event_code rd (in_refs rt ! i))
                                         [0..<length (in_refs rt)]);
                 prev_idx = set_digit cur_idx place code prev
             in map_option (\<lambda>c. (rt\<lparr>ustate := c, input_state_idx := cur_idx\<rparr>, Some c))
                  (lut_step rt prev_idx cur_idx))"
  unfolding batch_udp_rt_def assms(2,3) Let_def[of "in_refs rt ! e"] option.case
  using assms(1) by (simp add: Let_def assms(3))

lemma batch_result:
  assumes ok: "udp_ok rt" and ev: "event_input rt = Some e" and init: "initialized rt"
    and shared: "shared_ok rd forced shared rt e"
  shows "filtered_result rd rt e (batch_udp_rt rd forced shared rt)"
proof -
  let ?cur = "levels rd rt" and ?n = "length (in_refs rt)"
  obtain cached lut states where
    idx: "input_state_idx rt = encode_ternary cached" and cl: "length cached = ?n" and ct: "trits cached"
    and dig: "event_digit rt e = cached ! e" and c3: "cached ! e < 3" and e: "e < ?n" and st: "ustate rt < 3"
    and lut: "compile_udp_transition_lut (rows rt) ?n True = Some (lut, states)"
    and rl: "transition_lut rt = Some lut" "lut_input_states rt = states"
    using udp_okE[OF ok ev] by metis
  have nz: "no_constant_z rt" using ok by (simp add: udp_ok_def)
  have code: "(if forced (br_sig (in_refs rt ! e)) then min (rd (br_sig (in_refs rt ! e)) (br_bit (in_refs rt ! e))) 2
      else shared) = ?cur ! e"
    using shared e by (auto simp: shared_ok_def levels_def term_code_def)
  note unfold = batch_unfold[where rd = rd and forced = forced and shared = shared, OF init ev code]
  have old: "input_state_idx rt div 3 ^ e mod 3 = cached ! e" using dig by (simp add: event_digit_def digit3_def)
  have lev: "?cur ! e < 3" by (rule level_lt[OF e])
  have t16: "(cached ! e * 3 + ?cur ! e) mod 16 = cached ! e * 3 + ?cur ! e" using c3 lev by simp
  have self: "rt\<lparr>ustate := ustate rt, input_state_idx := k\<rparr> = rt\<lparr>input_state_idx := k\<rparr>" for k by simp
  have keep: "rt\<lparr>input_state_idx := encode_ternary cached\<rparr> = rt" using idx by simp
  consider (same) "cached ! e = ?cur ! e"
    | (off) "cached ! e \<noteq> ?cur ! e" "\<not> bit (event_transition_mask rt) (cached ! e * 3 + ?cur ! e)"
    | (on) "cached ! e \<noteq> ?cur ! e" "bit (event_transition_mask rt) (cached ! e * 3 + ?cur ! e)" by blast
  then show ?thesis
  proof cases
    case same
    then show ?thesis
      using old e dig cl ct
      by (intro filtered_resultI[of cached])
        (simp_all add: unfold Let_def filtered_out_def self keep)
  next
    case off
    then show ?thesis
      using old e dig cl idx t16 trits_update[OF ct lev] set_digit_encode[of e cached "?cur ! e"]
      by (intro filtered_resultI[of "cached[e := ?cur ! e]"])
        (simp_all add: unfold Let_def filtered_out_def self)
  next
    case on
    have "map (\<lambda>i. if i = e then ?cur ! e else event_code rd (in_refs rt ! i)) [0..<?n] = ?cur"
      by (rule nth_equalityI) (simp_all add: event_code_level[OF nz])
    then have ci: "encode_loop (map (\<lambda>i. if i = e then ?cur ! e else event_code rd (in_refs rt ! i)) [0..<?n]) =
        encode_ternary ?cur"
      by (simp only: encode_loop_eq)
    have pi: "set_digit (encode_ternary ?cur) (3 ^ e) (?cur ! e) (cached ! e) = encode_ternary (?cur[e := cached ! e])"
      by (rule set_digit_encode) (simp add: e)
    have "lut_step rt (encode_ternary (?cur[e := cached ! e])) (encode_ternary ?cur) =
        Some (udp_next (rows rt) ?cur (?cur[e := cached ! e]) (ustate rt) True)"
      by (rule lut_step_next[OF lut rl st]) (simp_all add: levels_trits trits_update c3)
    then show ?thesis
      using on old t16 ci pi e dig levels_trits[of rd rt]
      by (intro filtered_resultI[of ?cur]) (simp_all add: unfold Let_def filtered_out_def)
  qed
qed

text \<open>What two records of an instance must share for the two evaluations to agree: everything but
  the cached levels of the data terminals.\<close>

definition same_event :: "udp_runtime \<Rightarrow> udp_runtime \<Rightarrow> bool" where
  "same_event a b \<longleftrightarrow>
     b = a\<lparr>input_state_idx := input_state_idx b\<rparr> \<and>
     (case event_input a of
        Some e \<Rightarrow> event_digit a e = event_digit b e \<and> (initialized a \<or> a = b)
      | None \<Rightarrow> a = b)"

lemma same_event_refl [simp]: "same_event a a"
  by (simp add: same_event_def split: option.splits)

lemma same_event_levels:
  assumes "same_event a b"
  shows "levels rd b = levels rd a"
proof -
  obtain k where "b = a\<lparr>input_state_idx := k\<rparr>" using assms by (auto simp: same_event_def)
  then show ?thesis by (simp add: levels_def)
qed

end
