(* ===== verification/Delayed.thy ===== *)
theory Delayed
  imports Ts_State "HOL-Library.Product_Lexorder"
begin

text \<open>
  Delayed updates of signals: the inertial queue of \<^verbatim>\<open>process_scopes.rs\<close> (gate, continuous-assignment
  and SDF delays) and the module path delays of \<^verbatim>\<open>module_paths.rs\<close> that feed it.

  \<open>denv\<close> adds to the values' operations the access to single bits (\<^verbatim>\<open>get_bit_code\<close> and
  \<^verbatim>\<open>set_bit_code\<close>: 0, 1, 2 for x, 3 for z; \<^verbatim>\<open>get_bit\<close> is the same view), the transition index of two
  bits, and the evaluator of path conditions, all of them of the crate \<^verbatim>\<open>xezim-core\<close> or of the AST
  interpreter.  Sums of times are on \<^verbatim>\<open>u64\<close> in the code; here they do not wrap.
\<close>

record ('v, 'o, 's, 'c) denv =
  base :: "('v, 'o, 's) env"
  get_bit_code :: "'v \<Rightarrow> nat \<Rightarrow> nat"
  set_bit_code :: "nat \<Rightarrow> nat \<Rightarrow> 'v \<Rightarrow> bool \<times> 'v"
  is_real :: "'v \<Rightarrow> bool"
  path_transition_index :: "nat \<Rightarrow> nat \<Rightarrow> nat option"
  cond_true :: "'c \<Rightarrow> ('v, 'o) sim \<Rightarrow> bool"
  comb_dep_offsets :: "nat list"
  unresolved_reads :: bool
  is_unnamed :: "nat \<Rightarrow> bool"

record 'v tc_watch =
  prev_v :: u64
  prev_x :: u64
  wide :: "'v option"

record path_src =
  ps_sig :: nat
  ps_watch :: nat
  ps_last :: nat

record 'c path_rt =
  path_delays :: "nat list"
  path_srcs :: "nat list"
  path_cond :: "'c option"
  ifnone :: bool

record 'c module_paths =
  mp_dst :: "nat \<rightharpoonup> nat"
  mp_tables :: "'c path_rt list list"
  mp_srcs :: "path_src list"

record ('v, 'o, 'c) dsim =
  core :: "('v, 'o) sim"
  sim_time :: nat
  sdf_delays :: "nat list"
  gate_fall_delay_by_id :: "(nat \<times> nat) list"
  gate_off_delay_by_id :: "(nat \<times> nat) list"
  module_paths :: "'c module_paths option"
  timing_watches :: "'v tc_watch list"
  delayed_updates :: "(nat \<times> nat \<times> 'v) list"
  delayed_nba :: "(nat \<times> nat \<times> 'v) list"
  delayed_nba_queue :: "nat list"
  forced_signals :: "nat \<rightharpoonup> 'v"

abbreviation table :: "('v, 'o, 'c) dsim \<Rightarrow> nat \<Rightarrow> 'v" where
  "table s \<equiv> signal_table (core s)"

section \<open>Writing a signal\<close>

text \<open>The macro \<^verbatim>\<open>write_sig!\<close>: the declared signedness, the mirror, the table, and the observers.\<close>

definition write_sig :: "('v, 'o, 's, 'c) denv \<Rightarrow> nat \<Rightarrow> 'v \<Rightarrow> ('v, 'o, 'c) dsim \<Rightarrow> ('v, 'o, 'c) dsim" where
  "write_sig D sid v s =
     (let E = base D; c = core s;
          v = (if \<not> is_real D v then set_signed (vo E) (signal_signed c sid) v else v)
      in if forced_signals s sid \<noteq> None then s
         else let c = (if sid < length (signal_has_xz c)
                       then c\<lparr>signal_has_xz := (signal_has_xz c)[sid := snd (raw_bits (vo E) v) \<noteq> 0]\<rparr> else c);
                  c = (if sid < length (signal_inline_bits c)
                       then c\<lparr>signal_inline_bits := (signal_inline_bits c)[sid := raw_bits (vo E) v]\<rparr> else c);
                  c = set_signal sid v c
              in s\<lparr>core := c\<lparr>observers := note_write E sid v (observers c)\<rparr>\<rparr>)"

definition mark_dirty_id :: "('v, 'o, 's, 'c) denv \<Rightarrow> nat \<Rightarrow> ('v, 'o) sim \<Rightarrow> ('v, 'o) sim" where
  "mark_dirty_id D sid s =
     (let offs = comb_dep_offsets D
      in if sid + 1 \<ge> length offs \<or> offs ! sid \<noteq> offs ! (sid + 1)
         then (if ts_direct_writes s then ts_direct_dirty sid (- 1) s
               else (if \<not> dirty_signals s sid
                     then s\<lparr>dirty_signals := (dirty_signals s)(sid := True), dirty_list := dirty_list s @ [sid]\<rparr>
                     else s)\<lparr>dirty_any := True\<rparr>)
         else if unresolved_reads D \<and> \<not> ts_direct_writes s \<and> is_unnamed D sid
         then s\<lparr>dirty_any := True\<rparr> else s)"

section \<open>Module path delays\<close>

definition table_of :: "'c module_paths option \<Rightarrow> nat \<Rightarrow> nat option" where
  "table_of mp sid = (case mp of None \<Rightarrow> None | Some mp \<Rightarrow> mp_dst mp sid)"

definition stamp :: "nat \<Rightarrow> nat \<Rightarrow> 'c module_paths \<Rightarrow> 'c module_paths" where
  "stamp slot now mp = mp\<lparr>mp_srcs := (mp_srcs mp)[slot := (mp_srcs mp ! slot)\<lparr>ps_last := now\<rparr>]\<rparr>"

definition timing_watch_stale :: "('v, 'o, 's, 'c) denv \<Rightarrow> nat \<Rightarrow> nat \<Rightarrow> ('v, 'o, 'c) dsim \<Rightarrow> bool" where
  "timing_watch_stale D w sig s =
     (let watch = timing_watches s ! w
      in case wide watch of
           Some old \<Rightarrow> value_ne (vo (base D)) old (table s sig)
         | None \<Rightarrow> raw_bits (vo (base D)) (table s sig) \<noteq> (prev_v watch, prev_x watch))"

definition path_input_time :: "('v, 'o, 's, 'c) denv \<Rightarrow> 'c module_paths \<Rightarrow> nat list \<Rightarrow> ('v, 'o, 'c) dsim \<Rightarrow> nat" where
  "path_input_time D mp srcs s =
     fold max (map (\<lambda>k. let src = mp_srcs mp ! k
                        in if timing_watch_stale D (ps_watch src) (ps_sig src) s then sim_time s else ps_last src) srcs) 0"

text \<open>Which paths of a table are enabled: first the unconditional and conditional ones, then, in
  order, the \<^verbatim>\<open>ifnone\<close> ones.\<close>

definition enabled_paths :: "('v, 'o, 's, 'c) denv \<Rightarrow> 'c path_rt list \<Rightarrow> ('v, 'o, 'c) dsim \<Rightarrow> bool list" where
  "enabled_paths D paths s =
     (let en0 = map (\<lambda>p. if ifnone p then False
                          else case path_cond p of Some c \<Rightarrow> cond_true D c (core s) | None \<Rightarrow> True) paths
      in fold (\<lambda>i en. if ifnone (paths ! i)
                      then en[i := \<not> list_ex (\<lambda>j. en ! j \<and> path_cond (paths ! j) \<noteq> None \<and>
                                  list_ex (\<lambda>k. k \<in> set (path_srcs (paths ! i))) (path_srcs (paths ! j))) [0..<length paths]]
                      else en)
           [0..<length paths] en0)"

definition least_delays :: "nat list list \<Rightarrow> nat list" where
  "least_delays dss = fold (\<lambda>ds out. map2 min out ds) dss (replicate 12 (2 ^ 64 - 1))"

definition module_path_delays :: "('v, 'o, 's, 'c) denv \<Rightarrow> nat \<Rightarrow> ('v, 'o, 'c) dsim \<Rightarrow> nat list option" where
  "module_path_delays D k s =
     (case module_paths s of
        None \<Rightarrow> None
      | Some mp \<Rightarrow>
          let paths = mp_tables mp ! k; en = enabled_paths D paths s;
              is = filter (\<lambda>i. en ! i) [0..<length paths];
              times = (\<lambda>i. path_input_time D mp (path_srcs (paths ! i)) s)
          in if is = [] then None
             else let latest = fold max (map times is) 0
                  in Some (least_delays (map (\<lambda>i. path_delays (paths ! i)) (filter (\<lambda>i. times i = latest) is))))"

text \<open>The bits that change, with the time of each: a bit already on its way keeps its time.\<close>

definition in_flight :: "('v, 'o, 's, 'c) denv \<Rightarrow> (nat \<times> 'v) list \<Rightarrow> nat \<Rightarrow> nat \<Rightarrow> nat option" where
  "in_flight D pending b code =
     (if pending \<noteq> [] \<and> get_bit_code D (snd (last pending)) b = code
      then map_option fst (find (\<lambda>(_, v). get_bit_code D v b = code) pending) else None)"

definition bit_time ::
  "('v, 'o, 's, 'c) denv \<Rightarrow> nat \<Rightarrow> nat list option \<Rightarrow> (nat \<times> 'v) list \<Rightarrow> 'v \<Rightarrow> 'v \<Rightarrow> nat \<Rightarrow> nat option" where
  "bit_time D now delays pending old val b =
     (case path_transition_index D (get_bit_code D old b) (get_bit_code D val b) of
        None \<Rightarrow> None
      | Some t \<Rightarrow> Some (case in_flight D pending b (get_bit_code D val b) of
            Some at \<Rightarrow> at
          | None \<Rightarrow> now + (case delays of None \<Rightarrow> 0 | Some ds \<Rightarrow> ds ! t)))"

definition bit_times ::
  "('v, 'o, 's, 'c) denv \<Rightarrow> nat \<Rightarrow> nat list option \<Rightarrow> (nat \<times> 'v) list \<Rightarrow> 'v \<Rightarrow> 'v \<Rightarrow> (nat \<times> nat) list" where
  "bit_times D now delays pending old val =
     List.map_filter (\<lambda>b. map_option (\<lambda>at. (at, b)) (bit_time D now delays pending old val b))
       [0..<min (value_width (vo (base D)) old) (value_width (vo (base D)) val)]"

text \<open>The value of the net after each group of bits that change together.\<close>

function path_steps :: "('v, 'o, 's, 'c) denv \<Rightarrow> 'v \<Rightarrow> (nat \<times> nat) list \<Rightarrow> 'v \<Rightarrow> (nat \<times> 'v) list" where
  "path_steps D val [] cur = []"
| "path_steps D val ((at, b) # rest) cur =
     (let same = takeWhile (\<lambda>(t, _). t = at) rest; later = dropWhile (\<lambda>(t, _). t = at) rest;
          cur = fold (\<lambda>(_, b) v. snd (set_bit_code D b (get_bit_code D val b) v)) ((at, b) # same) cur
      in (at, if later = [] then val else cur) # path_steps D val later cur)"
  by pat_completeness auto
termination
  by (relation "measure (\<lambda>(_, _, ws, _). length ws)") (auto simp: le_imp_less_Suc length_dropWhile_le)

definition drop_updates :: "nat \<Rightarrow> (nat \<times> nat \<times> 'v) list \<Rightarrow> (nat \<times> nat \<times> 'v) list" where
  "drop_updates sid q = filter (\<lambda>(_, i, _). i \<noteq> sid) q"

definition updates_of :: "nat \<Rightarrow> (nat \<times> nat \<times> 'v) list \<Rightarrow> (nat \<times> 'v) list" where
  "updates_of sid q = map (\<lambda>(t, _, v). (t, v)) (filter (\<lambda>(_, i, _). i = sid) q)"

definition schedule_module_path :: "('v, 'o, 's, 'c) denv \<Rightarrow> nat \<Rightarrow> nat \<Rightarrow> 'v \<Rightarrow> ('v, 'o, 'c) dsim \<Rightarrow> ('v, 'o, 'c) dsim" where
  "schedule_module_path D sid k val s =
     (let delays = module_path_delays D k s; old = table s sid;
          pending = sort_key fst (updates_of sid (delayed_updates s));
          ws = sort (bit_times D (sim_time s) delays pending old val);
          st = path_steps D val ws old
      in s\<lparr>delayed_updates := drop_updates sid (delayed_updates s) @ map (\<lambda>(at, v). (at, sid, v)) (rev st)\<rparr>)"

section \<open>The inertial queue\<close>

definition all_zero :: "('v, 'o, 's, 'c) denv \<Rightarrow> 'v \<Rightarrow> bool" where
  "all_zero D v \<longleftrightarrow> \<not> has_xz (vo (base D)) v \<and> list_all (\<lambda>i. get_bit_code D v i = 0) [0..<value_width (vo (base D)) v]"

definition all_z :: "('v, 'o, 's, 'c) denv \<Rightarrow> 'v \<Rightarrow> bool" where
  "all_z D v \<longleftrightarrow> value_width (vo (base D)) v > 0 \<and> list_all (\<lambda>i. get_bit_code D v i = 3) [0..<value_width (vo (base D)) v]"

text \<open>The delay of a transition of a gate with a fall or a turn-off delay.\<close>

definition gate_delay :: "('v, 'o, 's, 'c) denv \<Rightarrow> nat \<Rightarrow> 'v \<Rightarrow> nat \<Rightarrow> ('v, 'o, 'c) dsim \<Rightarrow> nat" where
  "gate_delay D sid val delay s =
     (let fall = map_of (gate_fall_delay_by_id s) sid; off = map_of (gate_off_delay_by_id s) sid
      in if gate_fall_delay_by_id s = [] then delay
         else if fall = None \<and> off = None then delay
         else if all_zero D val \<and> \<not> all_zero D (table s sid)
         then (case fall of None \<Rightarrow> delay | Some f \<Rightarrow> f)
         else if all_z D val
         then (case off of Some o' \<Rightarrow> o' | None \<Rightarrow> (case fall of None \<Rightarrow> delay | Some f \<Rightarrow> min f delay))
         else if has_xz (vo (base D)) val
         then fold min (case_option [] (\<lambda>f. [f]) fall @ case_option [] (\<lambda>f. [f]) off) delay
         else delay)"

definition schedule_delayed_with_delay ::
  "('v, 'o, 's, 'c) denv \<Rightarrow> nat \<Rightarrow> 'v \<Rightarrow> nat \<Rightarrow> ('v, 'o, 'c) dsim \<Rightarrow> ('v, 'o, 'c) dsim" where
  "schedule_delayed_with_delay D sid val delay s =
     (case table_of (module_paths s) sid of
        Some k \<Rightarrow> schedule_module_path D sid k val s
      | None \<Rightarrow>
          s\<lparr>delayed_updates := drop_updates sid (delayed_updates s) @
              [(sim_time s + gate_delay D sid val delay s, sid, val)]\<rparr>)"

definition schedule_delayed :: "('v, 'o, 's, 'c) denv \<Rightarrow> nat \<Rightarrow> 'v \<Rightarrow> ('v, 'o, 'c) dsim \<Rightarrow> ('v, 'o, 'c) dsim" where
  "schedule_delayed D sid val s =
     schedule_delayed_with_delay D sid val (if sid < length (sdf_delays s) then sdf_delays s ! sid else 0) s"

definition cancel_delayed :: "nat \<Rightarrow> ('v, 'o, 'c) dsim \<Rightarrow> ('v, 'o, 'c) dsim" where
  "cancel_delayed sid s = s\<lparr>delayed_updates := drop_updates sid (delayed_updates s)\<rparr>"

definition delayed_update_pending_is :: "('v, 'o, 's, 'c) denv \<Rightarrow> nat \<Rightarrow> 'v \<Rightarrow> ('v, 'o, 'c) dsim \<Rightarrow> bool" where
  "delayed_update_pending_is D sid val s =
     list_ex (\<lambda>(_, i, v). i = sid \<and> \<not> value_ne (vo (base D)) v val) (delayed_updates s)"

definition pending_value :: "nat \<Rightarrow> ('v, 'o, 'c) dsim \<Rightarrow> 'v option" where
  "pending_value sid s = map_option (\<lambda>(_, _, v). v) (find (\<lambda>(_, i, _). i = sid) (delayed_updates s))"

definition schedule_delayed_slice ::
  "('v, 'o, 's, 'c) denv \<Rightarrow> nat \<Rightarrow> nat \<Rightarrow> nat \<Rightarrow> 'v \<Rightarrow> nat \<Rightarrow> ('v, 'o, 'c) dsim \<Rightarrow> ('v, 'o, 'c) dsim" where
  "schedule_delayed_slice D sid lo sel_w sel_val delay s =
     (let pending = pending_value sid s;
          merged = (case pending of None \<Rightarrow> table s sid | Some v \<Rightarrow> v)
      in if pending \<noteq> None \<and> list_all (\<lambda>i. get_bit_code D merged (lo + i) = get_bit_code D sel_val i) [0..<sel_w]
         then s
         else let merged = fold (\<lambda>i v. snd (set_bit_code D (lo + i) (get_bit_code D sel_val i) v)) [0..<sel_w] merged
              in if \<not> value_ne (vo (base D)) merged (table s sid) then cancel_delayed sid s
                 else schedule_delayed_with_delay D sid merged delay s)"

section \<open>Applying the updates\<close>

text \<open>\<^verbatim>\<open>swap_remove\<close>: the last element takes the place of the removed one.\<close>

definition swap_remove :: "nat \<Rightarrow> 'a list \<Rightarrow> 'a list" where
  "swap_remove i xs = butlast (xs[i := last xs])"

definition commit_delayed :: "('v, 'o, 's, 'c) denv \<Rightarrow> nat \<Rightarrow> 'v \<Rightarrow> ('v, 'o, 'c) dsim \<Rightarrow> bool \<times> ('v, 'o, 'c) dsim" where
  "commit_delayed D sid val s =
     (let val = set_signed (vo (base D)) (signal_signed (core s) sid) val
      in if value_ne (vo (base D)) (table s sid) val
         then let s = write_sig D sid val s; c = mark_dirty_id D sid (core s)
              in (True, s\<lparr>core := c\<lparr>table_modified := True\<rparr>\<rparr>)
         else (False, s))"

lemma write_sig_fields [simp]:
  "delayed_updates (write_sig D sid v s) = delayed_updates s" "sim_time (write_sig D sid v s) = sim_time s"
  "forced_signals (write_sig D sid v s) = forced_signals s"
  by (simp_all add: write_sig_def Let_def)

lemma commit_fields [simp]:
  "delayed_updates (snd (commit_delayed D sid v s)) = delayed_updates s"
  "sim_time (snd (commit_delayed D sid v s)) = sim_time s"
  "forced_signals (snd (commit_delayed D sid v s)) = forced_signals s"
  by (simp_all add: commit_delayed_def Let_def)

lemma length_swap_remove [simp]: "length (swap_remove i xs) = length xs - 1"
  by (simp add: swap_remove_def)

lemma commit_length:
  "(c, s') = commit_delayed D sid v s \<Longrightarrow> length (delayed_updates s') = length (delayed_updates s)"
  using commit_fields(1)[of D sid v s] by (metis snd_conv)

function apply_loop ::
  "('v, 'o, 's, 'c) denv \<Rightarrow> nat \<Rightarrow> bool \<Rightarrow> ('v, 'o, 'c) dsim \<Rightarrow> bool \<times> ('v, 'o, 'c) dsim" where
  "apply_loop D i applied s =
     (if i < length (delayed_updates s)
      then let (at, sid, val) = delayed_updates s ! i
           in if at \<le> sim_time s
              then let (c, s') = commit_delayed D sid val
                                   (s\<lparr>delayed_updates := swap_remove i (delayed_updates s)\<rparr>)
                   in apply_loop D i (applied \<or> c) s'
              else apply_loop D (i + 1) applied s
      else (applied, s))"
  by pat_completeness auto
termination
  by (relation "measures [\<lambda>(_, _, _, s). length (delayed_updates s), \<lambda>(_, i, _, s). length (delayed_updates s) - i]")
    (auto dest!: commit_length)

declare apply_loop.simps [simp del]

definition apply_delayed_updates :: "('v, 'o, 's, 'c) denv \<Rightarrow> ('v, 'o, 'c) dsim \<Rightarrow> bool \<times> ('v, 'o, 'c) dsim" where
  "apply_delayed_updates D s = apply_loop D 0 False s"

text \<open>At most 1024 zero-delay hops; \<open>settle\<close> is the combinational settle.\<close>

fun apply_due ::
  "('v, 'o, 's, 'c) denv \<Rightarrow> (('v, 'o, 'c) dsim \<Rightarrow> ('v, 'o, 'c) dsim) \<Rightarrow> nat \<Rightarrow> bool \<Rightarrow> ('v, 'o, 'c) dsim \<Rightarrow>
   bool \<times> ('v, 'o, 'c) dsim" where
  "apply_due D settle 0 applied s = (applied, s)"
| "apply_due D settle (Suc hops) applied s =
     (case apply_delayed_updates D s of
        (False, s) \<Rightarrow> (applied, s)
      | (True, s) \<Rightarrow> apply_due D settle hops True (settle (s\<lparr>core := (core s)\<lparr>dirty_any := True\<rparr>\<rparr>)))"

definition apply_due_delayed_now ::
  "('v, 'o, 's, 'c) denv \<Rightarrow> (('v, 'o, 'c) dsim \<Rightarrow> ('v, 'o, 'c) dsim) \<Rightarrow> ('v, 'o, 'c) dsim \<Rightarrow> bool \<times> ('v, 'o, 'c) dsim" where
  "apply_due_delayed_now D settle s = apply_due D settle 1024 False s"

definition list_min :: "nat list \<Rightarrow> nat option" where
  "list_min ts = (case ts of [] \<Rightarrow> None | t # ts \<Rightarrow> Some (fold min ts t))"

definition next_delayed_time :: "('v, 'o, 'c) dsim \<Rightarrow> nat option" where
  "next_delayed_time s =
     (let a = list_min (map fst (delayed_updates s));
          b = list_min (map fst (delayed_nba s) @ delayed_nba_queue s)
      in case (a, b) of
           (Some x, Some y) \<Rightarrow> Some (min x y)
         | (x, None) \<Rightarrow> x
         | (None, y) \<Rightarrow> y)"

definition delayed_nba_due :: "('v, 'o, 'c) dsim \<Rightarrow> bool" where
  "delayed_nba_due s \<longleftrightarrow>
     list_ex (\<lambda>(t, _, _). t \<le> sim_time s) (delayed_nba s) \<or> list_ex (\<lambda>t. t \<le> sim_time s) (delayed_nba_queue s)"

end
