(* ===== verification/Delayed_Props.thy ===== *)
theory Delayed_Props
  imports Delayed
begin

text \<open>
  Properties of the delayed updates.  The value a signal ends up with, \<open>eventual\<close>, is its first queued
  update, or the value in the table.
\<close>

section \<open>Laws of the value operations\<close>

text \<open>\<^verbatim>\<open>set_bit_code\<close> sets one bit to a code below 4, the sign flag is apart from the bits, equal values have equal bits, and
  only a change of a bit has a transition.\<close>

definition bit_laws :: "('v, 'o, 's, 'c) denv \<Rightarrow> bool" where
  "bit_laws D \<longleftrightarrow>
     (\<forall>v b. get_bit_code D v b < 4) \<and>
     (\<forall>v b c b'. b < value_width (vo (base D)) v \<longrightarrow> c < 4 \<longrightarrow>
        get_bit_code D (snd (set_bit_code D b c v)) b' = (if b' = b then c else get_bit_code D v b')) \<and>
     (\<forall>v b c. value_width (vo (base D)) (snd (set_bit_code D b c v)) = value_width (vo (base D)) v) \<and>
     (\<forall>v b c. b < value_width (vo (base D)) v \<longrightarrow> c < 4 \<longrightarrow> (fst (set_bit_code D b c v) \<longleftrightarrow> get_bit_code D v b \<noteq> c)) \<and>
     (\<forall>v sg b. get_bit_code D (set_signed (vo (base D)) sg v) b = get_bit_code D v b) \<and>
     (\<forall>v w b. \<not> value_ne (vo (base D)) v w \<longrightarrow> get_bit_code D v b = get_bit_code D w b) \<and>
     (\<forall>c d. path_transition_index D c d = None \<longleftrightarrow> c = d)"

abbreviation width_of :: "('v, 'o, 's, 'c) denv \<Rightarrow> 'v \<Rightarrow> nat" where
  "width_of D v \<equiv> value_width (vo (base D)) v"

lemma bit_lawsD:
  assumes "bit_laws D"
  shows "b < width_of D v \<Longrightarrow> c < 4 \<Longrightarrow> get_bit_code D (snd (set_bit_code D b c v)) b' = (if b' = b then c else get_bit_code D v b')"
    and "width_of D (snd (set_bit_code D b c v)) = width_of D v"
    and "get_bit_code D (set_signed (vo (base D)) sg v) b = get_bit_code D v b"
    and "\<not> value_ne (vo (base D)) v w \<Longrightarrow> get_bit_code D v b = get_bit_code D w b"
    and "path_transition_index D c d = None \<longleftrightarrow> c = d"
    and "b < width_of D v \<Longrightarrow> c < 4 \<Longrightarrow> fst (set_bit_code D b c v) \<longleftrightarrow> get_bit_code D v b \<noteq> c"
    and "get_bit_code D v b < 4"
  using assms by (simp_all add: bit_laws_def)

text \<open>Setting the bits of a list.\<close>

lemma set_bits:
  assumes laws: "bit_laws D" and codes: "\<And>b. g b < 4" and "\<forall>x\<in>set xs. f x < width_of D v"
  shows "width_of D (fold (\<lambda>x v. snd (set_bit_code D (f x) (g (f x)) v)) xs v) = width_of D v \<and>
    get_bit_code D (fold (\<lambda>x v. snd (set_bit_code D (f x) (g (f x)) v)) xs v) b =
      (if b \<in> f ` set xs then g b else get_bit_code D v b)"
  using assms(3)
proof (induction xs arbitrary: v)
  case (Cons x xs)
  have "\<forall>y\<in>set xs. f y < width_of D (snd (set_bit_code D (f x) (g (f x)) v))"
    using Cons.prems bit_lawsD(2)[OF laws] by simp
  from Cons.IH[OF this] show ?case
    using Cons.prems bit_lawsD(1,2)[OF laws] codes by auto
qed simp

section \<open>The queue\<close>

lemma updates_of_drop: "updates_of i (drop_updates sid q) = (if i = sid then [] else updates_of i q)"
  by (induction q) (auto simp: updates_of_def drop_updates_def)

lemma updates_of_append [simp]: "updates_of i (p @ q) = updates_of i p @ updates_of i q"
  by (simp add: updates_of_def)

lemma updates_of_tagged: "updates_of i (map (\<lambda>(at, v). (at, sid, v)) us) = (if i = sid then us else [])"
  by (induction us) (auto simp: updates_of_def)

lemma updates_of_single: "updates_of i [(at, sid, v)] = (if i = sid then [(at, v)] else [])"
  by (simp add: updates_of_def)

lemma pending_value_updates:
  "pending_value sid s = (case updates_of sid (delayed_updates s) of [] \<Rightarrow> None | (_, v) # _ \<Rightarrow> Some v)"
proof -
  have "map_option (\<lambda>(_, _, v). v) (find (\<lambda>(_, i, _). i = sid) q) =
      (case updates_of sid q of [] \<Rightarrow> None | (_, v) # _ \<Rightarrow> Some v)" for q :: "(nat \<times> nat \<times> 'a) list"
    by (induction q) (auto simp: updates_of_def)
  then show ?thesis by (simp add: pending_value_def)
qed

definition eventual :: "nat \<Rightarrow> ('v, 'o, 'c) dsim \<Rightarrow> 'v" where
  "eventual sid s = (case pending_value sid s of None \<Rightarrow> table s sid | Some v \<Rightarrow> v)"

text \<open>The latest update of a signal is queued first.\<close>

definition latest_first :: "('v, 'o, 'c) dsim \<Rightarrow> bool" where
  "latest_first s \<longleftrightarrow> (\<forall>sid. sorted_wrt (>) (map fst (updates_of sid (delayed_updates s))))"

section \<open>Module paths: when the bits change\<close>

text \<open>The bits that change, each once.\<close>

lemma bit_times_set:
  "(at, b) \<in> set (bit_times D now ds q old val) \<longleftrightarrow>
     b < min (width_of D old) (width_of D val) \<and> bit_time D now ds q old val b = Some at"
  unfolding bit_times_def map_filter_def by force

lemma path_steps_times: "sorted (map fst ws) \<Longrightarrow>
    fst ` set (path_steps D val ws cur) = fst ` set ws \<and> sorted_wrt (<) (map fst (path_steps D val ws cur))"
proof (induction D val ws cur rule: path_steps.induct)
  case (2 D val t c rest cur)
  let ?later = "dropWhile (\<lambda>(u, _). u = t) rest"
  let ?cur = "fold (\<lambda>(_, b) v. snd (set_bit_code D b (get_bit_code D val b) v)) ((t, c) # takeWhile (\<lambda>(u, _). u = t) rest) cur"
  have IH: "fst ` set (path_steps D val ?later ?cur) = fst ` set ?later"
    "sorted_wrt (<) (map fst (path_steps D val ?later ?cur))"
    using 2 later_sorted[of rest] by (simp_all del: fold.simps)
  have "fst ` set rest \<union> {t} = fst ` set ?later \<union> {t}"
    unfolding group_split[of rest t] by (auto simp: image_Un dest: same_time)
  then have "fst ` set ((t, c) # rest) = fst ` set (path_steps D val ((t, c) # rest) cur)"
    using IH(1) by (auto simp: Let_def)
  moreover have "\<forall>u \<in> fst ` set (path_steps D val ?later ?cur). t < u"
    unfolding IH(1) using later_time[OF "2.prems"] by force
  ultimately show ?case using IH(2) by (auto simp: Let_def)
qed simp

text \<open>Each step carries the bits whose time has come.\<close>

lemma path_steps_bits:
  assumes "bit_laws D" and "sorted (map fst ws)" and "distinct (map snd ws)" and "\<forall>(t, b)\<in>set ws. b < width_of D cur"
    and "\<And>c. c < width_of D cur \<Longrightarrow> c \<notin> snd ` set ws \<Longrightarrow> get_bit_code D val c = get_bit_code D cur c"
    and "(at, v) \<in> set (path_steps D val ws cur)" and "b < width_of D cur"
  shows "get_bit_code D v b = (if \<exists>t. (t, b) \<in> set ws \<and> at < t then get_bit_code D cur b else get_bit_code D val b)"
  using assms
proof (induction D val ws cur rule: path_steps.induct)
  case (2 D val t c rest cur)
  let ?same = "takeWhile (\<lambda>(u, _). u = t) rest" and ?later = "dropWhile (\<lambda>(u, _). u = t) rest"
  define cur' where "cur' = fold (\<lambda>(_, b) v. snd (set_bit_code D b (get_bit_code D val b) v)) ((t, c) # ?same) cur"
  have group: "set ((t, c) # rest) = set ((t, c) # ?same) \<union> set ?later" using group_split[of rest t] by simp
  have inb: "\<forall>x\<in>set ((t, c) # ?same). snd x < width_of D cur" using 2(5) group_split[of rest t] by auto
  have fold_eq: "cur' = fold (\<lambda>x v. snd (set_bit_code D (snd x) (get_bit_code D val (snd x)) v)) ((t, c) # ?same) cur"
    by (simp add: cur'_def case_prod_beta')
  note cur = set_bits[OF 2(2) _ inb, of "get_bit_code D val", OF bit_lawsD(7)[OF 2(2)], folded fold_eq]
  have cur_bit: "get_bit_code D cur' d = (if d \<in> snd ` set ((t, c) # ?same) then get_bit_code D val d else get_bit_code D cur d)"
    and cur_width: "width_of D cur' = width_of D cur" for d
    using cur[of d] by simp_all
  have now: "u = t" if "(u, d) \<in> set ((t, c) # ?same)" for u d using that same_time[of u d t rest] by auto
  have after: "t < u" if "(u, d) \<in> set ?later" for u d using later_time[OF 2(3) that] .
  have once: "u = u'" if "(u, d) \<in> set ((t, c) # rest)" "(u', d) \<in> set ((t, c) # rest)" for u u' d
    using 2(4) that by (metis distinct_map inj_onD prod.inject snd_conv)
  have apart: "d \<notin> snd ` set ((t, c) # ?same)" if d: "(u, d) \<in> set ?later" for u d
  proof
    assume "d \<in> snd ` set ((t, c) # ?same)"
    then obtain u' where u': "(u', d) \<in> set ((t, c) # ?same)" by (rule snd_imageE)
    have "(u, d) \<in> set ((t, c) # rest)" "(u', d) \<in> set ((t, c) # rest)" unfolding group using d u' by blast+
    from once[OF this] now[OF u'] after[OF d] show False by simp
  qed
  have early: "u = t \<or> (u, d) \<in> set ?later" if "(u, d) \<in> set ((t, c) # rest)" for u d
    using that now unfolding group by blast
  have laterI: "(u, d) \<in> set ((t, c) # rest)" if "(u, d) \<in> set ?later" for u d
    using that unfolding group by blast
  have rest_same: "get_bit_code D val d = get_bit_code D cur' d" if "d < width_of D cur'" "d \<notin> snd ` set ?later" for d
    using that 2(6)[of d] unfolding cur_bit cur_width group by (auto simp del: list.set)
  from 2(7) consider (first) "at = t" "v = (if ?later = [] then val else cur')"
    | (later) "(at, v) \<in> set (path_steps D val ?later cur')"
    unfolding path_steps.simps Let_def cur'_def by (auto simp del: fold.simps)
  then show ?case
  proof cases
    case first
    have none: "\<not> (\<exists>u. (u, b) \<in> set ((t, c) # rest) \<and> t < u)" if "b \<notin> snd ` set ?later"
    proof
      assume "\<exists>u. (u, b) \<in> set ((t, c) # rest) \<and> t < u"
      then obtain u where "(u, b) \<in> set ?later" using early[of _ b] by (metis less_irrefl)
      then show False using that by (simp add: rev_image_eqI)
    qed
    show ?thesis
    proof (cases "b \<in> snd ` set ?later")
      case True
      then obtain u where u: "(u, b) \<in> set ?later" by (rule snd_imageE)
      then have "?later \<noteq> []" by (metis list.set(1) empty_iff)
      then have "v = cur'" using first(2) by (simp only: if_False)
      then have "get_bit_code D v b = get_bit_code D cur b" using apart[OF u] by (simp only: cur_bit if_False)
      then show ?thesis using laterI[OF u] after[OF u] first(1) by (auto simp del: list.set)
    next
      case False
      have "get_bit_code D v b = get_bit_code D val b"
        using first(2) rest_same[OF _ False] 2(8) by (simp add: cur_width)
      then show ?thesis unfolding first(1) if_not_P[OF none[OF False]] .
    qed
  next
    case later
    have bound: "\<forall>(u, d)\<in>set ?later. d < width_of D cur'" using 2(5) group cur_width by auto
    have at: "t < at"
    proof -
      have "at \<in> fst ` set ?later" using path_steps_times[OF later_sorted, of rest] later 2(3) by force
      then show ?thesis using after by auto
    qed
    have IH: "get_bit_code D v b = (if \<exists>u. (u, b) \<in> set ?later \<and> at < u then get_bit_code D cur' b else get_bit_code D val b)"
      by (rule 2(1)[OF refl refl refl, folded cur'_def, OF 2(2) later_sorted later_distinct bound rest_same later])
        (use 2(3,4,8) cur_width in simp_all)
    show ?thesis
    proof (cases "\<exists>u. (u, b) \<in> set ?later \<and> at < u")
      case True
      then obtain u where u: "(u, b) \<in> set ?later" "at < u" by blast
      have "get_bit_code D v b = get_bit_code D cur b"
        using IH True apart[OF u(1)] by (simp only: cur_bit if_True if_False)
      then show ?thesis using laterI[OF u(1)] u(2) by (auto simp del: list.set)
    next
      case False
      have "\<not> (\<exists>u. (u, b) \<in> set ((t, c) # rest) \<and> at < u)"
      proof
        assume "\<exists>u. (u, b) \<in> set ((t, c) # rest) \<and> at < u"
        then obtain u where "(u, b) \<in> set ((t, c) # rest)" "at < u" by blast
        then show False using False early[of u b] at by auto
      qed
      then show ?thesis using IH False by (simp only: if_False)
    qed
  qed
qed simp

section \<open>Scheduling on a path-delayed net\<close>

text \<open>The time at which bit \<open>b\<close> of the net changes, if it does.\<close>

definition change_time :: "('v, 'o, 's, 'c) denv \<Rightarrow> nat \<Rightarrow> nat \<Rightarrow> 'v \<Rightarrow> ('v, 'o, 'c) dsim \<Rightarrow> nat \<Rightarrow> nat option" where
  "change_time D sid k val s b =
     bit_time D (sim_time s) (module_path_delays D k s) (sort_key fst (updates_of sid (delayed_updates s))) (table s sid) val b"

definition changes :: "('v, 'o, 's, 'c) denv \<Rightarrow> nat \<Rightarrow> nat \<Rightarrow> 'v \<Rightarrow> ('v, 'o, 'c) dsim \<Rightarrow> (nat \<times> nat) list" where
  "changes D sid k val s =
     sort (bit_times D (sim_time s) (module_path_delays D k s) (sort_key fst (updates_of sid (delayed_updates s)))
       (table s sid) val)"

lemma distinct_bit_times: "distinct (map snd (bit_times D now ds q old val))"
proof -
  have "map snd (bit_times D now ds q old val) =
      filter (\<lambda>b. bit_time D now ds q old val b \<noteq> None) [0..<min (width_of D old) (width_of D val)]"
    by (auto simp: bit_times_def map_filter_def o_def intro!: map_idI)
  then show ?thesis by simp
qed

lemma sorted_fst: "sorted (ws :: (nat \<times> nat) list) \<Longrightarrow> sorted (map fst ws)"
  by (induction ws) (auto simp: less_eq_prod_def)

lemma changes_ok:
  "sorted (map fst (changes D sid k val s))" "distinct (map snd (changes D sid k val s))"
  "(at, b) \<in> set (changes D sid k val s) \<longleftrightarrow>
     b < min (width_of D (table s sid)) (width_of D val) \<and> change_time D sid k val s b = Some at"
proof -
  let ?ws = "bit_times D (sim_time s) (module_path_delays D k s) (sort_key fst (updates_of sid (delayed_updates s)))
      (table s sid) val"
  show "sorted (map fst (changes D sid k val s))" unfolding changes_def by (intro sorted_fst sorted_sort)
  show "distinct (map snd (changes D sid k val s))"
    unfolding changes_def using distinct_bit_times[of D] by (simp add: distinct_map)
  show "(at, b) \<in> set (changes D sid k val s) \<longleftrightarrow>
     b < min (width_of D (table s sid)) (width_of D val) \<and> change_time D sid k val s b = Some at"
    unfolding changes_def change_time_def set_sort bit_times_set ..
qed

lemma changes_times:
  assumes "width_of D val = width_of D (table s sid)"
  shows "fst ` set (changes D sid k val s) = {t. \<exists>b < width_of D val. change_time D sid k val s b = Some t}"
proof (intro equalityI subsetI)
  fix t assume "t \<in> fst ` set (changes D sid k val s)"
  then show "t \<in> {t. \<exists>b < width_of D val. change_time D sid k val s b = Some t}"
    using assms by (auto simp: changes_ok(3))
next
  fix t assume "t \<in> {t. \<exists>b < width_of D val. change_time D sid k val s b = Some t}"
  then obtain b where "(t, b) \<in> set (changes D sid k val s)" using assms by (auto simp: changes_ok(3))
  then show "t \<in> fst ` set (changes D sid k val s)" by (simp add: rev_image_eqI)
qed

lemma path_updates:
  "updates_of i (delayed_updates (schedule_module_path D sid k val s)) =
     (if i = sid then rev (path_steps D val (changes D sid k val s) (table s sid)) else updates_of i (delayed_updates s))"
  by (simp add: schedule_module_path_def Let_def changes_def updates_of_tagged updates_of_drop)

text \<open>No change, no transition.\<close>

lemma unchanged_bits:
  assumes "bit_laws D" and "width_of D val = width_of D (table s sid)" and "b < width_of D val"
    and "b \<notin> snd ` set (changes D sid k val s)"
  shows "get_bit_code D val b = get_bit_code D (table s sid) b"
proof -
  have "change_time D sid k val s b = None"
  proof (cases "change_time D sid k val s b")
    case (Some at)
    then have "(at, b) \<in> set (changes D sid k val s)" using assms(2,3) by (simp add: changes_ok(3))
    then show ?thesis using assms(4) by (simp add: rev_image_eqI)
  qed
  then show ?thesis
    using bit_lawsD(5)[OF assms(1)] by (auto simp: change_time_def bit_time_def split: option.splits)
qed

lemma path_update_bits:
  assumes laws: "bit_laws D" and w: "width_of D val = width_of D (table s sid)"
    and "(at, v) \<in> set (updates_of sid (delayed_updates (schedule_module_path D sid k val s)))" and b: "b < width_of D val"
  shows "get_bit_code D v b =
    (case change_time D sid k val s b of
       Some t \<Rightarrow> if at < t then get_bit_code D (table s sid) b else get_bit_code D val b
     | None \<Rightarrow> get_bit_code D val b)"
proof -
  have "(at, v) \<in> set (path_steps D val (changes D sid k val s) (table s sid))"
    using assms(3) by (simp add: path_updates)
  moreover have "\<forall>(t, c)\<in>set (changes D sid k val s). c < width_of D (table s sid)"
    by (auto simp: changes_ok(3))
  ultimately have "get_bit_code D v b = (if \<exists>t. (t, b) \<in> set (changes D sid k val s) \<and> at < t
      then get_bit_code D (table s sid) b else get_bit_code D val b)"
    using unchanged_bits[OF laws w, of _ k] b
    by (intro path_steps_bits[OF laws changes_ok(1,2)]) (simp_all add: w)
  then show ?thesis using b w by (auto simp: changes_ok(3) split: option.splits)
qed

lemma path_update_times:
  "fst ` set (updates_of sid (delayed_updates (schedule_module_path D sid k val s))) = fst ` set (changes D sid k val s)"
  and path_latest_first:
  "sorted_wrt (>) (map fst (updates_of sid (delayed_updates (schedule_module_path D sid k val s))))"
  using path_steps_times[OF changes_ok(1), where cur = "table s sid", of D val D sid k val s]
  by (simp_all add: path_updates rev_map[symmetric] sorted_wrt_rev)

text \<open>The first update queued brings the net to its final value.\<close>

lemma path_eventual:
  assumes laws: "bit_laws D" and w: "width_of D val = width_of D (table s sid)" and b: "b < width_of D val"
  shows "get_bit_code D (eventual sid (schedule_module_path D sid k val s)) b = get_bit_code D val b"
proof (cases "updates_of sid (delayed_updates (schedule_module_path D sid k val s))")
  case Nil
  then have "changes D sid k val s = []" using path_update_times[of sid D k val s] by simp
  then have "get_bit_code D val b = get_bit_code D (table s sid) b" using unchanged_bits[OF laws w b, of k] by simp
  then show ?thesis using Nil by (simp add: eventual_def pending_value_updates schedule_module_path_def Let_def)
next
  case (Cons u us)
  obtain at v where u: "u = (at, v)" by force
  have "t \<le> at" if "change_time D sid k val s b = Some t" for t
  proof -
    have "(t, b) \<in> set (changes D sid k val s)" using that b w by (simp add: changes_ok(3))
    then have "t \<in> fst ` set (changes D sid k val s)" by (simp add: rev_image_eqI)
    then have "t \<in> fst ` set (u # us)" using path_update_times[of sid D k val s] Cons by simp
    then show ?thesis using path_latest_first[of sid D k val s] Cons u by auto
  qed
  then have "get_bit_code D v b = get_bit_code D val b"
    using path_update_bits[OF laws w, of at v k b] Cons u b by (force split: option.splits)
  then show ?thesis using Cons u by (simp add: eventual_def pending_value_updates)
qed

end
