(* ===== verification/Delayed_Queue.thy ===== *)
theory Delayed_Queue
  imports Delayed_Props "HOL-Library.Multiset"
begin

text \<open>
  The queue of delayed updates as a whole: what scheduling a value or a slice makes of a signal, the
  order of its updates, what applying the due ones does, and the next time to stop at.
\<close>

section \<open>Scheduling\<close>

lemma eventual_cases:
  "eventual sid s = (case updates_of sid (delayed_updates s) of [] \<Rightarrow> table s sid | (_, v) # _ \<Rightarrow> v)"
  by (simp add: eventual_def pending_value_updates split: list.splits)

lemma module_path_fields [simp]:
  "core (schedule_module_path D sid k val s) = core s" "sim_time (schedule_module_path D sid k val s) = sim_time s"
  by (simp_all add: schedule_module_path_def Let_def)

lemma with_delay_fields [simp]:
  "core (schedule_delayed_with_delay D sid val delay s) = core s"
  "sim_time (schedule_delayed_with_delay D sid val delay s) = sim_time s"
  by (simp_all add: schedule_delayed_with_delay_def split: option.splits)

lemma with_delay_eventual:
  assumes "bit_laws D" and "width_of D val = width_of D (table s sid)" and "b < width_of D val"
  shows "get_bit_code D (eventual sid (schedule_delayed_with_delay D sid val delay s)) b = get_bit_code D val b"
proof (cases "table_of (module_paths s) sid")
  case None
  then show ?thesis
    by (simp add: schedule_delayed_with_delay_def eventual_cases updates_of_drop updates_of_single)
next
  case (Some k)
  then show ?thesis using path_eventual[OF assms] by (simp add: schedule_delayed_with_delay_def)
qed

lemma with_delay_others:
  "i \<noteq> sid \<Longrightarrow> updates_of i (delayed_updates (schedule_delayed_with_delay D sid val delay s)) = updates_of i (delayed_updates s)"
  by (simp add: schedule_delayed_with_delay_def path_updates updates_of_drop updates_of_single split: option.splits)

lemma with_delay_latest_first:
  assumes "latest_first s"
  shows "latest_first (schedule_delayed_with_delay D sid val delay s)"
  unfolding latest_first_def
proof
  fix i
  show "sorted_wrt (>) (map fst (updates_of i (delayed_updates (schedule_delayed_with_delay D sid val delay s))))"
  proof (cases "i = sid")
    case True
    then show ?thesis
      using path_latest_first[of sid D _ val s]
      by (auto simp: schedule_delayed_with_delay_def updates_of_drop updates_of_single split: option.splits)
  next
    case False
    then show ?thesis using assms by (simp add: with_delay_others latest_first_def)
  qed
qed

lemma cancel_updates: "updates_of i (delayed_updates (cancel_delayed sid s)) = (if i = sid then [] else updates_of i (delayed_updates s))"
  by (simp add: cancel_delayed_def updates_of_drop)

lemma cancel_latest_first: "latest_first s \<Longrightarrow> latest_first (cancel_delayed sid s)"
  by (simp add: latest_first_def cancel_updates)

lemma slice_cases:
  obtains (same) "schedule_delayed_slice D sid lo n sel delay s = s"
      "\<And>i. i < n \<Longrightarrow> get_bit_code D (eventual sid s) (lo + i) = get_bit_code D sel i"
  | (cancelled) m where "schedule_delayed_slice D sid lo n sel delay s = cancel_delayed sid s"
      "m = fold (\<lambda>i v. snd (set_bit_code D (lo + i) (get_bit_code D sel i) v)) [0..<n] (eventual sid s)"
      "\<not> value_ne (vo (base D)) m (table s sid)"
  | (scheduled) m where "schedule_delayed_slice D sid lo n sel delay s = schedule_delayed_with_delay D sid m delay s"
      "m = fold (\<lambda>i v. snd (set_bit_code D (lo + i) (get_bit_code D sel i) v)) [0..<n] (eventual sid s)"
proof -
  let ?m = "fold (\<lambda>i v. snd (set_bit_code D (lo + i) (get_bit_code D sel i) v)) [0..<n] (eventual sid s)"
  have "schedule_delayed_slice D sid lo n sel delay s =
      (if pending_value sid s \<noteq> None \<and> (\<forall>i < n. get_bit_code D (eventual sid s) (lo + i) = get_bit_code D sel i) then s
       else if \<not> value_ne (vo (base D)) ?m (table s sid) then cancel_delayed sid s
       else schedule_delayed_with_delay D sid ?m delay s)"
    by (auto simp: schedule_delayed_slice_def eventual_def Let_def list_all_iff)
  note split = this
  show ?thesis
  proof (cases "pending_value sid s \<noteq> None \<and> (\<forall>i < n. get_bit_code D (eventual sid s) (lo + i) = get_bit_code D sel i)")
    case True
    show ?thesis by (rule same[OF split[unfolded if_P[OF True]]]) (use True in blast)
  next
    case False
    show ?thesis
    proof (cases "value_ne (vo (base D)) ?m (table s sid)")
      case ne: True
      show ?thesis by (rule scheduled[OF _ refl]) (use split False ne in \<open>simp only: if_False not_True_eq_False\<close>)
    next
      case eq: False
      show ?thesis by (rule cancelled[OF _ refl eq]) (use split False eq in \<open>simp only: if_False if_True not_False_eq_True\<close>)
    qed
  qed
qed

text \<open>The slice replaces its bits in what the signal ends up with, and no other bit.\<close>

lemma merged_bits:
  assumes laws: "bit_laws D" and "lo + n \<le> width_of D v"
    and m: "m = fold (\<lambda>i v. snd (set_bit_code D (lo + i) (get_bit_code D sel i) v)) [0..<n] v"
  shows "width_of D m = width_of D v" and
    "get_bit_code D m b = (if lo \<le> b \<and> b < lo + n then get_bit_code D sel (b - lo) else get_bit_code D v b)"
proof -
  have "m = fold (\<lambda>i v. snd (set_bit_code D (lo + i) (get_bit_code D sel ((lo + i) - lo)) v)) [0..<n] v"
    by (simp add: m)
  moreover have "b \<in> (+) lo ` set [0..<n] \<longleftrightarrow> lo \<le> b \<and> b < lo + n"
    by (auto simp: image_iff intro!: bexI[of _ "b - lo"])
  moreover have "\<forall>x\<in>set [0..<n]. lo + x < width_of D v" using assms(2) by simp
  ultimately show "width_of D m = width_of D v" and
    "get_bit_code D m b = (if lo \<le> b \<and> b < lo + n then get_bit_code D sel (b - lo) else get_bit_code D v b)"
    using set_bits[OF laws, of "\<lambda>b. get_bit_code D sel (b - lo)" "[0..<n]" "(+) lo" v b] bit_lawsD(7)[OF laws] by simp_all
qed

lemma slice_eventual:
  assumes laws: "bit_laws D" and w: "width_of D (eventual sid s) = width_of D (table s sid)"
    and n: "lo + n \<le> width_of D (table s sid)" and b: "b < width_of D (table s sid)"
  shows "get_bit_code D (eventual sid (schedule_delayed_slice D sid lo n sel delay s)) b =
    (if lo \<le> b \<and> b < lo + n then get_bit_code D sel (b - lo) else get_bit_code D (eventual sid s) b)"
proof (cases rule: slice_cases[of D sid lo n sel delay s])
  case same
  then show ?thesis using same(2)[of "b - lo"] by (cases "lo \<le> b") auto
next
  case (cancelled m)
  have "eventual sid (cancel_delayed sid s) = table s sid" by (simp add: eventual_cases cancel_updates) (simp add: cancel_delayed_def)
  then show ?thesis
    using merged_bits(2)[OF laws _ cancelled(2), of b] bit_lawsD(4)[OF laws cancelled(3), of b] n w cancelled(1) by simp
next
  case (scheduled m)
  note m = merged_bits[OF laws _ scheduled(2)]
  then show ?thesis
    using with_delay_eventual[OF laws, of m s sid b delay] n w b scheduled(1) by simp
qed

lemma slice_others:
  assumes "i \<noteq> sid"
  shows "eventual i (schedule_delayed_slice D sid lo n sel delay s) = eventual i s"
proof -
  let ?s = "schedule_delayed_slice D sid lo n sel delay s"
  have "updates_of i (delayed_updates ?s) = updates_of i (delayed_updates s) \<and> core ?s = core s"
  proof (cases rule: slice_cases[of D sid lo n sel delay s])
    case (cancelled m)
    then show ?thesis using assms cancel_updates[of i sid s] by (simp add: cancel_delayed_def)
  next
    case (scheduled m)
    then show ?thesis using assms by (simp add: with_delay_others)
  qed simp
  then show ?thesis by (simp only: eventual_cases)
qed

lemma slice_latest_first: "latest_first s \<Longrightarrow> latest_first (schedule_delayed_slice D sid lo n sel delay s)"
  by (cases rule: slice_cases[of D sid lo n sel delay s]) (simp_all add: cancel_latest_first with_delay_latest_first)

section \<open>Applying the due updates\<close>

lemma mset_swap_remove:
  assumes "i < length xs"
  shows "mset (swap_remove i xs) = mset xs - {#xs ! i#}"
proof -
  have ne: "xs \<noteq> []" "xs[i := last xs] \<noteq> []" using assms by auto
  have last: "last (xs[i := last xs]) = last xs"
    using ne assms by (cases "i = length xs - 1") (simp_all add: last_conv_nth)
  have "mset (swap_remove i xs) = mset (xs[i := last xs]) - {#last xs#}"
  proof -
    have "mset (xs[i := last xs]) = mset (swap_remove i xs) + {#last xs#}"
      using ne(2) last by (metis append_butlast_last_id mset_append mset.simps(1,2) swap_remove_def add_mset_add_single)
    then show ?thesis by simp
  qed
  then show ?thesis using assms by (simp add: mset_update)
qed

lemma swap_remove_prefix:
  assumes "i < length xs" and "j < i"
  shows "swap_remove i xs ! j = xs ! j"
  using assms by (simp add: swap_remove_def nth_butlast)

text \<open>One update.\<close>

lemma write_sig_table:
  "table (write_sig D sid v s) i =
     (if i = sid \<and> forced_signals s sid = None
      then (if \<not> is_real D v then set_signed (vo (base D)) (signal_signed (core s) sid) v else v)
      else table s i)"
  by (simp add: write_sig_def Let_def set_signal_def)

lemma mark_dirty_table [simp]: "signal_table (mark_dirty_id D sid c) = signal_table c"
  by (simp add: mark_dirty_id_def Let_def ts_direct_dirty_def)

lemma commit_table_other: "i \<noteq> sid \<Longrightarrow> table (snd (commit_delayed D sid v s)) i = table s i"
  by (simp add: commit_delayed_def Let_def write_sig_table)

lemma commit_table:
  assumes "bit_laws D" and "forced_signals s sid = None"
  shows "get_bit_code D (table (snd (commit_delayed D sid v s)) sid) b = get_bit_code D v b"
  using assms bit_lawsD(3)[OF assms(1)] bit_lawsD(4)[OF assms(1), of "table s sid" "set_signed (vo (base D)) (signal_signed (core s) sid) v" b]
  by (simp add: commit_delayed_def Let_def write_sig_table)

abbreviation due :: "nat \<Rightarrow> nat \<times> nat \<times> 'v \<Rightarrow> bool" where
  "due now u \<equiv> fst u \<le> now"

definition due_of :: "nat \<Rightarrow> ('v, 'o, 'c) dsim \<Rightarrow> (nat \<times> nat \<times> 'v) multiset" where
  "due_of sid s = filter_mset (\<lambda>u. due (sim_time s) u \<and> fst (snd u) = sid) (mset (delayed_updates s))"

lemma apply_loop_ok:
  assumes laws: "bit_laws D" and "\<forall>j < i. \<not> due (sim_time s) (delayed_updates s ! j)" and "i \<le> length (delayed_updates s)"
  shows "sim_time (snd (apply_loop D i applied s)) = sim_time s \<and>
    mset (delayed_updates (snd (apply_loop D i applied s))) =
      filter_mset (\<lambda>u. \<not> due (sim_time s) u) (mset (delayed_updates s)) \<and>
    (due_of sid s = {#} \<longrightarrow> table (snd (apply_loop D i applied s)) sid = table s sid) \<and>
    (forced_signals s sid = None \<and> due_of sid s = {#u#} \<longrightarrow>
      (\<forall>b. get_bit_code D (table (snd (apply_loop D i applied s)) sid) b = get_bit_code D (snd (snd u)) b))"
  using assms
proof (induction D i applied s rule: apply_loop.induct)
  case (1 D i applied s)
  let ?q = "delayed_updates s"
  show ?case
  proof (cases "i < length ?q")
    case False
    then have "\<forall>x\<in>set ?q. \<not> due (sim_time s) x" using 1(4,5) by (metis in_set_conv_nth le_antisym not_le)
    then have "filter_mset (\<lambda>u. \<not> due (sim_time s) u) (mset ?q) = mset ?q" "due_of sid s = {#}"
      by (auto simp: due_of_def filter_mset_eq_conv simp flip: mset_filter)
    then show ?thesis using False by (subst (1 2 3 4) apply_loop.simps) simp
  next
    case True
    obtain at sd val where u: "?q ! i = (at, sd, val)" by (metis surj_pair)
    show ?thesis
    proof (cases "at \<le> sim_time s")
      case late: False
      then have "\<forall>j < i + 1. \<not> due (sim_time s) (?q ! j)" using 1(4) u by (auto simp: less_Suc_eq)
      moreover have "apply_loop D i applied s = apply_loop D (i + 1) applied s"
        using True u late by (subst apply_loop.simps) simp
      ultimately show ?thesis using 1(2)[OF True refl u[symmetric] refl late 1(3)] True by simp
    next
      case now: True
      let ?s = "s\<lparr>delayed_updates := swap_remove i ?q\<rparr>"
      obtain c s' where c: "commit_delayed D sd val ?s = (c, s')" by force
      have s': "delayed_updates s' = swap_remove i ?q" "sim_time s' = sim_time s" "forced_signals s' = forced_signals s"
        using commit_fields[of D sd val ?s] by (simp_all add: c)
      have eq: "apply_loop D i applied s = apply_loop D i (applied \<or> c) s'"
        using True u now c by (subst apply_loop.simps) simp
      have pre: "\<forall>j < i. \<not> due (sim_time s') (delayed_updates s' ! j)"
        using 1(4) True by (simp add: s' swap_remove_prefix)
      have len: "i \<le> length (delayed_updates s')" using True by (simp add: s')
      note IH = 1(1)[OF True refl u[symmetric] refl now refl c[symmetric] 1(3) pre len]
      have rm: "mset (delayed_updates s') = mset ?q - {#(at, sd, val)#}" "(at, sd, val) \<in># mset ?q"
        using mset_swap_remove[OF True] u True by (auto simp: s' in_set_conv_nth)
      have "filter_mset (\<lambda>u. \<not> due (sim_time s) u) (mset (delayed_updates s')) =
          filter_mset (\<lambda>u. \<not> due (sim_time s) u) (mset ?q)"
        using rm now by (simp add: filter_diff_mset)
      moreover have due': "due_of sid s' = due_of sid s - (if sd = sid then {#(at, sd, val)#} else {#})"
        using rm now by (simp add: due_of_def s' filter_diff_mset)
      moreover have mem: "sd = sid \<Longrightarrow> (at, sd, val) \<in># due_of sid s"
        using rm now by (simp add: due_of_def)
      moreover have "table s' sid = table s sid" if "sd \<noteq> sid"
        using commit_table_other[of sid sd D val ?s] that by (simp add: c)
      moreover have "get_bit_code D (table s' sd) b = get_bit_code D val b" if "forced_signals s sd = None" for b
        using commit_table[OF 1(3), of ?s sd val b] that by (simp add: c)
      ultimately show ?thesis
        unfolding eq using IH by (cases "sd = sid") (auto simp: s')
    qed
  qed
qed

section \<open>The next time\<close>

lemma fold_min: "fold min ts (t :: nat) = Min (insert t (set ts))"
  using Min.set_eq_fold[of t ts] by simp

lemma list_min_ok: "list_min ts = (if ts = [] then None else Some (Min (set ts)))"
  by (cases ts) (simp_all add: list_min_def fold_min)

definition pending_times :: "('v, 'o, 'c) dsim \<Rightarrow> nat set" where
  "pending_times s = fst ` set (delayed_updates s) \<union> fst ` set (delayed_nba s) \<union> set (delayed_nba_queue s)"

lemma next_delayed_time_ok:
  "next_delayed_time s = (if pending_times s = {} then None else Some (Min (pending_times s)))"
proof -
  let ?a = "map fst (delayed_updates s)" and ?b = "map fst (delayed_nba s) @ delayed_nba_queue s"
  have t: "pending_times s = set ?a \<union> set ?b" by (auto simp: pending_times_def)
  show ?thesis
    by (cases "?a = []"; cases "?b = []") (auto simp: t next_delayed_time_def Let_def list_min_ok Min_Un)
qed

end
