(* ===== verification/Udp_Drive.thy ===== *)
theory Udp_Drive
  imports Udp_Batch Delayed_Queue
begin

text \<open>
  What an evaluated primitive does to its output (\<^verbatim>\<open>drive_udp_output\<close>): a delayed instance schedules a
  one-bit slice, a sequential one queues a non-blocking assignment, a combinational one writes its bit
  at once; and the evaluation of one instance and of a batch of instances with this output.
\<close>

definition drive_udp_output ::
  "('v, 'o, 's, 'c) denv \<Rightarrow> udp_runtime \<Rightarrow> nat \<Rightarrow> ('v, 'o, 'c) dsim \<Rightarrow> ('v, 'o, 'c) dsim" where
  "drive_udp_output D rt new_code s =
     (let E = base D; sid = br_sig (out_ref rt); b = br_bit (out_ref rt); c = core s
      in if delay_rise rt > 0 \<or> delay_fall rt > 0
         then let delay = (if new_code = 1 then delay_rise rt else if new_code = 0 then delay_fall rt
                           else min (delay_rise rt) (delay_fall rt));
                  base_code = (case pending_value sid s of
                                 Some v \<Rightarrow> get_bit_code D v b
                               | None \<Rightarrow> get_bit_code D (table s sid) b)
              in if base_code \<noteq> new_code
                 then schedule_delayed_slice D sid b 1
                        (snd (set_bit_code D 0 new_code (value_new (vo E) 1))) delay s
                 else s
         else if is_sequential rt
         then (case nbi_get (nba_index c) sid of
                 Some i \<Rightarrow> s\<lparr>core := nba_replace i (snd (set_bit_code D b new_code (nf_value (nba_queue c ! i)))) c\<rparr>
               | None \<Rightarrow>
                   if get_bit_code D (table s sid) b \<noteq> new_code
                   then s\<lparr>core := nba_push sid (snd (set_bit_code D b new_code (table s sid))) c\<rparr>
                   else s)
         else let (changed, v) = set_bit_code D b new_code (table s sid)
              in if changed
                 then s\<lparr>core := mark_dirty_id D sid (after_signal_write E sid
                        ((sync_mirror E sid (set_signal sid v c))\<lparr>table_modified := True\<rparr>))\<rparr>
                 else s\<lparr>core := set_signal sid v c\<rparr>)"

definition eval_udp ::
  "('v, 'o, 's, 'c) denv \<Rightarrow> nat \<Rightarrow> udp_runtime list \<times> ('v, 'o, 'c) dsim \<Rightarrow>
   (udp_runtime list \<times> ('v, 'o, 'c) dsim) option" where
  "eval_udp D idx st =
     (case st of (rts, s) \<Rightarrow>
        map_option (\<lambda>(rt, drive). (rts[idx := rt],
            case drive of None \<Rightarrow> s | Some c \<Rightarrow> drive_udp_output D rt c s))
          (eval_udp_rt (\<lambda>sig b. get_bit_code D (table s sig) b) (rts ! idx)))"

text \<open>The batch: the event code is read once, before the first instance.\<close>

fun batch_loop ::
  "('v, 'o, 's, 'c) denv \<Rightarrow> nat \<Rightarrow> nat list \<Rightarrow>
   udp_runtime list \<times> ('v, 'o, 'c) dsim \<Rightarrow> (udp_runtime list \<times> ('v, 'o, 'c) dsim) option" where
  "batch_loop D shared [] st = Some st"
| "batch_loop D shared (idx # indices) st =
     (case st of (rts, s) \<Rightarrow>
        case batch_udp_rt (\<lambda>sig b. get_bit_code D (table s sig) b) (\<lambda>sid. forced_signals s sid \<noteq> None) shared (rts ! idx) of
          None \<Rightarrow> None
        | Some (rt, drive) \<Rightarrow>
            batch_loop D shared indices
              (rts[idx := rt], case drive of None \<Rightarrow> s | Some c \<Rightarrow> drive_udp_output D rt c s))"

definition eval_udp_batch ::
  "('v, 'o, 's, 'c) denv \<Rightarrow> bit_ref \<Rightarrow> nat list \<Rightarrow>
   udp_runtime list \<times> ('v, 'o, 'c) dsim \<Rightarrow> (udp_runtime list \<times> ('v, 'o, 'c) dsim) option" where
  "eval_udp_batch D event_ref indices st =
     batch_loop D
       (min (get_bit_code D (table (snd st) (br_sig event_ref)) (br_bit event_ref)) 2) indices st"

section \<open>The output reaches the new level\<close>

text \<open>The bit a signal has once its pending assignment or update is in.\<close>

definition output_code :: "('v, 'o, 's, 'c) denv \<Rightarrow> udp_runtime \<Rightarrow> ('v, 'o, 'c) dsim \<Rightarrow> nat" where
  "output_code D rt s =
     (let sid = br_sig (out_ref rt); b = br_bit (out_ref rt); c = core s
      in if delay_rise rt > 0 \<or> delay_fall rt > 0 then get_bit_code D (eventual sid s) b
         else if is_sequential rt
         then get_bit_code D (case pending c sid of Some v \<Rightarrow> v | None \<Rightarrow> table s sid) b
         else get_bit_code D (table s sid) b)"

lemma slice_core [simp]: "core (schedule_delayed_slice D sid lo n sel delay s) = core s"
  by (cases rule: slice_cases[of D sid lo n sel delay s]) (simp_all add: cancel_delayed_def)

lemma slice_forced [simp]: "forced_signals (schedule_delayed_slice D sid lo n sel delay s) = forced_signals s"
  by (cases rule: slice_cases[of D sid lo n sel delay s])
    (simp_all add: cancel_delayed_def schedule_delayed_with_delay_def schedule_module_path_def Let_def split: option.splits)

text \<open>A sequential or delayed primitive writes no signal when it is evaluated.\<close>

lemma drive_quiet:
  assumes "is_sequential rt"
  shows "table (drive_udp_output D rt c s) = table s \<and> forced_signals (drive_udp_output D rt c s) = forced_signals s"
  using assms by (auto simp: drive_udp_output_def Let_def nba_replace_def nba_push_def split: option.splits)

section \<open>A batch evaluates its instances\<close>

fun eval_each ::
  "('v, 'o, 's, 'c) denv \<Rightarrow> nat list \<Rightarrow> udp_runtime list \<times> ('v, 'o, 'c) dsim \<Rightarrow>
   (udp_runtime list \<times> ('v, 'o, 'c) dsim) option" where
  "eval_each D [] st = Some st"
| "eval_each D (idx # indices) st = (case eval_udp D idx st of None \<Rightarrow> None | Some st \<Rightarrow> eval_each D indices st)"

text \<open>An instance of a batch on the event terminal \<open>ev\<close>.\<close>

definition batch_member :: "bit_ref \<Rightarrow> (nat \<Rightarrow> bool) \<Rightarrow> udp_runtime \<Rightarrow> bool" where
  "batch_member ev forced rt \<longleftrightarrow> udp_ok rt \<and> is_sequential rt \<and>
     (\<exists>e. event_input rt = Some e \<and> e < length (in_refs rt) \<and> br_sig (in_refs rt ! e) \<noteq> u32_max \<and>
       (in_refs rt ! e = ev \<or> forced (br_sig (in_refs rt ! e))))"

lemma drive_same_event: "same_event a b \<Longrightarrow> drive_udp_output D a c s = drive_udp_output D b c s"
proof -
  assume "same_event a b"
  then have "b = a\<lparr>input_state_idx := input_state_idx b\<rparr>" by (simp add: same_event_def)
  then have "out_ref b = out_ref a" "delay_rise b = delay_rise a" "delay_fall b = delay_fall a" "is_sequential b = is_sequential a"
    by (metis udp_runtime.select_convs(1,3,4,5) udp_runtime.surjective udp_runtime.update_convs(9))+
  then show ?thesis unfolding drive_udp_output_def by (simp only:)
qed

lemma eval_udp_rt_keeps: "eval_udp_rt rd rt = Some (b, d) \<Longrightarrow> is_sequential b = is_sequential rt"
  by (auto simp: eval_udp_rt_def eval_filtered_def eval_general_def Let_def split: if_splits option.splits bool.splits)

lemma same_event_keeps: "same_event a b \<Longrightarrow> is_sequential a = is_sequential b"
  unfolding same_event_def by (metis udp_runtime.select_convs(3) udp_runtime.surjective udp_runtime.update_convs(9))

definition step_rel :: "udp_runtime \<times> nat option \<Rightarrow> udp_runtime \<times> nat option \<Rightarrow> bool" where
  "step_rel = (\<lambda>(a, d) (b, d'). d = d' \<and> same_event a b \<and> is_sequential a)"

lemma batch_step:
  assumes m: "batch_member ev forced rt" and shared: "shared = min (rd (br_sig ev) (br_bit ev)) 2"
  shows "rel_option step_rel (batch_udp_rt rd forced shared rt) (eval_udp_rt rd rt)"
proof (cases "initialized rt")
  case False
  then have "batch_udp_rt rd forced shared rt = eval_udp_rt rd rt" by (simp add: batch_udp_rt_def)
  then show ?thesis
    using m eval_udp_rt_keeps[of rd rt]
    by (cases "eval_udp_rt rd rt") (auto simp: step_rel_def batch_member_def)
next
  case True
  obtain e where e: "udp_ok rt" "event_input rt = Some e" "e < length (in_refs rt)" "br_sig (in_refs rt ! e) \<noteq> u32_max"
    "in_refs rt ! e = ev \<or> forced (br_sig (in_refs rt ! e))" and seq: "is_sequential rt"
    using m by (auto simp: batch_member_def)
  have "shared_ok rd forced shared rt e"
    using e(3-5) shared by (auto simp: shared_ok_def levels_def term_code_def)
  note b = batch_result[OF e(1,2) True this]
  have "eval_udp_rt rd rt = eval_filtered rd rt e"
    using e True by (simp add: eval_udp_rt_def udp_ok_def udp_built_def)
  then show ?thesis
    using eval_filtered_result[OF e(1,2), of rd] b True e(2) seq
    by (auto simp: filtered_result_def same_event_def event_digit_def step_rel_def)
qed

lemma batch_loop_each:
  assumes "\<forall>i\<in>set indices. i < length rts \<and> batch_member ev (\<lambda>sid. forced_signals s sid \<noteq> None) (rts ! i)" and "distinct indices"
    and "shared = min (get_bit_code D (table s (br_sig ev)) (br_bit ev)) 2"
    and "list_all2 same_event rts rts'" and "\<forall>i\<in>set indices. rts' ! i = rts ! i"
  shows "rel_option (rel_prod (list_all2 same_event) (=)) (batch_loop D shared indices (rts, s)) (eval_each D indices (rts', s))"
  using assms
proof (induction indices arbitrary: rts rts' s)
  case (Cons i indices)
  let ?rd = "\<lambda>sig b. get_bit_code D (table s sig) b" and ?forced = "\<lambda>sid. forced_signals s sid \<noteq> None"
  have i: "i < length rts" "batch_member ev ?forced (rts ! i)" "rts' ! i = rts ! i" and ni: "i \<notin> set indices"
    using Cons.prems by simp_all
  note step = batch_step[OF i(2), of shared ?rd, OF Cons.prems(3)]
  have len: "length rts' = length rts" using Cons.prems(4) by (simp add: list_all2_lengthD)
  show ?case
  proof (cases "batch_udp_rt ?rd ?forced shared (rts ! i)")
    case None
    then have "eval_udp_rt ?rd (rts' ! i) = None" using step i(3) by simp
    then show ?thesis using None by (simp add: eval_udp_def)
  next
    case (Some p)
    obtain a d where a: "p = (a, d)" by force
    obtain b where b: "eval_udp_rt ?rd (rts' ! i) = Some (b, d)" "same_event a b" "is_sequential a"
      using step Some a i(3) by (cases "eval_udp_rt ?rd (rts ! i)") (auto simp: step_rel_def)
    define s1 where "s1 = (case d of None \<Rightarrow> s | Some c \<Rightarrow> drive_udp_output D a c s)"
    have s1: "s1 = (case d of None \<Rightarrow> s | Some c \<Rightarrow> drive_udp_output D b c s)"
      "table s1 = table s" "forced_signals s1 = forced_signals s"
      using drive_same_event[OF b(2), of D _ s] drive_quiet[OF b(3), of D _ s] by (simp_all add: s1_def split: option.splits)
    have rel: "list_all2 same_event (rts[i := a]) (rts'[i := b])"
      using Cons.prems(4) b(2) by (rule list_all2_update_cong)
    have rest: "\<forall>j\<in>set indices. j < length (rts[i := a]) \<and> batch_member ev (\<lambda>sid. forced_signals s1 sid \<noteq> None) (rts[i := a] ! j)"
      "\<forall>j\<in>set indices. rts'[i := b] ! j = rts[i := a] ! j"
      using Cons.prems(1,5) ni i(1) len by (auto simp: nth_list_update s1(3))
    have sh: "shared = min (get_bit_code D (table s1 (br_sig ev)) (br_bit ev)) 2" using Cons.prems(3) by (simp add: s1(2))
    from Cons.IH[OF rest(1) _ sh rel rest(2)] Cons.prems(2)
    have "rel_option (rel_prod (list_all2 same_event) (=)) (batch_loop D shared indices (rts[i := a], s1))
        (eval_each D indices (rts'[i := b], s1))" by simp
    then show ?thesis using Some a b(1) by (simp add: eval_udp_def s1_def s1(1)[symmetric, unfolded s1_def])
  qed
qed simp

lemma eval_udp_batch_each:
  assumes "\<forall>i\<in>set indices. i < length rts \<and> batch_member ev (\<lambda>sid. forced_signals s sid \<noteq> None) (rts ! i)" and "distinct indices"
  shows "rel_option (rel_prod (list_all2 same_event) (=)) (eval_udp_batch D ev indices (rts, s)) (eval_each D indices (rts, s))"
  unfolding eval_udp_batch_def by (rule batch_loop_each[OF assms]) (simp_all add: list_all2_refl)

section \<open>The level driven\<close>

lemma drive_reaches:
  assumes laws: "bit_laws D" and c4: "c < 4" and b: "br_bit (out_ref rt) < width_of D (table s (br_sig (out_ref rt)))"
    and w: "width_of D (eventual (br_sig (out_ref rt)) s) = width_of D (table s (br_sig (out_ref rt)))"
    and one: "width_of D (value_new (vo (base D)) 1) = 1"
    and q: "nba_ok (core s)"
      "\<forall>e\<in>set (nba_queue (core s)). width_of D (nf_value e) = width_of D (table s (nf_signal_id e))"
  shows "output_code D rt (drive_udp_output D rt c s) = c"
proof -
  let ?sid = "br_sig (out_ref rt)" and ?b = "br_bit (out_ref rt)"
  consider (delayed) "delay_rise rt > 0 \<or> delay_fall rt > 0"
    | (seq) "delay_rise rt = 0" "delay_fall rt = 0" "is_sequential rt"
    | (comb) "delay_rise rt = 0" "delay_fall rt = 0" "\<not> is_sequential rt" by blast
  then show ?thesis
  proof cases
    case delayed
    have code: "(case pending_value ?sid s of Some v \<Rightarrow> get_bit_code D v ?b | None \<Rightarrow> get_bit_code D (table s ?sid) ?b) =
        get_bit_code D (eventual ?sid s) ?b" by (simp add: eventual_def split: option.splits)
    have "get_bit_code D (eventual ?sid (schedule_delayed_slice D ?sid ?b 1 (snd (set_bit_code D 0 c (value_new (vo (base D)) 1))) delay s)) ?b = c" for delay
      using slice_eventual[OF laws w, of ?b 1 ?b "snd (set_bit_code D 0 c (value_new (vo (base D)) 1))" delay] b one
        bit_lawsD(1)[OF laws _ c4, of 0 "value_new (vo (base D)) 1" 0] by simp
    then show ?thesis using delayed by (auto simp: output_code_def drive_udp_output_def Let_def code)
  next
    case seq
    show ?thesis
    proof (cases "nbi_get (nba_index (core s)) ?sid")
      case None
      then have none: "pending (core s) ?sid = None" using pending_lookup[OF q(1)] by simp
      show ?thesis
        using seq None none pending_push[OF q(1) None, of "snd (set_bit_code D ?b c (table s ?sid))"] bit_lawsD(1)[OF laws b c4]
        by (simp add: output_code_def drive_udp_output_def Let_def)
    next
      case (Some i)
      let ?v = "nf_value (nba_queue (core s) ! i)"
      have i: "i < length (nba_queue (core s))" "nf_signal_id (nba_queue (core s) ! i) = ?sid"
        using q(1) Some linkedD unfolding nba_ok_def by blast+
      then have "?b < width_of D ?v" using q(2) b nth_mem[OF i(1)] by fastforce
      then show ?thesis
        using seq Some pending_replace[OF q(1) Some, of "snd (set_bit_code D ?b c ?v)"] bit_lawsD(1)[OF laws _ c4]
        by (simp add: output_code_def drive_udp_output_def Let_def)
    qed
  next
    case comb
    show ?thesis
      using comb bit_lawsD(1)[OF laws b c4, of ?b]
      by (simp add: output_code_def drive_udp_output_def Let_def split_beta set_signal_def sync_mirror_def after_signal_write_def)
  qed
qed

end
