(* ===== verification/Examples.thy ===== *)
theory Examples
  imports Ts_Inv
begin

text \<open>
  A concrete instance of the parameters, for the witnesses: a value of at most 64 bits as a
  record of its width, its sign flag and its two planes, an AST interpreter that does nothing,
  and observers that record the ids written.
\<close>

record cvalue =
  c_width :: nat
  c_signed :: bool
  c_v :: u64
  c_x :: u64

definition c_inline :: "u64 \<Rightarrow> u64 \<Rightarrow> nat \<Rightarrow> cvalue" where
  "c_inline v x w = \<lparr>c_width = w, c_signed = False, c_v = v AND ts_mask w, c_x = x AND ts_mask w\<rparr>"

definition c_set :: "u64 \<Rightarrow> u64 \<Rightarrow> cvalue \<Rightarrow> bool \<times> cvalue" where
  "c_set v x e = (True, e\<lparr>c_v := v AND ts_mask (c_width e), c_x := x AND ts_mask (c_width e)\<rparr>)"

definition c_splice :: "nat \<Rightarrow> u64 \<Rightarrow> u64 \<Rightarrow> nat \<Rightarrow> cvalue \<Rightarrow> bool \<times> cvalue" where
  "c_splice lo v x n e =
     (let e' = e\<lparr>c_v := fst (compose_inline_range_bits (c_v e) (c_x e) v x lo (lo + n - 1)),
                 c_x := snd (compose_inline_range_bits (c_v e) (c_x e) v x lo (lo + n - 1))\<rparr>
      in ((c_v e', c_x e') \<noteq> (c_v e, c_x e), e'))"

definition c_ops :: "cvalue vops" where
  "c_ops =
     \<lparr>raw_bits = (\<lambda>e. (c_v e, c_x e)),
      set_inline_bits = c_set,
      from_inline = c_inline,
      from_u64 = (\<lambda>v w. c_inline v 0 w),
      value_new = (\<lambda>w. c_inline 0 (- 1) w),
      set_signed = (\<lambda>b e. e\<lparr>c_signed := b\<rparr>),
      splice_bits64 = c_splice,
      slice_bits_swar = (\<lambda>lo w e. (shr64 (c_v e) lo AND ts_mask w, shr64 (c_x e) lo AND ts_mask w)),
      value_width = c_width,
      has_xz = (\<lambda>e. c_x e \<noteq> 0),
      value_ne = (\<lambda>a b. (c_v a, c_x a) \<noteq> (c_v b, c_x b))\<rparr>"

definition c_env :: "(cvalue, nat list, unit) env" where
  "c_env =
     \<lparr>vo = c_ops,
      note_write = (\<lambda>sid _ ids. ids @ [sid]),
      exec_fallback = (\<lambda>_ s. s),
      fsm_ticks = (\<lambda>t. t),
      take_interrupt = (\<lambda>s. s\<lparr>finished := True\<rparr>)\<rparr>"

text \<open>Eight-bit signals with the values \<open>vs\<close>, the others 0; no mirror; Ctrl-C at the third poll.\<close>

definition c_sim :: "u64 list \<Rightarrow> (cvalue, nat list) sim" where
  "c_sim vs =
     \<lparr>signal_table = (\<lambda>sid. c_inline (if sid < length vs then vs ! sid else 0) 0 8),
      signal_widths = (\<lambda>_. 8), signal_signed = (\<lambda>_. False), signal_two_state = (\<lambda>_. False),
      signal_inline_bits = [], signal_has_xz = [], nba_queue = [],
      nba_index = nbi_with_dense_prefix 4, prof_nba_elided = 0, dirty_signals = (\<lambda>_. False),
      dirty_list = [], dirty_any = False, table_modified = False, ts_direct_writes = False,
      ts_rec0 = (0, 0), ts_rec_n = 0, ts_recs = [], ts_save_list = [], ts_xread_bail = False,
      fsm_suspend = None, code_cov_hits = [0, 0], prof_fallback_insns = 0, finished = False,
      stop_polls = (\<lambda>n. n \<ge> 2), poll_count = 0, observers = []\<rparr>"

lemmas c_defs = c_env_def c_ops_def c_sim_def c_inline_def c_set_def c_splice_def

text \<open>Rules that run a stream in the simplifier.\<close>

lemmas run_eval = exec_two_state_ctrl_def exec_two_state_ctrl_from_def run_loop.simps ctrl_step_def
  with_sig_def sig_planes_def sig_raw_def mark_written_def after_signal_write_def sync_mirror_def
  set_signal_def ts_store_def ts_store_nba_def nba_push_def nbi_insert_def nbi_get_def
  nbi_with_dense_prefix_def u32_max_def ts_cov_hit_def cov_count_def push_save_def c_defs
  ts_mask_def shl64_def

lemma c_splice_reports: "splice_reports c_ops"
  by (auto simp: splice_reports_def c_ops_def c_splice_def Let_def)

lemma c_mirror_env: "mirror_env c_env"
  using c_splice_reports by (auto simp: mirror_env_def c_env_def mirror_ok_def sig_raw_def)

lemma c_mirror_ok: "mirror_ok c_env (c_sim vs)"
  by (simp add: mirror_ok_def c_sim_def)

lemma c_queue_env: "queue_env c_env"
  by (auto simp: queue_env_def c_env_def nba_ok_def)

lemma c_nba_ok: "nba_ok (c_sim vs)"
  by (simp add: nba_ok_def c_sim_def nbi_wf_prefix linked_def nbi_get_prefix)

end
