(* ===== verification/Udp_Examples.thy ===== *)
theory Udp_Examples
  imports Udp_Batch
begin

text \<open>
  A D flip-flop as a UDP, for the examples: terminal 0 is the clock, terminal 1 the data.  Its
  table is compiled to 243 entries; the facts about the filter are derived from the rows instead
  of enumerating them.
\<close>

definition dff_rows :: "udp_row list" where
  "dff_rows =
     [\<lparr>row_inputs = [SymEdgeShort CHR ''r'', SymLevel CHR ''0''], row_state = Some SymAnyQ,
       row_output = OutLevel CHR ''0''\<rparr>,
      \<lparr>row_inputs = [SymEdgeShort CHR ''r'', SymLevel CHR ''1''], row_state = Some SymAnyQ,
       row_output = OutLevel CHR ''1''\<rparr>,
      \<lparr>row_inputs = [SymEdgeShort CHR ''n'', SymAnyQ], row_state = Some SymAnyQ,
       row_output = OutNoChange\<rparr>,
      \<lparr>row_inputs = [SymAnyQ, SymEdgeShort CHR ''*''], row_state = Some SymAnyQ,
       row_output = OutNoChange\<rparr>]"

lemmas row_eval = dff_rows_def udp_next_def udp_match_row_def udp_level_match_def udp_edge_match_def
  level_char_def row_level_def

lemma dff_data: "c < 3 \<Longrightarrow> p < 3 \<Longrightarrow> p \<noteq> c \<Longrightarrow> udp_next dff_rows [k, c] [k, p] st True = st"
  by (auto simp: row_eval)

lemma dff_fall: "udp_next dff_rows [0, d] [1, d] st True = st"
  by (simp add: row_eval)

lemma dff_rise: "udp_next dff_rows [Suc 0, Suc 0] [0, Suc 0] st True = Suc 0"
  "udp_next dff_rows [Suc 0, 0] [0, 0] st True = 0"
  by (simp_all add: row_eval)

definition dff_lut :: "nat list" where
  "dff_lut = lut_entries dff_rows 2 True 9"

lemma dff_compile: "compile_udp_transition_lut dff_rows 2 True = Some (dff_lut, 9)"
  by (simp add: compile_udp_transition_lut_def dff_lut_def max_lut_entries_def)

lemma decode2: "decode_ternary 2 k = [k mod 3, k div 3 mod 3]"
  by (simp add: numeral_2_eq_2)

lemma dff_lut_next:
  "st < 3 \<Longrightarrow> p < 9 \<Longrightarrow> c < 9 \<Longrightarrow>
   dff_lut ! lut_index 9 st p c = udp_next dff_rows [c mod 3, c div 3 mod 3] [p mod 3, p div 3 mod 3] st True"
  using compile_lut_nth(3)[OF dff_compile] by (simp only: decode2)

lemma dff_passive: "passive_holds dff_lut 9 1"
proof -
  have "p div 3 mod 3 \<noteq> c div 3 mod 3" if "p < 9" "c < 9" "p \<noteq> c" "p mod 3 = c mod 3" for p c :: nat
  proof -
    have "p div 3 < 3" "c div 3 < 3" using that by auto
    then show ?thesis using that by (metis div_mult_mod_eq mod_less)
  qed
  then show ?thesis
    unfolding passive_holds_def by (auto simp: digit3_def dff_lut_next dff_data simp del: mod_div_trivial)
qed

definition dff_mask :: "16 word" where
  "dff_mask = event_mask dff_lut 9 1"

lemma dff_mask_rise: "bit dff_mask 1"
proof -
  have "(0::nat) * 3 + digit3 1 4 \<in> set (event_transitions dff_lut 9 1)"
    by (rule event_transitions_mem[of 0]) (simp_all add: digit3_def dff_lut_next dff_rise)
  then show ?thesis by (simp add: dff_mask_def event_mask_bit digit3_def)
qed

lemma event_transitions_ex:
  "t \<in> set (event_transitions lut states place) \<Longrightarrow>
   \<exists>st < 3. \<exists>cur < states. \<exists>p < 3. p \<noteq> digit3 place cur \<and> t = p * 3 + digit3 place cur \<and>
     lut ! lut_index states st (cur - digit3 place cur * place + p * place) cur \<noteq> st"
  unfolding event_transitions_def Let_def by (auto split: if_splits) blast

lemma dff_mask_fall: "\<not> bit dff_mask 3"
proof
  assume "bit dff_mask 3"
  then have "3 \<in> set (event_transitions dff_lut 9 1)" by (simp add: dff_mask_def event_mask_bit)
  then obtain st c p where st: "st < 3" and c: "c < 9" and t: "3 = p * 3 + c mod 3"
    and ne: "dff_lut ! lut_index 9 st (c - c mod 3 + p) c \<noteq> st"
    using event_transitions_ex[of 3 dff_lut 9 1] by (auto simp: digit3_def)
  have pc: "p = 1" "c mod 3 = 0" using t by presburger+
  then have "c div 3 = (c + 1) div 3" "c + 1 < 9" "(c + 1) mod 3 = 1" using c by presburger+
  then show False using ne st c pc dff_fall by (simp add: dff_lut_next)
qed

lemma dff_filter: "compile_udp_event_filter dff_lut 9 2 = Some (0, dff_mask)"
proof -
  have "dff_mask \<noteq> 0" using dff_mask_rise by (metis bit_0_eq bot_apply bot_bool_def)
  then show ?thesis
    using dff_passive by (simp add: compile_udp_event_filter_def dff_mask_def numeral_2_eq_2 upt_rec)
qed

text \<open>An instance with clock, data and output on signals 0, 1 and 2.\<close>

definition dff :: "bool \<Rightarrow> nat \<Rightarrow> udp_runtime" where
  "dff ini idx =
     \<lparr>out_ref = \<lparr>br_sig = 2, br_bit = 0\<rparr>,
      in_refs = [\<lparr>br_sig = 0, br_bit = 0\<rparr>, \<lparr>br_sig = 1, br_bit = 0\<rparr>],
      is_sequential = True, delay_rise = 0, delay_fall = 0, rows = dff_rows,
      transition_lut = Some dff_lut, lut_input_states = 9, input_state_idx = idx,
      event_input = Some 0, event_transition_mask = dff_mask, ustate = 2,
      prev_inputs = [255, 255], initialized = ini, warned = False\<rparr>"

lemma dff_ok: "idx < 9 \<Longrightarrow> udp_ok (dff ini idx)"
  using dff_compile dff_filter
  by (simp add: udp_ok_def udp_built_def no_constant_z_def dff_def u32_max_def numeral_2_eq_2)

end
