(* ===== verification/Delayed_Examples.thy ===== *)
theory Delayed_Examples
  imports Udp_Drive Examples Udp_Examples
begin

text \<open>A concrete instance of the value operations, a value as the list of its bit codes.\<close>

definition l_get :: "nat list \<Rightarrow> nat \<Rightarrow> nat" where
  "l_get v b = (if b < length v then v ! b mod 4 else 0)"

definition l_set :: "nat \<Rightarrow> nat \<Rightarrow> nat list \<Rightarrow> bool \<times> nat list" where
  "l_set b c v = (b < length v \<and> l_get v b \<noteq> c, v[b := c])"

definition l_plane :: "(nat \<Rightarrow> bool) \<Rightarrow> nat list \<Rightarrow> u64" where
  "l_plane P v = fold (\<lambda>b w. if P (l_get v b) then w OR shl64 1 b else w) [0..<length v] 0"

definition l_ops :: "nat list vops" where
  "l_ops =
     \<lparr>raw_bits = (\<lambda>v. (l_plane odd v, l_plane (\<lambda>c. 2 \<le> c) v)),
      set_inline_bits = (\<lambda>_ _ v. (False, v)), from_inline = (\<lambda>_ _ w. replicate w 0),
      from_u64 = (\<lambda>n w. map (\<lambda>b. of_bool (bit n b)) [0..<w]), value_new = (\<lambda>w. replicate w 2),
      set_signed = (\<lambda>_ v. v), splice_bits64 = (\<lambda>_ _ _ _ v. (False, v)),
      slice_bits_swar = (\<lambda>_ _ _. (0, 0)), value_width = length, has_xz = list_ex (\<lambda>c. 2 \<le> c mod 4),
      value_ne = (\<lambda>a b. map (\<lambda>c. c mod 4) a \<noteq> map (\<lambda>c. c mod 4) b)\<rparr>"

definition l_env :: "(nat list, nat list, unit) env" where
  "l_env =
     \<lparr>vo = l_ops, note_write = (\<lambda>sid _ ids. ids @ [sid]), exec_fallback = (\<lambda>_ s. s), fsm_ticks = (\<lambda>t. t),
      take_interrupt = (\<lambda>s. s)\<rparr>"

definition l_denv :: "(nat list, nat list, unit, bool) denv" where
  "l_denv =
     \<lparr>base = l_env, get_bit_code = l_get, set_bit_code = l_set, is_real = (\<lambda>_. False),
      path_transition_index = (\<lambda>c d. if c = d then None else Some (if d = 1 then 0 else 1)),
      cond_true = (\<lambda>c _. c), comb_dep_offsets = [], unresolved_reads = False, is_unnamed = (\<lambda>_. False)\<rparr>"

lemma l_get_eq:
  assumes "map (\<lambda>c. c mod 4) v = map (\<lambda>c. c mod 4) w"
  shows "l_get v b = l_get w b"
proof (cases "b < length v")
  case True
  then have "map (\<lambda>c. c mod 4) v ! b = map (\<lambda>c. c mod 4) w ! b" "b < length w"
    using assms map_eq_imp_length_eq[OF assms] by simp_all
  then show ?thesis using True by (simp add: l_get_def)
next
  case False
  then show ?thesis using map_eq_imp_length_eq[OF assms] by (simp add: l_get_def)
qed

lemma l_set_get: "b < length v \<Longrightarrow> c < 4 \<Longrightarrow> l_get (snd (l_set b c v)) b' = (if b' = b then c else l_get v b')"
  by (simp add: l_get_def l_set_def)

lemma l_get_lt: "l_get v b < 4"
  by (simp add: l_get_def)

lemma l_denv_sel:
  "get_bit_code l_denv = l_get" "set_bit_code l_denv = l_set" "value_width (vo (base l_denv)) = length"
  "set_signed (vo (base l_denv)) = (\<lambda>_ v. v)"
  "value_ne (vo (base l_denv)) = (\<lambda>a b. map (\<lambda>c. c mod 4) a \<noteq> map (\<lambda>c. c mod 4) b)"
  "path_transition_index l_denv = (\<lambda>c d. if c = d then None else Some (if d = 1 then 0 else 1))"
  by (simp_all add: l_denv_def l_env_def l_ops_def)

lemma l_laws: "bit_laws l_denv"
  unfolding bit_laws_def l_denv_sel
proof (intro conjI allI impI)
  show "\<not> map (\<lambda>c. c mod 4) v \<noteq> map (\<lambda>c. c mod 4) w \<Longrightarrow> l_get v b = l_get w b" for v w b
    using l_get_eq[of v w b] by blast
  show "length (snd (l_set b c v)) = length v" for b c v by (simp add: l_set_def)
  show "b < length v \<Longrightarrow> fst (l_set b c v) = (l_get v b \<noteq> c)" for b c v by (simp add: l_set_def)
qed (use l_set_get l_get_lt in auto)

text \<open>Signals of two bits; signal 1 is path-delayed: its rising bits take 10 ticks, its falling bits 7.\<close>

definition l_core :: "(nat list, nat list) sim" where
  "l_core =
     \<lparr>signal_table = (\<lambda>sid. if sid = 1 then [0, 1] else [0, 0]),
      signal_widths = (\<lambda>_. 2), signal_signed = (\<lambda>_. False), signal_two_state = (\<lambda>_. False),
      signal_inline_bits = [], signal_has_xz = [], nba_queue = [],
      nba_index = nbi_with_dense_prefix 4, prof_nba_elided = 0, dirty_signals = (\<lambda>_. False),
      dirty_list = [], dirty_any = False, table_modified = False, ts_direct_writes = False,
      ts_rec0 = (0, 0), ts_rec_n = 0, ts_recs = [], ts_save_list = [], ts_xread_bail = False,
      fsm_suspend = None, code_cov_hits = [], prof_fallback_insns = 0, finished = False,
      stop_polls = (\<lambda>_. False), poll_count = 0, observers = []\<rparr>"

definition l_paths :: "bool module_paths" where
  "l_paths =
     \<lparr>mp_dst = [1 \<mapsto> 0],
      mp_tables = [[\<lparr>path_delays = [10, 7, 0, 0, 0, 0, 0, 0, 0, 0, 0, 0], path_srcs = [0], path_cond = None, ifnone = False\<rparr>]],
      mp_srcs = [\<lparr>ps_sig = 2, ps_watch = 0, ps_last = 0\<rparr>]\<rparr>"

definition l_sim :: "nat \<Rightarrow> (nat list, nat list, bool) dsim" where
  "l_sim now =
     \<lparr>core = l_core, sim_time = now, sdf_delays = [], gate_fall_delay_by_id = [],
      gate_off_delay_by_id = [], module_paths = Some l_paths,
      timing_watches = [\<lparr>prev_v = 0, prev_x = 0, wide = None\<rparr>], delayed_updates = [], delayed_nba = [],
      delayed_nba_queue = [], forced_signals = Map.empty\<rparr>"

text \<open>At time 0 signal 0 is due at 3; then signal 1 goes from \<open>[0, 1]\<close> to \<open>[1, 0]\<close>.\<close>

definition l_queued :: "(nat list, nat list, bool) dsim" where
  "l_queued =
     schedule_delayed_with_delay l_denv 1 [1, 0] 0 (schedule_delayed_with_delay l_denv 0 [1, 1] 3 (l_sim 0))"

text \<open>The delays of the path, and the queue that results.\<close>

lemma l_replicate: "replicate 12 (x :: nat) = [x, x, x, x, x, x, x, x, x, x, x, x]"
  by (simp add: numeral_eq_Suc)

lemma l_delays:
  "module_path_delays l_denv 0 ((l_sim n)\<lparr>delayed_updates := q\<rparr>) = Some [10, 7, 0, 0, 0, 0, 0, 0, 0, 0, 0, 0]"
  by (simp add: module_path_delays_def enabled_paths_def least_delays_def l_sim_def l_core_def l_paths_def l_replicate)

lemma l_scheduled:
  "schedule_delayed_with_delay l_denv 0 [1, 1] 3 (l_sim 0) = (l_sim 0)\<lparr>delayed_updates := [(3, 0, [1, 1])]\<rparr>"
  by (simp add: schedule_delayed_with_delay_def table_of_def gate_delay_def drop_updates_def l_sim_def l_paths_def)

lemma l_table_of: "table_of (module_paths ((l_sim n)\<lparr>delayed_updates := q\<rparr>)) 1 = Some 0"
  by (simp add: table_of_def l_sim_def l_paths_def)

lemma l_queued_eq: "l_queued = (l_sim 0)\<lparr>delayed_updates := [(3, 0, [1, 1]), (10, 1, [1, 0]), (7, 1, [0, 0])]\<rparr>"
  unfolding l_queued_def l_scheduled
  unfolding schedule_delayed_with_delay_def l_table_of option.case schedule_module_path_def l_delays Let_def
  by (simp add: l_sim_def l_core_def drop_updates_def updates_of_def bit_times_def bit_time_def in_flight_def
      map_filter_def l_get_def l_set_def less_eq_prod_def l_denv_sel)

lemma l_queued_eventual: "eventual 1 l_queued = [1, 0]" "table l_queued 1 = [0, 1]" "latest_first l_queued"
  by (auto simp: l_queued_eq eventual_def pending_value_def l_sim_def l_core_def latest_first_def updates_of_def)

text \<open>The queue at time 3, with the update of signal 0 due.\<close>

definition l_late :: "(nat list, nat list, bool) dsim" where
  "l_late = l_queued\<lparr>sim_time := 3\<rparr>"

lemma l_applied: "delayed_updates (snd (apply_delayed_updates l_denv l_late)) = [(7, 1, [0, 0]), (10, 1, [1, 0])]"
  by (simp add: apply_delayed_updates_def l_late_def l_queued_eq l_sim_def apply_loop.simps swap_remove_def split_beta)

text \<open>The changes of signal 1.\<close>

lemma l_change_times:
  "change_time l_denv 1 0 [1, 0] (l_sim 0) 0 = Some 10" "change_time l_denv 1 0 [1, 0] (l_sim 0) 1 = Some 7"
  using l_delays[where n = 0 and q = "[]"]
  by (simp_all add: change_time_def bit_time_def in_flight_def updates_of_def l_denv_sel l_sim_def l_core_def l_get_def)

lemma l_tables: "table (l_sim n) 1 = [0, 1]" "table l_late 1 = [0, 1]"
  by (simp_all add: l_late_def l_queued_eq l_sim_def l_core_def)

lemma l_late_eventual: "latest_first l_late" "eventual 1 l_late = [1, 0]"
  by (auto simp: l_late_def l_queued_eq eventual_def pending_value_def l_sim_def latest_first_def updates_of_def)

lemma l_late_out: "eventual 2 l_late = [0, 0]" "table l_late 2 = [0, 0]"
  by (simp_all add: l_late_def l_queued_eq eventual_def pending_value_def l_sim_def l_core_def)

lemma l_late_nba: "nba_ok (core l_late)" "nba_queue (core l_late) = []"
  by (simp_all add: l_late_def l_queued_eq l_sim_def l_core_def nba_ok_def nbi_wf_prefix nbi_get_prefix linked_def)

lemma l_value_new: "value_new (vo (base l_denv)) w = replicate w 2"
  by (simp add: l_denv_def l_env_def l_ops_def)

lemma dff_out: "out_ref (dff ini k) = \<lparr>br_sig = 2, br_bit = 0\<rparr>"
  by (simp add: dff_def)

end
