(* ===== verification/Observers.thy ===== *)
theory Observers
  imports Ts_State "HOL-Library.Product_Lexorder"
begin

text \<open>
  What a write of a signal tells the rest of the simulator (\<^verbatim>\<open>signal_commits.rs\<close>,
  \<^verbatim>\<open>after_signal_write_inner\<close>): the value trace, the edge blocks that read the signal and must be
  armed, the edge-sensitive positions to be scanned again, the VCD dump, the generations of active
  forces, and the time of the last change.  A commit plan per signal, or the bitmap of quiet signals,
  lets a write skip the parts that cannot concern it.

  The fields are those of \<^verbatim>\<open>Simulator\<close>; \<open>table_len\<close> is the number of signals and
  \<open>has_active_forces\<close> says that \<^verbatim>\<open>active_force_exprs\<close> is not empty.
\<close>

record 'v obs =
  table_len :: nat
  value_trace_ids :: "nat list option"
  value_trace_pending :: "(nat \<times> nat \<times> 'v \<times> 'v \<times> nat \<times> nat) list"
  current_pid :: nat
  edge_dispatch_phase :: nat
  armed_edge :: bool
  event_skip :: bool
  armed_input_bitmap :: "u64 list"
  armed_input_ranges :: "(nat \<times> nat) list"
  armed_input_blocks :: "nat list"
  edge_block_armed :: "8 word list"
  arm_census :: "(nat \<times> nat) list option"
  in_edge_block :: bool
  in_edge_cont :: bool
  dirty_edge :: bool
  dirty_edge_shadow :: bool
  sig_to_edge_pos :: "int list"
  edge_exec_seen :: "bool list"
  edge_exec_wrote :: "nat list"
  edge_pos_seen :: "bool list"
  changed_edge_pos :: "nat list"
  dump_dirty_active :: bool
  dump_dirty_mark :: "nat list"
  dump_dirty_epoch :: nat
  dump_dirty :: "nat list"
  has_active_forces :: bool
  active_force_signal_epochs :: "u64 list"
  force_epoch_gen :: u64
  event_measure :: bool
  sig_last_change :: "nat list"
  event_phase :: nat
  signal_commit_plan :: "8 word list"
  quiet_valid :: bool
  quiet_bits :: "u64 list"
  profile_report :: bool
  prof_quiet_stores :: nat
  prof_observed_stores :: nat

definition edge_armed :: "8 word" where "edge_armed = 1"
definition edge_hold :: "8 word" where "edge_hold = 2"

section \<open>The notes of a write\<close>

definition armed_input_set :: "nat \<Rightarrow> 'v obs \<Rightarrow> bool" where
  "armed_input_set sid o' =
     (if sid div 64 < length (armed_input_bitmap o')
      then shr64 (armed_input_bitmap o' ! (sid div 64)) (sid mod 64) AND 1 \<noteq> 0 else False)"

definition note_armed_write :: "nat \<Rightarrow> 'v obs \<Rightarrow> 'v obs" where
  "note_armed_write sid o' =
     (if \<not> armed_edge o' \<or> \<not> armed_input_set sid o' then o'
      else let (lo, hi) = armed_input_ranges o' ! sid;
               o' = (case arm_census o' of
                       None \<Rightarrow> o'
                     | Some c \<Rightarrow>
                         let c = c @ replicate (sid + 1 - length c) (0, 0)
                         in o'\<lparr>arm_census := Some (c[sid := (fst (c ! sid) + 1, snd (c ! sid) + (hi - lo))])\<rparr>)
           in o'\<lparr>edge_block_armed :=
                fold (\<lambda>k as. let bi = armed_input_blocks o' ! k in as[bi := as ! bi OR edge_armed])
                  [lo..<hi] (edge_block_armed o')\<rparr>)"

text \<open>The position of an edge-sensitive signal, if it is one.\<close>

definition edge_pos :: "nat \<Rightarrow> 'v obs \<Rightarrow> nat option" where
  "edge_pos sid o' =
     (if sid < length (sig_to_edge_pos o') \<and> sig_to_edge_pos o' ! sid \<ge> 0
      then Some (nat (sig_to_edge_pos o' ! sid)) else None)"

definition note_edge_write :: "nat \<Rightarrow> 'v obs \<Rightarrow> 'v obs" where
  "note_edge_write sid o' =
     (let o' = (if in_edge_block o' \<or> in_edge_cont o'
                then (case edge_pos sid o' of
                        None \<Rightarrow> o'
                      | Some p \<Rightarrow>
                          if \<not> edge_exec_seen o' ! p
                          then o'\<lparr>edge_exec_seen := (edge_exec_seen o')[p := True],
                                  edge_exec_wrote := edge_exec_wrote o' @ [p]\<rparr>
                          else o')
                else o')
      in if \<not> dirty_edge o' \<and> \<not> dirty_edge_shadow o' then o'
         else (case edge_pos sid o' of
                 None \<Rightarrow> o'
               | Some p \<Rightarrow>
                   if \<not> edge_pos_seen o' ! p
                   then o'\<lparr>edge_pos_seen := (edge_pos_seen o')[p := True],
                           changed_edge_pos := changed_edge_pos o' @ [p]\<rparr>
                   else o'))"

text \<open>The macro \<^verbatim>\<open>vcd_mark!\<close>.\<close>

definition vcd_mark :: "nat \<Rightarrow> 'v obs \<Rightarrow> 'v obs" where
  "vcd_mark sid o' =
     (if dump_dirty_active o' \<and> sid < length (dump_dirty_mark o') \<and> dump_dirty_mark o' ! sid \<noteq> dump_dirty_epoch o'
      then o'\<lparr>dump_dirty_mark := (dump_dirty_mark o')[sid := dump_dirty_epoch o'],
              dump_dirty := dump_dirty o' @ [sid]\<rparr>
      else o')"

definition trace_write :: "nat \<Rightarrow> nat \<Rightarrow> 'v \<Rightarrow> 'v obs \<Rightarrow> 'v obs" where
  "trace_write now sid v o' =
     (case value_trace_ids o' of
        None \<Rightarrow> o'
      | Some ids \<Rightarrow>
          if sid \<in> set ids \<and> sid < table_len o'
          then o'\<lparr>value_trace_pending := value_trace_pending o' @ [(sid, now, v, v, current_pid o', edge_dispatch_phase o')]\<rparr>
          else o')"

definition bump_force_epoch :: "nat \<Rightarrow> 'v obs \<Rightarrow> 'v obs" where
  "bump_force_epoch sid o' =
     (if has_active_forces o' \<and> sid < length (active_force_signal_epochs o')
      then o'\<lparr>active_force_signal_epochs :=
                (active_force_signal_epochs o')[sid := active_force_signal_epochs o' ! sid + 1],
              force_epoch_gen := force_epoch_gen o' + 1\<rparr>
      else o')"

definition stamp_change :: "nat \<Rightarrow> 'v obs \<Rightarrow> 'v obs" where
  "stamp_change sid o' =
     (if event_measure o' \<and> \<not> armed_edge o' \<and> sid < length (sig_last_change o')
      then o'\<lparr>sig_last_change := (sig_last_change o')[sid := event_phase o']\<rparr> else o')"

definition after_signal_write_observed ::
  "('v, 'v obs, 's) env \<Rightarrow> nat \<Rightarrow> nat \<Rightarrow> bool \<Rightarrow> bool \<Rightarrow> bool \<Rightarrow> ('v, 'v obs) sim \<Rightarrow> ('v, 'v obs) sim" where
  "after_signal_write_observed E now sid premirrored edge armed s =
     (let o' = trace_write now sid (signal_table s sid) (observers s);
          o' = (if armed then note_armed_write sid o' else o');
          o' = (if edge then note_edge_write sid o' else o');
          o' = bump_force_epoch sid (vcd_mark sid o');
          s = s\<lparr>observers := o'\<rparr>;
          s = (if \<not> premirrored \<and> sid < length (signal_inline_bits s)
               then s\<lparr>signal_inline_bits := (signal_inline_bits s)[sid := sig_raw E s sid]\<rparr> else s)
      in s\<lparr>observers := stamp_change sid (observers s)\<rparr>)"

section \<open>Which parts a write needs\<close>

definition quiet_signal :: "nat \<Rightarrow> 'v obs \<Rightarrow> bool" where
  "quiet_signal sid o' \<longleftrightarrow> shr64 (quiet_bits o' ! (sid div 64)) (sid mod 64) AND 1 \<noteq> 0"

text \<open>An observer that every write concerns is active.\<close>

definition global_observer :: "bool \<Rightarrow> ('v, 'v obs) sim \<Rightarrow> bool" where
  "global_observer premirrored s =
     (let o' = observers s
      in value_trace_ids o' \<noteq> None \<or> dump_dirty_active o' \<or> has_active_forces o' \<or>
         (\<not> premirrored \<and> signal_inline_bits s \<noteq> []) \<or> (event_measure o' \<and> \<not> armed_edge o'))"

definition edge_active :: "'v obs \<Rightarrow> bool" where
  "edge_active o' \<longleftrightarrow> dirty_edge o' \<or> dirty_edge_shadow o' \<or> in_edge_block o' \<or> in_edge_cont o'"

definition plan_of :: "nat \<Rightarrow> 'v obs \<Rightarrow> 8 word" where
  "plan_of sid o' = (if sid < length (signal_commit_plan o') then signal_commit_plan o' ! sid else 3)"

definition after_signal_write_inner ::
  "('v, 'v obs, 's) env \<Rightarrow> nat \<Rightarrow> nat \<Rightarrow> bool \<Rightarrow> ('v, 'v obs) sim \<Rightarrow> ('v, 'v obs) sim" where
  "after_signal_write_inner E now sid premirrored s =
     (let o' = observers s
      in if sid \<ge> table_len o' then s
         else if signal_commit_plan o' = []
         then (if quiet_valid o' \<and> quiet_signal sid o' \<and> \<not> global_observer premirrored s
               then (if profile_report o' then s\<lparr>observers := o'\<lparr>prof_quiet_stores := prof_quiet_stores o' + 1\<rparr>\<rparr> else s)
               else let s = (if profile_report o'
                             then s\<lparr>observers := o'\<lparr>prof_observed_stores := prof_observed_stores o' + 1\<rparr>\<rparr> else s)
                    in after_signal_write_observed E now sid premirrored True True s)
         else let plan = plan_of sid o';
                  edge = (plan AND 1 \<noteq> 0 \<and> edge_active o');
                  armed = (plan AND 2 \<noteq> 0 \<and> armed_edge o')
              in if \<not> edge \<and> \<not> armed \<and> \<not> global_observer premirrored s then s
                 else after_signal_write_observed E now sid premirrored edge armed s)"

section \<open>Building the plans\<close>

text \<open>\<open>on\<close> is the environment variable \<^verbatim>\<open>XEZIM_COMMIT_PLAN\<close>.\<close>

definition rebuild_signal_commit_plans :: "bool \<Rightarrow> 'v obs \<Rightarrow> 'v obs" where
  "rebuild_signal_commit_plans on o' =
     (if \<not> on then o'\<lparr>signal_commit_plan := []\<rparr>
      else o'\<lparr>signal_commit_plan :=
        map (\<lambda>sid. (if edge_pos sid o' \<noteq> None then 1 else 0) OR (if armed_input_set sid o' then 2 else 0))
          [0..<table_len o']\<rparr>)"

definition build_quiet_bits :: "'v obs \<Rightarrow> 'v obs" where
  "build_quiet_bits o' =
     (let n = table_len o'
      in o'\<lparr>quiet_bits :=
              fold (\<lambda>sid bs. if \<not> armed_input_set sid o' \<and> edge_pos sid o' = None
                             then bs[sid div 64 := bs ! (sid div 64) OR shl64 1 (sid mod 64)] else bs)
                [0..<n] (replicate ((n + 63) div 64) 0),
            quiet_valid := True\<rparr>)"

section \<open>Building the fanout of armed inputs\<close>

text \<open>One row of the compressed table per signal: its bit, and the range of its blocks.\<close>

function csr_rows ::
  "(nat \<times> nat) list \<Rightarrow> u64 list \<times> (nat \<times> nat) list \<times> nat list \<Rightarrow> u64 list \<times> (nat \<times> nat) list \<times> nat list" where
  "csr_rows [] st = st"
| "csr_rows ((sid, b) # pairs) (bitmap, ranges, blocks) =
     (let row = takeWhile (\<lambda>(s, _). s = sid) ((sid, b) # pairs);
          blocks' = blocks @ map snd row
      in csr_rows (dropWhile (\<lambda>(s, _). s = sid) ((sid, b) # pairs))
           (bitmap[sid div 64 := bitmap ! (sid div 64) OR shl64 1 (sid mod 64)],
            ranges[sid := (length blocks, length blocks')], blocks'))"
  by pat_completeness auto
termination
  by (relation "measure (length \<circ> fst)") (auto simp: le_imp_less_Suc length_dropWhile_le)

text \<open>The pairs of a read signal and a gateable block, in order and without repetitions; \<open>reads bi\<close>
  are the flattened reads of a block and \<open>extra\<close> its arm-only inputs.\<close>

definition arm_pairs :: "bool list \<Rightarrow> (nat \<Rightarrow> nat list) \<Rightarrow> nat list list \<Rightarrow> (nat \<times> nat) list" where
  "arm_pairs gateable reads extra =
     (let raw = concat (map (\<lambda>bi. if \<not> gateable ! bi then []
             else map (\<lambda>sid. (sid, bi)) (reads bi) @
                  (if bi < length extra then map (\<lambda>eid. (eid, bi)) (extra ! bi) else []))
           [0..<length gateable])
      in remdups_adj (sort raw))"

definition build_armed_edge_state ::
  "bool list \<Rightarrow> (nat \<Rightarrow> nat list) \<Rightarrow> (nat \<Rightarrow> bool) \<Rightarrow> nat list list \<Rightarrow> 'v obs \<Rightarrow> 'v obs" where
  "build_armed_edge_state gateable reads wide extra o' =
     (let o' = o'\<lparr>armed_input_bitmap := [], armed_input_ranges := [], armed_input_blocks := [], edge_block_armed := []\<rparr>
      in if \<not> armed_edge o' \<or> \<not> event_skip o' then o'
         else let pairs = arm_pairs gateable reads extra;
                  n = (if pairs = [] then 0 else fst (last pairs) + 1);
                  (bitmap, ranges, blocks) =
                    csr_rows pairs (replicate ((n + 63) div 64) 0, replicate n (0, 0), [])
              in o'\<lparr>armed_input_bitmap := bitmap, armed_input_ranges := ranges, armed_input_blocks := blocks,
                    quiet_valid := False,
                    edge_block_armed := map (\<lambda>bi. if \<not> gateable ! bi then edge_hold
                                                   else if wide bi then edge_armed else edge_armed OR edge_hold)
                      [0..<length gateable]\<rparr>)"

end
