(* ===== verification/Gates.thy ===== *)
theory Gates
  imports Udp_Drive Observers
begin

text \<open>
  Fused gates (\<^verbatim>\<open>signal_commits.rs\<close>, \<^verbatim>\<open>class_access.rs\<close>, \<^verbatim>\<open>isolated_gates.rs\<close>): one-bit gates read
  straight from the signal table, the vector gates and scatter gates that replace runs of them, and
  the ways their results are committed.  A bit code is 0, 1, 2 (x) or 3 (z); in a plane pair bit 0 of
  the code is the value plane and bit 1 the x/z plane.

  \<open>set_scalar_code\<close> is the setter of one-bit values of the crate \<^verbatim>\<open>xezim-core\<close>.
\<close>

datatype gate_bin = GateAnd | GateOr | GateXor

datatype fused_gate =
    Buf1 (buf_dst: bit_ref) bit_ref bool
  | Bin2 bit_ref bit_ref bit_ref gate_bin bool
  | Mux2 bit_ref bit_ref bit_ref bit_ref
  | UdpLut3 bit_ref "bit_ref list" nat u64

record vector_ref =
  vr_sig :: nat
  vr_lo :: nat

datatype vector_gate =
    VecBuf vector_ref vector_ref nat bool
  | VecBin vector_ref vector_ref vector_ref nat gate_bin bool
  | VecMux vector_ref vector_ref vector_ref vector_ref nat

datatype scatter_gate =
    ScatterBuf "nat list" vector_ref nat bool
  | ScatterBin "nat list" vector_ref vector_ref nat gate_bin bool

record fused_and_branch =
  and_dst :: bit_ref
  and_other :: bit_ref

record ('v, 's, 'c) genv =
  den :: "('v, 'v obs, 's, 'c) denv"
  set_scalar_code :: "nat \<Rightarrow> 'v \<Rightarrow> bool \<times> 'v"
  signal_gate_driven :: "bool list"

type_synonym ('v, 'c) gsim = "('v, 'v obs, 'c) dsim"

definition gate_driven :: "('v, 's, 'c) genv \<Rightarrow> nat \<Rightarrow> bool" where
  "gate_driven G sid \<longleftrightarrow> sid < length (signal_gate_driven G) \<and> signal_gate_driven G ! sid"

section \<open>The algebra of one bit\<close>

definition and4 :: "nat \<Rightarrow> nat \<Rightarrow> nat" where
  "and4 a b = (if a = 0 \<or> b = 0 then 0 else if a = 1 \<and> b = 1 then 1 else 2)"

definition or4 :: "nat \<Rightarrow> nat \<Rightarrow> nat" where
  "or4 a b = (if a = 1 \<or> b = 1 then 1 else if a = 0 \<and> b = 0 then 0 else 2)"

definition xor4 :: "nat \<Rightarrow> nat \<Rightarrow> nat" where
  "xor4 a b = (if a = 0 \<and> b = 0 \<or> a = 1 \<and> b = 1 then 0 else if a = 0 \<and> b = 1 \<or> a = 1 \<and> b = 0 then 1 else 2)"

definition not4 :: "nat \<Rightarrow> nat" where
  "not4 a = (if a = 0 then 1 else if a = 1 then 0 else 2)"

definition bin4 :: "gate_bin \<Rightarrow> nat \<Rightarrow> nat \<Rightarrow> nat" where
  "bin4 gop a b = (case gop of GateAnd \<Rightarrow> and4 a b | GateOr \<Rightarrow> or4 a b | GateXor \<Rightarrow> xor4 a b)"

definition mux4 :: "nat \<Rightarrow> nat \<Rightarrow> nat \<Rightarrow> nat" where
  "mux4 s t e = (if s = 0 then e else if s = 1 then t else if t = e \<and> t < 2 then t else 2)"

text \<open>\<open>rd sig bit\<close> reads the code of a bit.\<close>

definition rd_ref :: "(nat \<Rightarrow> nat \<Rightarrow> nat) \<Rightarrow> bit_ref \<Rightarrow> nat" where
  "rd_ref rd b = rd (br_sig b) (br_bit b)"

definition lut3_bit :: "(nat \<Rightarrow> nat \<Rightarrow> nat) \<Rightarrow> bit_ref list \<Rightarrow> nat \<Rightarrow> u64 \<Rightarrow> nat" where
  "lut3_bit rd inputs n tbl =
     (let (idx, _) = fold (\<lambda>input (idx, place). (idx + min (rd_ref rd input) 2 * place, place * 3)) (take n inputs) (0, 1)
      in unat (shr64 tbl (idx * 2) AND 3))"

fun fused_gate_eval :: "('v, 's, 'c) genv \<Rightarrow> (nat \<Rightarrow> nat \<Rightarrow> nat) \<Rightarrow> fused_gate \<Rightarrow> bit_ref \<times> nat" where
  "fused_gate_eval G rd (Buf1 dst src invert) =
     (let s = rd_ref rd src
      in (dst, if invert then not4 s else if s = 3 \<and> gate_driven G (br_sig dst) then 2 else s))"
| "fused_gate_eval G rd (Bin2 dst a b gop invert) =
     (let r = bin4 gop (rd_ref rd a) (rd_ref rd b) in (dst, if invert then not4 r else r))"
| "fused_gate_eval G rd (Mux2 dst s t e) = (dst, mux4 (rd_ref rd s) (rd_ref rd t) (rd_ref rd e))"
| "fused_gate_eval G rd (UdpLut3 dst inputs n tbl) = (dst, lut3_bit rd inputs n tbl)"

text \<open>The copy of the isolated evaluator.\<close>

fun isolated_gate_eval :: "(nat \<Rightarrow> bool) \<Rightarrow> (nat \<Rightarrow> nat \<Rightarrow> nat) \<Rightarrow> fused_gate \<Rightarrow> bit_ref \<times> nat" where
  "isolated_gate_eval driven rd (Buf1 dst src invert) =
     (let s = rd_ref rd src
      in (dst, if invert then not4 s else if driven (br_sig dst) then (if s = 3 then 2 else s) else s))"
| "isolated_gate_eval driven rd (Bin2 dst a b gop invert) =
     (let r = bin4 gop (rd_ref rd a) (rd_ref rd b) in (dst, if invert then not4 r else r))"
| "isolated_gate_eval driven rd (Mux2 dst s t e) = (dst, mux4 (rd_ref rd s) (rd_ref rd t) (rd_ref rd e))"
| "isolated_gate_eval driven rd (UdpLut3 dst inputs n tbl) = (dst, lut3_bit rd inputs n tbl)"

section \<open>Committing one bit\<close>

definition sdf_delay :: "nat \<Rightarrow> ('v, 'c) gsim \<Rightarrow> nat" where
  "sdf_delay sid s = (if sid < length (sdf_delays s) then sdf_delays s ! sid else 0)"

definition sdf_any :: "('v, 'c) gsim \<Rightarrow> bool" where
  "sdf_any s \<longleftrightarrow> sdf_delays s \<noteq> []"

definition with_table :: "nat \<Rightarrow> 'v \<Rightarrow> ('v, 'c) gsim \<Rightarrow> ('v, 'c) gsim" where
  "with_table sid v s = s\<lparr>core := set_signal sid v (core s)\<rparr>"

definition fused_bit_commit ::
  "('v, 's, 'c) genv \<Rightarrow> bit_ref \<Rightarrow> nat \<Rightarrow> bool \<Rightarrow> ('v, 'c) gsim \<Rightarrow> bool \<times> ('v, 'c) gsim" where
  "fused_bit_commit G dst new_bit sdf s =
     (let D = den G; E = base D; sid = br_sig dst; b = br_bit dst
      in if sdf \<and> sdf_delay sid s > 0 \<and> sim_time s > 0
         then (False,
               if get_bit_code D (table s sid) b \<noteq> new_bit
               then schedule_delayed D sid (snd (set_bit_code D b new_bit (table s sid))) s else s)
         else let (changed, v) = set_bit_code D b new_bit (table s sid); s = with_table sid v s
              in if changed
                 then (case forced_signals s sid of
                         Some fv \<Rightarrow> (False, with_table sid (snd (set_bit_code D b (get_bit_code D fv b) v)) s)
                       | None \<Rightarrow> (True, s\<lparr>core := after_signal_write_inner E (sim_time s) sid True
                                    ((sync_mirror E sid (core s))\<lparr>table_modified := True\<rparr>)\<rparr>))
                 else (False, s))"

text \<open>The global observers under which the batch and lane commits fall back to the commit above.\<close>

definition observed_globally :: "('v, 'c) gsim \<Rightarrow> bool" where
  "observed_globally s \<longleftrightarrow> global_observer False (core s)"

definition fused_batch_commit_state :: "('v, 'c) gsim \<Rightarrow> (bool \<times> bool) option" where
  "fused_batch_commit_state s =
     (let o' = observers (core s)
      in if signal_commit_plan o' = [] \<or> observed_globally s then None else Some (edge_active o', armed_edge o'))"

definition fused_scalar_commit_planned ::
  "('v, 's, 'c) genv \<Rightarrow> nat \<Rightarrow> nat \<Rightarrow> bool \<Rightarrow> bool \<Rightarrow> bool \<Rightarrow> ('v, 'c) gsim \<Rightarrow> bool \<times> ('v, 'c) gsim" where
  "fused_scalar_commit_planned G sid new_bit sdf edge armed s =
     (let D = den G
      in if sdf \<and> sdf_delay sid s > 0 \<and> sim_time s > 0
         then (False,
               if get_bit_code D (table s sid) 0 \<noteq> new_bit
               then schedule_delayed D sid (snd (set_scalar_code G new_bit (table s sid))) s else s)
         else let (changed, v) = set_scalar_code G new_bit (table s sid); s = with_table sid v s
              in if \<not> changed then (False, s)
                 else let c = (core s)\<lparr>table_modified := True\<rparr>; o' = observers c; plan = plan_of sid o';
                          o' = (if armed \<and> plan AND 2 \<noteq> 0 then note_armed_write sid o' else o');
                          o' = (if edge \<and> plan AND 1 \<noteq> 0 then note_edge_write sid o' else o')
                      in (True, s\<lparr>core := c\<lparr>observers := o'\<rparr>\<rparr>))"

definition gate_lane_slow :: "('v, 'c) gsim \<Rightarrow> bool" where
  "gate_lane_slow s \<longleftrightarrow> observed_globally s \<or> sdf_any s \<or> signal_commit_plan (observers (core s)) \<noteq> []"

definition gate_lane_commit ::
  "('v, 's, 'c) genv \<Rightarrow> bit_ref \<Rightarrow> nat \<Rightarrow> 8 word \<Rightarrow> bool \<Rightarrow> ('v, 'c) gsim \<Rightarrow> bool \<times> ('v, 'c) gsim" where
  "gate_lane_commit G dst new_bit ob slow s =
     (let D = den G; E = base D; sid = br_sig dst; b = br_bit dst
      in if slow \<or> ob AND 4 \<noteq> 0 then fused_bit_commit G dst new_bit (sdf_any s) s
         else let (v, x) = raw_bits (vo E) (table s sid); m = shl64 1 b;
                  cur = unat (shl64 (shr64 x b AND 1) 1 OR (shr64 v b AND 1))
              in if cur = new_bit then (False, s)
                 else let nv = (if odd new_bit then v OR m else v AND NOT m);
                          nx = (if 2 \<le> new_bit mod 4 then x OR m else x AND NOT m);
                          (ok, e) = set_inline_bits (vo E) nv nx (table s sid);
                          s = with_table sid e s
                      in if \<not> ok then fused_bit_commit G dst new_bit (sdf_any s) s
                         else let c = (core s)\<lparr>table_modified := True\<rparr>; o' = observers c;
                                  o' = (if ob AND 1 \<noteq> 0 then note_armed_write sid o' else o');
                                  o' = (if ob AND 2 \<noteq> 0 then note_edge_write sid o' else o')
                              in (True, s\<lparr>core := c\<lparr>observers := o'\<rparr>\<rparr>))"

text \<open>The observation bits of a gate of the lane (\<^verbatim>\<open>build_gate_lane\<close>).\<close>

definition gate_obs :: "nat \<Rightarrow> nat list \<Rightarrow> 'v obs \<Rightarrow> 8 word" where
  "gate_obs sid widths o' =
     (if armed_input_set sid o' then 1 else 0) OR (if edge_pos sid o' \<noteq> None then 2 else 0) OR
     (if (if sid < length widths then widths ! sid else 65) > 64 then 4 else 0)"

section \<open>Executing gates\<close>

abbreviation codes :: "('v, 's, 'c) genv \<Rightarrow> ('v, 'c) gsim \<Rightarrow> nat \<Rightarrow> nat \<Rightarrow> nat" where
  "codes G s \<equiv> \<lambda>sid b. get_bit_code (den G) (table s sid) b"

definition mark_if :: "('v, 's, 'c) genv \<Rightarrow> nat \<Rightarrow> bool \<times> ('v, 'c) gsim \<Rightarrow> ('v, 'c) gsim" where
  "mark_if G sid r = (case r of (changed, s) \<Rightarrow> if changed then s\<lparr>core := mark_dirty_id (den G) sid (core s)\<rparr> else s)"

definition exec_fused_gate :: "('v, 's, 'c) genv \<Rightarrow> fused_gate \<Rightarrow> ('v, 'c) gsim \<Rightarrow> ('v, 'c) gsim" where
  "exec_fused_gate G op s =
     (let (dst, new_bit) = fused_gate_eval G (codes G s) op
      in mark_if G (br_sig dst) (fused_bit_commit G dst new_bit (sdf_any s) s))"

definition fused_buf_src_bit :: "(nat \<Rightarrow> nat \<Rightarrow> nat) \<Rightarrow> bit_ref \<Rightarrow> bool \<Rightarrow> nat" where
  "fused_buf_src_bit rd src invert =
     (let source = rd_ref rd src
      in if invert then (if source = 0 then 1 else if source = 1 then 0 else 2) else source)"

definition fused_buf_dst_bit :: "('v, 's, 'c) genv \<Rightarrow> bit_ref \<Rightarrow> nat \<Rightarrow> bool \<Rightarrow> nat" where
  "fused_buf_dst_bit G dst new_bit invert =
     (if \<not> invert \<and> new_bit = 3 \<and> gate_driven G (br_sig dst) then 2 else new_bit)"

text \<open>The source is read once, before the first destination is written.\<close>

definition exec_fused_buf_fanout ::
  "('v, 's, 'c) genv \<Rightarrow> bit_ref \<Rightarrow> bit_ref list \<Rightarrow> bool \<Rightarrow> ('v, 'c) gsim \<Rightarrow> ('v, 'c) gsim" where
  "exec_fused_buf_fanout G src dsts invert s =
     (let new_bit = fused_buf_src_bit (codes G s) src invert; sdf = sdf_any s
      in fold (\<lambda>dst s. mark_if G (br_sig dst)
                 (fused_bit_commit G dst (fused_buf_dst_bit G dst new_bit invert) sdf s)) dsts s)"

definition fused_and_branch_bit :: "(nat \<Rightarrow> nat \<Rightarrow> nat) \<Rightarrow> nat \<Rightarrow> fused_and_branch \<Rightarrow> bool \<Rightarrow> nat" where
  "fused_and_branch_bit rd common_code br invert =
     (let other = rd_ref rd (and_other br);
          r = (if common_code = 0 \<or> other = 0 then 0 else if common_code = 1 \<and> other = 1 then 1 else 2)
      in if invert then (if r = 0 then 1 else if r = 1 then 0 else 2) else r)"

definition exec_fused_and_fanout ::
  "('v, 's, 'c) genv \<Rightarrow> bit_ref \<Rightarrow> fused_and_branch list \<Rightarrow> bool \<Rightarrow> ('v, 'c) gsim \<Rightarrow> ('v, 'c) gsim" where
  "exec_fused_and_fanout G common branches invert s =
     (let common_code = rd_ref (codes G s) common; sdf = sdf_any s
      in fold (\<lambda>br s. mark_if G (br_sig (and_dst br))
                 (fused_bit_commit G (and_dst br) (fused_and_branch_bit (codes G s) common_code br invert) sdf s)) branches s)"

text \<open>On a view of the signals, without observers: the result is the view and the signals changed.\<close>

definition isolated_write ::
  "('v, 's, 'c) genv \<Rightarrow> bit_ref \<times> nat \<Rightarrow> (nat \<Rightarrow> 'v) \<times> nat list \<Rightarrow> (nat \<Rightarrow> 'v) \<times> nat list" where
  "isolated_write G r st =
     (case (r, st) of ((dst, new_bit), (view, dirtied)) \<Rightarrow>
        let (changed, v) = set_bit_code (den G) (br_bit dst) new_bit (view (br_sig dst))
        in (view(br_sig dst := v), if changed then dirtied @ [br_sig dst] else dirtied))"

definition exec_fused_gate_isolated ::
  "('v, 's, 'c) genv \<Rightarrow> fused_gate \<Rightarrow> (nat \<Rightarrow> 'v) \<times> nat list \<Rightarrow> (nat \<Rightarrow> 'v) \<times> nat list" where
  "exec_fused_gate_isolated G op st =
     isolated_write G (isolated_gate_eval (gate_driven G) (\<lambda>sid b. get_bit_code (den G) (fst st sid) b) op) st"

definition exec_fused_and_fanout_isolated ::
  "('v, 's, 'c) genv \<Rightarrow> bit_ref \<Rightarrow> fused_and_branch list \<Rightarrow> bool \<Rightarrow> (nat \<Rightarrow> 'v) \<times> nat list \<Rightarrow> (nat \<Rightarrow> 'v) \<times> nat list" where
  "exec_fused_and_fanout_isolated G common branches invert st =
     (let common_code = get_bit_code (den G) (fst st (br_sig common)) (br_bit common)
      in fold (\<lambda>br st. let other = get_bit_code (den G) (fst st (br_sig (and_other br))) (br_bit (and_other br));
                           r = (if common_code = 0 \<or> other = 0 then 0 else if common_code = 1 \<and> other = 1 then 1 else 2)
                       in isolated_write G (and_dst br, if invert then (if r = 0 then 1 else if r = 1 then 0 else 2) else r) st)
           branches st)"

end
