(* ===== verification/Vector_Gates.thy ===== *)
theory Vector_Gates
  imports Gates
begin

text \<open>
  Vector gates and scatter gates: up to 64 one-bit gates of one shape, evaluated on planes.  A vector
  gate writes a run of bits of one signal, a scatter gate one one-bit signal per lane.
\<close>

definition vector_ref_bits :: "('v, 's, 'c) genv \<Rightarrow> ('v, 'c) gsim \<Rightarrow> vector_ref \<Rightarrow> nat \<Rightarrow> u64 \<times> u64" where
  "vector_ref_bits G s src width = slice_bits_swar (vo (base (den G))) (vr_lo src) width (table s (vr_sig src))"

definition width_mask :: "nat \<Rightarrow> u64" where
  "width_mask width = (if width = 64 then - 1 else shl64 1 width - 1)"

text \<open>The operation of two inputs on planes, as vector and scatter gates write it out.\<close>

definition plane_bin :: "gate_bin \<Rightarrow> u64 \<Rightarrow> u64 \<times> u64 \<Rightarrow> u64 \<times> u64 \<Rightarrow> u64 \<times> u64" where
  "plane_bin gop m = (\<lambda>(av, ax) (bv, bx).
     case gop of
       GateAnd \<Rightarrow>
         let one = (av AND NOT ax) AND (bv AND NOT bx); zero = (NOT av AND NOT ax) OR (NOT bv AND NOT bx)
         in (one AND m, NOT (one OR zero) AND m)
     | GateOr \<Rightarrow>
         let one = (av AND NOT ax) OR (bv AND NOT bx); zero = (NOT av AND NOT ax) AND (NOT bv AND NOT bx)
         in (one AND m, NOT (one OR zero) AND m)
     | GateXor \<Rightarrow>
         let unknown = (ax OR bx) AND m
         in ((av XOR bv) AND NOT unknown AND m, unknown))"

definition plane_mux :: "u64 \<Rightarrow> u64 \<times> u64 \<Rightarrow> u64 \<times> u64 \<Rightarrow> u64 \<times> u64 \<Rightarrow> u64 \<times> u64" where
  "plane_mux m = (\<lambda>(sv, sx) (tv, tx) (ev, ex).
     let known_one = sv AND NOT sx AND m; known_zero = NOT sv AND NOT sx AND m;
         equal = NOT ((tv XOR ev) OR (tx XOR ex)) AND m; unknown_equal = sx AND equal
     in ((known_one AND tv) OR (known_zero AND ev) OR (unknown_equal AND tv),
         (known_one AND tx) OR (known_zero AND ex) OR (unknown_equal AND tx) OR (sx AND NOT equal AND m)))"

fun vector_gate_eval ::
  "('v, 's, 'c) genv \<Rightarrow> ('v, 'c) gsim \<Rightarrow> vector_gate \<Rightarrow> vector_ref \<times> nat \<times> u64 \<times> u64" where
  "vector_gate_eval G s (VecBuf dst src width invert) =
     (let (sv, sx) = vector_ref_bits G s src width; m = width_mask width;
          (v, x) = (if invert then (NOT sv AND NOT sx AND m, sx AND m) else (sv AND m, sx AND m))
      in (dst, width, v AND m, x AND m))"
| "vector_gate_eval G s (VecBin dst a b width gop invert) =
     (let m = width_mask width; (rv, rx) = plane_bin gop m (vector_ref_bits G s a width) (vector_ref_bits G s b width);
          rv = (if invert then NOT rv AND NOT rx AND m else rv)
      in (dst, width, rv AND m, rx AND m))"
| "vector_gate_eval G s (VecMux dst sel t e width) =
     (let m = width_mask width;
          (v, x) = plane_mux m (vector_ref_bits G s sel width) (vector_ref_bits G s t width) (vector_ref_bits G s e width)
      in (dst, width, v AND m, x AND m))"

definition fused_vector_commit ::
  "('v, 's, 'c) genv \<Rightarrow> vector_ref \<Rightarrow> nat \<Rightarrow> u64 \<Rightarrow> u64 \<Rightarrow> bool \<Rightarrow> ('v, 'c) gsim \<Rightarrow> bool \<times> ('v, 'c) gsim" where
  "fused_vector_commit G dst width src_v src_x sdf s =
     (let D = den G; E = base D; sid = vr_sig dst; (base_v, base_x) = raw_bits (vo E) (table s sid);
          high = vr_lo dst + width - 1;
          (new_v, new_x) = compose_inline_range_bits base_v base_x src_v src_x (vr_lo dst) high;
          m = (if width = 64 then - 1 else shl64 (shl64 1 width - 1) (vr_lo dst))
      in if (base_v XOR new_v) AND m = 0 \<and> (base_x XOR new_x) AND m = 0 then (False, s)
         else if forced_signals s sid \<noteq> None then (False, s)
         else let value = set_signed (vo E) (signal_signed (core s) sid)
                            (snd (set_inline_bits (vo E) new_v new_x (table s sid)))
              in if sdf \<and> sdf_delay sid s > 0 \<and> sim_time s > 0
                 then (False, schedule_delayed D sid value s)
                 else let s = with_table sid value s
                      in (True, s\<lparr>core := after_signal_write_inner E (sim_time s) sid True
                            ((sync_mirror E sid (core s))\<lparr>table_modified := True\<rparr>)\<rparr>))"

definition exec_vector_gate :: "('v, 's, 'c) genv \<Rightarrow> vector_gate \<Rightarrow> ('v, 'c) gsim \<Rightarrow> ('v, 'c) gsim" where
  "exec_vector_gate G op s =
     (let (dst, width, val, xz) = vector_gate_eval G s op
      in mark_if G (vr_sig dst) (fused_vector_commit G dst width val xz (sdf_any s) s))"

section \<open>Scatter gates\<close>

fun scatter_gate_eval :: "('v, 's, 'c) genv \<Rightarrow> ('v, 'c) gsim \<Rightarrow> scatter_gate \<Rightarrow> u64 \<times> u64" where
  "scatter_gate_eval G s (ScatterBuf dsts src width invert) =
     (let (v, x) = vector_ref_bits G s src width; m = width_mask width
      in (if invert then NOT v AND NOT x AND m else v, x))"
| "scatter_gate_eval G s (ScatterBin dsts a b width gop invert) =
     (let m = width_mask width; (rv, rx) = plane_bin gop m (vector_ref_bits G s a width) (vector_ref_bits G s b width)
      in (if invert then NOT rv AND NOT rx AND m else rv, rx))"

fun scatter_dsts :: "scatter_gate \<Rightarrow> nat list" where
  "scatter_dsts (ScatterBuf dsts src width invert) = dsts"
| "scatter_dsts (ScatterBin dsts a b width gop invert) = dsts"

definition lane_code :: "u64 \<Rightarrow> u64 \<Rightarrow> nat \<Rightarrow> nat" where
  "lane_code val xz lane = unat ((shr64 val lane AND 1) OR shl64 (shr64 xz lane AND 1) 1)"

definition exec_scatter_gate :: "('v, 's, 'c) genv \<Rightarrow> scatter_gate \<Rightarrow> ('v, 'c) gsim \<Rightarrow> ('v, 'c) gsim" where
  "exec_scatter_gate G op s =
     (let (val, xz) = scatter_gate_eval G s op; dsts = scatter_dsts op; sdf = sdf_any s
      in case fused_batch_commit_state s of
           Some (edge, armed) \<Rightarrow>
             fold (\<lambda>(lane, sid) s. mark_if G sid
                     (fused_scalar_commit_planned G sid (lane_code val xz lane) sdf edge armed s))
               (enumerate 0 dsts) s
         | None \<Rightarrow>
             fold (\<lambda>(lane, sid) s. mark_if G sid
                     (fused_bit_commit G \<lparr>br_sig = sid, br_bit = 0\<rparr> (lane_code val xz lane) sdf s))
               (enumerate 0 dsts) s)"

section \<open>The gates a vector gate replaces\<close>

definition lane_ref :: "vector_ref \<Rightarrow> nat \<Rightarrow> bit_ref" where
  "lane_ref r i = \<lparr>br_sig = vr_sig r, br_bit = vr_lo r + i\<rparr>"

fun lane_gate :: "vector_gate \<Rightarrow> nat \<Rightarrow> fused_gate" where
  "lane_gate (VecBuf dst src width invert) i = Buf1 (lane_ref dst i) (lane_ref src i) invert"
| "lane_gate (VecBin dst a b width gop invert) i = Bin2 (lane_ref dst i) (lane_ref a i) (lane_ref b i) gop invert"
| "lane_gate (VecMux dst sel t e width) i = Mux2 (lane_ref dst i) (lane_ref sel i) (lane_ref t i) (lane_ref e i)"

fun vector_dst :: "vector_gate \<Rightarrow> vector_ref" where
  "vector_dst (VecBuf dst src width invert) = dst"
| "vector_dst (VecBin dst a b width gop invert) = dst"
| "vector_dst (VecMux dst sel t e width) = dst"

fun vector_srcs :: "vector_gate \<Rightarrow> vector_ref list" where
  "vector_srcs (VecBuf dst src width invert) = [src]"
| "vector_srcs (VecBin dst a b width gop invert) = [a, b]"
| "vector_srcs (VecMux dst sel t e width) = [sel, t, e]"

fun vector_width :: "vector_gate \<Rightarrow> nat" where
  "vector_width (VecBuf dst src width invert) = width"
| "vector_width (VecBin dst a b width gop invert) = width"
| "vector_width (VecMux dst sel t e width) = width"

text \<open>The coalescing of one run of gates of one shape (\<^verbatim>\<open>comb_compilation.rs\<close>): the destinations are
  \<open>n\<close> consecutive bits from \<open>lo\<close> on, every source is at a fixed offset from its destination.  It is
  refused when a source leaves its signal or overlaps the destination.\<close>

datatype v_shape =
    ShBuf nat int bool
  | ShBin nat int nat int gate_bin bool
  | ShMux nat int nat int nat int

fun shape_of :: "bit_ref \<Rightarrow> fused_gate \<Rightarrow> v_shape option" where
  "shape_of d (Buf1 dst src invert) = Some (ShBuf (br_sig src) (int (br_bit src) - int (br_bit d)) invert)"
| "shape_of d (Bin2 dst a b gop invert) =
     Some (ShBin (br_sig a) (int (br_bit a) - int (br_bit d)) (br_sig b) (int (br_bit b) - int (br_bit d)) gop invert)"
| "shape_of d (Mux2 dst s t e) =
     Some (ShMux (br_sig s) (int (br_bit s) - int (br_bit d)) (br_sig t) (int (br_bit t) - int (br_bit d))
        (br_sig e) (int (br_bit e) - int (br_bit d)))"
| "shape_of d (UdpLut3 dst inputs n tbl) = None"

fun gate_dst :: "fused_gate \<Rightarrow> bit_ref" where
  "gate_dst (Buf1 dst src invert) = dst"
| "gate_dst (Bin2 dst a b gop invert) = dst"
| "gate_dst (Mux2 dst s t e) = dst"
| "gate_dst (UdpLut3 dst inputs n tbl) = dst"

text \<open>The key under which a gate is collected; a buffer primitive, which turns z into x, is left out.\<close>

definition coalesce_key :: "('v, 's, 'c) genv \<Rightarrow> fused_gate \<Rightarrow> (nat \<times> v_shape) option" where
  "coalesce_key G op =
     (case op of
        Buf1 dst src invert \<Rightarrow>
          if \<not> invert \<and> gate_driven G (br_sig dst) then None
          else map_option (\<lambda>sh. (br_sig (gate_dst op), sh)) (shape_of (gate_dst op) op)
      | _ \<Rightarrow> map_option (\<lambda>sh. (br_sig (gate_dst op), sh)) (shape_of (gate_dst op) op))"

definition source_run :: "nat list \<Rightarrow> nat \<Rightarrow> nat \<Rightarrow> nat \<Rightarrow> nat \<Rightarrow> int \<Rightarrow> vector_ref option" where
  "source_run widths dst lo n src off =
     (let i = int lo + off
      in if i < 0 then None
         else let src_lo = nat i; src_hi = src_lo + n - 1
              in if src \<ge> length widths \<or> src_hi \<ge> widths ! src then None
                 else if src = dst \<and> src_lo \<le> lo + n - 1 \<and> lo \<le> src_hi then None
                 else Some \<lparr>vr_sig = src, vr_lo = src_lo\<rparr>)"

definition coalesce_run :: "nat list \<Rightarrow> nat \<times> v_shape \<Rightarrow> nat \<Rightarrow> nat \<Rightarrow> vector_gate option" where
  "coalesce_run widths key lo n =
     (case key of (dst, sh) \<Rightarrow>
        if n < 2 \<or> dst \<ge> length widths \<or> widths ! dst > 64 \<or> lo + n - 1 \<ge> widths ! dst then None
        else let d = \<lparr>vr_sig = dst, vr_lo = lo\<rparr>; run = source_run widths dst lo n
             in case sh of
                  ShBuf src off invert \<Rightarrow> map_option (\<lambda>r. VecBuf d r n invert) (run src off)
                | ShBin a ao b bo gop invert \<Rightarrow>
                    (case (run a ao, run b bo) of (Some a, Some b) \<Rightarrow> Some (VecBin d a b n gop invert) | _ \<Rightarrow> None)
                | ShMux s so t to e eo \<Rightarrow>
                    (case (run s so, run t to, run e eo) of
                       (Some s, Some t, Some e) \<Rightarrow> Some (VecMux d s t e n) | _ \<Rightarrow> None))"

text \<open>The maximal runs of consecutive bits in the members, sorted by bit and entry, at most 64 long:
  the first bit and the length of each.\<close>

fun take_run :: "nat \<Rightarrow> nat \<Rightarrow> (nat \<times> nat) list \<Rightarrow> nat" where
  "take_run len prev [] = len"
| "take_run len prev ((b, idx) # rest) =
     (if b = prev + 1 \<and> len < 64 then take_run (len + 1) b rest else len)"

function member_runs :: "(nat \<times> nat) list \<Rightarrow> (nat \<times> (nat \<times> nat) list) list" where
  "member_runs [] = []"
| "member_runs ((b, idx) # rest) =
     (let n = take_run 1 b rest in (b, take n ((b, idx) # rest)) # member_runs (drop (n - 1) rest))"
  by pat_completeness auto
termination
  by (relation "measure length") (auto simp: le_imp_less_Suc)

end
