(* ===== verification/Observers_Props.thy ===== *)
theory Observers_Props
  imports Observers Delayed_Props
begin

text \<open>
  The commit plans and the bitmap of quiet signals only skip work: a write observes what it would
  without them.  The fanout of armed inputs arms exactly the blocks that read the signal.
\<close>

section \<open>Words as sets of bits\<close>

lemma and_one_bit: "(w :: u64) AND 1 \<noteq> 0 \<longleftrightarrow> bit w 0"
  by (simp add: and_one_eq odd_iff_mod_2_eq_one bit_0 del: One_nat_def)

lemma shr_and_one: "i < 64 \<Longrightarrow> shr64 w i AND 1 \<noteq> 0 \<longleftrightarrow> bit w i"
  unfolding and_one_bit by (simp add: bit_shr64)

lemma set_bit_at:
  "i < 64 \<Longrightarrow> bit (w OR shl64 1 i :: u64) j \<longleftrightarrow> bit w j \<or> j = i"
  by (auto simp: bit_or_iff bit_shl64 bit_1_iff dest: bit_imp_le_length)

text \<open>A bitmap of 64-bit words.\<close>

definition bitmap_has :: "u64 list \<Rightarrow> nat \<Rightarrow> bool" where
  "bitmap_has ws i \<longleftrightarrow> i div 64 < length ws \<and> bit (ws ! (i div 64)) (i mod 64)"

lemma bitmap_has_set:
  assumes "i div 64 < length ws"
  shows "bitmap_has (ws[i div 64 := ws ! (i div 64) OR shl64 1 (i mod 64)]) j \<longleftrightarrow> bitmap_has ws j \<or> j = i"
proof -
  have "j = i" if "j div 64 = i div 64" "j mod 64 = i mod 64" using that by (metis div_mult_mod_eq)
  then show ?thesis using assms by (auto simp: bitmap_has_def nth_list_update set_bit_at)
qed

lemma bitmap_has_zero: "\<not> bitmap_has (replicate n 0) i"
  by (simp add: bitmap_has_def)

lemma armed_input_set_has: "armed_input_set sid o' = bitmap_has (armed_input_bitmap o') sid"
  by (simp add: armed_input_set_def bitmap_has_def shr_and_one)

lemma bitmap_fill:
  assumes "\<forall>i\<in>set is. i div 64 < length ws"
  shows "length (fold (\<lambda>i bs. if P i then bs[i div 64 := bs ! (i div 64) OR shl64 1 (i mod 64)] else bs) is ws) = length ws \<and>
    (bitmap_has (fold (\<lambda>i bs. if P i then bs[i div 64 := bs ! (i div 64) OR shl64 1 (i mod 64)] else bs) is ws) j
       \<longleftrightarrow> bitmap_has ws j \<or> j \<in> set is \<and> P j)"
  using assms by (induction "is" arbitrary: ws) (auto simp: bitmap_has_set)

lemma in_bitmap: "i < n \<Longrightarrow> i div 64 < (n + 63) div 64" for n :: nat
proof -
  assume "i < n"
  then have "(i + 64) div 64 \<le> (n + 63) div 64" by (intro div_le_mono) simp
  then show ?thesis by simp
qed

section \<open>Plans\<close>

definition plan_exact :: "'v obs \<Rightarrow> bool" where
  "plan_exact o' \<longleftrightarrow>
     (\<forall>sid < table_len o'. (plan_of sid o' AND 1 \<noteq> 0 \<longleftrightarrow> edge_pos sid o' \<noteq> None) \<and>
        (plan_of sid o' AND 2 \<noteq> 0 \<longleftrightarrow> armed_input_set sid o'))"

definition quiet_exact :: "'v obs \<Rightarrow> bool" where
  "quiet_exact o' \<longleftrightarrow>
     (\<forall>sid < table_len o'. quiet_signal sid o' \<longleftrightarrow> \<not> armed_input_set sid o' \<and> edge_pos sid o' = None)"

text \<open>What a write may rely on.\<close>

definition plans_ok :: "'v obs \<Rightarrow> bool" where
  "plans_ok o' \<longleftrightarrow> (if signal_commit_plan o' = [] then quiet_valid o' \<longrightarrow> quiet_exact o' else plan_exact o')"

lemma rebuild_plan_exact:
  assumes "0 < table_len o'"
  shows "signal_commit_plan (rebuild_signal_commit_plans True o') \<noteq> []" "plan_exact (rebuild_signal_commit_plans True o')"
proof -
  show "signal_commit_plan (rebuild_signal_commit_plans True o') \<noteq> []"
    using assms by (simp add: rebuild_signal_commit_plans_def)
  have keep: "edge_pos sid (rebuild_signal_commit_plans True o') = edge_pos sid o'"
    "armed_input_set sid (rebuild_signal_commit_plans True o') = armed_input_set sid o'" for sid
    by (simp_all add: rebuild_signal_commit_plans_def edge_pos_def armed_input_set_def)
  show "plan_exact (rebuild_signal_commit_plans True o')"
    unfolding plan_exact_def keep by (auto simp: plan_of_def rebuild_signal_commit_plans_def)
qed

lemma build_quiet_exact: "quiet_exact (build_quiet_bits o')"
proof -
  let ?q = "build_quiet_bits o'"
  have keep: "edge_pos sid ?q = edge_pos sid o'" "armed_input_set sid ?q = armed_input_set sid o'" "table_len ?q = table_len o'" for sid
    by (simp_all add: build_quiet_bits_def edge_pos_def armed_input_set_def Let_def)
  have "quiet_signal sid ?q \<longleftrightarrow> bitmap_has (quiet_bits ?q) sid" if "sid < table_len o'" for sid
    using bitmap_fill[of "[0..<table_len o']" "replicate ((table_len o' + 63) div 64) 0"] in_bitmap that
    by (simp add: quiet_signal_def bitmap_has_def shr_and_one build_quiet_bits_def Let_def)
  moreover have "bitmap_has (quiet_bits ?q) sid \<longleftrightarrow> \<not> armed_input_set sid o' \<and> edge_pos sid o' = None"
    if "sid < table_len o'" for sid
    using bitmap_fill[of "[0..<table_len o']" "replicate ((table_len o' + 63) div 64) 0"
        "\<lambda>sid. \<not> armed_input_set sid o' \<and> edge_pos sid o' = None" sid] in_bitmap that
    by (simp add: build_quiet_bits_def Let_def bitmap_has_zero)
  ultimately show ?thesis unfolding quiet_exact_def keep by simp
qed

section \<open>A skipped observation has no effect\<close>

lemma note_armed_idle: "\<not> armed_edge o' \<or> \<not> armed_input_set sid o' \<Longrightarrow> note_armed_write sid o' = o'"
  by (simp add: note_armed_write_def)

lemma note_edge_idle: "edge_pos sid o' = None \<or> \<not> edge_active o' \<Longrightarrow> note_edge_write sid o' = o'"
  by (auto simp: note_edge_write_def edge_active_def Let_def)

lemma trace_idle: "value_trace_ids o' = None \<Longrightarrow> trace_write now sid v o' = o'"
  by (simp add: trace_write_def)

lemma vcd_idle: "\<not> dump_dirty_active o' \<Longrightarrow> vcd_mark sid o' = o'"
  by (simp add: vcd_mark_def)

lemma force_idle: "\<not> has_active_forces o' \<Longrightarrow> bump_force_epoch sid o' = o'"
  by (simp add: bump_force_epoch_def)

lemma stamp_idle: "\<not> event_measure o' \<or> armed_edge o' \<Longrightarrow> stamp_change sid o' = o'"
  by (auto simp add: stamp_change_def)

lemmas observer_idle = note_armed_idle note_edge_idle trace_idle vcd_idle force_idle stamp_idle

definition needs_edge :: "nat \<Rightarrow> 'v obs \<Rightarrow> bool" where
  "needs_edge sid o' \<longleftrightarrow> edge_pos sid o' \<noteq> None \<and> edge_active o'"

definition needs_armed :: "nat \<Rightarrow> 'v obs \<Rightarrow> bool" where
  "needs_armed sid o' \<longleftrightarrow> armed_input_set sid o' \<and> armed_edge o'"

text \<open>The value trace and the counters leave the fields that decide.\<close>

lemma trace_fields [simp]:
  "edge_pos i (trace_write now sid v o') = edge_pos i o'" "edge_active (trace_write now sid v o') = edge_active o'"
  "armed_input_set i (trace_write now sid v o') = armed_input_set i o'" "armed_edge (trace_write now sid v o') = armed_edge o'"
  by (simp_all add: trace_write_def edge_pos_def edge_active_def armed_input_set_def split: option.splits)

lemma armed_fields [simp]:
  "edge_pos i (note_armed_write sid o') = edge_pos i o'" "edge_active (note_armed_write sid o') = edge_active o'"
  by (simp_all add: note_armed_write_def edge_pos_def edge_active_def Let_def split: option.splits prod.splits)

text \<open>The full observation may leave out a note that has nothing to do.\<close>

lemma observed_skip:
  assumes "armed \<or> \<not> needs_armed sid (observers s)" and "edge \<or> \<not> needs_edge sid (observers s)"
  shows "after_signal_write_observed E now sid pre edge armed s = after_signal_write_observed E now sid pre True True s"
proof -
  let ?t = "trace_write now sid (signal_table s sid) (observers s)"
  have a: "(if armed then note_armed_write sid ?t else ?t) = note_armed_write sid ?t"
    using assms(1) by (auto simp: needs_armed_def intro!: note_armed_idle[symmetric])
  have e: "(if edge then note_edge_write sid (note_armed_write sid ?t) else note_armed_write sid ?t) =
      note_edge_write sid (note_armed_write sid ?t)"
    using assms(2) by (auto simp: needs_edge_def intro!: note_edge_idle[symmetric])
  show ?thesis unfolding after_signal_write_observed_def Let_def a e if_True ..
qed

lemma observed_quiet:
  assumes "\<not> needs_armed sid (observers s)" and "\<not> needs_edge sid (observers s)" and "\<not> global_observer pre s"
  shows "after_signal_write_observed E now sid pre True True s = s"
proof -
  have g: "value_trace_ids (observers s) = None" "\<not> dump_dirty_active (observers s)" "\<not> has_active_forces (observers s)"
    "pre \<or> signal_inline_bits s = []" "\<not> event_measure (observers s) \<or> armed_edge (observers s)"
    using assms(3) by (auto simp: global_observer_def Let_def)
  have o: "note_armed_write sid (observers s) = observers s" "note_edge_write sid (observers s) = observers s"
    using assms(1,2) by (auto simp: needs_armed_def needs_edge_def intro!: note_armed_idle note_edge_idle)
  show ?thesis
    unfolding after_signal_write_observed_def Let_def if_True trace_idle[OF g(1)] o vcd_idle[OF g(2)] force_idle[OF g(3)]
    using g(4) by (auto simp: stamp_idle[OF g(5)])
qed

section \<open>Every plan observes everything\<close>

lemma plan_needs:
  assumes "plan_exact o'" and "sid < table_len o'"
  shows "plan_of sid o' AND 2 \<noteq> 0 \<and> armed_edge o' \<longleftrightarrow> needs_armed sid o'"
    and "plan_of sid o' AND 1 \<noteq> 0 \<and> edge_active o' \<longleftrightarrow> needs_edge sid o'"
  using assms by (auto simp: plan_exact_def needs_armed_def needs_edge_def)

lemma quiet_needs:
  assumes "quiet_exact o'" and "sid < table_len o'" and "quiet_signal sid o'"
  shows "\<not> needs_armed sid o'" "\<not> needs_edge sid o'"
  using assms by (auto simp: quiet_exact_def needs_armed_def needs_edge_def)

lemma inner_observes_all:
  assumes "plans_ok (observers s)" and "sid < table_len (observers s)" and "\<not> profile_report (observers s)"
  shows "after_signal_write_inner E now sid pre s = after_signal_write_observed E now sid pre True True s"
proof (cases "signal_commit_plan (observers s) = []")
  case True
  show ?thesis
  proof (cases "quiet_valid (observers s) \<and> quiet_signal sid (observers s) \<and> \<not> global_observer pre s")
    case quiet: True
    then have "quiet_exact (observers s)" using assms(1) True by (simp add: plans_ok_def)
    have "after_signal_write_observed E now sid pre True True s = s"
      using quiet quiet_needs[OF \<open>quiet_exact (observers s)\<close> assms(2)] by (intro observed_quiet) simp_all
    then show ?thesis using quiet assms(2,3) True by (simp add: after_signal_write_inner_def Let_def)
  next
    case False
    then show ?thesis using True assms(2,3) unfolding after_signal_write_inner_def Let_def by auto
  qed
next
  case False
  then have plan: "plan_exact (observers s)" using assms(1) by (simp add: plans_ok_def)
  note needs = plan_needs[OF plan assms(2)]
  let ?e = "plan_of sid (observers s) AND 1 \<noteq> 0 \<and> edge_active (observers s)"
    and ?a = "plan_of sid (observers s) AND 2 \<noteq> 0 \<and> armed_edge (observers s)"
  have inner: "after_signal_write_inner E now sid pre s =
      (if \<not> ?e \<and> \<not> ?a \<and> \<not> global_observer pre s then s else after_signal_write_observed E now sid pre ?e ?a s)"
    using False assms(2) by (simp only: after_signal_write_inner_def Let_def not_less[symmetric] if_False if_True not_not simp_thms)
  show ?thesis
  proof (cases "\<not> ?e \<and> \<not> ?a \<and> \<not> global_observer pre s")
    case True
    then have "after_signal_write_observed E now sid pre True True s = s"
      using needs by (intro observed_quiet) blast+
    then show ?thesis using inner True by simp
  next
    case False
    have "after_signal_write_observed E now sid pre ?e ?a s = after_signal_write_observed E now sid pre True True s"
      using needs by (intro observed_skip) blast+
    then show ?thesis unfolding inner if_not_P[OF False] .
  qed
qed

text \<open>A write leaves the plans.\<close>

definition plan_fields :: "'v obs \<Rightarrow> 8 word list \<times> bool \<times> u64 list \<times> nat \<times> int list \<times> u64 list" where
  "plan_fields o' =
     (signal_commit_plan o', quiet_valid o', quiet_bits o', table_len o', sig_to_edge_pos o', armed_input_bitmap o')"

lemma plan_fields_notes [simp]:
  "plan_fields (trace_write now sid v o') = plan_fields o'" "plan_fields (note_armed_write sid o') = plan_fields o'"
  "plan_fields (note_edge_write sid o') = plan_fields o'" "plan_fields (vcd_mark sid o') = plan_fields o'"
  "plan_fields (bump_force_epoch sid o') = plan_fields o'" "plan_fields (stamp_change sid o') = plan_fields o'"
  by (simp_all add: plan_fields_def trace_write_def note_armed_write_def note_edge_write_def vcd_mark_def
      bump_force_epoch_def stamp_change_def Let_def split: option.splits prod.splits)

lemma plans_ok_fields: "plan_fields o' = plan_fields p \<Longrightarrow> plans_ok o' = plans_ok p"
  by (simp add: plan_fields_def plans_ok_def plan_exact_def quiet_exact_def plan_of_def edge_pos_def armed_input_set_def
      quiet_signal_def)

lemma observed_plans: "plans_ok (observers (after_signal_write_observed E now sid pre e a s)) = plans_ok (observers s)"
  by (rule plans_ok_fields) (simp add: after_signal_write_observed_def Let_def)

lemma plans_built:
  "0 < table_len o' \<Longrightarrow> plans_ok (rebuild_signal_commit_plans True o')"
  "signal_commit_plan o' = [] \<Longrightarrow> plans_ok (build_quiet_bits o')"
  using rebuild_plan_exact[of o'] build_quiet_exact[of o'] by (simp_all add: plans_ok_def build_quiet_bits_def Let_def)

section \<open>The fanout of armed inputs\<close>

text \<open>The table after the rows of sorted pairs: the range of a signal holds its blocks.\<close>

definition row_of :: "nat \<Rightarrow> (nat \<times> nat) list \<Rightarrow> nat list" where
  "row_of sid pairs = map snd (filter (\<lambda>(s, _). s = sid) pairs)"

lemma row_split:
  assumes "sorted (map fst ((sid, b) # pairs))"
  defines "row \<equiv> takeWhile (\<lambda>(s, _). s = sid) ((sid, b) # pairs)" and "rest \<equiv> dropWhile (\<lambda>(s, _). s = sid) ((sid, b) # pairs)"
  shows "row_of sid ((sid, b) # pairs) = map snd row" "\<forall>(s, _)\<in>set rest. sid < s"
    "i \<noteq> sid \<Longrightarrow> row_of i ((sid, b) # pairs) = row_of i rest"
proof -
  have split: "(sid, b) # pairs = row @ rest" by (simp add: row_def rest_def)
  have row: "\<forall>(s, _)\<in>set row. s = sid" by (auto simp: row_def dest: set_takeWhileD split: if_splits)
  have rest: "rest = dropWhile (\<lambda>(s, _). s = sid) pairs" by (simp add: rest_def)
  show later: "\<forall>(s, _)\<in>set rest. sid < s" using later_time[OF assms(1)] by (auto simp: rest)
  have "filter (\<lambda>(s, _). s = sid) rest = []" using later by (auto simp: filter_empty_conv)
  moreover have "filter (\<lambda>(s, _). s = sid) row = row" using row by (auto simp: filter_id_conv)
  ultimately show "row_of sid ((sid, b) # pairs) = map snd row" by (simp add: row_of_def split)
  show "row_of i ((sid, b) # pairs) = row_of i rest" if "i \<noteq> sid"
  proof -
    have "filter (\<lambda>(s, _). s = i) row = []" using row that by (auto simp: filter_empty_conv)
    then show ?thesis by (simp add: row_of_def split)
  qed
qed

lemma csr_rows_ok:
  assumes "sorted (map fst pairs)" and "\<forall>(s, _)\<in>set pairs. s < length ranges \<and> s div 64 < length bitmap"
    and "csr_rows pairs (bitmap, ranges, blocks) = (bm, rg, bl)"
  shows "(\<exists>more. bl = blocks @ more) \<and> length rg = length ranges \<and> length bm = length bitmap \<and>
    (bitmap_has bm i \<longleftrightarrow> bitmap_has bitmap i \<or> row_of i pairs \<noteq> []) \<and>
    (if row_of i pairs = [] then rg ! i = ranges ! i
     else snd (rg ! i) \<le> length bl \<and> map ((!) bl) [fst (rg ! i)..<snd (rg ! i)] = row_of i pairs)"
  using assms
proof (induction pairs "(bitmap, ranges, blocks)" arbitrary: bitmap ranges blocks rule: csr_rows.induct)
  case (1 bitmap ranges blocks)
  then show ?case by (simp add: row_of_def)
next
  case (2 sid b pairs bitmap ranges blocks)
  define row where "row = takeWhile (\<lambda>(s, _). s = sid) ((sid, b) # pairs)"
  define rest where "rest = dropWhile (\<lambda>(s, _). s = sid) ((sid, b) # pairs)"
  define bitmap' where "bitmap' = bitmap[sid div 64 := bitmap ! (sid div 64) OR shl64 1 (sid mod 64)]"
  define ranges' where "ranges' = ranges[sid := (length blocks, length (blocks @ map snd row))]"
  note split = row_split[OF 2(2), folded row_def rest_def]
  have run: "csr_rows rest (bitmap', ranges', blocks @ map snd row) = (bm, rg, bl)"
    using 2(4) by (simp add: Let_def row_def rest_def bitmap'_def ranges'_def del: takeWhile.simps dropWhile.simps)
  have sorted: "sorted (map fst rest)" using 2(2) later_sorted unfolding rest_def by blast
  have sub: "set rest \<subseteq> set ((sid, b) # pairs)" unfolding rest_def by (auto dest: set_dropWhileD)
  have bounds: "\<forall>(s, _)\<in>set rest. s < length ranges' \<and> s div 64 < length bitmap'"
    using 2(3) sub by (auto simp: ranges'_def bitmap'_def)
  have sid: "sid < length ranges" "sid div 64 < length bitmap" using 2(3) by auto
  note IH = 2(1)[OF refl refl, folded row_def rest_def bitmap'_def, folded ranges'_def, OF sorted bounds run]
  have apart: "i \<noteq> sid" if "row_of i rest \<noteq> []"
    using split(2) that by (auto simp: row_of_def filter_empty_conv)
  have row: "row_of sid ((sid, b) # pairs) = map snd row" "row \<noteq> []"
    using split(1) by (simp_all add: row_def)
  obtain more where more: "bl = blocks @ map snd row @ more" using IH by auto
  show ?case
  proof (cases "i = sid")
    case True
    then have none: "row_of i rest = []" using apart by blast
    then have "rg ! sid = (length blocks, length blocks + length row)"
      using IH sid(1) True by (simp add: ranges'_def)
    moreover have "map ((!) bl) [length blocks..<length blocks + length row] = map snd row"
      by (rule nth_equalityI) (simp_all add: more nth_append)
    ultimately show ?thesis
      using IH none row True more sid by (simp add: bitmap'_def bitmap_has_set ranges'_def)
  next
    case False
    have "\<exists>m. bl = blocks @ m" using more by blast
    then show ?thesis
      using IH split(3)[of i] sid False by (simp add: bitmap'_def bitmap_has_set ranges'_def)
  qed
qed

text \<open>Arming.\<close>

lemma arm_fold:
  assumes "\<forall>b\<in>set bs. b < length as"
  shows "length (fold (\<lambda>b as. as[b := as ! b OR edge_armed]) bs as) = length as \<and>
    (j < length as \<longrightarrow> fold (\<lambda>b as. as[b := as ! b OR edge_armed]) bs as ! j =
       (if j \<in> set bs then as ! j OR edge_armed else as ! j))"
  using assms by (induction bs arbitrary: as) (auto simp: nth_list_update or.assoc)

lemma arm_pairs_sorted: "sorted (map fst (arm_pairs gateable reads extra))"
proof -
  have "sorted (arm_pairs gateable reads extra)"
    unfolding arm_pairs_def Let_def by (simp add: sorted_remdups_adj)
  then show ?thesis by (rule sorted_fst)
qed

lemma arm_pairs_set:
  "(sid, bi) \<in> set (arm_pairs gateable reads extra) \<longleftrightarrow>
     bi < length gateable \<and> gateable ! bi \<and> (sid \<in> set (reads bi) \<or> bi < length extra \<and> sid \<in> set (extra ! bi))"
  unfolding arm_pairs_def Let_def remdups_adj_set set_sort by (auto split: if_splits)

lemma row_of_set: "b \<in> set (row_of sid pairs) \<longleftrightarrow> (sid, b) \<in> set pairs"
  by (force simp: row_of_def)

lemma sorted_last_le: "sorted xs \<Longrightarrow> x \<in> set xs \<Longrightarrow> x \<le> last xs" for x :: nat
  by (induction xs) (auto simp: last_in_set)

text \<open>A gateable block reads a signal, or has it as an arm-only input.\<close>

definition block_reads :: "bool list \<Rightarrow> (nat \<Rightarrow> nat list) \<Rightarrow> nat list list \<Rightarrow> nat \<Rightarrow> nat \<Rightarrow> bool" where
  "block_reads gateable reads extra bi sid \<longleftrightarrow>
     gateable ! bi \<and> (sid \<in> set (reads bi) \<or> bi < length extra \<and> sid \<in> set (extra ! bi))"

lemma armed_one:
  fixes o' :: "'v obs" and gateable :: "bool list" and reads :: "nat \<Rightarrow> nat list" and wide :: "nat \<Rightarrow> bool"
    and extra :: "nat list list" and as :: "8 word list" and sid :: nat
  assumes on: "armed_edge o'" "event_skip o'" and census: "arm_census o' = None" and len: "length as = length gateable"
  defines "t \<equiv> (build_armed_edge_state gateable reads wide extra o')\<lparr>edge_block_armed := as\<rparr>"
  defines "t' \<equiv> note_armed_write sid t"
  shows "t' = t\<lparr>edge_block_armed := edge_block_armed t'\<rparr>" "length (edge_block_armed t') = length gateable"
    and "bi < length gateable \<Longrightarrow> edge_block_armed t' ! bi =
      (if block_reads gateable reads extra bi sid then as ! bi OR edge_armed else as ! bi)"
proof -
  let ?pairs = "arm_pairs gateable reads extra"
  define n where "n = (if ?pairs = [] then 0 else fst (last ?pairs) + 1)"
  obtain bm rg bl where csr: "csr_rows ?pairs (replicate ((n + 63) div 64) 0, replicate n (0, 0), []) = (bm, rg, bl)"
    by (metis prod_cases3)
  have t: "armed_input_bitmap t = bm" "armed_input_ranges t = rg" "armed_input_blocks t = bl" "armed_edge t" "arm_census t = None"
    "edge_block_armed t = as"
    using csr on census by (simp_all add: t_def build_armed_edge_state_def Let_def n_def)
  let ?f = "\<lambda>b as. as[b := as ! b OR edge_armed]"
  show "t' = t\<lparr>edge_block_armed := edge_block_armed t'\<rparr>"
    using t by (simp add: t'_def note_armed_write_def Let_def split_beta)
  have lt: "s < n" if "(s, b) \<in> set ?pairs" for s b
  proof -
    have ne: "?pairs \<noteq> []" using that by auto
    then have "s \<le> fst (last ?pairs)"
      using sorted_last_le[OF arm_pairs_sorted, of s gateable reads extra] that by (force simp: last_map)
    then show ?thesis using ne by (simp add: n_def)
  qed
  have "\<forall>(s, _)\<in>set ?pairs. s < length (replicate n (0 :: nat, 0 :: nat)) \<and> s div 64 < length (replicate ((n + 63) div 64) (0 :: u64))"
    using lt in_bitmap by auto
  note rows = csr_rows_ok[OF arm_pairs_sorted this csr, of sid]
  have armed: "edge_block_armed t' = fold ?f (row_of sid ?pairs) as"
  proof (cases "row_of sid ?pairs = []")
    case True
    then have "\<not> armed_input_set sid t" using rows by (simp add: armed_input_set_has t bitmap_has_zero)
    then show ?thesis using True t by (simp add: t'_def note_armed_idle)
  next
    case False
    have set: "armed_input_set sid t" using rows False by (simp add: armed_input_set_has t)
    have row: "row_of sid ?pairs = map ((!) bl) [fst (rg ! sid)..<snd (rg ! sid)]" using rows False by simp
    have "fold (\<lambda>k. ?f (bl ! k)) [fst (rg ! sid)..<snd (rg ! sid)] as = fold ?f (row_of sid ?pairs) as"
      unfolding row fold_map comp_def ..
    then show ?thesis using set t by (simp add: t'_def note_armed_write_def Let_def split_beta)
  qed
  have inb: "\<forall>b\<in>set (row_of sid ?pairs). b < length as"
    using len by (auto simp: row_of_set arm_pairs_set)
  have "length (fold ?f bs xs) = length xs" for bs xs by (induction bs arbitrary: xs) auto
  then show "length (edge_block_armed t') = length gateable" using armed len by simp
  show "edge_block_armed t' ! bi =
      (if block_reads gateable reads extra bi sid then as ! bi OR edge_armed else as ! bi)" if "bi < length gateable"
    using arm_fold[OF inb, of bi] that len armed by (auto simp: row_of_set arm_pairs_set block_reads_def)
qed

text \<open>Any number of writes.\<close>

lemma armed_exact:
  fixes o' :: "'v obs" and gateable :: "bool list" and reads :: "nat \<Rightarrow> nat list" and wide :: "nat \<Rightarrow> bool"
    and extra :: "nat list list" and as :: "8 word list"
  assumes on: "armed_edge o'" "event_skip o'" "arm_census o' = None" and len: "length as = length gateable"
    and bi: "bi < length gateable"
  defines "t \<equiv> (build_armed_edge_state gateable reads wide extra o')\<lparr>edge_block_armed := as\<rparr>"
  shows "edge_block_armed (fold note_armed_write sids t) ! bi =
    (if \<exists>sid\<in>set sids. block_reads gateable reads extra bi sid then as ! bi OR edge_armed else as ! bi)"
proof -
  let ?b = "build_armed_edge_state gateable reads wide extra o'"
  have "\<exists>as'. fold note_armed_write sids t = ?b\<lparr>edge_block_armed := as'\<rparr> \<and> length as' = length gateable \<and>
    as' ! bi = (if \<exists>sid\<in>set sids. block_reads gateable reads extra bi sid then as ! bi OR edge_armed else as ! bi)"
  proof (induction sids rule: rev_induct)
    case Nil
    then show ?case using len by (auto simp: t_def)
  next
    case (snoc sid sids)
    then obtain as' where as': "fold note_armed_write sids t = ?b\<lparr>edge_block_armed := as'\<rparr>" "length as' = length gateable"
      "as' ! bi = (if \<exists>sid\<in>set sids. block_reads gateable reads extra bi sid then as ! bi OR edge_armed else as ! bi)"
      by blast
    note one = armed_one[OF on as'(2), where sid = sid and reads = reads and wide = wide and extra = extra]
    let ?n = "edge_block_armed (note_armed_write sid (?b\<lparr>edge_block_armed := as'\<rparr>))"
    have "fold note_armed_write (sids @ [sid]) t = ?b\<lparr>edge_block_armed := ?n\<rparr>"
      using one(1) as'(1) by simp
    moreover have "?n ! bi = (if \<exists>x\<in>set (sids @ [sid]). block_reads gateable reads extra bi x then as ! bi OR edge_armed else as ! bi)"
      using one(3)[OF bi] as'(3) by (auto simp: or.assoc)
    ultimately show ?case using one(2) by blast
  qed
  then show ?thesis by auto
qed

end
