(* ===== verification/Gates_Props.thy ===== *)
theory Gates_Props
  imports Vector_Gates Observers_Props
begin

text \<open>
  The gates: the isolated copy of the algebra, the plane algebra against the algebra of one bit, and
  what a vector gate does against the gates it replaces.
\<close>

section \<open>Laws of the values\<close>

text \<open>The code of a bit of a plane pair.\<close>

definition pcode :: "u64 \<times> u64 \<Rightarrow> nat \<Rightarrow> nat" where
  "pcode p i = of_bool (bit (fst p) i) + 2 * of_bool (bit (snd p) i)"

lemma pcode_lt: "pcode p i < 4"
  by (simp add: pcode_def)

text \<open>Values of up to 64 bits are held inline: their planes are the codes of their bits, and setting
  the planes sets the codes; a slice has the planes of its bits; \<^verbatim>\<open>set_scalar_code\<close> sets the only
  bit of a value.\<close>

definition plane_laws :: "('v, 's, 'c) genv \<Rightarrow> bool" where
  "plane_laws G \<longleftrightarrow>
     (let D = den G; V = vo (base D)
      in (\<forall>v lo w i. w \<le> 64 \<longrightarrow> lo + w \<le> value_width V v \<longrightarrow> i < w \<longrightarrow>
            pcode (slice_bits_swar V lo w v) i = get_bit_code D v (lo + i)) \<and>
         (\<forall>v i. value_width V v \<le> 64 \<longrightarrow> i < value_width V v \<longrightarrow> pcode (raw_bits V v) i = get_bit_code D v i) \<and>
         (\<forall>v a x. value_width V v \<le> 64 \<longrightarrow>
            fst (set_inline_bits V a x v) \<and> value_width V (snd (set_inline_bits V a x v)) = value_width V v \<and>
            (\<forall>i < value_width V v. get_bit_code D (snd (set_inline_bits V a x v)) i = pcode (a, x) i)) \<and>
         (\<forall>v c. value_width V v = 1 \<longrightarrow> c < 4 \<longrightarrow>
            (fst (set_scalar_code G c v) \<longleftrightarrow> get_bit_code D v 0 \<noteq> c) \<and>
            value_width V (snd (set_scalar_code G c v)) = 1 \<and> get_bit_code D (snd (set_scalar_code G c v)) 0 = c) \<and>
         (\<forall>v sg. value_width V (set_signed V sg v) = value_width V v))"

lemma plane_lawsD:
  assumes "plane_laws G"
  shows "w \<le> 64 \<Longrightarrow> lo + w \<le> width_of (den G) v \<Longrightarrow> i < w \<Longrightarrow>
      pcode (slice_bits_swar (vo (base (den G))) lo w v) i = get_bit_code (den G) v (lo + i)"
    and "width_of (den G) v \<le> 64 \<Longrightarrow> i < width_of (den G) v \<Longrightarrow>
      pcode (raw_bits (vo (base (den G))) v) i = get_bit_code (den G) v i"
    and "width_of (den G) v \<le> 64 \<Longrightarrow> fst (set_inline_bits (vo (base (den G))) a x v)"
    and "width_of (den G) v \<le> 64 \<Longrightarrow>
      width_of (den G) (snd (set_inline_bits (vo (base (den G))) a x v)) = width_of (den G) v"
    and "width_of (den G) v \<le> 64 \<Longrightarrow> i < width_of (den G) v \<Longrightarrow>
      get_bit_code (den G) (snd (set_inline_bits (vo (base (den G))) a x v)) i = pcode (a, x) i"
    and "width_of (den G) v = 1 \<Longrightarrow> c < 4 \<Longrightarrow> fst (set_scalar_code G c v) \<longleftrightarrow> get_bit_code (den G) v 0 \<noteq> c"
    and "width_of (den G) v = 1 \<Longrightarrow> c < 4 \<Longrightarrow> width_of (den G) (snd (set_scalar_code G c v)) = 1"
    and "width_of (den G) v = 1 \<Longrightarrow> c < 4 \<Longrightarrow> get_bit_code (den G) (snd (set_scalar_code G c v)) 0 = c"
    and "width_of (den G) (set_signed (vo (base (den G))) sg v) = width_of (den G) v"
  using assms unfolding plane_laws_def Let_def by blast+

section \<open>The isolated evaluator\<close>

lemma isolated_eval: "isolated_gate_eval (gate_driven G) rd op = fused_gate_eval G rd op"
  by (cases op) (simp_all add: Let_def)

section \<open>Lanes of plane operations\<close>

lemma width_mask_bit: "i < w \<Longrightarrow> w \<le> 64 \<Longrightarrow> bit (width_mask w) i"
  using bit_ts_mask[of w i] by (auto simp: width_mask_def ts_mask_def split: if_splits)

lemma pcode_bits:
  "bit (fst p) i \<longleftrightarrow> odd (pcode p i)" "bit (snd p) i \<longleftrightarrow> 2 \<le> pcode p i"
  by (simp_all add: pcode_def)

lemma bit_notI: "i < 64 \<Longrightarrow> bit (NOT (w :: u64)) i \<longleftrightarrow> \<not> bit w i"
  by (simp add: bit_not_iff)

lemmas lane_bits = bit_and_iff bit_or_iff bit_xor_iff bit_notI

lemma plane_bin_lane:
  assumes "i < 64" and "bit m i"
  shows "pcode (plane_bin gop m a b) i = bin4 gop (pcode a i) (pcode b i)"
  using assms
  by (cases a; cases b; cases gop; cases "bit (fst a) i"; cases "bit (snd a) i"; cases "bit (fst b) i"; cases "bit (snd b) i")
    (simp_all add: plane_bin_def pcode_def bin4_def and4_def or4_def xor4_def Let_def lane_bits)

lemma plane_not_lane:
  assumes "i < 64" and "bit m i"
  shows "pcode (NOT v AND NOT x AND m, x) i = not4 (pcode (v, x) i)"
  using assms by (cases "bit v i"; cases "bit x i") (simp_all add: pcode_def not4_def lane_bits)

lemma plane_mux_lane:
  assumes "i < 64" and "bit m i"
  shows "pcode (plane_mux m s t e) i =
    (if 2 \<le> pcode s i \<and> pcode t i = 3 \<and> pcode e i = 3 then 3 else mux4 (pcode s i) (pcode t i) (pcode e i))"
  using assms
  by (cases s; cases t; cases e; cases "bit (fst s) i"; cases "bit (snd s) i"; cases "bit (fst t) i"; cases "bit (snd t) i";
      cases "bit (fst e) i"; cases "bit (snd e) i")
    (simp_all add: plane_mux_def pcode_def mux4_def Let_def lane_bits)

lemma pcode_mask: "bit m i \<Longrightarrow> pcode (v AND m, x AND m) i = pcode (v, x) i"
  by (simp add: pcode_def bit_and_iff)

lemma pcode_masked_eq: "bit m i \<Longrightarrow> pcode (fst p AND m, snd p AND m) i = pcode p i"
  by (simp add: pcode_def bit_and_iff)

section \<open>A vector gate evaluates its lanes\<close>

text \<open>The sources of a vector gate lie within their signals.\<close>

definition sources_in :: "('v, 's, 'c) genv \<Rightarrow> ('v, 'c) gsim \<Rightarrow> vector_gate \<Rightarrow> bool" where
  "sources_in G s vg \<longleftrightarrow> vector_width vg \<le> 64 \<and>
     (\<forall>r\<in>set (vector_srcs vg). vr_lo r + vector_width vg \<le> width_of (den G) (table s (vr_sig r)))"

lemma source_lane:
  assumes "plane_laws G" and "w \<le> 64" and "vr_lo r + w \<le> width_of (den G) (table s (vr_sig r))" and "i < w"
  shows "pcode (vector_ref_bits G s r w) i = rd_ref (codes G s) (lane_ref r i)"
  using plane_lawsD(1)[OF assms(1,2,3,4)] by (simp add: vector_ref_bits_def rd_ref_def lane_ref_def)

text \<open>The multiplexer with an ambiguous select and z in both branches.\<close>

fun mux_passes_z :: "(nat \<Rightarrow> nat \<Rightarrow> nat) \<Rightarrow> vector_gate \<Rightarrow> nat \<Rightarrow> bool" where
  "mux_passes_z rd (VecMux dst sel t e width) i \<longleftrightarrow>
     2 \<le> rd_ref rd (lane_ref sel i) \<and> rd_ref rd (lane_ref t i) = 3 \<and> rd_ref rd (lane_ref e i) = 3"
| "mux_passes_z rd vg i \<longleftrightarrow> False"

text \<open>A buffer primitive is never made a vector gate.\<close>

fun passes_z :: "('v, 's, 'c) genv \<Rightarrow> vector_gate \<Rightarrow> bool" where
  "passes_z G (VecBuf dst src width invert) \<longleftrightarrow> invert \<or> \<not> gate_driven G (vr_sig dst)"
| "passes_z G vg \<longleftrightarrow> True"

lemma vector_gate_lane:
  assumes laws: "plane_laws G" and src: "sources_in G s vg" and z: "passes_z G vg" and i: "i < vector_width vg"
  shows "vector_gate_eval G s vg = (vector_dst vg, vector_width vg, snd (snd (vector_gate_eval G s vg)))"
    and "pcode (snd (snd (vector_gate_eval G s vg))) i =
      (if mux_passes_z (codes G s) vg i then 3 else snd (fused_gate_eval G (codes G s) (lane_gate vg i)))"
proof -
  have w: "i < 64" "vector_width vg \<le> 64" using src i by (auto simp: sources_in_def)
  have m: "bit (width_mask (vector_width vg)) i" using width_mask_bit[OF i w(2)] .
  note masked = pcode_mask[OF m]
  have lane: "pcode (vector_ref_bits G s r (vector_width vg)) i = rd_ref (codes G s) (lane_ref r i)"
    if "r \<in> set (vector_srcs vg)" for r
    using source_lane[OF laws w(2) _ i] src that by (auto simp: sources_in_def)
  show "vector_gate_eval G s vg = (vector_dst vg, vector_width vg, snd (snd (vector_gate_eval G s vg)))"
    by (cases vg) (simp_all add: Let_def split_beta)
  show "pcode (snd (snd (vector_gate_eval G s vg))) i =
      (if mux_passes_z (codes G s) vg i then 3 else snd (fused_gate_eval G (codes G s) (lane_gate vg i)))"
  proof (cases vg)
    case (VecBuf dst src width invert)
    show ?thesis
    proof (cases invert)
      case True
      have "pcode (snd (snd (vector_gate_eval G s vg))) i =
          pcode (NOT (fst (vector_ref_bits G s src width)) AND NOT (snd (vector_ref_bits G s src width)) AND width_mask width,
            snd (vector_ref_bits G s src width)) i"
        using m True by (simp add: VecBuf split_beta Let_def pcode_def bit_and_iff)
      also have "\<dots> = not4 (pcode (vector_ref_bits G s src width) i)"
        using plane_not_lane[OF w(1) m] by (simp add: VecBuf)
      finally show ?thesis using lane[of src] True by (simp add: VecBuf Let_def)
    next
      case False
      then show ?thesis
        using lane[of src] m z by (simp add: VecBuf split_beta Let_def pcode_def bit_and_iff lane_ref_def)
    qed
  next
    case (VecBin dst a b width gop invert)
    let ?r = "plane_bin gop (width_mask width) (vector_ref_bits G s a width) (vector_ref_bits G s b width)"
    have r: "pcode ?r i = bin4 gop (rd_ref (codes G s) (lane_ref a i)) (rd_ref (codes G s) (lane_ref b i))"
      using plane_bin_lane[OF w(1) m, of gop] lane[of a] lane[of b] by (simp add: VecBin)
    show ?thesis
    proof (cases invert)
      case True
      then have "pcode (snd (snd (vector_gate_eval G s vg))) i = pcode (NOT (fst ?r) AND NOT (snd ?r) AND width_mask width, snd ?r) i"
        using masked by (simp add: VecBin split_beta Let_def)
      then show ?thesis using plane_not_lane[OF w(1) m, of "fst ?r" "snd ?r"] r True by (simp add: VecBin Let_def)
    next
      case False
      then show ?thesis using r masked by (simp add: VecBin split_beta Let_def)
    qed
  next
    case (VecMux dst sel t e width)
    then show ?thesis
      using plane_mux_lane[OF w(1) m] lane masked by (simp add: split_beta Let_def)
  qed
qed

text \<open>Lanes of a scatter gate.\<close>

lemma lane_code_pcode: "i < 64 \<Longrightarrow> lane_code v x i = pcode (v, x) i"
proof -
  assume i: "i < 64"
  have "shr64 w i AND 1 = (of_bool (bit w i) :: u64)" for w
    by (rule bit_word_eqI) (use i in \<open>auto simp: bit_and_iff bit_shr64 bit_1_iff bit_of_bool_iff\<close>)
  then show ?thesis
    by (cases "bit v i"; cases "bit x i") (simp_all add: lane_code_def pcode_def shl64_def)
qed

section \<open>Coalescing\<close>

lemma source_runE:
  assumes "source_run widths dst lo n src off = Some r"
  shows "vr_sig r = src" "int (vr_lo r) = int lo + off" "src < length widths" "vr_lo r + n - 1 < widths ! src"
    "src \<noteq> dst \<or> vr_lo r > lo + n - 1 \<or> lo > vr_lo r + n - 1"
  using assms by (auto simp: source_run_def Let_def split: if_splits)

lemma source_run_lane:
  assumes "source_run widths dst lo n (br_sig b) (int (br_bit b) - int (lo + i)) = Some r"
  shows "lane_ref r i = b"
  using source_runE(1,2)[OF assms] by (cases b) (simp add: lane_ref_def)

text \<open>The vector gate of a run has the members as its lanes.\<close>

lemma coalesce_lane:
  assumes key: "coalesce_key G op = Some key" and d: "br_bit (gate_dst op) = lo + i"
    and run: "coalesce_run widths key lo n = Some vg"
  shows "lane_gate vg i = op" "vector_width vg = n" "passes_z G vg"
proof -
  have dst: "lane_ref \<lparr>vr_sig = br_sig (gate_dst op), vr_lo = lo\<rparr> i = gate_dst op"
    using d by (cases "gate_dst op") (simp add: lane_ref_def)
  have "lane_gate vg i = op \<and> vector_width vg = n \<and> passes_z G vg"
    using key run d dst
    by (cases op)
      (auto simp: coalesce_key_def coalesce_run_def Let_def source_run_lane split: if_splits option.splits)
  then show "lane_gate vg i = op" "vector_width vg = n" "passes_z G vg" by auto
qed

end
