(* ===== verification/Gates_Exec.thy ===== *)
theory Gates_Exec
  imports Gates_Props
begin

text \<open>
  What the execution of gates does to the signals: a gate writes its destination bit and nothing else,
  a vector gate what its lanes write one after another, and the isolated evaluator the same on its view.
\<close>

section \<open>Writes keep the other fields\<close>

lemma observed_table [simp]: "signal_table (after_signal_write_observed E now sid pre e a s) = signal_table s"
  by (simp add: after_signal_write_observed_def Let_def)

lemma inner_table [simp]: "signal_table (after_signal_write_inner E now sid pre s) = signal_table s"
  by (simp add: after_signal_write_inner_def Let_def)

lemma mirror_table [simp]: "signal_table (sync_mirror E sid s) = signal_table s"
  by (simp add: sync_mirror_def)

lemma with_table_sel [simp]:
  "table (with_table sid v s) i = (if i = sid then v else table s i)"
  "sdf_delays (with_table sid v s) = sdf_delays s" "sim_time (with_table sid v s) = sim_time s"
  "forced_signals (with_table sid v s) = forced_signals s"
  by (simp_all add: with_table_def set_signal_def)

lemma with_table_upd: "table (with_table sid v s) = (table s)(sid := v)"
  by (simp add: fun_eq_iff)

lemma mark_if_fields [simp]:
  "table (mark_if G sid r) = table (snd r)" "sdf_delays (mark_if G sid r) = sdf_delays (snd r)"
  "sim_time (mark_if G sid r) = sim_time (snd r)" "forced_signals (mark_if G sid r) = forced_signals (snd r)"
  by (simp_all add: mark_if_def split: prod.splits)

text \<open>A signal with no delay annotated and no force on it.\<close>

definition free_dst :: "nat \<Rightarrow> ('v, 'c) gsim \<Rightarrow> bool" where
  "free_dst sid s \<longleftrightarrow> \<not> (sdf_any s \<and> sdf_delay sid s > 0 \<and> sim_time s > 0) \<and> forced_signals s sid = None"

definition same_setup :: "('v, 'c) gsim \<Rightarrow> ('v, 'c) gsim \<Rightarrow> bool" where
  "same_setup s t \<longleftrightarrow> sdf_delays t = sdf_delays s \<and> sim_time t = sim_time s \<and> forced_signals t = forced_signals s"

lemma same_setup_free: "same_setup s t \<Longrightarrow> free_dst sid t \<longleftrightarrow> free_dst sid s"
  by (simp add: same_setup_def free_dst_def sdf_any_def sdf_delay_def)

lemma same_setup_trans: "same_setup s t \<Longrightarrow> same_setup t u \<Longrightarrow> same_setup s u"
  by (simp add: same_setup_def)

section \<open>One gate\<close>

definition wid :: "('v, 's, 'c) genv \<Rightarrow> ('v, 'c) gsim \<Rightarrow> nat \<Rightarrow> nat" where
  "wid G s sid = width_of (den G) (table s sid)"

lemma bit_commit_ok:
  assumes laws: "bit_laws (den G)" and free: "free_dst (br_sig dst) s" and b: "br_bit dst < wid G s (br_sig dst)"
    and c: "c < 4" and sdf: "sdf = sdf_any s"
  shows "codes G (snd (fused_bit_commit G dst c sdf s)) i j =
      (if i = br_sig dst \<and> j = br_bit dst then c else codes G s i j)"
    and "wid G (snd (fused_bit_commit G dst c sdf s)) i = wid G s i"
    and "same_setup s (snd (fused_bit_commit G dst c sdf s))"
    and "fst (fused_bit_commit G dst c sdf s) \<longleftrightarrow> codes G s (br_sig dst) (br_bit dst) \<noteq> c"
proof -
  let ?sid = "br_sig dst" and ?b = "br_bit dst"
  let ?v = "snd (set_bit_code (den G) ?b c (table s ?sid))" and ?ch = "fst (set_bit_code (den G) ?b c (table s ?sid))"
  have no_sdf: "\<not> (sdf \<and> sdf_delay ?sid s > 0 \<and> sim_time s > 0)" and none: "forced_signals s ?sid = None"
    using free sdf by (simp_all add: free_dst_def)
  let ?s = "with_table ?sid ?v s"
  have commit: "fused_bit_commit G dst c sdf s =
      (if ?ch then (True, ?s\<lparr>core := after_signal_write_inner (base (den G)) (sim_time ?s) ?sid True
          ((sync_mirror (base (den G)) ?sid (core ?s))\<lparr>table_modified := True\<rparr>)\<rparr>) else (False, ?s))"
    unfolding fused_bit_commit_def Let_def if_not_P[OF no_sdf] by (simp add: split_beta none)
  have t: "table (snd (fused_bit_commit G dst c sdf s)) = (table s)(?sid := ?v)"
    unfolding commit by (auto simp: fun_eq_iff)
  have w: "width_of (den G) ?v = width_of (den G) (table s ?sid)" by (rule bit_lawsD(2)[OF laws])
  show "codes G (snd (fused_bit_commit G dst c sdf s)) i j =
      (if i = ?sid \<and> j = ?b then c else codes G s i j)"
    unfolding t using bit_lawsD(1)[OF laws _ c, of ?b "table s ?sid"] b by (simp add: wid_def)
  show "wid G (snd (fused_bit_commit G dst c sdf s)) i = wid G s i" unfolding wid_def t using w by simp
  show "same_setup s (snd (fused_bit_commit G dst c sdf s))" unfolding commit same_setup_def by simp
  show "fst (fused_bit_commit G dst c sdf s) \<longleftrightarrow> codes G s ?sid ?b \<noteq> c"
    unfolding commit using bit_lawsD(6)[OF laws _ c, of ?b "table s ?sid"] b by (simp add: wid_def)
qed

lemma bin4_lt: "bin4 gop a b < 4" "not4 a < 4"
  by (simp_all add: bin4_def and4_def or4_def xor4_def not4_def split: gate_bin.splits)

lemma eval_lt:
  assumes "\<And>i j. rd i j < 4"
  shows "snd (fused_gate_eval G rd op) < 4"
proof (cases op)
  case (UdpLut3 dst inputs n tbl)
  have "unat (w AND 3) < 4" for w :: u64
  proof -
    have "w AND 3 \<le> 3" by (simp add: word_and_le1)
    then show ?thesis by (simp add: word_le_nat_alt)
  qed
  then show ?thesis by (simp add: UdpLut3 lut3_bit_def split_beta Let_def)
qed (use assms bin4_lt in \<open>auto simp: Let_def rd_ref_def mux4_def\<close>)

lemma exec_gate_ok:
  assumes laws: "bit_laws (den G)" and ev: "fused_gate_eval G (codes G s) op = (dst, c)"
    and free: "free_dst (br_sig dst) s" and b: "br_bit dst < wid G s (br_sig dst)"
  shows "codes G (exec_fused_gate G op s) i j = (if i = br_sig dst \<and> j = br_bit dst then c else codes G s i j)"
    and "wid G (exec_fused_gate G op s) i = wid G s i" and "same_setup s (exec_fused_gate G op s)"
proof -
  have c: "c < 4" using eval_lt[of "codes G s" G op] bit_lawsD(7)[OF laws] ev by simp
  note commit = bit_commit_ok[OF laws free b c refl]
  have t: "table (exec_fused_gate G op s) = table (snd (fused_bit_commit G dst c (sdf_any s) s))"
    by (simp add: exec_fused_gate_def ev)
  show "codes G (exec_fused_gate G op s) i j = (if i = br_sig dst \<and> j = br_bit dst then c else codes G s i j)"
    and "wid G (exec_fused_gate G op s) i = wid G s i"
    using commit(1,2) unfolding wid_def t by blast+
  show "same_setup s (exec_fused_gate G op s)"
    using commit(3) by (simp add: same_setup_def exec_fused_gate_def ev)
qed

section \<open>A run of gates\<close>

text \<open>Gates whose inputs none of them writes.\<close>

fun gate_inputs :: "fused_gate \<Rightarrow> bit_ref list" where
  "gate_inputs (Buf1 dst src invert) = [src]"
| "gate_inputs (Bin2 dst a b gop invert) = [a, b]"
| "gate_inputs (Mux2 dst s t e) = [s, t, e]"
| "gate_inputs (UdpLut3 dst inputs n tbl) = take n inputs"

lemma eval_cong:
  assumes "\<And>r. r \<in> set (gate_inputs op) \<Longrightarrow> rd_ref rd r = rd_ref rd' r"
  shows "fused_gate_eval G rd op = fused_gate_eval G rd' op"
proof (cases op)
  case (UdpLut3 dst inputs n tbl)
  have "fold (\<lambda>input (idx, place). (idx + min (rd_ref rd input) 2 * place, place * 3)) (take n inputs) a =
      fold (\<lambda>input (idx, place). (idx + min (rd_ref rd' input) 2 * place, place * 3)) (take n inputs) a" for a
    using assms by (intro fold_cong) (auto simp: UdpLut3)
  then show ?thesis by (simp add: UdpLut3 lut3_bit_def)
qed (use assms in simp_all)

lemma eval_dst: "fst (fused_gate_eval G rd op) = gate_dst op"
  by (cases op) (simp_all add: Let_def)

lemma exec_gates_ok:
  assumes laws: "bit_laws (den G)" and "distinct (map gate_dst ops)"
    and "\<forall>op\<in>set ops. \<forall>op'\<in>set ops. gate_dst op' \<notin> set (gate_inputs op)"
    and "\<forall>op\<in>set ops. free_dst (br_sig (gate_dst op)) s \<and> br_bit (gate_dst op) < wid G s (br_sig (gate_dst op))"
  shows "codes G (fold (exec_fused_gate G) ops s) i j =
      (case find (\<lambda>op. gate_dst op = \<lparr>br_sig = i, br_bit = j\<rparr>) ops of
         None \<Rightarrow> codes G s i j | Some op \<Rightarrow> snd (fused_gate_eval G (codes G s) op)) \<and>
    wid G (fold (exec_fused_gate G) ops s) i = wid G s i \<and> same_setup s (fold (exec_fused_gate G) ops s)"
  using assms(2-4)
proof (induction ops arbitrary: s)
  case Nil
  then show ?case by (simp add: same_setup_def)
next
  case (Cons op ops)
  let ?s = "exec_fused_gate G op s" and ?c = "snd (fused_gate_eval G (codes G s) op)"
  have ev: "fused_gate_eval G (codes G s) op = (gate_dst op, ?c)" by (simp add: prod_eq_iff eval_dst)
  note one = exec_gate_ok[OF laws ev]
  have free: "free_dst (br_sig (gate_dst op)) s" "br_bit (gate_dst op) < wid G s (br_sig (gate_dst op))"
    using Cons.prems(3) by auto
  note one = exec_gate_ok[OF laws ev free]
  have rest: "\<forall>op\<in>set ops. free_dst (br_sig (gate_dst op)) ?s \<and> br_bit (gate_dst op) < wid G ?s (br_sig (gate_dst op))"
    using Cons.prems(3) same_setup_free[OF one(3)] one(2) by auto
  have ref: "rd_ref (codes G ?s) r = rd_ref (codes G s) r" if "r \<noteq> gate_dst op" for r
    using one(1) that by (auto simp: rd_ref_def bit_ref.equality)
  have same: "fused_gate_eval G (codes G ?s) op' = fused_gate_eval G (codes G s) op'" if "op' \<in> set ops" for op'
    using Cons.prems(2) that by (intro eval_cong ref) auto
  have IH: "codes G (fold (exec_fused_gate G) ops ?s) i j =
      (case find (\<lambda>op. gate_dst op = \<lparr>br_sig = i, br_bit = j\<rparr>) ops of
         None \<Rightarrow> codes G ?s i j | Some op \<Rightarrow> snd (fused_gate_eval G (codes G ?s) op)) \<and>
    wid G (fold (exec_fused_gate G) ops ?s) i = wid G ?s i \<and> same_setup ?s (fold (exec_fused_gate G) ops ?s)"
    using Cons.prems(1,2) rest by (intro Cons.IH) simp_all
  show ?case
  proof (cases "gate_dst op = \<lparr>br_sig = i, br_bit = j\<rparr>")
    case True
    then have "find (\<lambda>op. gate_dst op = \<lparr>br_sig = i, br_bit = j\<rparr>) ops = None"
      using Cons.prems(1) by (auto simp: find_None_iff) (metis image_eqI)
    then show ?thesis using IH one(1)[of i j] one(2,3) True same_setup_trans by auto
  next
    case False
    then have "codes G ?s i j = codes G s i j" using one(1)[of i j] by (cases "gate_dst op") auto
    moreover have "op' \<in> set ops" if "find (\<lambda>op. gate_dst op = \<lparr>br_sig = i, br_bit = j\<rparr>) ops = Some op'" for op'
      using that by (auto simp: find_Some_iff)
    ultimately show ?thesis
      using IH one(2,3) False same same_setup_trans[OF one(3)]
      by (cases "find (\<lambda>op. gate_dst op = \<lparr>br_sig = i, br_bit = j\<rparr>) ops") simp_all
  qed
qed

section \<open>A vector gate\<close>

lemma vector_commit_ok:
  assumes laws: "bit_laws (den G)" "plane_laws G" and free: "free_dst (vr_sig dst) s"
    and w: "vr_lo dst + width \<le> wid G s (vr_sig dst)" "wid G s (vr_sig dst) \<le> 64" "0 < width" and j: "j < wid G s i"
  shows "codes G (snd (fused_vector_commit G dst width v x (sdf_any s) s)) i j =
      (if i = vr_sig dst \<and> vr_lo dst \<le> j \<and> j < vr_lo dst + width then pcode (v, x) (j - vr_lo dst) else codes G s i j)"
    and "wid G (snd (fused_vector_commit G dst width v x (sdf_any s) s)) i = wid G s i"
    and "same_setup s (snd (fused_vector_commit G dst width v x (sdf_any s) s))"
proof -
  let ?sid = "vr_sig dst" and ?lo = "vr_lo dst"
  let ?old = "table s ?sid" and ?V = "vo (base (den G))"
  define bv where "bv = raw_bits ?V ?old"
  define nw where "nw = compose_inline_range_bits (fst bv) (snd bv) v x ?lo (?lo + width - 1)"
  define m where "m = (if width = 64 then - 1 else shl64 (shl64 1 width - 1) ?lo :: u64)"
  define val where "val = set_signed ?V (signal_signed (core s) ?sid) (snd (set_inline_bits ?V (fst nw) (snd nw) ?old))"
  have lo: "?lo \<le> ?lo + width - 1" "?lo + width - 1 < 64" using w by (simp_all add: wid_def)
  have new: "pcode nw b = (if ?lo \<le> b \<and> b < ?lo + width then pcode (v, x) (b - ?lo) else pcode bv b)" if "b < 64" for b
    using compose_bits[OF lo that, of "fst bv" "snd bv" v x] w(3) by (auto simp: pcode_def nw_def)
  have old: "pcode bv b = get_bit_code (den G) ?old b" if "b < wid G s ?sid" for b
    using plane_lawsD(2)[OF laws(2)] w(2) that by (simp add: wid_def bv_def)
  have val: "get_bit_code (den G) val b = pcode nw b" if "b < wid G s ?sid" for b
    using plane_lawsD(5)[OF laws(2), of ?old b "fst nw" "snd nw"] bit_lawsD(3)[OF laws(1)] w(2) that
    by (simp add: val_def wid_def)
  have wval: "width_of (den G) val = wid G s ?sid"
    using plane_lawsD(4,9)[OF laws(2)] w(2) by (simp add: val_def wid_def)
  have no: "\<not> (sdf_any s \<and> sdf_delay ?sid s > 0 \<and> sim_time s > 0)" "\<not> forced_signals s ?sid \<noteq> None"
    using free by (simp_all add: free_dst_def)
  let ?s = "with_table ?sid val s"
  have commit: "fused_vector_commit G dst width v x (sdf_any s) s =
      (if (fst bv XOR fst nw) AND m = 0 \<and> (snd bv XOR snd nw) AND m = 0 then (False, s)
       else (True, ?s\<lparr>core := after_signal_write_inner (base (den G)) (sim_time ?s) ?sid True
          ((sync_mirror (base (den G)) ?sid (core ?s))\<lparr>table_modified := True\<rparr>)\<rparr>))"
    unfolding fused_vector_commit_def Let_def split_beta if_not_P[OF no(1)] if_not_P[OF no(2)]
    by (simp add: bv_def nw_def m_def val_def)
  have mbit: "bit m b" if "?lo \<le> b" "b < ?lo + width" for b
    using that lo width_mask_bit[of "b - ?lo" width] w
    by (auto simp: m_def width_mask_def bit_shl64 bit_minus_1_iff split: if_splits)
  show "same_setup s (snd (fused_vector_commit G dst width v x (sdf_any s) s))"
    unfolding commit same_setup_def by simp
  have cases: "table (snd (fused_vector_commit G dst width v x (sdf_any s) s)) =
      (if (fst bv XOR fst nw) AND m = 0 \<and> (snd bv XOR snd nw) AND m = 0 then table s else (table s)(?sid := val))"
    unfolding commit by (auto simp: fun_eq_iff)
  show "wid G (snd (fused_vector_commit G dst width v x (sdf_any s) s)) i = wid G s i"
    unfolding wid_def cases using wval by (simp add: wid_def)
  show "codes G (snd (fused_vector_commit G dst width v x (sdf_any s) s)) i j =
      (if i = ?sid \<and> ?lo \<le> j \<and> j < ?lo + width then pcode (v, x) (j - ?lo) else codes G s i j)"
  proof (cases "(fst bv XOR fst nw) AND m = 0 \<and> (snd bv XOR snd nw) AND m = 0")
    case True
    have "pcode nw b = pcode bv b" if "?lo \<le> b" "b < ?lo + width" for b
    proof -
      have "\<not> bit ((fst bv XOR fst nw) AND m) b" "\<not> bit ((snd bv XOR snd nw) AND m) b" using True by simp_all
      then have "bit (fst bv) b = bit (fst nw) b" "bit (snd bv) b = bit (snd nw) b"
        using mbit[OF that] by (auto simp: bit_and_iff bit_xor_iff)
      then show ?thesis by (simp add: pcode_def)
    qed
    then show ?thesis using True cases new[of j] old[of j] j w(1,2) by auto
  next
    case False
    then show ?thesis using cases new[of j] old[of j] val[of j] j w(2) by auto
  qed
qed

text \<open>The lanes, one after another.\<close>

definition lane_gates :: "vector_gate \<Rightarrow> fused_gate list" where
  "lane_gates vg = map (lane_gate vg) [0..<vector_width vg]"

definition sources_apart :: "vector_gate \<Rightarrow> bool" where
  "sources_apart vg \<longleftrightarrow>
     (\<forall>r\<in>set (vector_srcs vg). vr_sig r \<noteq> vr_sig (vector_dst vg) \<or>
        vr_lo (vector_dst vg) + vector_width vg \<le> vr_lo r \<or> vr_lo r + vector_width vg \<le> vr_lo (vector_dst vg))"

definition dst_in :: "('v, 's, 'c) genv \<Rightarrow> ('v, 'c) gsim \<Rightarrow> vector_gate \<Rightarrow> bool" where
  "dst_in G s vg \<longleftrightarrow> 0 < vector_width vg \<and> wid G s (vr_sig (vector_dst vg)) \<le> 64 \<and>
     vr_lo (vector_dst vg) + vector_width vg \<le> wid G s (vr_sig (vector_dst vg))"

lemma lane_dst: "gate_dst (lane_gate vg i) = lane_ref (vector_dst vg) i"
  by (cases vg) simp_all

lemma lane_inputs: "set (gate_inputs (lane_gate vg i)) = (\<lambda>r. lane_ref r i) ` set (vector_srcs vg)"
  by (cases vg) simp_all

lemma find_lane:
  "find (\<lambda>op. gate_dst op = \<lparr>br_sig = i, br_bit = j\<rparr>) (lane_gates vg) =
     (if i = vr_sig (vector_dst vg) \<and> vr_lo (vector_dst vg) \<le> j \<and> j < vr_lo (vector_dst vg) + vector_width vg
      then Some (lane_gate vg (j - vr_lo (vector_dst vg))) else None)" (is "find ?P _ = _")
proof (cases "i = vr_sig (vector_dst vg) \<and> vr_lo (vector_dst vg) \<le> j \<and> j < vr_lo (vector_dst vg) + vector_width vg")
  case True
  let ?k = "j - vr_lo (vector_dst vg)"
  have "find ?P (lane_gates vg) = Some (lane_gates vg ! ?k)"
    unfolding find_Some_iff using True
    by (intro exI[of _ ?k]) (auto simp: lane_gates_def lane_dst lane_ref_def)
  moreover have "?k < vector_width vg" using True by arith
  ultimately show ?thesis using True by (simp add: lane_gates_def)
next
  case False
  then have "find ?P (lane_gates vg) = None"
    unfolding find_None_iff by (auto simp: lane_gates_def lane_dst lane_ref_def)
  then show ?thesis using False by simp
qed

lemma vector_as_lanes:
  assumes laws: "bit_laws (den G)" "plane_laws G" and src: "sources_in G s vg" and apart: "sources_apart vg"
    and dst: "dst_in G s vg" and free: "free_dst (vr_sig (vector_dst vg)) s" and z: "passes_z G vg"
    and mux: "\<forall>k < vector_width vg. \<not> mux_passes_z (codes G s) vg k" and j: "j < wid G s i"
  shows "codes G (exec_vector_gate G vg s) i j = codes G (fold (exec_fused_gate G) (lane_gates vg) s) i j"
proof -
  let ?d = "vector_dst vg" and ?w = "vector_width vg"
  obtain v x where vx: "snd (snd (vector_gate_eval G s vg)) = (v, x)" by force
  have w: "0 < ?w" "wid G s (vr_sig ?d) \<le> 64" "vr_lo ?d + ?w \<le> wid G s (vr_sig ?d)" using dst by (simp_all add: dst_in_def)
  have ev: "vector_gate_eval G s vg = (?d, ?w, v, x)" using vector_gate_lane(1)[OF laws(2) src z w(1)] vx by simp
  have lane: "pcode (v, x) k = snd (fused_gate_eval G (codes G s) (lane_gate vg k))" if "k < ?w" for k
    using vector_gate_lane(2)[OF laws(2) src z that] mux that vx by simp
  have "codes G (exec_vector_gate G vg s) i j =
      (if i = vr_sig ?d \<and> vr_lo ?d \<le> j \<and> j < vr_lo ?d + ?w then pcode (v, x) (j - vr_lo ?d) else codes G s i j)"
    using vector_commit_ok(1)[OF laws free w(3,2,1) j] by (simp add: exec_vector_gate_def ev)
  moreover have "codes G (fold (exec_fused_gate G) (lane_gates vg) s) i j =
      (case find (\<lambda>op. gate_dst op = \<lparr>br_sig = i, br_bit = j\<rparr>) (lane_gates vg) of
         None \<Rightarrow> codes G s i j | Some op \<Rightarrow> snd (fused_gate_eval G (codes G s) op))"
  proof -
    have "distinct (map gate_dst (lane_gates vg))"
      by (auto simp: lane_gates_def o_def lane_dst lane_ref_def distinct_map intro!: inj_onI)
    moreover have "\<forall>op\<in>set (lane_gates vg). \<forall>op'\<in>set (lane_gates vg). gate_dst op' \<notin> set (gate_inputs op)"
      using apart by (fastforce simp: lane_gates_def lane_dst lane_inputs lane_ref_def sources_apart_def)
    moreover have "\<forall>op\<in>set (lane_gates vg). free_dst (br_sig (gate_dst op)) s \<and> br_bit (gate_dst op) < wid G s (br_sig (gate_dst op))"
      using free w by (auto simp: lane_gates_def lane_dst lane_ref_def)
    ultimately show ?thesis using exec_gates_ok[OF laws(1)] by blast
  qed
  ultimately show ?thesis using lane[of "j - vr_lo ?d"] unfolding find_lane by (auto split: if_splits)
qed

section \<open>The isolated evaluator\<close>

lemma isolated_table:
  assumes "free_dst (br_sig (gate_dst op)) s"
  shows "exec_fused_gate_isolated G op (table s, dirtied) =
    (table (exec_fused_gate G op s),
     if fst (fused_bit_commit G (gate_dst op) (snd (fused_gate_eval G (codes G s) op)) (sdf_any s) s)
     then dirtied @ [br_sig (gate_dst op)] else dirtied)"
proof -
  let ?dst = "gate_dst op"
  obtain c where ev: "fused_gate_eval G (codes G s) op = (?dst, c)" by (metis eval_dst prod.collapse)
  have no: "\<not> (sdf_any s \<and> sdf_delay (br_sig ?dst) s > 0 \<and> sim_time s > 0)" "forced_signals s (br_sig ?dst) = None"
    using assms by (simp_all add: free_dst_def)
  have commit: "fst (fused_bit_commit G ?dst c (sdf_any s) s) = fst (set_bit_code (den G) (br_bit ?dst) c (table s (br_sig ?dst)))"
    "table (snd (fused_bit_commit G ?dst c (sdf_any s) s)) =
       (table s)(br_sig ?dst := snd (set_bit_code (den G) (br_bit ?dst) c (table s (br_sig ?dst))))"
    unfolding fused_bit_commit_def Let_def if_not_P[OF no(1)]
    by (simp_all add: split_beta no(2) with_table_upd del: with_table_sel(1))
  show ?thesis
    by (simp add: exec_fused_gate_isolated_def isolated_write_def isolated_eval ev split_beta exec_fused_gate_def commit)
qed

section \<open>Coalesced runs\<close>

text \<open>The members of a run: its \<open>n\<close> gates of one shape, in the order of their destination bits.\<close>

definition run_members :: "('v, 's, 'c) genv \<Rightarrow> nat \<times> v_shape \<Rightarrow> nat \<Rightarrow> fused_gate list \<Rightarrow> bool" where
  "run_members G key lo ops \<longleftrightarrow>
     (\<forall>i < length ops. coalesce_key G (ops ! i) = Some key \<and> br_bit (gate_dst (ops ! i)) = lo + i)"

lemma coalesce_gates:
  assumes "run_members G key lo ops" and run: "coalesce_run widths key lo (length ops) = Some vg"
  shows "lane_gates vg = ops"
proof (rule nth_equalityI)
  have "2 \<le> length ops" using run by (auto simp: coalesce_run_def split: prod.splits if_splits)
  then have w: "vector_width vg = length ops"
    using coalesce_lane(2)[OF _ _ run, of G "ops ! 0" 0] assms(1) unfolding run_members_def by fastforce
  then show len: "length (lane_gates vg) = length ops" by (simp add: lane_gates_def)
  show "lane_gates vg ! i = ops ! i" if "i < length (lane_gates vg)" for i
    using coalesce_lane(1)[OF _ _ run, of G "ops ! i" i] assms(1) that len w by (simp add: run_members_def lane_gates_def)
qed

lemma coalesce_places:
  assumes run: "coalesce_run widths (dst, sh) lo n = Some vg"
  shows "2 \<le> n" "n \<le> 64" "vector_width vg = n" "vector_dst vg = \<lparr>vr_sig = dst, vr_lo = lo\<rparr>" "dst < length widths"
    "widths ! dst \<le> 64" "lo + n \<le> widths ! dst"
    "r \<in> set (vector_srcs vg) \<Longrightarrow> \<exists>src off. source_run widths dst lo n src off = Some r"
  using run by (auto simp: coalesce_run_def Let_def split: if_splits v_shape.splits option.splits) blast+

text \<open>A run keeps its sources within their signals and apart from the bits it writes.\<close>

lemma coalesce_setup:
  assumes run: "coalesce_run widths (dst, sh) lo n = Some vg" and ws: "\<forall>sid < length widths. widths ! sid = wid G s sid"
  shows "sources_in G s vg" "sources_apart vg" "dst_in G s vg"
proof -
  note pl = coalesce_places[OF run]
  have src: "vr_lo r + n \<le> wid G s (vr_sig r)"
    "vr_sig r \<noteq> dst \<or> lo + n \<le> vr_lo r \<or> vr_lo r + n \<le> lo" if r: "r \<in> set (vector_srcs vg)" for r
  proof -
    obtain src off where sr: "source_run widths dst lo n src off = Some r" using pl(8)[OF r] by blast
    show "vr_lo r + n \<le> wid G s (vr_sig r)" using source_runE(1,3,4)[OF sr] ws pl(1) by fastforce
    show "vr_sig r \<noteq> dst \<or> lo + n \<le> vr_lo r \<or> vr_lo r + n \<le> lo" using source_runE(1,5)[OF sr] pl(1) by auto
  qed
  show "sources_in G s vg" using src(1) pl(2,3) by (auto simp: sources_in_def wid_def)
  show "sources_apart vg" using src(2) pl(3,4) by (auto simp: sources_apart_def)
  show "dst_in G s vg" using pl ws by (simp add: dst_in_def)
qed

end
