(* ===== verification/Gate_Commits.thy ===== *)
theory Gate_Commits
  imports Gates_Exec
begin

text \<open>
  The fast commits: the commit of the gate lane, with its observation bits computed beforehand, and the
  planned commit of one-bit signals do what the generic commit does, on nets that are not forced.  On a
  forced net they do not: they check the expressions of active forces only, and a force of a constant
  has none.
\<close>

section \<open>A write that no global observer sees\<close>

lemma note_armed_globals [simp]:
  "dump_dirty_active (note_armed_write sid o') = dump_dirty_active o'"
  "has_active_forces (note_armed_write sid o') = has_active_forces o'"
  "event_measure (note_armed_write sid o') = event_measure o'" "armed_edge (note_armed_write sid o') = armed_edge o'"
  by (simp_all add: note_armed_write_def Let_def split: option.split prod.split)

lemma note_edge_globals [simp]:
  "dump_dirty_active (note_edge_write sid o') = dump_dirty_active o'"
  "has_active_forces (note_edge_write sid o') = has_active_forces o'"
  "event_measure (note_edge_write sid o') = event_measure o'" "armed_edge (note_edge_write sid o') = armed_edge o'"
  by (simp_all add: note_edge_write_def Let_def split: option.split)

lemma inner_notes:
  assumes "plans_ok (observers s)" and "sid < table_len (observers s)" and "\<not> profile_report (observers s)"
    and "\<not> global_observer False s"
  shows "after_signal_write_inner E now sid True s =
    s\<lparr>observers := note_edge_write sid (note_armed_write sid (observers s))\<rparr>"
proof -
  have g: "value_trace_ids (observers s) = None" "\<not> dump_dirty_active (observers s)" "\<not> has_active_forces (observers s)"
    "\<not> event_measure (observers s) \<or> armed_edge (observers s)"
    using assms(4) by (auto simp: global_observer_def Let_def)
  let ?o = "note_edge_write sid (note_armed_write sid (observers s))"
  let ?c = "s\<lparr>observers := ?o\<rparr>"
  have "vcd_mark sid ?o = ?o" "bump_force_epoch sid ?o = ?o" "stamp_change sid ?o = ?o"
    using g by (simp_all add: vcd_idle force_idle stamp_idle)
  then show ?thesis
    unfolding inner_observes_all[OF assms(1-3)] after_signal_write_observed_def Let_def if_True trace_idle[OF g(1)]
    by simp
qed

text \<open>Two states that differ at most in the representation of a value.\<close>

definition same_codes :: "('v, 's, 'c) genv \<Rightarrow> ('v, 'c) gsim \<Rightarrow> ('v, 'c) gsim \<Rightarrow> bool" where
  "same_codes G s t \<longleftrightarrow>
     (\<forall>i j. j < wid G s i \<longrightarrow> codes G s i j = codes G t i j) \<and> (\<forall>i. wid G s i = wid G t i) \<and>
     s\<lparr>core := (core s)\<lparr>signal_table := table t\<rparr>\<rparr> = t"

lemma same_codes_upd:
  assumes "width_of (den G) v = width_of (den G) w"
    and "\<And>j. j < width_of (den G) v \<Longrightarrow> get_bit_code (den G) v j = get_bit_code (den G) w j"
  shows "same_codes G (with_table sid v s) (with_table sid w s)"
  using assms by (auto simp: same_codes_def wid_def with_table_def set_signal_def)

lemma with_table_id: "with_table sid (table s sid) s = s"
  by (simp add: with_table_def set_signal_def)

section \<open>Nets that are not forced\<close>

text \<open>What the commits rely on.\<close>

definition commit_ok :: "('v, 's, 'c) genv \<Rightarrow> nat \<Rightarrow> ('v, 'c) gsim \<Rightarrow> bool" where
  "commit_ok G sid s \<longleftrightarrow>
     plans_ok (observers (core s)) \<and> sid < table_len (observers (core s)) \<and> \<not> profile_report (observers (core s))"

lemma generic_commit:
  assumes ok: "commit_ok G (br_sig dst) s" and g: "\<not> observed_globally s" and free: "free_dst (br_sig dst) s"
    and sdf: "sdf = sdf_any s"
  shows "fused_bit_commit G dst c sdf s =
    (let (ch, v) = set_bit_code (den G) (br_bit dst) c (table s (br_sig dst)); t = with_table (br_sig dst) v s
     in if ch then (True, t\<lparr>core := (core t)\<lparr>table_modified := True,
            observers := note_edge_write (br_sig dst) (note_armed_write (br_sig dst) (observers (core s)))\<rparr>\<rparr>)
        else (False, t))"
proof -
  have no: "\<not> (sdf \<and> sdf_delay (br_sig dst) s > 0 \<and> sim_time s > 0)" "forced_signals s (br_sig dst) = None"
    using free sdf by (simp_all add: free_dst_def)
  have inline: "signal_inline_bits (core s) = []"
    using g by (auto simp: observed_globally_def global_observer_def Let_def)
  let ?v = "snd (set_bit_code (den G) (br_bit dst) c (table s (br_sig dst)))"
  let ?t = "with_table (br_sig dst) ?v s"
  let ?c = "(sync_mirror (base (den G)) (br_sig dst) (core ?t))\<lparr>table_modified := True\<rparr>"
  have c: "?c = (core ?t)\<lparr>table_modified := True\<rparr>" "observers ?c = observers (core s)"
    using inline by (simp_all add: sync_mirror_def with_table_def set_signal_def)
  have glob: "global_observer False ?c = global_observer False (core s)"
    using inline by (simp add: global_observer_def c(1)) (simp add: with_table_def set_signal_def)
  have "after_signal_write_inner E now (br_sig dst) True ?c =
      ?c\<lparr>observers := note_edge_write (br_sig dst) (note_armed_write (br_sig dst) (observers ?c))\<rparr>" for E now
    using ok g glob by (intro inner_notes) (simp_all add: commit_ok_def observed_globally_def c(2))
  then have run: "after_signal_write_inner (base (den G)) (sim_time ?t) (br_sig dst) True ?c =
      ?c\<lparr>observers := note_edge_write (br_sig dst) (note_armed_write (br_sig dst) (observers (core s)))\<rparr>"
    unfolding c(2) .
  show ?thesis
    unfolding fused_bit_commit_def Let_def if_not_P[OF no(1)] with_table_sel(4) no(2) split_beta option.case run
    by (simp add: c(1))
qed

lemma gate_obs_bits:
  "gate_obs sid ws o' AND 1 \<noteq> 0 \<longleftrightarrow> armed_input_set sid o'"
  "gate_obs sid ws o' AND 2 \<noteq> 0 \<longleftrightarrow> edge_pos sid o' \<noteq> None"
  "gate_obs sid ws o' AND 4 \<noteq> 0 \<longleftrightarrow> (if sid < length ws then ws ! sid else 65) > 64"
  by (auto simp: gate_obs_def)

lemma pcode_set:
  assumes "b < 64" and "c < 4"
  shows "pcode (if odd c then v OR shl64 1 b else v AND NOT (shl64 1 b),
     if 2 \<le> c mod 4 then x OR shl64 1 b else x AND NOT (shl64 1 b)) j = (if j = b then c else pcode (v, x) j)"
proof -
  have m: "bit (shl64 1 b :: u64) j \<longleftrightarrow> j = b" using assms(1) by (auto simp: bit_shl64 bit_1_iff)
  have c: "c = 0 \<or> c = 1 \<or> c = 2 \<or> c = 3" using assms(2) by auto
  have j: "bit v j \<Longrightarrow> j < 64" "bit x j \<Longrightarrow> j < 64" by (auto dest: bit_imp_le_length)
  show ?thesis using c m j assms(1) by (auto simp: pcode_def bit_or_iff bit_and_iff bit_not_iff)
qed

lemma cur_code:
  assumes "b < 64"
  shows "unat (shl64 (shr64 x b AND 1) 1 OR (shr64 v b AND 1)) = pcode (v, x) b"
  using lane_code_pcode[OF assms, of v x] by (simp add: lane_code_def or.commute)

text \<open>The commit, given how it sets the bit.\<close>

definition noted :: "nat \<Rightarrow> ('v, 'c) gsim \<Rightarrow> ('v, 'c) gsim" where
  "noted sid t = t\<lparr>core := (core t)\<lparr>table_modified := True,
     observers := note_edge_write sid (note_armed_write sid (observers (core t)))\<rparr>\<rparr>"

lemma noted_codes:
  assumes "same_codes G s t"
  shows "same_codes G (noted sid s) (noted sid t)"
proof -
  define T where "T = table t"
  have t: "t = s\<lparr>core := (core s)\<lparr>signal_table := T\<rparr>\<rparr>" using assms by (simp add: same_codes_def T_def)
  have "(noted sid s)\<lparr>core := (core (noted sid s))\<lparr>signal_table := T\<rparr>\<rparr> = noted sid t"
    unfolding noted_def t by simp
  moreover have "table (noted sid t) = table t" "table (noted sid s) = table s" by (simp_all add: noted_def)
  ultimately show ?thesis using assms by (simp add: same_codes_def wid_def T_def)
qed

lemma noted_alt:
  "(with_table sid v s)\<lparr>core := (core (with_table sid v s))\<lparr>table_modified := True,
     observers := note_edge_write sid (note_armed_write sid (observers (core s)))\<rparr>\<rparr> = noted sid (with_table sid v s)"
  by (simp add: noted_def with_table_def set_signal_def)

lemma same_codes_sym: "same_codes G s t \<Longrightarrow> same_codes G t s"
proof -
  assume a: "same_codes G s t"
  then have t: "s\<lparr>core := (core s)\<lparr>signal_table := table t\<rparr>\<rparr> = t" by (simp add: same_codes_def)
  have "t\<lparr>core := (core t)\<lparr>signal_table := table s\<rparr>\<rparr> = s" by (subst (1 2) t[symmetric]) simp
  then show ?thesis using a by (simp add: same_codes_def wid_def)
qed

text \<open>Any setter that agrees with \<^verbatim>\<open>set_bit_code\<close> on the codes commits the same.\<close>

lemma commit_as_generic:
  assumes laws: "bit_laws (den G)" and ok: "commit_ok G (br_sig dst) s" and g: "\<not> observed_globally s"
    and free: "free_dst (br_sig dst) s" and b: "br_bit dst < wid G s (br_sig dst)" and c: "c < 4"
    and w: "width_of (den G) v = wid G s (br_sig dst)"
    and bits: "\<And>j. j < wid G s (br_sig dst) \<Longrightarrow>
      get_bit_code (den G) v j = (if j = br_bit dst then c else codes G s (br_sig dst) j)"
  shows "codes G s (br_sig dst) (br_bit dst) \<noteq> c \<Longrightarrow> fst (fused_bit_commit G dst c (sdf_any s) s) \<and>
      same_codes G (noted (br_sig dst) (with_table (br_sig dst) v s)) (snd (fused_bit_commit G dst c (sdf_any s) s))"
    and "codes G s (br_sig dst) (br_bit dst) = c \<Longrightarrow> \<not> fst (fused_bit_commit G dst c (sdf_any s) s) \<and>
      same_codes G s (snd (fused_bit_commit G dst c (sdf_any s) s)) \<and>
      same_codes G (with_table (br_sig dst) v s) (snd (fused_bit_commit G dst c (sdf_any s) s))"
proof -
  let ?sid = "br_sig dst" and ?b = "br_bit dst"
  obtain ch u where u: "set_bit_code (den G) ?b c (table s ?sid) = (ch, u)" by force
  have b': "?b < width_of (den G) (table s ?sid)" using b by (simp add: wid_def)
  have ch: "ch \<longleftrightarrow> codes G s ?sid ?b \<noteq> c" using bit_lawsD(6)[OF laws b' c] u by simp
  have ub: "get_bit_code (den G) u j = (if j = ?b then c else codes G s ?sid j)" for j
    using bit_lawsD(1)[OF laws b' c, of j] u by simp
  have uw: "width_of (den G) u = wid G s ?sid" using bit_lawsD(2)[OF laws, of ?b c "table s ?sid"] u by (simp add: wid_def)
  have vu: "same_codes G (with_table ?sid v s) (with_table ?sid u s)"
    using bits ub uw w by (intro same_codes_upd) auto
  have commit: "fused_bit_commit G dst c (sdf_any s) s =
      (if ch then (True, noted ?sid (with_table ?sid u s)) else (False, with_table ?sid u s))"
    unfolding generic_commit[OF ok g free refl] u Let_def prod.case noted_alt ..
  show "fst (fused_bit_commit G dst c (sdf_any s) s) \<and>
      same_codes G (noted ?sid (with_table ?sid v s)) (snd (fused_bit_commit G dst c (sdf_any s) s))" if "codes G s ?sid ?b \<noteq> c"
    using that ch commit noted_codes[OF vu] by simp
  show "\<not> fst (fused_bit_commit G dst c (sdf_any s) s) \<and> same_codes G s (snd (fused_bit_commit G dst c (sdf_any s) s)) \<and>
      same_codes G (with_table ?sid v s) (snd (fused_bit_commit G dst c (sdf_any s) s))" if e: "codes G s ?sid ?b = c"
  proof -
    have "same_codes G (with_table ?sid (table s ?sid) s) (with_table ?sid u s)"
      using ub uw e by (intro same_codes_upd) (auto simp: wid_def)
    then show ?thesis using ch commit e vu by (simp add: with_table_id)
  qed
qed

lemma lane_commit_ok:
  assumes laws: "bit_laws (den G)" "plane_laws G" and ok: "commit_ok G (br_sig dst) s" and free: "free_dst (br_sig dst) s"
    and b: "br_bit dst < wid G s (br_sig dst)" and c: "c < 4"
    and ws: "br_sig dst < length ws" "ws ! br_sig dst = wid G s (br_sig dst)"
  shows "rel_prod (=) (same_codes G)
    (gate_lane_commit G dst c (gate_obs (br_sig dst) ws (observers (core s))) (gate_lane_slow s) s)
    (fused_bit_commit G dst c (sdf_any s) s)"
proof (cases "gate_lane_slow s \<or> gate_obs (br_sig dst) ws (observers (core s)) AND 4 \<noteq> 0")
  case True
  have "same_codes G t t" for t by (simp add: same_codes_def)
  then show ?thesis using True by (simp add: gate_lane_commit_def Let_def rel_prod_sel)
next
  case False
  let ?sid = "br_sig dst" and ?b = "br_bit dst" and ?V = "vo (base (den G))"
  have g: "\<not> observed_globally s" and w: "wid G s ?sid \<le> 64"
    using False ws by (auto simp: gate_lane_slow_def gate_obs_bits split: if_splits)
  obtain v x where vx: "raw_bits ?V (table s ?sid) = (v, x)" by force
  have cur: "pcode (v, x) j = codes G s ?sid j" if "j < wid G s ?sid" for j
    using plane_lawsD(2)[OF laws(2), of "table s ?sid" j] w that vx by (simp add: wid_def)
  have b64: "?b < 64" using b w by simp
  note curb = cur_code[OF b64, of x v, unfolded cur[OF b]]
  define nv where "nv = (if odd c then v OR shl64 1 ?b else v AND NOT (shl64 1 ?b))"
  define nx where "nx = (if 2 \<le> c mod 4 then x OR shl64 1 ?b else x AND NOT (shl64 1 ?b))"
  obtain e where e: "set_inline_bits ?V nv nx (table s ?sid) = (True, e)"
    using plane_lawsD(3)[OF laws(2)] w by (metis (full_types) prod.collapse wid_def)
  have bits: "get_bit_code (den G) e j = (if j = ?b then c else codes G s ?sid j)" if "j < wid G s ?sid" for j
    using plane_lawsD(5)[OF laws(2), of "table s ?sid" j nv nx] w that e pcode_set[OF b64 c, of v x j] cur[OF that]
    by (simp add: wid_def nv_def nx_def)
  have we: "width_of (den G) e = wid G s ?sid"
    using plane_lawsD(4)[OF laws(2), of "table s ?sid" nv nx] w e by (simp add: wid_def)
  note generic = commit_as_generic[OF laws(1) ok g free b c we bits]
  have lane: "gate_lane_commit G dst c (gate_obs ?sid ws (observers (core s))) (gate_lane_slow s) s =
      (if codes G s ?sid ?b = c then (False, s) else (True, noted ?sid (with_table ?sid e s)))"
    unfolding gate_lane_commit_def Let_def if_not_P[OF False] vx prod.case curb nv_def[symmetric] nx_def[symmetric] e
      gate_obs_bits(1,2) noted_def
    by (cases "armed_input_set ?sid (observers (core s))"; cases "edge_pos ?sid (observers (core s))")
      (simp_all add: note_armed_idle note_edge_idle with_table_def set_signal_def)
  show ?thesis using generic by (cases "codes G s ?sid ?b = c") (simp_all add: lane rel_prod_sel)
qed

text \<open>One-bit destinations under a commit plan.\<close>

lemma planned_commit_ok:
  assumes laws: "bit_laws (den G)" "plane_laws G" and ok: "commit_ok G sid s" and free: "free_dst sid s"
    and w: "wid G s sid = 1" and c: "c < 4" and st: "fused_batch_commit_state s = Some (edge, armed)"
  shows "rel_prod (=) (same_codes G) (fused_scalar_commit_planned G sid c (sdf_any s) edge armed s)
    (fused_bit_commit G \<lparr>br_sig = sid, br_bit = 0\<rparr> c (sdf_any s) s)"
proof -
  let ?o = "observers (core s)" and ?dst = "\<lparr>br_sig = sid, br_bit = 0\<rparr> :: bit_ref"
  have g: "\<not> observed_globally s" and plan: "signal_commit_plan ?o \<noteq> []"
    and ea: "edge = edge_active ?o" "armed = armed_edge ?o"
    using st by (auto simp: fused_batch_commit_state_def Let_def split: if_splits)
  have exact: "plan_exact ?o" "sid < table_len ?o" using ok plan by (simp_all add: commit_ok_def plans_ok_def)
  note needs = plan_needs[OF exact]
  obtain ch v where v: "set_scalar_code G c (table s sid) = (ch, v)" by force
  have w1: "width_of (den G) (table s sid) = 1" using w by (simp add: wid_def)
  have ch: "ch \<longleftrightarrow> codes G s sid 0 \<noteq> c" using plane_lawsD(6)[OF laws(2) w1 c] v by simp
  have wv: "width_of (den G) v = wid G s (br_sig ?dst)" using plane_lawsD(7)[OF laws(2) w1 c] v w by simp
  have bits: "get_bit_code (den G) v j = (if j = br_bit ?dst then c else codes G s (br_sig ?dst) j)"
    if "j < wid G s (br_sig ?dst)" for j
    using plane_lawsD(8)[OF laws(2) w1 c] v w that by simp
  have no: "\<not> (sdf_any s \<and> sdf_delay sid s > 0 \<and> sim_time s > 0)" using free by (simp add: free_dst_def)
  have n: "armed \<and> plan_of sid ?o AND 2 \<noteq> 0 \<longleftrightarrow> needs_armed sid ?o" "edge \<and> plan_of sid ?o AND 1 \<noteq> 0 \<longleftrightarrow> needs_edge sid ?o"
    using needs ea by blast+
  have o: "\<not> needs_armed sid ?o \<Longrightarrow> note_armed_write sid ?o = ?o"
    "\<not> needs_edge sid ?o \<Longrightarrow> note_edge_write sid (note_armed_write sid ?o) = note_armed_write sid ?o"
    by (auto simp: needs_armed_def needs_edge_def note_armed_idle note_edge_idle)
  have obs: "observers (core (with_table sid v s)) = ?o" by (simp add: with_table_def set_signal_def)
  have planned: "fused_scalar_commit_planned G sid c (sdf_any s) edge armed s =
      (if ch then (True, noted sid (with_table sid v s)) else (False, with_table sid v s))"
    unfolding fused_scalar_commit_planned_def Let_def if_not_P[OF no] v prod.case noted_def obs
    using o by (cases "needs_armed sid ?o"; cases "needs_edge sid ?o") (simp_all add: obs n)
  have pre: "commit_ok G (br_sig ?dst) s" "free_dst (br_sig ?dst) s" "br_bit ?dst < wid G s (br_sig ?dst)"
    using ok free w by simp_all
  note generic = commit_as_generic[OF laws(1) pre(1) g pre(2,3) c wv bits]
  show ?thesis using generic w ch by (cases "codes G s sid 0 = c") (simp_all add: planned rel_prod_sel)
qed

section \<open>Forced nets\<close>

text \<open>On a forced net the generic commit leaves the forced level; the lane commit replaces it.\<close>

lemma lane_overrides_force:
  assumes laws: "bit_laws (den G)" "plane_laws G" and f: "forced_signals s (br_sig dst) = Some fv"
    and fast: "\<not> gate_lane_slow s" "wid G s (br_sig dst) \<le> 64" "ob AND 4 = 0"
    and b: "br_bit dst < wid G s (br_sig dst)" and c: "c < 4"
    and held: "codes G s (br_sig dst) (br_bit dst) = get_bit_code (den G) fv (br_bit dst)"
    and differs: "get_bit_code (den G) fv (br_bit dst) \<noteq> c"
  shows "codes G (snd (gate_lane_commit G dst c ob (gate_lane_slow s) s)) (br_sig dst) (br_bit dst) = c"
    and "codes G (snd (fused_bit_commit G dst c (sdf_any s) s)) (br_sig dst) (br_bit dst) = get_bit_code (den G) fv (br_bit dst)"
proof -
  let ?sid = "br_sig dst" and ?b = "br_bit dst" and ?V = "vo (base (den G))"
  have no: "\<not> (sdf_any s \<and> sdf_delay ?sid s > 0 \<and> sim_time s > 0)" and nf: "\<not> (gate_lane_slow s \<or> ob AND 4 \<noteq> 0)"
    using fast(1,3) by (auto simp: gate_lane_slow_def)
  have b': "?b < width_of (den G) (table s ?sid)" "?b < 64" using b fast(2) by (simp_all add: wid_def)
  obtain v x where vx: "raw_bits ?V (table s ?sid) = (v, x)" by force
  have "pcode (v, x) ?b = codes G s ?sid ?b" using plane_lawsD(2)[OF laws(2) _ b'(1)] fast(2) vx by (simp add: wid_def)
  then have ne: "\<not> pcode (v, x) ?b = c" using held differs by simp
  define nv where "nv = (if odd c then v OR shl64 1 ?b else v AND NOT (shl64 1 ?b))"
  define nx where "nx = (if 2 \<le> c mod 4 then x OR shl64 1 ?b else x AND NOT (shl64 1 ?b))"
  obtain e where e: "set_inline_bits ?V nv nx (table s ?sid) = (True, e)"
    using plane_lawsD(3)[OF laws(2)] fast(2) by (metis (full_types) prod.collapse wid_def)
  have "table (snd (gate_lane_commit G dst c ob (gate_lane_slow s) s)) ?sid = e"
    unfolding gate_lane_commit_def Let_def if_not_P[OF nf] vx prod.case cur_code[OF b'(2), of x v] if_not_P[OF ne]
      nv_def[symmetric] nx_def[symmetric] e
    by (simp add: with_table_def set_signal_def)
  then show "codes G (snd (gate_lane_commit G dst c ob (gate_lane_slow s) s)) ?sid ?b = c"
    using plane_lawsD(5)[OF laws(2) _ b'(1), of nv nx] fast(2) e pcode_set[OF b'(2) c, of v x ?b]
    by (simp add: wid_def nv_def nx_def)
  obtain ch u where u: "set_bit_code (den G) ?b c (table s ?sid) = (ch, u)" by force
  have "ch" using bit_lawsD(6)[OF laws(1) b'(1) c] u held differs by simp
  then have "table (snd (fused_bit_commit G dst c (sdf_any s) s)) ?sid = snd (set_bit_code (den G) ?b (get_bit_code (den G) fv ?b) u)"
    unfolding fused_bit_commit_def Let_def if_not_P[OF no] u by (simp add: f)
  then show "codes G (snd (fused_bit_commit G dst c (sdf_any s) s)) ?sid ?b = get_bit_code (den G) fv ?b"
    using bit_lawsD(1)[OF laws(1) _ bit_lawsD(7)[OF laws(1)], of ?b u fv ?b ?b] bit_lawsD(2)[OF laws(1), of ?b c "table s ?sid"] u b'
    by simp
qed

end
