(* ===== verification/Gate_Lut3.thy ===== *)
theory Gate_Lut3
  imports Gates
begin

text \<open>
  Combinational primitives as gates: the 64-bit table that \<^verbatim>\<open>udp.rs\<close> packs from the compiled transition
  table of a primitive with at most three inputs, two bits for each vector of input levels.
\<close>

definition pack_lut3 :: "nat list \<Rightarrow> nat \<Rightarrow> u64" where
  "pack_lut3 lut states =
     fold (\<lambda>cur tbl. tbl OR shl64 (of_nat (lut ! ((2 * states + (states - 1)) * states + cur))) (cur * 2)) [0..<states] 0"

section \<open>The packed entries\<close>

lemma entry_bit: "e < 4 \<Longrightarrow> bit (of_nat e :: u64) i \<longleftrightarrow> i < 2 \<and> bit e i"
proof -
  assume "e < 4"
  then have "take_bit 2 e = e" by (simp add: take_bit_nat_eq_self)
  then have "bit e i \<Longrightarrow> i < 2" by (metis bit_take_bit_iff)
  then show ?thesis by (auto simp: bit_of_nat_iff)
qed

lemma pack_bits:
  assumes "\<And>k. k < n \<Longrightarrow> e k < 4" and "n \<le> 32"
  shows "bit (fold (\<lambda>k tbl. tbl OR shl64 (of_nat (e k)) (k * 2)) [0..<n] (0 :: u64)) i \<longleftrightarrow>
    i div 2 < n \<and> bit (e (i div 2)) (i mod 2)"
  using assms
proof (induction n)
  case (Suc n)
  have n: "n * 2 < 64" using Suc.prems(2) by simp
  have half: "i div 2 = n \<longleftrightarrow> n * 2 \<le> i \<and> i - n * 2 < 2" by presburger
  have rest: "i - n * 2 = i mod 2" if "i div 2 = n" using that by presburger
  have lim: "i < 64" if "i div 2 = n" using that Suc.prems(2) by presburger
  have "bit (shl64 (of_nat (e n)) (n * 2) :: u64) i \<longleftrightarrow> i div 2 = n \<and> bit (e n) (i mod 2)"
    unfolding bit_shl64[OF n] entry_bit[OF Suc.prems(1)[of n, simplified]] using half rest lim by metis
  moreover have "bit (fold (\<lambda>k tbl. tbl OR shl64 (of_nat (e k)) (k * 2)) [0..<n] (0 :: u64)) i \<longleftrightarrow>
      i div 2 < n \<and> bit (e (i div 2)) (i mod 2)"
    using Suc.prems by (intro Suc.IH) simp_all
  ultimately show ?case by (auto simp: bit_or_iff less_Suc_eq)
qed simp

lemma packed_entry:
  assumes "\<And>k. k < n \<Longrightarrow> e k < 4" and "n \<le> 32" and "k < n"
  shows "unat (shr64 (fold (\<lambda>k tbl. tbl OR shl64 (of_nat (e k)) (k * 2)) [0..<n] (0 :: u64)) (k * 2) AND 3) = e k"
proof -
  have k: "k * 2 < 64" using assms(2,3) by simp
  have e: "e k < 4" using assms(1,3) by simp
  let ?p = "fold (\<lambda>k tbl. tbl OR shl64 (of_nat (e k)) (k * 2)) [0..<n] (0 :: u64)"
  have three: "w AND 3 = take_bit 2 w" for w :: u64
    by (simp add: take_bit_eq_mask mask_eq_exp_minus_1)
  have packed: "bit ?p (k * 2 + i) \<longleftrightarrow> (k * 2 + i) div 2 < n \<and> bit (e ((k * 2 + i) div 2)) ((k * 2 + i) mod 2)" for i
    using assms(1,2) by (rule pack_bits)
  have "shr64 ?p (k * 2) AND 3 = (of_nat (e k) :: u64)"
  proof (rule bit_word_eqI)
    fix i
    have "(k * 2 + i) div 2 = k \<and> (k * 2 + i) mod 2 = i" if "i < 2" using that by auto
    then show "bit (shr64 ?p (k * 2) AND 3) i \<longleftrightarrow> bit (of_nat (e k) :: u64) i"
      unfolding three bit_take_bit_iff bit_shr64[OF k] packed entry_bit[OF e] using assms(3) by metis
  qed
  then show ?thesis using e by (simp add: unat_of_nat)
qed

section \<open>The gate is the primitive\<close>

lemma lut3_index:
  "fst (fold (\<lambda>input (idx, place). (idx + min (rd_ref rd input) 2 * place, place * 3)) inputs (0, 1)) =
   encode_ternary (map (\<lambda>r. min (rd_ref rd r) 2) inputs)"
proof -
  have "fold (\<lambda>input (idx, place). (idx + min (rd_ref rd input) 2 * place, place * 3)) inputs (0, 1) =
      fold (\<lambda>c (acc, place). (acc + c * place, place * 3)) (map (\<lambda>r. min (rd_ref rd r) 2) inputs) (0, 1)"
    by (simp add: fold_map comp_def)
  then show ?thesis by (simp add: encode_fold)
qed

lemma lut3_rows:
  assumes lut: "compile_udp_transition_lut rws n False = Some (lut, states)" and n: "n \<le> 3" "n \<le> length inputs"
  shows "lut3_bit rd inputs n (pack_lut3 lut states) =
    udp_next rws (map (\<lambda>r. min (rd_ref rd r) 2) (take n inputs)) (replicate n 2) 2 False"
proof -
  let ?cur = "map (\<lambda>r. min (rd_ref rd r) 2) (take n inputs)"
  have s: "states = 3 ^ n" using compile_lut_eq[OF lut] by simp
  have "n \<in> {0, 1, 2, 3}" using n(1) by auto
  then have s32: "states \<le> 32" by (auto simp: s)
  have len: "length ?cur = n" "\<forall>c\<in>set ?cur. c < 3" using n(2) by auto
  have k: "encode_ternary ?cur < states" using encode_bound[OF len(2)] by (simp only: len(1) s)
  have px: "states - 1 < states" by (simp add: s)
  have px_enc: "states - 1 = encode_ternary (replicate n 2)" using encode_all_x[of n] by (simp add: s)
  have px_dec: "decode_ternary n (states - 1) = replicate n 2"
    unfolding px_enc using decode_encode[of "replicate n 2"] by simp
  have e: "lut ! ((2 * states + (states - 1)) * states + k) = udp_next rws (decode_ternary n k) (decode_ternary n (states - 1)) 2 False"
    if "k < states" for k
    using compile_lut_nth(3)[OF lut _ px that, of 2] by (simp add: lut_index_def)
  have lt: "lut ! ((2 * states + (states - 1)) * states + k) < 4" if "k < states" for k
    using e[OF that] udp_next_lt[of 2 rws "decode_ternary n k" "decode_ternary n (states - 1)" False] by simp
  have "lut3_bit rd inputs n (pack_lut3 lut states) =
      unat (shr64 (pack_lut3 lut states) (encode_ternary ?cur * 2) AND 3)"
    unfolding lut3_bit_def by (subst lut3_index[symmetric]) (simp add: split_beta Let_def)
  also have "\<dots> = lut ! ((2 * states + (states - 1)) * states + encode_ternary ?cur)"
    unfolding pack_lut3_def using packed_entry[OF lt s32 k] by simp
  also have "\<dots> = udp_next rws ?cur (replicate n 2) 2 False"
    unfolding e[OF k] px_dec using decode_encode[OF len(2)] by (simp only: len(1))
  finally show ?thesis .
qed

text \<open>The rws of a combinational primitive: levels only, and an output.\<close>

definition level_rows :: "udp_row list \<Rightarrow> bool" where
  "level_rows rws \<longleftrightarrow> (\<forall>row\<in>set rws. (\<forall>sy\<in>set (row_inputs row). \<not> is_edge sy) \<and> row_output row \<noteq> OutNoChange)"

lemma find_edge_levels: "\<forall>sy\<in>set sys. \<not> is_edge sy \<Longrightarrow> find_edge i e sys = Some e"
  by (induction sys arbitrary: i) auto

lemma level_match:
  assumes "\<forall>sy\<in>set (row_inputs row). \<not> is_edge sy"
  shows "udp_match_row row cur prev st False = udp_match_row row cur prev' st' False"
  unfolding udp_match_row_def find_edge_levels[OF assms] by simp

lemma level_rows_next:
  assumes "level_rows rws"
  shows "udp_next rws cur prev st False = udp_next rws cur prev' st' False"
proof -
  have "first_match rws cur prev st False = first_match rws cur prev' st' False \<and> first_match rws cur prev st False \<noteq> Some None"
    using assms
  proof (induction rws)
    case (Cons row rws)
    then have "udp_match_row row cur prev st False = udp_match_row row cur prev' st' False"
      by (intro level_match) (simp add: level_rows_def)
    moreover have "udp_match_row row cur prev' st' False \<noteq> Some None"
      using Cons.prems by (auto simp: udp_match_row_def level_rows_def row_level_def split: option.splits udp_out.splits)
    moreover have "level_rows rws" using Cons.prems by (simp add: level_rows_def)
    ultimately show ?case using Cons.IH by (auto split: option.splits)
  qed simp
  then show ?thesis by (auto simp: udp_next_def split: option.splits)
qed

end
