(* ===== verification/Gate_Control.thy ===== *)
theory Gate_Control
  imports Gates_Exec
begin

text \<open>
  Gates that ignore their high-fanout input while the other input holds the controlling value
  (\<^verbatim>\<open>profiling.rs\<close>, \<^verbatim>\<open>CtlGate\<close>): the edges from the high-fanout input carry the mask 0 then, so that its
  changes do not wake the gate.  An edge is its mask; the masks are those of \<^verbatim>\<open>comb_dep_edges\<close>.
\<close>

record ctl_gate =
  ctl_op :: fused_gate
  ctl_other :: bit_ref
  ctl_hot :: nat
  ctl_pos :: nat
  ctl_npos :: nat
  ctl_smask :: u64
  ctl_val :: nat

text \<open>Set the masks of a range of edges, if the range exists.\<close>

definition set_masks :: "nat \<Rightarrow> nat \<Rightarrow> u64 \<Rightarrow> u64 list \<Rightarrow> u64 list" where
  "set_masks lo hi m es =
     (if lo \<le> hi \<and> hi \<le> length es then take lo es @ replicate (hi - lo) m @ drop hi es else es)"

definition bit_chg_mask :: "nat \<Rightarrow> nat \<Rightarrow> ('v, 'c) gsim \<Rightarrow> u64" where
  "bit_chg_mask sid b s = sig_span_mask (signal_widths (core s) sid) b 1"

definition ctl_gate_exec ::
  "('v, 's, 'c) genv \<Rightarrow> ctl_gate \<Rightarrow> u64 list \<Rightarrow> bool \<Rightarrow> ('v, 'c) gsim \<Rightarrow> bit_ref option \<times> u64 list \<times> ('v, 'c) gsim" where
  "ctl_gate_exec G g es in_settle s =
     (let (dst, new_bit) = fused_gate_eval G (codes G s) (ctl_op g);
          ot = rd_ref (codes G s) (ctl_other g); m = (if ot = ctl_val g then 0 else ctl_smask g);
          es = set_masks (ctl_pos g) (ctl_pos g + ctl_npos g) m es;
          (changed, s) = fused_bit_commit G dst new_bit (sdf_any s) s
      in if changed
         then (Some dst, es,
               if in_settle then s\<lparr>core := ts_direct_dirty (br_sig dst) (bit_chg_mask (br_sig dst) (br_bit dst) s) (core s)\<rparr> else s)
         else (None, es, s))"

definition ctl_rearm :: "ctl_gate \<Rightarrow> u64 list \<Rightarrow> u64 list" where
  "ctl_rearm g es = set_masks (ctl_pos g) (ctl_pos g + ctl_npos g) (ctl_smask g) es"

text \<open>The gates driving a signal, from the table of destinations, which is sorted.\<close>

definition slots_of :: "nat \<Rightarrow> (nat \<times> nat) list \<Rightarrow> nat list" where
  "slots_of sid dsts = map snd (takeWhile (\<lambda>(d, _). d = sid) (dropWhile (\<lambda>(d, _). d < sid) dsts))"

record ctl_state =
  ctl_gates :: "ctl_gate list"
  ctl_sig :: "bool list"
  ctl_dsts :: "(nat \<times> nat) list"
  ctl_rearm_pending :: "nat list"
  dep_edges :: "u64 list"
  dep_entries :: "nat list"
  dep_offsets :: "nat list"
  gates_of :: "(nat \<times> fused_gate) list"

text \<open>A write from outside, such as a deposit; while a settle holds the edges it is remembered.\<close>

definition ctl_note_external_write :: "bool \<Rightarrow> nat \<Rightarrow> ctl_state \<Rightarrow> ctl_state" where
  "ctl_note_external_write settling sid c =
     (if ctl_dsts c = [] then c
      else let slots = slots_of sid (ctl_dsts c)
           in if length (dep_edges c) = length (dep_entries c) \<and> \<not> settling
              then c\<lparr>dep_edges := fold (\<lambda>k. ctl_rearm (ctl_gates c ! k)) slots (dep_edges c)\<rparr>
              else c\<lparr>ctl_rearm_pending := ctl_rearm_pending c @ slots\<rparr>)"

definition ctl_revert :: "ctl_state \<Rightarrow> ctl_state" where
  "ctl_revert c =
     (if ctl_gates c = [] then c
      else let c = (if length (dep_edges c) = length (dep_entries c)
                    then c\<lparr>dep_edges := fold ctl_rearm (ctl_gates c) (dep_edges c)\<rparr> else c)
           in c\<lparr>ctl_gates := [], ctl_sig := [], ctl_dsts := [], ctl_rearm_pending := []\<rparr>)"

section \<open>Picking the gates\<close>

definition dep_fanout :: "ctl_state \<Rightarrow> nat \<Rightarrow> nat" where
  "dep_fanout c sid = (if sid < length (dep_offsets c) - 1 then dep_offsets c ! (sid + 1) - dep_offsets c ! sid else 0)"

text \<open>The edges from a signal to an entry; the dependents of a signal are sorted.\<close>

definition edge_range :: "ctl_state \<Rightarrow> nat \<Rightarrow> nat \<Rightarrow> nat \<times> nat" where
  "edge_range c e sid =
     (let lo = dep_offsets c ! sid; hi = dep_offsets c ! (sid + 1); deps = take (hi - lo) (drop lo (dep_entries c));
          k = lo + length (takeWhile (\<lambda>d. d < e) deps)
      in (k, k + length (takeWhile (\<lambda>d. d = e) (dropWhile (\<lambda>d. d < e) deps))))"

definition ctl_min_fanout :: nat where
  "ctl_min_fanout = 64"

definition pick_gate :: "(nat \<Rightarrow> bool) \<Rightarrow> (nat \<Rightarrow> bool) \<Rightarrow> ctl_state \<Rightarrow> nat \<times> fused_gate \<Rightarrow> ctl_gate option" where
  "pick_gate is_net clock_tree c eop =
     (case eop of
        (e, Bin2 dst a b gop invert) \<Rightarrow>
          (case (case gop of GateAnd \<Rightarrow> Some 0 | GateOr \<Rightarrow> Some 1 | GateXor \<Rightarrow> None) of
             None \<Rightarrow> None
           | Some cv \<Rightarrow>
               if br_sig a = br_sig b \<or> br_sig dst = br_sig a \<or> br_sig dst = br_sig b then None
               else let fa = dep_fanout c (br_sig a); fb = dep_fanout c (br_sig b)
                    in if max fa fb < ctl_min_fanout \<or> \<not> is_net (br_sig dst) then None
                       else let (hot, other) = (if fa \<ge> fb then (a, b) else (b, a))
                            in if clock_tree (br_sig other) then None
                               else let (k, k2) = edge_range c e (br_sig hot); (olo, ohi) = edge_range c e (br_sig other)
                                    in if k = k2 \<or> olo = ohi \<or> dep_fanout c (br_sig other) = 0 then None
                                       else let smask = dep_edges c ! k
                                            in if smask = 0 \<or> list_ex (\<lambda>m. m \<noteq> smask) (take (k2 - k) (drop k (dep_edges c))) then None
                                               else if list_ex (\<lambda>m. m = 0)
                                                         (take (dep_offsets c ! (br_sig hot + 1) - dep_offsets c ! br_sig hot)
                                                            (drop (dep_offsets c ! br_sig hot) (dep_edges c)))
                                               then None
                                               else Some \<lparr>ctl_op = Bin2 dst a b gop invert, ctl_other = other, ctl_hot = br_sig hot,
                                                      ctl_pos = k, ctl_npos = k2 - k, ctl_smask = smask, ctl_val = cv\<rparr>)
      | _ \<Rightarrow> None)"

text \<open>\<open>on\<close> is \<^verbatim>\<open>ctl_on\<close> without SDF delays.  The gates of the entries that are picked move to the slots.\<close>

definition ctl_build :: "bool \<Rightarrow> (nat \<Rightarrow> bool) \<Rightarrow> (nat \<Rightarrow> bool) \<Rightarrow> ctl_state \<Rightarrow> ctl_state" where
  "ctl_build on is_net clock_tree c =
     (if \<not> on then c
      else let picked = List.map_filter (\<lambda>eop. map_option (\<lambda>g. (fst eop, g)) (pick_gate is_net clock_tree c eop)) (gates_of c);
               gs = map snd picked
           in if picked = [] then c
              else c\<lparr>ctl_gates := gs,
                     ctl_sig := fold (\<lambda>g hs. hs[ctl_hot g := True]) gs (replicate (length (dep_offsets c) - 1) False),
                     ctl_dsts := sort (zip (map (\<lambda>g. br_sig (gate_dst (ctl_op g))) gs) [0..<length gs]),
                     gates_of := filter (\<lambda>(e, _). e \<notin> fst ` set picked) (gates_of c)\<rparr>)"

end
