(* ===== verification/Gate_Control_Props.thy ===== *)
theory Gate_Control_Props
  imports Gate_Control
begin

text \<open>
  The masked gates are sound: however the signals change, a gate whose high-fanout input was ignored
  still drives what its inputs say, until its net is written from outside.
\<close>

section \<open>The gates picked\<close>

definition ctl_wf :: "ctl_gate \<Rightarrow> bool" where
  "ctl_wf g \<longleftrightarrow>
     (\<exists>dst a b gop invert. ctl_op g = Bin2 dst a b gop invert \<and> br_sig a \<noteq> br_sig b \<and> br_sig dst \<noteq> br_sig a \<and>
        br_sig dst \<noteq> br_sig b \<and> (gop = GateAnd \<and> ctl_val g = 0 \<or> gop = GateOr \<and> ctl_val g = 1) \<and>
        (ctl_other g = b \<and> ctl_hot g = br_sig a \<or> ctl_other g = a \<and> ctl_hot g = br_sig b)) \<and>
     ctl_smask g \<noteq> 0"

lemma pick_wf:
  assumes "pick_gate is_net clock_tree c eop = Some g"
  shows "ctl_wf g"
proof -
  obtain e op where eop: "eop = (e, op)" by force
  show ?thesis
  proof (cases op)
    case (Bin2 dst a b gop invert)
    show ?thesis
    proof (cases "dep_fanout c (br_sig a) \<ge> dep_fanout c (br_sig b)")
      case True
      then show ?thesis
        using assms unfolding eop Bin2 pick_gate_def ctl_wf_def Let_def
        by (cases gop) (auto simp: split_beta split: if_splits)
    next
      case False
      then show ?thesis
        using assms unfolding eop Bin2 pick_gate_def ctl_wf_def Let_def
        by (cases gop) (auto simp: split_beta split: if_splits)
    qed
  qed (use assms in \<open>simp_all add: eop pick_gate_def\<close>)
qed

lemma build_wf:
  assumes "\<forall>g\<in>set (ctl_gates c). ctl_wf g"
  shows "\<forall>g\<in>set (ctl_gates (ctl_build on is_net clock_tree c)). ctl_wf g"
  using assms pick_wf by (auto simp: ctl_build_def Let_def map_filter_def)

section \<open>Masks\<close>

lemma set_masks_length [simp]: "length (set_masks lo hi m es) = length es"
  by (simp add: set_masks_def)

lemma set_masks_nth:
  "hi \<le> length es \<Longrightarrow> lo \<le> hi \<Longrightarrow> i < length es \<Longrightarrow> set_masks lo hi m es ! i = (if lo \<le> i \<and> i < hi then m else es ! i)"
  by (auto simp: set_masks_def nth_append)

lemma rearm_revert:
  assumes "hi = ctl_pos g + ctl_npos g" and "hi \<le> length es"
    and "\<forall>i. ctl_pos g \<le> i \<and> i < hi \<longrightarrow> es ! i = ctl_smask g"
  shows "ctl_rearm g (set_masks (ctl_pos g) hi m es) = es"
proof (rule nth_equalityI)
  show "length (ctl_rearm g (set_masks (ctl_pos g) hi m es)) = length es" by (simp add: ctl_rearm_def)
  show "ctl_rearm g (set_masks (ctl_pos g) hi m es) ! i = es ! i" if "i < length (ctl_rearm g (set_masks (ctl_pos g) hi m es))" for i
    using assms that by (auto simp: ctl_rearm_def set_masks_nth)
qed

section \<open>One evaluation\<close>

text \<open>The high-fanout input bit.\<close>

definition hot_ref :: "ctl_gate \<Rightarrow> bit_ref" where
  "hot_ref g = (case ctl_op g of Bin2 dst a b gop invert \<Rightarrow> if ctl_other g = b then a else b | _ \<Rightarrow> ctl_other g)"

definition mask_of :: "ctl_gate \<Rightarrow> u64 list \<Rightarrow> nat \<Rightarrow> u64" where
  "mask_of g es i = es ! (ctl_pos g + i)"

definition ctl_ready :: "('v, 's, 'c) genv \<Rightarrow> ctl_gate \<Rightarrow> ('v, 'c) gsim \<Rightarrow> u64 list \<Rightarrow> bool" where
  "ctl_ready G g s es \<longleftrightarrow> free_dst (br_sig (gate_dst (ctl_op g))) s \<and>
     br_bit (gate_dst (ctl_op g)) < wid G s (br_sig (gate_dst (ctl_op g))) \<and> ctl_pos g + ctl_npos g \<le> length es"

definition gate_out :: "('v, 's, 'c) genv \<Rightarrow> ctl_gate \<Rightarrow> ('v, 'c) gsim \<Rightarrow> nat" where
  "gate_out G g s = snd (fused_gate_eval G (codes G s) (ctl_op g))"

lemma wfE:
  assumes "ctl_wf g"
  obtains dst a b gop invert where "ctl_op g = Bin2 dst a b gop invert" "br_sig a \<noteq> br_sig b" "br_sig dst \<noteq> br_sig a"
    "br_sig dst \<noteq> br_sig b" "gop = GateAnd \<and> ctl_val g = 0 \<or> gop = GateOr \<and> ctl_val g = 1"
    "hot_ref g = a \<and> ctl_other g = b \<or> hot_ref g = b \<and> ctl_other g = a" "ctl_hot g = br_sig (hot_ref g)"
proof -
  obtain dst a b gop invert where op: "ctl_op g = Bin2 dst a b gop invert" "br_sig a \<noteq> br_sig b" "br_sig dst \<noteq> br_sig a"
    "br_sig dst \<noteq> br_sig b" "gop = GateAnd \<and> ctl_val g = 0 \<or> gop = GateOr \<and> ctl_val g = 1"
    and other: "ctl_other g = b \<and> ctl_hot g = br_sig a \<or> ctl_other g = a \<and> ctl_hot g = br_sig b"
    using assms by (auto simp: ctl_wf_def)
  have "a \<noteq> b" using op(2) by auto
  then have "hot_ref g = a \<and> ctl_other g = b \<or> hot_ref g = b \<and> ctl_other g = a" "ctl_hot g = br_sig (hot_ref g)"
    using other by (auto simp: hot_ref_def op(1))
  then show thesis using that[OF op] by blast
qed

lemma wf_refs:
  assumes "ctl_wf g"
  shows "br_sig (hot_ref g) = ctl_hot g" "br_sig (ctl_other g) \<noteq> br_sig (gate_dst (ctl_op g))"
    "br_sig (hot_ref g) \<noteq> br_sig (gate_dst (ctl_op g))" "set (gate_inputs (ctl_op g)) = {hot_ref g, ctl_other g}"
    "ctl_hot g \<noteq> br_sig (ctl_other g)"
  using assms by (auto elim!: wfE)

lemma wf_smask: "ctl_wf g \<Longrightarrow> ctl_smask g \<noteq> 0"
  by (simp add: ctl_wf_def)

text \<open>The output depends on the two inputs, and on the other one alone while it controls.\<close>

lemma gate_out_cong:
  assumes wf: "ctl_wf g" and "rd_ref (codes G s) (ctl_other g) = rd_ref (codes G t) (ctl_other g)"
    and "rd_ref (codes G s) (hot_ref g) = rd_ref (codes G t) (hot_ref g) \<or> rd_ref (codes G s) (ctl_other g) = ctl_val g"
  shows "gate_out G g s = gate_out G g t"
  using wf
proof (cases rule: wfE)
  case (1 dst a b gop invert)
  then have "bin4 gop (rd_ref (codes G s) a) (rd_ref (codes G s) b) = bin4 gop (rd_ref (codes G t) a) (rd_ref (codes G t) b)"
    using assms(2,3) by (auto simp: bin4_def and4_def or4_def)
  then show ?thesis by (simp add: gate_out_def 1(1) Let_def)
qed

lemma ctl_exec_ok:
  assumes laws: "bit_laws (den G)" and wf: "ctl_wf g" and ready: "ctl_ready G g s es"
    and ex: "ctl_gate_exec G g es b s = (r, es', s')"
  shows "ctl_ready G g s' es'" and "codes G s' i j = (if \<lparr>br_sig = i, br_bit = j\<rparr> = gate_dst (ctl_op g) then gate_out G g s else codes G s i j)"
    and "rd_ref (codes G s') (gate_dst (ctl_op g)) = gate_out G g s'"
    and "i < ctl_npos g \<Longrightarrow> mask_of g es' i = (if rd_ref (codes G s') (ctl_other g) = ctl_val g then 0 else ctl_smask g)"
    and "length es' = length es"
    and "k < length es \<Longrightarrow> k < ctl_pos g \<or> ctl_pos g + ctl_npos g \<le> k \<Longrightarrow> es' ! k = es ! k"
    and "r \<noteq> None \<longleftrightarrow> rd_ref (codes G s) (gate_dst (ctl_op g)) \<noteq> gate_out G g s"
proof -
  let ?dst = "gate_dst (ctl_op g)" and ?c = "gate_out G g s"
  have ev: "fused_gate_eval G (codes G s) (ctl_op g) = (?dst, ?c)" by (simp add: prod_eq_iff eval_dst gate_out_def)
  have c: "?c < 4" using eval_lt[of "codes G s" G] bit_lawsD(7)[OF laws] by (simp add: gate_out_def)
  have pre: "free_dst (br_sig ?dst) s" "br_bit ?dst < wid G s (br_sig ?dst)" "ctl_pos g + ctl_npos g \<le> length es"
    using ready by (simp_all add: ctl_ready_def)
  note commit = bit_commit_ok[OF laws pre(1,2) c refl]
  obtain ch t where ct: "fused_bit_commit G ?dst ?c (sdf_any s) s = (ch, t)" by force
  have es': "es' = set_masks (ctl_pos g) (ctl_pos g + ctl_npos g)
      (if rd_ref (codes G s) (ctl_other g) = ctl_val g then 0 else ctl_smask g) es"
    and t: "table s' = table t" "same_setup t s'" and r: "r \<noteq> None \<longleftrightarrow> ch"
    using ex by (auto simp: ctl_gate_exec_def ev ct Let_def same_setup_def ts_direct_dirty_def split: if_splits)
  show codes: "codes G s' i j = (if \<lparr>br_sig = i, br_bit = j\<rparr> = ?dst then ?c else codes G s i j)" for i j
    using commit(1)[of i j] ct t(1) by (cases ?dst) auto
  have "wid G s' i = wid G s i" for i using commit(2)[of i] ct t(1) by (simp add: wid_def)
  then show "ctl_ready G g s' es'"
    using pre same_setup_free[OF same_setup_trans[OF commit(3)]] ct t(2) by (auto simp: ctl_ready_def es')
  have other: "rd_ref (codes G s') q = rd_ref (codes G s) q" if "br_sig q \<noteq> br_sig ?dst" for q
    using codes[of "br_sig q" "br_bit q"] that by (auto simp: rd_ref_def dest: arg_cong[where f = br_sig])
  have out: "gate_out G g s' = ?c"
    using gate_out_cong[OF wf, of G s' s] other wf_refs[OF wf] by simp
  show "rd_ref (codes G s') ?dst = gate_out G g s'" unfolding out using codes[of "br_sig ?dst" "br_bit ?dst"] by (simp add: rd_ref_def)
  show "mask_of g es' i = (if rd_ref (codes G s') (ctl_other g) = ctl_val g then 0 else ctl_smask g)" if "i < ctl_npos g" for i
    using that pre(3) other[of "ctl_other g"] wf_refs(2)[OF wf] by (simp add: mask_of_def es' set_masks_nth)
  show "length es' = length es" by (simp add: es')
  show "es' ! k = es ! k" if "k < length es" "k < ctl_pos g \<or> ctl_pos g + ctl_npos g \<le> k" for k
    using that pre(3) by (auto simp: es' set_masks_nth)
  show "r \<noteq> None \<longleftrightarrow> rd_ref (codes G s) ?dst \<noteq> ?c" using r commit(4) ct by (simp add: rd_ref_def)
qed

section \<open>Steps\<close>

text \<open>
  What happens to a gate, with its edges and whether its net is driven.  A write to a signal wakes the
  gate through an edge whose mask meets the changed bits; an edge with the mask 0 is skipped.  The
  static mask of the high-fanout edge holds the bit that is read, so a change of that bit meets it.
  A write from outside to the net restores the masks.
\<close>

definition only_signal :: "('v, 's, 'c) genv \<Rightarrow> nat \<Rightarrow> ('v, 'c) gsim \<Rightarrow> ('v, 'c) gsim \<Rightarrow> bool" where
  "only_signal G sid s t \<longleftrightarrow> (\<forall>i j. i \<noteq> sid \<longrightarrow> codes G t i j = codes G s i j)"

definition hot_skipped :: "ctl_gate \<Rightarrow> u64 list \<Rightarrow> u64 \<Rightarrow> bool" where
  "hot_skipped g es chg \<longleftrightarrow> (\<forall>i<ctl_npos g. mask_of g es i AND chg = 0)"

inductive ctl_step ::
  "('v, 's, 'c) genv \<Rightarrow> ctl_gate \<Rightarrow> ('v, 'c) gsim \<times> u64 list \<times> bool \<Rightarrow> ('v, 'c) gsim \<times> u64 list \<times> bool \<Rightarrow> bool"
  for G g where
  evaluated: "ctl_ready G g s es \<Longrightarrow> ctl_gate_exec G g es b s = (r, es', s') \<Longrightarrow> ctl_step G g (s, es, f) (s', es', True)"
| unrelated: "only_signal G sid s t \<Longrightarrow> sid \<notin> {br_sig (gate_dst (ctl_op g)), br_sig (ctl_other g), ctl_hot g} \<Longrightarrow>
    ctl_step G g (s, es, f) (t, es, f)"
| other_kept: "only_signal G sid s t \<Longrightarrow> sid = br_sig (ctl_other g) \<Longrightarrow>
    rd_ref (codes G t) (ctl_other g) = rd_ref (codes G s) (ctl_other g) \<Longrightarrow> ctl_step G g (s, es, f) (t, es, f)"
| other_woken: "only_signal G sid s t \<Longrightarrow> sid = br_sig (ctl_other g) \<Longrightarrow> ctl_ready G g t es \<Longrightarrow>
    ctl_gate_exec G g es b t = (r, es', t') \<Longrightarrow> ctl_step G g (s, es, f) (t', es', True)"
| hot_skips: "only_signal G sid s t \<Longrightarrow> sid = ctl_hot g \<Longrightarrow> hot_skipped g es chg \<Longrightarrow>
    (rd_ref (codes G t) (hot_ref g) \<noteq> rd_ref (codes G s) (hot_ref g) \<longrightarrow> ctl_smask g AND chg \<noteq> 0) \<Longrightarrow>
    ctl_step G g (s, es, f) (t, es, f)"
| hot_woken: "only_signal G sid s t \<Longrightarrow> sid = ctl_hot g \<Longrightarrow> \<not> hot_skipped g es chg \<Longrightarrow> ctl_ready G g t es \<Longrightarrow>
    ctl_gate_exec G g es b t = (r, es', t') \<Longrightarrow> ctl_step G g (s, es, f) (t', es', True)"
| deposited: "only_signal G sid s t \<Longrightarrow> sid = br_sig (gate_dst (ctl_op g)) \<Longrightarrow>
    ctl_step G g (s, es, f) (t, ctl_rearm g es, False)"
| other_gate: "length es' = length es \<Longrightarrow> (\<And>i. i < ctl_npos g \<Longrightarrow> mask_of g es' i = mask_of g es i) \<Longrightarrow>
    ctl_step G g (s, es, f) (s, es', f)"

definition ctl_inv :: "('v, 's, 'c) genv \<Rightarrow> ctl_gate \<Rightarrow> ('v, 'c) gsim \<times> u64 list \<times> bool \<Rightarrow> bool" where
  "ctl_inv G g = (\<lambda>(s, es, f).
     0 < ctl_npos g \<and> ctl_pos g + ctl_npos g \<le> length es \<and>
     ((\<forall>i<ctl_npos g. mask_of g es i = ctl_smask g) \<or>
      (\<forall>i<ctl_npos g. mask_of g es i = 0) \<and> rd_ref (codes G s) (ctl_other g) = ctl_val g) \<and>
     (f \<longrightarrow> rd_ref (codes G s) (gate_dst (ctl_op g)) = gate_out G g s))"

lemma ctl_inv_eval:
  assumes laws: "bit_laws (den G)" and wf: "ctl_wf g" and pos: "0 < ctl_npos g" and ready: "ctl_ready G g s es"
    and ex: "ctl_gate_exec G g es b s = (r, es', s')"
  shows "ctl_inv G g (s', es', True)"
proof -
  note ok = ctl_exec_ok[OF laws wf ready ex]
  have "ctl_pos g + ctl_npos g \<le> length es'" using ok(1) by (simp add: ctl_ready_def)
  then show ?thesis using ok(3,4) pos by (auto simp: ctl_inv_def)
qed

lemma other_signal: "only_signal G sid s t \<Longrightarrow> br_sig q \<noteq> sid \<Longrightarrow> rd_ref (codes G t) q = rd_ref (codes G s) q"
  by (simp add: only_signal_def rd_ref_def)

text \<open>A write that changes neither the net nor, while the gate is armed or masked, an input it looks at.\<close>

lemma ctl_inv_write:
  assumes inv: "ctl_inv G g (s, es, f)" and wf: "ctl_wf g"
    and dst: "rd_ref (codes G t) (gate_dst (ctl_op g)) = rd_ref (codes G s) (gate_dst (ctl_op g))"
    and other: "rd_ref (codes G t) (ctl_other g) = rd_ref (codes G s) (ctl_other g)"
    and hot: "rd_ref (codes G t) (hot_ref g) = rd_ref (codes G s) (hot_ref g) \<or> rd_ref (codes G s) (ctl_other g) = ctl_val g"
  shows "ctl_inv G g (t, es, f)"
proof -
  have "gate_out G g t = gate_out G g s"
    by (rule gate_out_cong[OF wf other]) (use hot other in auto)
  then show ?thesis using inv dst other by (auto simp: ctl_inv_def)
qed

lemma ctl_inv_step:
  assumes laws: "bit_laws (den G)" and wf: "ctl_wf g" and "ctl_step G g c c'" and "ctl_inv G g c"
  shows "ctl_inv G g c'"
  using assms(3,4)
proof cases
  case (evaluated s es b r es' s' f)
  then show ?thesis using ctl_inv_eval[OF laws wf _ evaluated(3,4)] assms(4) by (simp add: ctl_inv_def)
next
  case (unrelated sid s t es f)
  then show ?thesis
    using ctl_inv_write[OF _ wf, of G s es f t] other_signal[OF unrelated(3)] assms(4) wf_refs(1)[OF wf] by fastforce
next
  case (other_kept sid s t es f)
  then show ?thesis
    using ctl_inv_write[OF _ wf, of G s es f t] other_signal[OF other_kept(3)] assms(4) wf_refs[OF wf] by fastforce
next
  case (other_woken sid s t es b r es' t' f)
  then show ?thesis using ctl_inv_eval[OF laws wf _ other_woken(5,6)] assms(4) by (simp add: ctl_inv_def)
next
  case (hot_skips sid s t es chg f)
  have pos: "0 < ctl_npos g" using assms(4) by (simp add: hot_skips(1) ctl_inv_def)
  have "rd_ref (codes G t) (hot_ref g) = rd_ref (codes G s) (hot_ref g) \<or> rd_ref (codes G s) (ctl_other g) = ctl_val g"
    using assms(4) hot_skips(5,6) pos unfolding hot_skips(1) ctl_inv_def hot_skipped_def by fastforce
  then show ?thesis
    using ctl_inv_write[OF _ wf, of G s es f t] other_signal[OF hot_skips(3)] assms(4) wf_refs[OF wf] hot_skips(1,2,4) by metis
next
  case (hot_woken sid s t es chg b r es' t' f)
  then show ?thesis using ctl_inv_eval[OF laws wf _ hot_woken(6,7)] assms(4) by (simp add: ctl_inv_def)
next
  case (deposited sid s t es f)
  then show ?thesis
    using assms(4) by (auto simp: ctl_inv_def mask_of_def ctl_rearm_def set_masks_nth)
next
  case (other_gate es' es s f)
  then show ?thesis using assms(4) by (auto simp: ctl_inv_def)
qed

lemma ctl_inv_run:
  assumes "bit_laws (den G)" and "ctl_wf g" and "(ctl_step G g)\<^sup>*\<^sup>* c c'" and "ctl_inv G g c"
  shows "ctl_inv G g c'"
  using assms(3,4) by (induction rule: rtranclp_induct) (auto intro: ctl_inv_step[OF assms(1,2)])

end
