(* ===== verification/Gates_Examples.thy ===== *)
theory Gates_Examples
  imports Gate_Commits Gate_Lut3 Gate_Control_Props Delayed_Examples
begin

text \<open>
  A concrete instance of the gates: the values of \<open>Delayed_Examples\<close>, lists of bit codes, with their
  planes, and a state with an edge-sensitive signal and two armed blocks.
\<close>

definition g_plane :: "(nat \<Rightarrow> bool) \<Rightarrow> nat list \<Rightarrow> u64" where
  "g_plane P cs = horner_sum of_bool 2 (map P cs)"

definition g_planes :: "nat list \<Rightarrow> u64 \<times> u64" where
  "g_planes cs = (g_plane odd cs, g_plane (\<lambda>c. 2 \<le> c) cs)"

definition g_ops :: "nat list vops" where
  "g_ops = l_ops
     \<lparr>raw_bits := (\<lambda>v. g_planes (map (l_get v) [0..<length v])),
      slice_bits_swar := (\<lambda>lo w v. g_planes (map (l_get v) [lo..<lo + w])),
      set_inline_bits := (\<lambda>a x v. (True, map (pcode (a, x)) [0..<length v]))\<rparr>"

definition g_env :: "(nat list, nat list obs, unit) env" where
  "g_env =
     \<lparr>vo = g_ops, note_write = (\<lambda>sid _ o'. note_edge_write sid (note_armed_write sid o')), exec_fallback = (\<lambda>_ s. s),
      fsm_ticks = (\<lambda>t. t), take_interrupt = (\<lambda>s. s)\<rparr>"

definition g_denv :: "(nat list, nat list obs, unit, unit) denv" where
  "g_denv =
     \<lparr>base = g_env, get_bit_code = l_get, set_bit_code = l_set, is_real = (\<lambda>_. False),
      path_transition_index = path_transition_index l_denv, cond_true = (\<lambda>_ _. True), comb_dep_offsets = [],
      unresolved_reads = False, is_unnamed = (\<lambda>_. False)\<rparr>"

definition g_genv :: "(nat list, unit, unit) genv" where
  "g_genv = \<lparr>den = g_denv, set_scalar_code = (\<lambda>c v. (l_get v 0 \<noteq> c, v[0 := c])), signal_gate_driven = []\<rparr>"

lemma g_sel [simp]:
  "den g_genv = g_denv" "get_bit_code g_denv = l_get" "set_bit_code g_denv = l_set" "base g_denv = g_env"
  "value_width (vo g_env) = length" "set_signed (vo g_env) = (\<lambda>_ v. v)"
  "value_ne (vo g_env) = (\<lambda>a b. map (\<lambda>c. c mod 4) a \<noteq> map (\<lambda>c. c mod 4) b)"
  "raw_bits (vo g_env) = (\<lambda>v. g_planes (map (l_get v) [0..<length v]))"
  "slice_bits_swar (vo g_env) = (\<lambda>lo w v. g_planes (map (l_get v) [lo..<lo + w]))"
  "set_inline_bits (vo g_env) = (\<lambda>a x v. (True, map (pcode (a, x)) [0..<length v]))"
  "set_scalar_code g_genv = (\<lambda>c v. (l_get v 0 \<noteq> c, v[0 := c]))" "signal_gate_driven g_genv = []"
  by (simp_all add: g_genv_def g_denv_def g_env_def g_ops_def l_ops_def)

lemma g_bit_laws: "bit_laws g_denv"
proof -
  have eqs: "get_bit_code g_denv = get_bit_code l_denv" "set_bit_code g_denv = set_bit_code l_denv"
    "value_width (vo (base g_denv)) = value_width (vo (base l_denv))" "set_signed (vo (base g_denv)) = set_signed (vo (base l_denv))"
    "value_ne (vo (base g_denv)) = value_ne (vo (base l_denv))" "path_transition_index g_denv = path_transition_index l_denv"
    by (simp_all add: l_denv_sel) (simp add: g_denv_def l_denv_sel)
  show ?thesis unfolding bit_laws_def eqs by (rule l_laws[unfolded bit_laws_def])
qed

lemma g_planes_code:
  assumes "i < length cs" and "length cs \<le> 64" and "\<forall>c\<in>set cs. c < 4"
  shows "pcode (g_planes cs) i = cs ! i"
proof -
  have "cs ! i \<in> {0, 1, 2, 3}" using assms(1,3) by (auto dest!: bspec[OF _ nth_mem] simp: less_Suc_eq numeral_eq_Suc)
  then show ?thesis
    using assms(1,2) by (auto simp: pcode_def g_planes_def g_plane_def bit_horner_sum_bit_word_iff)
qed

lemma l_get_self: "b < length v \<Longrightarrow> v ! b < 4 \<Longrightarrow> l_get v b = v ! b"
  by (simp add: l_get_def)

lemma g_plane_laws: "plane_laws g_genv"
  unfolding plane_laws_def Let_def g_sel
  by (intro conjI allI impI)
    (auto simp: g_planes_code l_get_lt l_get_self pcode_lt l_get_def length_Suc_conv)

text \<open>Signals of two bits but signal 7, of one; their values are given.\<close>

definition g_obs :: "nat list obs" where
  "g_obs =
     \<lparr>table_len = 8, value_trace_ids = None, value_trace_pending = [], current_pid = 0, edge_dispatch_phase = 0,
      armed_edge = True, event_skip = True, armed_input_bitmap = [], armed_input_ranges = [], armed_input_blocks = [],
      edge_block_armed = [], arm_census = None, in_edge_block = False, in_edge_cont = False, dirty_edge = True,
      dirty_edge_shadow = False, sig_to_edge_pos = [- 1, 0], edge_exec_seen = [False], edge_exec_wrote = [],
      edge_pos_seen = [False], changed_edge_pos = [], dump_dirty_active = False, dump_dirty_mark = [],
      dump_dirty_epoch = 0, dump_dirty = [], has_active_forces = False, active_force_signal_epochs = [],
      force_epoch_gen = 0, event_measure = False, sig_last_change = [], event_phase = 0, signal_commit_plan = [],
      quiet_valid = False, quiet_bits = [], profile_report = False, prof_quiet_stores = 0, prof_observed_stores = 0\<rparr>"

definition g_core :: "(nat \<Rightarrow> nat list) \<Rightarrow> nat list obs \<Rightarrow> (nat list, nat list obs) sim" where
  "g_core tab o' =
     \<lparr>signal_table = tab, signal_widths = (\<lambda>sid. length (tab sid)), signal_signed = (\<lambda>_. False), signal_two_state = (\<lambda>_. False),
      signal_inline_bits = [], signal_has_xz = [], nba_queue = [],
      nba_index = nbi_with_dense_prefix 4, prof_nba_elided = 0, dirty_signals = (\<lambda>_. False),
      dirty_list = [], dirty_any = False, table_modified = False, ts_direct_writes = False,
      ts_rec0 = (0, 0), ts_rec_n = 0, ts_recs = [], ts_save_list = [], ts_xread_bail = False,
      fsm_suspend = None, code_cov_hits = [], prof_fallback_insns = 0, finished = False,
      stop_polls = (\<lambda>_. False), poll_count = 0, observers = o'\<rparr>"

definition g_sim :: "(nat \<Rightarrow> nat list) \<Rightarrow> nat list obs \<Rightarrow> (nat list, unit) gsim" where
  "g_sim tab o' =
     \<lparr>core = g_core tab o', sim_time = 0, sdf_delays = [], gate_fall_delay_by_id = [],
      gate_off_delay_by_id = [], module_paths = None, timing_watches = [], delayed_updates = [], delayed_nba = [],
      delayed_nba_queue = [], forced_signals = Map.empty\<rparr>"

lemma g_sim_sel [simp]:
  "table (g_sim tab o') = tab" "observers (core (g_sim tab o')) = o'" "sdf_delays (g_sim tab o') = []"
  "forced_signals (g_sim tab o') = Map.empty" "sim_time (g_sim tab o') = 0" "signal_inline_bits (core (g_sim tab o')) = []"
  by (simp_all add: g_sim_def g_core_def)

lemma g_free [simp]: "free_dst sid (g_sim tab o')"
  by (simp add: free_dst_def sdf_any_def)

lemma g_wid [simp]: "wid g_genv (g_sim tab o') sid = length (tab sid)"
  by (simp add: wid_def)

end
