(* ===== verification/Wheel.thy ===== *)
theory Wheel
  imports Xz_Prelude
begin

text \<open>
  The event queue of the scheduler, \<^verbatim>\<open>TimingWheel\<close> of \<^verbatim>\<open>simulator.rs\<close>: a circular array of 4096 slots
  with an occupancy bitmap for the events of the next 4096 ticks, and an ordered map for later ones.
  An event is a process id with its continuation, which the queue does not look into (\<open>'c\<close>).

  Times are natural numbers: the sums \<^verbatim>\<open>current_time + WHEEL_SIZE\<close> of the code are on \<^verbatim>\<open>u64\<close> and do
  not wrap while times stay below \<open>2 ^ 64 - 4096\<close>.  The ordered map is a list sorted by time.
\<close>

definition wheel_size :: nat where
  "wheel_size = 4096"

definition bitmap_words :: nat where
  "bitmap_words = wheel_size div 64"

type_synonym 'c event = "nat \<times> 'c"

record 'c timing_wheel =
  slots :: "'c event list list"
  bitmap :: "u64 list"
  overflow :: "(nat \<times> 'c event list) list"
  occupied_words :: nat
  next_cache :: "nat option option"
  current_time :: nat
  pid_counts :: "nat \<rightharpoonup> nat"
  front_time :: nat
  front_pending :: nat
  last_pop_front :: bool

definition wheel_new :: "'c timing_wheel" where
  "wheel_new =
     \<lparr>slots = replicate wheel_size [], bitmap = replicate bitmap_words 0, overflow = [],
      occupied_words = 0, next_cache = None, current_time = 0, pid_counts = Map.empty,
      front_time = 0, front_pending = 0, last_pop_front = False\<rparr>"

definition slot_of :: "nat \<Rightarrow> nat" where
  "slot_of time = time mod wheel_size"

section \<open>The ordered map\<close>

text \<open>\<^verbatim>\<open>entry(time).or_default()\<close>, updated by \<open>f\<close>.\<close>

fun bt_update :: "nat \<Rightarrow> ('a list \<Rightarrow> 'a list) \<Rightarrow> (nat \<times> 'a list) list \<Rightarrow> (nat \<times> 'a list) list" where
  "bt_update t f [] = [(t, f [])]"
| "bt_update t f ((k, v) # m) =
     (if t = k then (k, f v) # m
      else if t < k then (t, f []) # (k, v) # m
      else (k, v) # bt_update t f m)"

definition bt_get :: "(nat \<times> 'a list) list \<Rightarrow> nat \<Rightarrow> 'a list" where
  "bt_get m t = (case map_of m t of None \<Rightarrow> [] | Some l \<Rightarrow> l)"

section \<open>The bitmap\<close>

definition slot_bit :: "nat \<Rightarrow> u64" where
  "slot_bit slot = push_bit (slot mod 64) 1"

definition bitmap_set :: "nat \<Rightarrow> 'c timing_wheel \<Rightarrow> 'c timing_wheel" where
  "bitmap_set slot w =
     (let i = slot div 64; b = bitmap w ! i
      in w\<lparr>occupied_words := (if b = 0 then occupied_words w + 1 else occupied_words w),
           bitmap := (bitmap w)[i := b OR slot_bit slot]\<rparr>)"

definition bitmap_clear :: "nat \<Rightarrow> 'c timing_wheel \<Rightarrow> 'c timing_wheel" where
  "bitmap_clear slot w =
     (let i = slot div 64; b = bitmap w ! i; b' = b AND NOT (slot_bit slot)
      in (if b \<noteq> 0
          then w\<lparr>bitmap := (bitmap w)[i := b'],
                 occupied_words := (if b' = 0 then occupied_words w - 1 else occupied_words w)\<rparr>
          else w)\<lparr>next_cache := None\<rparr>)"

section \<open>Scheduling\<close>

definition count_pid :: "nat \<Rightarrow> (nat \<rightharpoonup> nat) \<Rightarrow> (nat \<rightharpoonup> nat)" where
  "count_pid pid m = m(pid \<mapsto> (case m pid of None \<Rightarrow> 0 | Some c \<Rightarrow> c) + 1)"

definition uncount_pid :: "nat \<Rightarrow> (nat \<rightharpoonup> nat) \<Rightarrow> (nat \<rightharpoonup> nat)" where
  "uncount_pid pid m =
     (case m pid of None \<Rightarrow> m | Some c \<Rightarrow> if c - 1 = 0 then m(pid := None) else m(pid \<mapsto> c - 1))"

definition narrow_next_cache :: "nat \<Rightarrow> 'c timing_wheel \<Rightarrow> 'c timing_wheel" where
  "narrow_next_cache time w =
     (case next_cache w of
        None \<Rightarrow> w
      | Some c \<Rightarrow> w\<lparr>next_cache := Some (Some (case c of None \<Rightarrow> time | Some t \<Rightarrow> min t time))\<rparr>)"

text \<open>Put an event into the slot or the map, at the end given by \<open>put\<close>.\<close>

definition place :: "('c event list \<Rightarrow> 'c event list) \<Rightarrow> nat \<Rightarrow> 'c timing_wheel \<Rightarrow> 'c timing_wheel" where
  "place put time w =
     (if time < current_time w + wheel_size
      then bitmap_set (slot_of time)
             (w\<lparr>slots := (slots w)[slot_of time := put (slots w ! slot_of time)]\<rparr>)
      else w\<lparr>overflow := bt_update time put (overflow w)\<rparr>)"

definition schedule :: "nat \<Rightarrow> nat \<Rightarrow> 'c \<Rightarrow> 'c timing_wheel \<Rightarrow> 'c timing_wheel" where
  "schedule time pid cont w =
     place (\<lambda>es. es @ [(pid, cont)]) time
       (narrow_next_cache time (w\<lparr>pid_counts := count_pid pid (pid_counts w)\<rparr>))"

definition schedule_front :: "nat \<Rightarrow> nat \<Rightarrow> 'c \<Rightarrow> 'c timing_wheel \<Rightarrow> 'c timing_wheel" where
  "schedule_front time pid cont w =
     (let w = w\<lparr>pid_counts := count_pid pid (pid_counts w)\<rparr>;
          w = (if front_time w \<noteq> time then w\<lparr>front_time := time, front_pending := 0\<rparr> else w);
          w = w\<lparr>front_pending := front_pending w + 1\<rparr>
      in place (\<lambda>es. (pid, cont) # es) time (narrow_next_cache time w))"

definition put_back :: "nat \<Rightarrow> 'c event \<Rightarrow> 'c timing_wheel \<Rightarrow> 'c timing_wheel" where
  "put_back time e w = place (\<lambda>es. e # es) time (w\<lparr>pid_counts := count_pid (fst e) (pid_counts w)\<rparr>)"

definition requeue_front :: "nat \<Rightarrow> 'c event list \<Rightarrow> 'c timing_wheel \<Rightarrow> 'c timing_wheel" where
  "requeue_front time rest w =
     fold (put_back time) (rev rest) (narrow_next_cache time w)"

section \<open>Queries\<close>

definition wheel_is_empty :: "'c timing_wheel \<Rightarrow> bool" where
  "wheel_is_empty w \<longleftrightarrow> occupied_words w = 0 \<and> overflow w = []"

definition slot_pids :: "nat \<Rightarrow> 'c timing_wheel \<Rightarrow> nat list" where
  "slot_pids time w = map fst (slots w ! slot_of time)"

definition reorder_slot :: "nat \<Rightarrow> (nat \<rightharpoonup> nat) \<Rightarrow> 'c timing_wheel \<Rightarrow> 'c timing_wheel" where
  "reorder_slot time rank w =
     w\<lparr>slots := (slots w)[slot_of time :=
        sort_key (\<lambda>e. case rank (fst e) of None \<Rightarrow> 0 | Some r \<Rightarrow> r + 1) (slots w ! slot_of time)]\<rparr>"

definition len_at :: "nat \<Rightarrow> 'c timing_wheel \<Rightarrow> nat" where
  "len_at time w =
     length (bt_get (overflow w) time) +
     (if time \<ge> current_time w \<and> time < current_time w + wheel_size
      then length (slots w ! slot_of time) else 0)"

definition slot_len :: "nat \<Rightarrow> 'c timing_wheel \<Rightarrow> nat" where
  "slot_len time w = length (slots w ! slot_of time) + length (bt_get (overflow w) time)"

definition has_pid :: "nat \<Rightarrow> 'c timing_wheel \<Rightarrow> bool" where
  "has_pid pid w \<longleftrightarrow> pid_counts w pid \<noteq> None"

definition trailing_zeros64 :: "u64 \<Rightarrow> nat" where
  "trailing_zeros64 v = length (takeWhile (\<lambda>i. \<not> bit v i) [0..<64])"

text \<open>The distance of a slot from the current one, going round.\<close>

definition slot_delta :: "nat \<Rightarrow> nat \<Rightarrow> nat" where
  "slot_delta start_slot slot = (if slot \<ge> start_slot then slot - start_slot else slot + wheel_size - start_slot)"

text \<open>The words after the start word, in ring order.\<close>

fun scan_words :: "u64 list \<Rightarrow> nat \<Rightarrow> nat list \<Rightarrow> nat option" where
  "scan_words bm start_word [] = None"
| "scan_words bm start_word (k # ks) =
     (let i = (start_word + k) mod bitmap_words
      in if bm ! i \<noteq> 0 then Some (i * 64 + trailing_zeros64 (bm ! i)) else scan_words bm start_word ks)"

definition first_key :: "(nat \<times> 'a) list \<Rightarrow> nat option" where
  "first_key m = (case m of [] \<Rightarrow> None | (t, _) # _ \<Rightarrow> Some t)"

definition next_time_scan :: "'c timing_wheel \<Rightarrow> nat option" where
  "next_time_scan w =
     (let start_slot = slot_of (current_time w);
          start_word = start_slot div 64; start_bit = start_slot mod 64;
          first_masked = bitmap w ! start_word AND shl64 (- 1) start_bit
      in if first_masked \<noteq> 0
         then Some (current_time w + slot_delta start_slot (start_word * 64 + trailing_zeros64 first_masked))
         else case scan_words (bitmap w) start_word [1..<bitmap_words] of
           Some slot \<Rightarrow> Some (current_time w + slot_delta start_slot slot)
         | None \<Rightarrow>
             let last_masked = bitmap w ! start_word AND NOT (shl64 (- 1) start_bit)
             in if start_bit \<noteq> 0 \<and> last_masked \<noteq> 0
                then Some (current_time w + (start_word * 64 + trailing_zeros64 last_masked + wheel_size - start_slot))
                else first_key (overflow w))"

definition next_time :: "'c timing_wheel \<Rightarrow> nat option \<times> 'c timing_wheel" where
  "next_time w =
     (case next_cache w of
        Some c \<Rightarrow>
          if (case c of None \<Rightarrow> True | Some t \<Rightarrow> t \<ge> current_time w) then (c, w)
          else let r = next_time_scan w in (r, w\<lparr>next_cache := Some r\<rparr>)
      | None \<Rightarrow> let r = next_time_scan w in (r, w\<lparr>next_cache := Some r\<rparr>))"

definition opt_min :: "nat option \<Rightarrow> nat \<Rightarrow> nat option" where
  "opt_min best t = Some (case best of None \<Rightarrow> t | Some b \<Rightarrow> min b t)"

definition next_time_after :: "nat \<Rightarrow> 'c timing_wheel \<Rightarrow> nat option" where
  "next_time_after after w =
     (let base_slot = slot_of (current_time w);
          best = fold (\<lambda>slot best.
            if bitmap w ! (slot div 64) AND slot_bit slot = 0 then best
            else let t = current_time w + (slot + wheel_size - base_slot) mod wheel_size
                 in if t > after then opt_min best t else best) [0..<wheel_size] None
      in case first_key (filter (\<lambda>(t, _). after + 1 \<le> t) (overflow w)) of
           None \<Rightarrow> best
         | Some t \<Rightarrow> opt_min best t)"

section \<open>Removal\<close>

fun move_events :: "(nat \<times> 'c event list) list \<Rightarrow> 'c timing_wheel \<Rightarrow> 'c timing_wheel" where
  "move_events [] w = w"
| "move_events ((t, es) # ms) w =
     move_events ms (bitmap_set (slot_of t) (w\<lparr>slots := (slots w)[slot_of t := slots w ! slot_of t @ es]\<rparr>))"

definition move_overflow_into_wheel :: "nat \<Rightarrow> 'c timing_wheel \<Rightarrow> 'c timing_wheel" where
  "move_overflow_into_wheel time w =
     move_events (filter (\<lambda>(t, _). t < time + wheel_size) (overflow w))
       (w\<lparr>overflow := filter (\<lambda>(t, _). \<not> t < time + wheel_size) (overflow w)\<rparr>)"

definition advance :: "nat \<Rightarrow> 'c timing_wheel \<Rightarrow> 'c timing_wheel" where
  "advance time w = move_overflow_into_wheel time (w\<lparr>current_time := time\<rparr>)"

definition pop_front :: "nat \<Rightarrow> 'c timing_wheel \<Rightarrow> 'c event option \<times> 'c timing_wheel" where
  "pop_front time w =
     (let w = advance time w; s = slot_of time; es = slots w ! s;
          w = w\<lparr>slots := (slots w)[s := tl es]\<rparr>;
          w = (if tl es = [] then bitmap_clear s w else w);
          w = w\<lparr>last_pop_front := False\<rparr>
      in case es of
           [] \<Rightarrow> (None, w)
         | (pid, cont) # _ \<Rightarrow>
             let w = w\<lparr>pid_counts := uncount_pid pid (pid_counts w)\<rparr>
             in (Some (pid, cont),
                 if front_pending w > 0 \<and> front_time w = time
                 then w\<lparr>front_pending := front_pending w - 1, last_pop_front := True\<rparr> else w))"

definition remove_at :: "nat \<Rightarrow> 'c timing_wheel \<Rightarrow> 'c event list \<times> 'c timing_wheel" where
  "remove_at time w =
     (let w = w\<lparr>current_time := time\<rparr>;
          w = (if front_time w = time then w\<lparr>front_pending := 0\<rparr> else w);
          w = move_overflow_into_wheel time w; s = slot_of time; es = slots w ! s;
          w = w\<lparr>slots := (slots w)[s := []]\<rparr>
      in (es, if es = [] then w
              else (bitmap_clear s w)\<lparr>pid_counts := fold (\<lambda>e. uncount_pid (fst e)) es (pid_counts w)\<rparr>))"

text \<open>\<^verbatim>\<open>remove_pid\<close>: the scan of the slots keeps the earliest match; the map is searched for a single
  match only if the slots hold none.\<close>

definition earlier :: "nat \<Rightarrow> (nat \<times> 'c) option \<Rightarrow> 'c event list \<Rightarrow> nat \<Rightarrow> (nat \<times> 'c) option" where
  "earlier pid found es abs_time =
     fold (\<lambda>(p, c) found.
       if p = pid \<and> (case found of None \<Rightarrow> True | Some (t, _) \<Rightarrow> abs_time < t)
       then Some (abs_time, c) else found) es found"

fun scan_slots :: "nat \<Rightarrow> nat list \<Rightarrow> (nat \<times> 'c) option \<Rightarrow> 'c timing_wheel \<Rightarrow> (nat \<times> 'c) option \<times> 'c timing_wheel" where
  "scan_slots pid [] found w = (found, w)"
| "scan_slots pid (s # ss) found w =
     (let es = slots w ! s
      in if es = [] then scan_slots pid ss found w
         else let abs_time = current_time w + (s + wheel_size - slot_of (current_time w)) mod wheel_size;
                  kept = filter (\<lambda>(p, _). p \<noteq> pid) es;
                  w = w\<lparr>slots := (slots w)[s := kept]\<rparr>
              in scan_slots pid ss (earlier pid found es abs_time)
                   (if kept = [] then bitmap_clear s w else w))"

fun remove_first :: "nat \<Rightarrow> 'c event list \<Rightarrow> ('c \<times> 'c event list) option" where
  "remove_first pid [] = None"
| "remove_first pid ((p, c) # es) =
     (if p = pid then Some (c, es)
      else map_option (\<lambda>(c', es'). (c', (p, c) # es')) (remove_first pid es))"

fun overflow_first :: "nat \<Rightarrow> (nat \<times> 'c event list) list \<Rightarrow> (nat \<times> 'c) option \<times> (nat \<times> 'c event list) list" where
  "overflow_first pid [] = (None, [])"
| "overflow_first pid ((t, es) # m) =
     (case remove_first pid es of
        Some (c, es') \<Rightarrow> (Some (t, c), if es' = [] then m else (t, es') # m)
      | None \<Rightarrow> let (r, m') = overflow_first pid m in (r, (t, es) # m'))"

definition remove_pid :: "nat \<Rightarrow> 'c timing_wheel \<Rightarrow> (nat \<times> 'c) option \<times> 'c timing_wheel" where
  "remove_pid pid w =
     (if pid_counts w pid = None then (None, w)
      else let (found, w) = scan_slots pid [0..<wheel_size] None (w\<lparr>next_cache := None\<rparr>);
               (found, ov) =
                 (if found = None then overflow_first pid (overflow w)
                  else (found, filter (\<lambda>(_, es). es \<noteq> [])
                                 (map (\<lambda>(t, es). (t, filter (\<lambda>(p, _). p \<noteq> pid) es)) (overflow w))))
           in (found, w\<lparr>overflow := ov, pid_counts := (pid_counts w)(pid := None)\<rparr>))"

end
