(* ===== verification/Wheel_Inv.thy ===== *)
theory Wheel_Inv
  imports Wheel
begin

text \<open>
  The well-formedness of the timing wheel and what it denotes: for every time the first-in
  first-out list of its events.
\<close>

definition queue_at :: "'c timing_wheel \<Rightarrow> nat \<Rightarrow> 'c event list" where
  "queue_at w t =
     (if current_time w \<le> t \<and> t < current_time w + wheel_size then slots w ! slot_of t
      else bt_get (overflow w) t)"

definition earliest :: "(nat \<Rightarrow> 'a list) \<Rightarrow> nat option" where
  "earliest q = (if \<exists>t. q t \<noteq> [] then Some (LEAST t. q t \<noteq> []) else None)"

definition pids :: "'c event list \<Rightarrow> nat \<Rightarrow> nat" where
  "pids es p = length (filter (\<lambda>e. fst e = p) es)"

definition pid_total :: "'c timing_wheel \<Rightarrow> nat \<Rightarrow> nat" where
  "pid_total w p = sum_list (map (\<lambda>es. pids es p) (slots w)) + sum_list (map (\<lambda>m. pids (snd m) p) (overflow w))"

definition occupied :: "u64 list \<Rightarrow> nat \<Rightarrow> bool" where
  "occupied bm k = bit (bm ! (k div 64)) (k mod 64)"

definition used_words :: "u64 list \<Rightarrow> nat" where
  "used_words bm = length (filter (\<lambda>b. b \<noteq> 0) bm)"

text \<open>The parts of the invariant.\<close>

definition bitmap_ok :: "'c timing_wheel \<Rightarrow> bool" where
  "bitmap_ok w \<longleftrightarrow>
     length (slots w) = wheel_size \<and> length (bitmap w) = bitmap_words \<and>
     (\<forall>k < wheel_size. occupied (bitmap w) k \<longleftrightarrow> slots w ! k \<noteq> []) \<and>
     occupied_words w = used_words (bitmap w)"

definition map_ok :: "nat \<Rightarrow> (nat \<times> 'a list) list \<Rightarrow> bool" where
  "map_ok lo m \<longleftrightarrow> sorted_wrt (<) (map fst m) \<and> (\<forall>(t, es) \<in> set m. lo \<le> t \<and> es \<noteq> [])"

definition counts_ok :: "'c timing_wheel \<Rightarrow> bool" where
  "counts_ok w \<longleftrightarrow> (\<forall>p. pid_counts w p = (if pid_total w p = 0 then None else Some (pid_total w p)))"

definition cache_ok :: "'c timing_wheel \<Rightarrow> bool" where
  "cache_ok w \<longleftrightarrow> (\<forall>c. next_cache w = Some c \<longrightarrow> c = earliest (queue_at w))"

definition wheel_ok :: "'c timing_wheel \<Rightarrow> bool" where
  "wheel_ok w \<longleftrightarrow> bitmap_ok w \<and> map_ok (current_time w + wheel_size) (overflow w) \<and> counts_ok w \<and> cache_ok w"

lemma wheel_size_pos [simp]: "0 < wheel_size" "wheel_size \<noteq> 0"
  by (simp_all add: wheel_size_def)

lemma wheel_words: "wheel_size = 64 * bitmap_words"
  by (simp add: wheel_size_def bitmap_words_def)

lemma slot_lt [simp]: "slot_of t < wheel_size"
  by (simp add: slot_of_def)

lemma slot_word: "k < wheel_size \<Longrightarrow> k div 64 < bitmap_words"
  by (simp add: wheel_words div_less_iff_less_mult mult.commute)

section \<open>Least times\<close>

lemma earliest_SomeI:
  "q t \<noteq> [] \<Longrightarrow> (\<And>t'. t' < t \<Longrightarrow> q t' = []) \<Longrightarrow> earliest q = Some t"
  unfolding earliest_def by (metis (mono_tags, lifting) Least_equality not_less)

lemma earliest_NoneI: "(\<And>t. q t = []) \<Longrightarrow> earliest q = None"
  by (simp add: earliest_def)

lemma earliest_SomeD: "earliest q = Some t \<Longrightarrow> q t \<noteq> [] \<and> (\<forall>t' < t. q t' = [])"
  unfolding earliest_def by (metis (mono_tags, lifting) LeastI not_less_Least option.distinct(1) option.inject)

lemma earliest_NoneD: "earliest q = None \<Longrightarrow> q t = []"
  by (auto simp: earliest_def split: if_splits)

lemma earliest_add:
  assumes "xs \<noteq> []"
  shows "earliest (q(t := xs)) = Some (case earliest q of None \<Rightarrow> t | Some m \<Rightarrow> min m t)"
proof (cases "earliest q")
  case None
  then show ?thesis using assms by (auto intro!: earliest_SomeI dest: earliest_NoneD)
next
  case (Some m)
  from earliest_SomeD[OF this] show ?thesis
    using assms Some by (auto intro!: earliest_SomeI simp: min_def split: if_splits)
qed

section \<open>The ordered map\<close>

lemma bt_get_nil [simp]: "bt_get [] t = []"
  by (simp add: bt_get_def)

lemma bt_get_cons: "bt_get ((k, v) # m) t = (if t = k then v else bt_get m t)"
  by (simp add: bt_get_def)

lemma map_ok_cons:
  "map_ok lo ((k, v) # m) \<longleftrightarrow> lo \<le> k \<and> v \<noteq> [] \<and> map_ok lo m \<and> (\<forall>(t, es)\<in>set m. k < t)"
  by (auto simp: map_ok_def)

lemma bt_get_absent: "(\<And>k v. (k, v) \<in> set m \<Longrightarrow> k \<noteq> t) \<Longrightarrow> bt_get m t = []"
proof -
  assume "\<And>k v. (k, v) \<in> set m \<Longrightarrow> k \<noteq> t"
  then have "map_of m t = None" unfolding map_of_eq_None_iff by force
  then show ?thesis by (simp add: bt_get_def)
qed

lemma bt_update_set:
  "(k', v) \<in> set (bt_update t f m) \<Longrightarrow> (k' = t) \<or> (k', v) \<in> set m"
  by (induction t f m rule: bt_update.induct) (auto split: if_splits)

lemma bt_update_get:
  "map_ok lo m \<Longrightarrow> bt_get (bt_update t f m) = (bt_get m)(t := f (bt_get m t))"
proof (induction t f m rule: bt_update.induct)
  case (2 t f k v m)
  then have m: "map_ok lo m" and gt: "\<forall>(t, es)\<in>set m. k < t" by (simp_all add: map_ok_cons)
  have absent: "t < k \<Longrightarrow> bt_get m t = []"
    using gt by (intro bt_get_absent) auto
  show ?case
    using "2.IH" m absent by (auto simp: bt_get_cons fun_eq_iff)
qed (simp add: bt_get_cons fun_eq_iff)

lemma bt_update_ok:
  assumes "\<And>v. f v \<noteq> []"
  shows "map_ok lo m \<Longrightarrow> lo \<le> t \<Longrightarrow> map_ok lo (bt_update t f m)"
proof (induction m)
  case (Cons a m)
  obtain k v where a: "a = (k, v)" by force
  have m: "map_ok lo m" "lo \<le> k" "v \<noteq> []" and gt: "\<forall>(t, es)\<in>set m. k < t"
    using Cons.prems a by (simp_all add: map_ok_cons)
  show ?case
    using Cons.IH[OF m(1) Cons.prems(2)] m gt assms Cons.prems(2)
    by (fastforce simp: a map_ok_cons dest: bt_update_set)
qed (use assms in \<open>simp add: map_ok_def\<close>)

lemma bt_get_mem: "map_ok lo m \<Longrightarrow> (t, es) \<in> set m \<Longrightarrow> bt_get m t = es"
proof (induction m)
  case (Cons a m)
  obtain k v where a: "a = (k, v)" by force
  have m: "map_ok lo m" and gt: "\<forall>(t, es)\<in>set m. k < t" using Cons.prems a by (simp_all add: map_ok_cons)
  show ?case using Cons m gt by (auto simp: a bt_get_cons)
qed simp

lemma bt_get_key: "bt_get m t \<noteq> [] \<Longrightarrow> (t, bt_get m t) \<in> set m"
  by (auto simp: bt_get_def dest: map_of_SomeD split: option.splits)

lemma bt_get_below: "map_ok lo m \<Longrightarrow> t < lo \<Longrightarrow> bt_get m t = []"
  by (rule bt_get_absent) (auto simp: map_ok_def)

lemma first_key_least:
  "map_ok lo m \<Longrightarrow> first_key m = earliest (bt_get m)"
proof (cases m)
  case (Cons a m')
  obtain k v where a: "a = (k, v)" by force
  assume "map_ok lo m"
  then have "v \<noteq> []" and gt: "\<forall>(t, es)\<in>set m'. k < t" by (simp_all add: Cons a map_ok_cons)
  moreover have "bt_get m t = []" if "t < k" for t
    using that gt by (intro bt_get_absent) (auto simp: Cons a)
  ultimately show ?thesis
    by (auto simp: Cons a first_key_def bt_get_cons intro!: earliest_SomeI[symmetric])
qed (simp add: first_key_def earliest_NoneI)

section \<open>The bitmap\<close>

lemma bitmap_set_slots [simp]:
  "slots (bitmap_set s w) = slots w" "overflow (bitmap_set s w) = overflow w"
  "next_cache (bitmap_set s w) = next_cache w" "current_time (bitmap_set s w) = current_time w"
  "pid_counts (bitmap_set s w) = pid_counts w" "front_time (bitmap_set s w) = front_time w"
  "front_pending (bitmap_set s w) = front_pending w" "last_pop_front (bitmap_set s w) = last_pop_front w"
  by (simp_all add: bitmap_set_def Let_def)

lemma bitmap_clear_slots [simp]:
  "slots (bitmap_clear s w) = slots w" "overflow (bitmap_clear s w) = overflow w"
  "next_cache (bitmap_clear s w) = None" "current_time (bitmap_clear s w) = current_time w"
  "pid_counts (bitmap_clear s w) = pid_counts w" "front_time (bitmap_clear s w) = front_time w"
  "front_pending (bitmap_clear s w) = front_pending w" "last_pop_front (bitmap_clear s w) = last_pop_front w"
  by (simp_all add: bitmap_clear_def Let_def)

lemma same_slot: "k div 64 = s div 64 \<Longrightarrow> k mod 64 = s mod 64 \<Longrightarrow> k = (s :: nat)"
  by (metis div_mult_mod_eq)

lemma bit_slot_bit: "bit (slot_bit s) i \<longleftrightarrow> i = s mod 64"
  by (auto simp: slot_bit_def bit_exp_iff)

lemma occupied_set:
  assumes "length (bitmap w) = bitmap_words" and "s < wheel_size" and "k < wheel_size"
  shows "occupied (bitmap (bitmap_set s w)) k \<longleftrightarrow> k = s \<or> occupied (bitmap w) k"
  using slot_word[OF assms(2)] slot_word[OF assms(3)] assms(1) same_slot[of k s]
  by (cases "k div 64 = s div 64")
    (auto simp: occupied_def bitmap_set_def Let_def nth_list_update bit_or_iff bit_slot_bit)

lemma occupied_clear:
  assumes "length (bitmap w) = bitmap_words" and "s < wheel_size" and "k < wheel_size"
  shows "occupied (bitmap (bitmap_clear s w)) k \<longleftrightarrow> k \<noteq> s \<and> occupied (bitmap w) k"
  using slot_word[OF assms(2)] slot_word[OF assms(3)] assms(1) same_slot[of k s]
  by (cases "k div 64 = s div 64")
    (auto simp: occupied_def bitmap_clear_def Let_def nth_list_update bit_and_iff bit_not_iff bit_slot_bit)

lemma used_words_update:
  "i < length bm \<Longrightarrow> used_words (bm[i := b]) =
     used_words bm - (if bm ! i \<noteq> 0 then 1 else 0) + (if b \<noteq> 0 then 1 else 0)"
proof (induction bm arbitrary: i)
  case (Cons a bm)
  have "bm ! j \<noteq> 0 \<Longrightarrow> j < length bm \<Longrightarrow> used_words bm > 0" for j
    by (auto simp: used_words_def filter_empty_conv)
  then show ?case using Cons by (cases i) (auto simp: used_words_def)
qed simp

lemma one_hot_nonzero: "b OR slot_bit s \<noteq> 0"
proof -
  have "bit (b OR slot_bit s) (s mod 64)" by (simp add: bit_or_iff bit_slot_bit)
  then show ?thesis by (metis bit_0_eq bot_apply bot_bool_def)
qed

lemma occupied_words_set:
  assumes "length (bitmap w) = bitmap_words" and "s < wheel_size" and "occupied_words w = used_words (bitmap w)"
  shows "occupied_words (bitmap_set s w) = used_words (bitmap (bitmap_set s w))"
proof -
  have i: "s div 64 < length (bitmap w)" using slot_word[OF assms(2)] assms(1) by simp
  have pos: "bitmap w ! (s div 64) \<noteq> 0 \<Longrightarrow> 0 < used_words (bitmap w)"
    using i by (auto simp: used_words_def filter_empty_conv)
  show ?thesis
    using assms(3) pos one_hot_nonzero[of "bitmap w ! (s div 64)" s]
    by (auto simp: bitmap_set_def Let_def used_words_update[OF i])
qed

lemma occupied_words_clear:
  assumes "length (bitmap w) = bitmap_words" and "s < wheel_size" and "occupied_words w = used_words (bitmap w)"
  shows "occupied_words (bitmap_clear s w) = used_words (bitmap (bitmap_clear s w))"
proof -
  have i: "s div 64 < length (bitmap w)" using slot_word[OF assms(2)] assms(1) by simp
  have pos: "bitmap w ! (s div 64) \<noteq> 0 \<Longrightarrow> 0 < used_words (bitmap w)"
    using i by (auto simp: used_words_def filter_empty_conv)
  show ?thesis
    using assms(3) pos by (auto simp: bitmap_clear_def Let_def used_words_update[OF i])
qed

lemma bitmap_set_length [simp]: "length (bitmap (bitmap_set s w)) = length (bitmap w)"
  by (simp add: bitmap_set_def Let_def)

lemma bitmap_clear_length [simp]: "length (bitmap (bitmap_clear s w)) = length (bitmap w)"
  by (simp add: bitmap_clear_def Let_def)

lemma bitmap_ok_cong:
  "slots w' = slots w \<Longrightarrow> bitmap w' = bitmap w \<Longrightarrow> occupied_words w' = occupied_words w \<Longrightarrow> bitmap_ok w' = bitmap_ok w"
  by (simp add: bitmap_ok_def)

text \<open>Changing a slot and its bit together.\<close>

lemma bitmap_ok_fill:
  assumes "bitmap_ok w" and "s < wheel_size" and "es \<noteq> []"
  shows "bitmap_ok (bitmap_set s (w\<lparr>slots := (slots w)[s := es]\<rparr>))"
proof -
  let ?w = "w\<lparr>slots := (slots w)[s := es]\<rparr>"
  have len: "length (bitmap ?w) = bitmap_words" using assms by (simp add: bitmap_ok_def)
  show ?thesis
    using assms occupied_set[OF len assms(2)] occupied_words_set[OF len assms(2)]
    by (auto simp: bitmap_ok_def nth_list_update)
qed

lemma bitmap_ok_empty:
  assumes "bitmap_ok w" and "s < wheel_size"
  shows "bitmap_ok (bitmap_clear s (w\<lparr>slots := (slots w)[s := []]\<rparr>))"
proof -
  let ?w = "w\<lparr>slots := (slots w)[s := []]\<rparr>"
  have len: "length (bitmap ?w) = bitmap_words" using assms by (simp add: bitmap_ok_def)
  show ?thesis
    using assms occupied_clear[OF len assms(2)] occupied_words_clear[OF len assms(2)]
    by (auto simp: bitmap_ok_def nth_list_update)
qed

lemma bitmap_ok_refill:
  assumes "bitmap_ok w" and "s < wheel_size" and "es \<noteq> []" and "slots w ! s \<noteq> []"
  shows "bitmap_ok (w\<lparr>slots := (slots w)[s := es]\<rparr>)"
  using assms by (auto simp: bitmap_ok_def nth_list_update)

end
