(* ===== verification/Wheel_Ops.thy ===== *)
theory Wheel_Ops
  imports Wheel_Inv
begin

text \<open>
  Every operation that schedules or removes events keeps the timing wheel well-formed and changes
  the queues of events as its name says.
\<close>

section \<open>Placing an event\<close>

lemma slot_apart:
  assumes "a \<le> b" and "slot_of a = slot_of b" and "a \<noteq> b"
  shows "a + wheel_size \<le> b"
proof -
  have "b mod wheel_size = a mod wheel_size" using assms(2) by (simp add: slot_of_def)
  then obtain q where "b = a + wheel_size * q" by (rule mod_eq_nat1E[OF _ assms(1)])
  then show ?thesis using assms(3) by (cases q) auto
qed

lemma slot_inj:
  assumes "lo \<le> a" "a < lo + wheel_size" "lo \<le> b" "b < lo + wheel_size" "slot_of a = slot_of b"
  shows "a = b"
  using slot_apart[of a b] slot_apart[of b a] assms by linarith

lemma place_fields [simp]:
  "current_time (place put t w) = current_time w" "pid_counts (place put t w) = pid_counts w"
  "next_cache (place put t w) = next_cache w" "front_time (place put t w) = front_time w"
  "front_pending (place put t w) = front_pending w"
  by (simp_all add: place_def)

lemma place_queue:
  assumes "bitmap_ok w" and "map_ok (current_time w + wheel_size) (overflow w)" and "current_time w \<le> t"
  shows "queue_at (place put t w) = (queue_at w)(t := put (queue_at w t))"
proof
  fix x
  show "queue_at (place put t w) x = ((queue_at w)(t := put (queue_at w t))) x"
  proof (cases "t < current_time w + wheel_size")
    case True
    have "x \<noteq> t \<Longrightarrow> current_time w \<le> x \<Longrightarrow> x < current_time w + wheel_size \<Longrightarrow> slot_of x \<noteq> slot_of t"
      using slot_inj[of "current_time w" x t] assms(3) True by auto
    then show ?thesis
      using True assms by (auto simp: queue_at_def place_def bitmap_ok_def)
  next
    case False
    then show ?thesis
      using bt_update_get[OF assms(2)] by (auto simp: queue_at_def place_def)
  qed
qed

lemma place_bitmap: "bitmap_ok w \<Longrightarrow> (\<And>v. put v \<noteq> []) \<Longrightarrow> bitmap_ok (place put t w)"
  using bitmap_ok_fill[of w "slot_of t"] by (auto simp: place_def) (simp add: bitmap_ok_def)

lemma place_map:
  "map_ok (current_time w + wheel_size) (overflow w) \<Longrightarrow> (\<And>v. put v \<noteq> []) \<Longrightarrow>
   map_ok (current_time w + wheel_size) (overflow (place put t w))"
  by (simp add: place_def bt_update_ok)

lemma pids_append [simp]: "pids (xs @ ys) p = pids xs p + pids ys p"
  by (simp add: pids_def)

lemma pids_nil [simp]: "pids [] p = 0"
  by (simp add: pids_def)

lemma pids_cons: "pids (e # es) p = (if fst e = p then 1 else 0) + pids es p"
  by (simp add: pids_def)

lemma sum_bt_update:
  assumes "\<And>v. pids (put v) p = pids v p + d"
  shows "sum_list (map (\<lambda>m. pids (snd m) p) (bt_update t put m)) = sum_list (map (\<lambda>m. pids (snd m) p) m) + d"
  by (induction m) (auto simp: assms)

lemma sum_slots_update:
  fixes f :: "'a \<Rightarrow> nat"
  assumes "s < length xs" and "f x = f (xs ! s) + d"
  shows "sum_list (map f (xs[s := x])) = sum_list (map f xs) + d"
  using assms
proof (induction xs arbitrary: s)
  case (Cons a xs)
  then show ?case by (cases s) auto
qed simp

lemma place_total:
  assumes "bitmap_ok w" and "\<And>v. pids (put v) p = pids v p + d"
  shows "pid_total (place put t w) p = pid_total w p + d"
  using assms(1) sum_bt_update[of put p d, OF assms(2)]
    sum_slots_update[of "slot_of t" "slots w" "\<lambda>es. pids es p" "put (slots w ! slot_of t)" d] assms(2)
  by (simp add: place_def pid_total_def bitmap_ok_def)

section \<open>Scheduling\<close>

lemma narrow_fields [simp]:
  "slots (narrow_next_cache t w) = slots w" "overflow (narrow_next_cache t w) = overflow w"
  "bitmap (narrow_next_cache t w) = bitmap w" "occupied_words (narrow_next_cache t w) = occupied_words w"
  "current_time (narrow_next_cache t w) = current_time w" "pid_counts (narrow_next_cache t w) = pid_counts w"
  by (simp_all add: narrow_next_cache_def split: option.splits)

lemma queue_at_cong:
  "slots w' = slots w \<Longrightarrow> overflow w' = overflow w \<Longrightarrow> current_time w' = current_time w \<Longrightarrow> queue_at w' = queue_at w"
  by (simp add: queue_at_def fun_eq_iff)

lemma pid_total_cong:
  "slots w' = slots w \<Longrightarrow> overflow w' = overflow w \<Longrightarrow> pid_total w' p = pid_total w p"
  by (simp add: pid_total_def)

lemma cache_narrow:
  assumes "\<forall>c. next_cache w = Some c \<longrightarrow> c = earliest q" and "es \<noteq> []"
  shows "next_cache (narrow_next_cache t w) = Some c \<Longrightarrow> c = earliest (q(t := es))"
  using assms by (auto simp: narrow_next_cache_def earliest_add split: option.splits)

lemma counts_add:
  assumes "\<forall>p. m p = (if tot p = 0 then None else Some (tot p))"
    and "\<And>p. tot' p = tot p + (if pid = p then 1 else 0)"
  shows "\<forall>p. count_pid pid m p = (if tot' p = (0 :: nat) then None else Some (tot' p))"
  using assms by (auto simp: count_pid_def split: option.splits if_splits)

text \<open>The common shape of the operations that add one event.\<close>

lemma add_event_ok:
  assumes ok: "wheel_ok w" and t: "current_time w \<le> t"
    and put: "\<And>v. put v \<noteq> []" "\<And>v p. pids (put v) p = pids v p + (if pid = p then 1 else 0)"
    and w': "slots w' = slots w" "overflow w' = overflow w" "bitmap w' = bitmap w"
      "occupied_words w' = occupied_words w" "current_time w' = current_time w"
      "pid_counts w' = count_pid pid (pid_counts w)" "next_cache w' = next_cache (narrow_next_cache t w)"
  shows "wheel_ok (place put t w') \<and> queue_at (place put t w') = (queue_at w)(t := put (queue_at w t)) \<and>
    current_time (place put t w') = current_time w"
proof -
  have q: "queue_at w' = queue_at w" by (rule queue_at_cong) (simp_all add: w')
  have b: "bitmap_ok w'" using ok bitmap_ok_cong[of w' w] by (simp add: w' wheel_ok_def)
  have m: "map_ok (current_time w' + wheel_size) (overflow w')" using ok by (simp add: w' wheel_ok_def)
  have queue: "queue_at (place put t w') = (queue_at w)(t := put (queue_at w t))"
    using place_queue[OF b m, of t put] t by (simp add: q w')
  have tot: "pid_total (place put t w') p = pid_total w p + (if pid = p then 1 else 0)" for p
    using place_total[OF b, of put p "if pid = p then 1 else 0" t] put(2) pid_total_cong[of w' w p] by (simp add: w')
  have "counts_ok (place put t w')"
    using counts_add[of "pid_counts w" "pid_total w" "pid_total (place put t w')" pid, OF _ tot] ok
    by (simp add: counts_ok_def wheel_ok_def w')
  moreover have "cache_ok (place put t w')"
    using cache_narrow[of w "queue_at w" "put (queue_at w t)" t] ok put(1)
    by (simp add: cache_ok_def wheel_ok_def queue w')
  ultimately show ?thesis
    using place_bitmap[OF b put(1)] place_map[OF m put(1)] queue by (simp add: wheel_ok_def w')
qed

lemma schedule_ok:
  assumes "wheel_ok w" and "current_time w \<le> t"
  shows "wheel_ok (schedule t pid c w) \<and>
    queue_at (schedule t pid c w) = (queue_at w)(t := queue_at w t @ [(pid, c)]) \<and>
    current_time (schedule t pid c w) = current_time w"
  unfolding schedule_def
  by (rule add_event_ok[where pid = pid, OF assms])
    (simp_all add: pids_cons narrow_next_cache_def split: option.splits)

lemma schedule_front_ok:
  assumes "wheel_ok w" and "current_time w \<le> t"
  shows "wheel_ok (schedule_front t pid c w) \<and>
    queue_at (schedule_front t pid c w) = (queue_at w)(t := (pid, c) # queue_at w t) \<and>
    current_time (schedule_front t pid c w) = current_time w"
  unfolding schedule_front_def Let_def
  by (rule add_event_ok[where pid = pid, OF assms])
    (simp_all add: pids_cons narrow_next_cache_def split: option.splits)

text \<open>Requeuing a batch, which must not be empty: the cache is narrowed to its time.\<close>

lemma put_back_ok:
  assumes "wheel_ok w" and "current_time w \<le> t" and "next_cache (narrow_next_cache t w) = next_cache w"
  shows "wheel_ok (put_back t e w) \<and> queue_at (put_back t e w) = (queue_at w)(t := e # queue_at w t) \<and>
    current_time (put_back t e w) = current_time w"
  unfolding put_back_def
  by (rule add_event_ok[where pid = "fst e", OF assms(1,2)]) (simp_all add: pids_cons assms(3))

lemma narrow_idle:
  "wheel_ok w \<Longrightarrow> earliest (queue_at w) = Some m \<Longrightarrow> m \<le> t \<Longrightarrow> next_cache (narrow_next_cache t w) = next_cache w"
  by (auto simp: narrow_next_cache_def wheel_ok_def cache_ok_def min_def split: option.splits)

lemma requeue_events:
  assumes "wheel_ok w" and "current_time w \<le> t" and "earliest (queue_at w) = Some m" and "m \<le> t"
  shows "wheel_ok (fold (put_back t) (rev rest) w) \<and>
    queue_at (fold (put_back t) (rev rest) w) = (queue_at w)(t := rest @ queue_at w t) \<and>
    current_time (fold (put_back t) (rev rest) w) = current_time w"
  using assms
proof (induction rest arbitrary: w rule: rev_induct)
  case (snoc e rest)
  note step = put_back_ok[OF snoc.prems(1,2) narrow_idle[OF snoc.prems(1,3,4)], of e]
  have "earliest (queue_at (put_back t e w)) = Some m"
    using step snoc.prems(3,4) by (simp add: earliest_add min_def)
  from snoc.IH[OF _ _ this snoc.prems(4)] show ?case using step snoc.prems(2) by (simp add: fun_eq_iff)
qed simp

lemma requeue_front_ok:
  assumes ok: "wheel_ok w" and t: "current_time w \<le> t" and ne: "rest \<noteq> []"
  shows "wheel_ok (requeue_front t rest w) \<and>
    queue_at (requeue_front t rest w) = (queue_at w)(t := rest @ queue_at w t) \<and>
    current_time (requeue_front t rest w) = current_time w"
proof -
  obtain rest' e where rest: "rest = rest' @ [e]" using ne by (metis rev_exhaust)
  let ?w = "put_back t e (narrow_next_cache t w)"
  have step: "wheel_ok ?w \<and> queue_at ?w = (queue_at w)(t := e # queue_at w t) \<and> current_time ?w = current_time w"
    unfolding put_back_def
    by (rule add_event_ok[where pid = "fst e", OF ok t]) (simp_all add: pids_cons)
  obtain m where "earliest (queue_at ?w) = Some m" "m \<le> t"
    using step by (auto simp: earliest_add split: option.splits)
  from requeue_events[OF _ _ this, of rest'] step t show ?thesis by (simp add: requeue_front_def rest)
qed

section \<open>Advancing the wheel's clock\<close>

lemma bitmap_ok_length: "bitmap_ok w \<Longrightarrow> length (slots w) = wheel_size"
  by (simp add: bitmap_ok_def)

lemma move_fields [simp]:
  "overflow (move_events ms w) = overflow w" "current_time (move_events ms w) = current_time w"
  "pid_counts (move_events ms w) = pid_counts w" "next_cache (move_events ms w) = next_cache w"
  "front_time (move_events ms w) = front_time w" "front_pending (move_events ms w) = front_pending w"
  by (induction ms w rule: move_events.induct) simp_all

lemma move_bitmap: "bitmap_ok w \<Longrightarrow> \<forall>(t, es)\<in>set ms. es \<noteq> [] \<Longrightarrow> bitmap_ok (move_events ms w)"
proof (induction ms w rule: move_events.induct)
  case (2 t es ms w)
  have "bitmap_ok (bitmap_set (slot_of t) (w\<lparr>slots := (slots w)[slot_of t := slots w ! slot_of t @ es]\<rparr>))"
    using 2 by (intro bitmap_ok_fill) simp_all
  then show ?case using 2 by simp
qed simp

lemma move_slots:
  "length (slots w) = wheel_size \<Longrightarrow> k < wheel_size \<Longrightarrow>
   slots (move_events ms w) ! k = slots w ! k @ concat (map snd (filter (\<lambda>(t, _). slot_of t = k) ms))"
  by (induction ms w rule: move_events.induct) (auto simp: nth_list_update)

lemma move_total:
  "length (slots w) = wheel_size \<Longrightarrow>
   sum_list (map (\<lambda>es. pids es p) (slots (move_events ms w))) =
     sum_list (map (\<lambda>es. pids es p) (slots w)) + sum_list (map (\<lambda>m. pids (snd m) p) ms)"
proof (induction ms w rule: move_events.induct)
  case (2 t es ms w)
  have "sum_list (map (\<lambda>es. pids es p) ((slots w)[slot_of t := slots w ! slot_of t @ es])) =
      sum_list (map (\<lambda>es. pids es p) (slots w)) + pids es p"
    by (rule sum_slots_update) (use 2 in simp_all)
  then show ?case using 2 by simp
qed simp

lemma bt_get_filter: "bt_get (filter (\<lambda>(t, _). P t) m) t = (if P t then bt_get m t else [])"
  by (induction m) (auto simp: bt_get_cons)

lemma map_ok_filter: "map_ok lo m \<Longrightarrow> (\<And>t. P t \<Longrightarrow> lo' \<le> t) \<Longrightarrow> map_ok lo' (filter (\<lambda>(t, _). P t) m)"
  by (induction m) (auto simp: map_ok_def)

lemma moved_events:
  assumes "map_ok lo' m" and "\<forall>(k, _)\<in>set m. lo \<le> k \<and> k < lo + wheel_size" and "lo \<le> t" and "t < lo + wheel_size"
  shows "concat (map snd (filter (\<lambda>(k, _). slot_of k = slot_of t) m)) = bt_get m t"
  using assms(1,2)
proof (induction m)
  case (Cons a m)
  obtain k v where a: "a = (k, v)" by force
  have gt: "\<forall>(t, es)\<in>set m. k < t" and m: "map_ok lo' m" using Cons.prems a by (simp_all add: map_ok_cons)
  have k: "slot_of k = slot_of t \<longleftrightarrow> k = t"
    using Cons.prems assms(3,4) slot_inj[of lo k t] by (auto simp: a)
  have "bt_get m k = []" using gt by (intro bt_get_absent) auto
  moreover have "concat (map snd (filter (\<lambda>(k, _). slot_of k = slot_of t) m)) = bt_get m t"
    using Cons.IH m Cons.prems by (simp add: a)
  ultimately show ?case using k by (cases "k = t") (simp_all add: a bt_get_cons del: concat_eq_Nil_conv)
qed simp

lemma advance_fields [simp]:
  "current_time (advance t w) = t" "pid_counts (advance t w) = pid_counts w" "next_cache (advance t w) = next_cache w"
  "front_time (advance t w) = front_time w" "front_pending (advance t w) = front_pending w"
  "overflow (advance t w) = filter (\<lambda>(k, _). \<not> k < t + wheel_size) (overflow w)"
  by (simp_all add: advance_def move_overflow_into_wheel_def)

lemma advance_bitmap:
  assumes "bitmap_ok w" and "map_ok lo (overflow w)"
  shows "bitmap_ok (advance t w)"
  unfolding advance_def move_overflow_into_wheel_def
  using assms by (intro move_bitmap) (auto simp: bitmap_ok_def map_ok_def)

lemma advance_queue:
  assumes b: "bitmap_ok w" and m: "map_ok (current_time w + wheel_size) (overflow w)"
    and t: "current_time w \<le> t" and past: "\<And>x. x < t \<Longrightarrow> queue_at w x = []"
  shows "queue_at (advance t w) = queue_at w"
proof
  fix x
  let ?ms = "filter (\<lambda>(k, _). k < t + wheel_size) (overflow w)"
  have keys: "t \<le> k" if "(k, es) \<in> set (overflow w)" for k es
  proof (rule ccontr)
    assume "\<not> t \<le> k"
    then have "queue_at w k = []" using past by simp
    moreover have "current_time w + wheel_size \<le> k" "es \<noteq> []" using m that by (auto simp: map_ok_def)
    ultimately show False using bt_get_mem[OF m that] by (simp add: queue_at_def)
  qed
  show "queue_at (advance t w) x = queue_at w x"
  proof (cases "t \<le> x \<and> x < t + wheel_size")
    case True
    have ms: "map_ok (current_time w + wheel_size) ?ms"
      using m by (auto simp: map_ok_def sorted_wrt_filter sorted_wrt_map)
    have "slots (advance t w) ! slot_of x = slots w ! slot_of x @ bt_get (overflow w) x"
      using moved_events[OF ms, of t x] True keys bitmap_ok_length[OF b] bt_get_filter[of "\<lambda>k. k < t + wheel_size" "overflow w" x]
      by (fastforce simp: advance_def move_overflow_into_wheel_def move_slots)
    moreover have "bt_get (overflow w) x = []" if "x < current_time w + wheel_size"
      using bt_get_below[OF m that] .
    moreover have "slots w ! slot_of x = []" if x: "current_time w + wheel_size \<le> x"
    proof -
      let ?y = "current_time w + (x - current_time w) mod wheel_size"
      have "slot_of ?y = slot_of x" using x by (simp add: slot_of_def mod_add_right_eq)
      moreover have y: "?y < current_time w + wheel_size" by simp
      moreover have "?y < t"
        using slot_apart[of ?y x] calculation x True by linarith
      ultimately show ?thesis using past[of ?y] by (simp add: queue_at_def)
    qed
    ultimately show ?thesis
      using True t by (cases "x < current_time w + wheel_size") (simp_all add: queue_at_def)
  next
    case False
    then show ?thesis
      using past[of x] t by (auto simp: queue_at_def bt_get_filter)
  qed
qed

lemma advance_total:
  assumes "bitmap_ok w"
  shows "pid_total (advance t w) p = pid_total w p"
proof -
  have "sum_list (map (\<lambda>m. pids (snd m) p) (filter P m)) + sum_list (map (\<lambda>m. pids (snd m) p) (filter (\<lambda>x. \<not> P x) m)) =
      sum_list (map (\<lambda>m. pids (snd m) p) m)" for P and m :: "(nat \<times> 'a event list) list"
    by (induction m) auto
  from this[of "\<lambda>(k, _). k < t + wheel_size" "overflow w"] show ?thesis
    using assms by (simp add: pid_total_def advance_def move_overflow_into_wheel_def move_total bitmap_ok_length case_prod_unfold)
qed

lemma advance_ok:
  assumes "wheel_ok w" and "current_time w \<le> t" and "\<And>x. x < t \<Longrightarrow> queue_at w x = []"
  shows "wheel_ok (advance t w) \<and> queue_at (advance t w) = queue_at w"
proof -
  have q: "queue_at (advance t w) = queue_at w" using assms by (intro advance_queue) (auto simp: wheel_ok_def)
  moreover have "map_ok (t + wheel_size) (filter (\<lambda>(k, _). \<not> k < t + wheel_size) (overflow w))"
    using assms(1) by (intro map_ok_filter) (auto simp: wheel_ok_def)
  ultimately show ?thesis
    using assms(1) advance_bitmap[of w _ t] advance_total[of w t]
    by (auto simp: wheel_ok_def counts_ok_def cache_ok_def)
qed

end
