(* ===== verification/Wheel_Pop.thy ===== *)
theory Wheel_Pop
  imports Wheel_Ops
begin

text \<open>
  Taking events out of the timing wheel, and finding the next time by the scan of the bitmap.
\<close>

section \<open>Removing from a slot\<close>

lemma slots_update_queue:
  assumes "length (slots w) = wheel_size" and "current_time w = t"
  shows "queue_at (w\<lparr>slots := (slots w)[slot_of t := es]\<rparr>) = (queue_at w)(t := es)"
proof
  fix x
  have "x \<noteq> t \<Longrightarrow> t \<le> x \<Longrightarrow> x < t + wheel_size \<Longrightarrow> slot_of x \<noteq> slot_of t"
    using slot_inj[of t x t] by auto
  then show "queue_at (w\<lparr>slots := (slots w)[slot_of t := es]\<rparr>) x = ((queue_at w)(t := es)) x"
    using assms by (auto simp: queue_at_def)
qed

lemma sum_slots_remove:
  fixes f :: "'a \<Rightarrow> nat"
  assumes "s < length xs" and "f (xs ! s) = f x + d"
  shows "sum_list (map f (xs[s := x])) + d = sum_list (map f xs)"
  using assms
proof (induction xs arbitrary: s)
  case (Cons a xs)
  then show ?case by (cases s) auto
qed simp

lemma slot_total:
  assumes "length (slots w) = wheel_size" and "s < wheel_size" and "pids (slots w ! s) p = pids es p + d"
  shows "pid_total (w\<lparr>slots := (slots w)[s := es]\<rparr>) p + d = pid_total w p"
  using sum_slots_remove[of s "slots w" "\<lambda>es. pids es p" es d] assms by (simp add: pid_total_def)

text \<open>The counts after removing the events \<open>gone\<close>.\<close>

lemma uncount:
  assumes "\<forall>p. m p = (if tot p = (0 :: nat) then None else Some (tot p))" and "0 < tot pid"
  shows "\<forall>p. uncount_pid pid m p = (if tot p - (if pid = p then 1 else 0) = 0 then None
           else Some (tot p - (if pid = p then 1 else 0)))"
  using assms by (auto simp: uncount_pid_def)

lemma uncount_all:
  assumes "\<forall>p. m p = (if tot p = (0 :: nat) then None else Some (tot p))" and "\<forall>p. pids es p \<le> tot p"
  shows "\<forall>p. fold (\<lambda>e. uncount_pid (fst e)) es m p =
    (if tot p - pids es p = 0 then None else Some (tot p - pids es p))"
  using assms
proof (induction es arbitrary: m tot)
  case (Cons e es)
  have "1 \<le> tot (fst e)" using Cons.prems(2)[rule_format, of "fst e"] by (simp add: pids_cons)
  then have "\<forall>p. uncount_pid (fst e) m p = (if tot p - (if fst e = p then 1 else 0) = 0 then None
           else Some (tot p - (if fst e = p then 1 else 0)))"
    by (intro uncount[OF Cons.prems(1)]) simp
  moreover have "pids es p \<le> tot p - (if fst e = p then 1 else 0)" for p
    using Cons.prems(2)[rule_format, of p] by (simp add: pids_cons split: if_splits)
  ultimately have "\<forall>p. fold (\<lambda>e. uncount_pid (fst e)) es (uncount_pid (fst e) m) p =
    (if tot p - (if fst e = p then 1 else 0) - pids es p = 0 then None
     else Some (tot p - (if fst e = p then 1 else 0) - pids es p))"
    by (intro Cons.IH) auto
  then show ?case by (simp add: pids_cons)
qed simp

text \<open>The common shape of the operations that shorten the current slot.\<close>

lemma take_events_ok:
  assumes ok: "wheel_ok w" and t: "current_time w = t"
    and es: "slots w ! slot_of t = gone @ rest" "gone \<noteq> []"
    and w': "w' = (if rest = [] then bitmap_clear (slot_of t) (w\<lparr>slots := (slots w)[slot_of t := rest]\<rparr>)
                 else w\<lparr>slots := (slots w)[slot_of t := rest]\<rparr>)"
    and cache: "rest \<noteq> [] \<Longrightarrow> next_cache w \<noteq> None \<Longrightarrow> next_cache w = Some (Some t)"
    and past: "\<And>x. x < t \<Longrightarrow> queue_at w x = []"
  shows "wheel_ok (w'\<lparr>pid_counts := fold (\<lambda>e. uncount_pid (fst e)) gone (pid_counts w)\<rparr>) \<and>
    queue_at w' = (queue_at w)(t := rest)"
proof -
  let ?u = "w\<lparr>slots := (slots w)[slot_of t := rest]\<rparr>"
  have b: "bitmap_ok w" and len: "length (slots w) = wheel_size"
    using ok by (simp_all add: wheel_ok_def bitmap_ok_def)
  have b': "bitmap_ok w'"
    using bitmap_ok_empty[OF b, of "slot_of t"] bitmap_ok_refill[OF b, of "slot_of t" rest] es w' by auto
  have q: "queue_at w' = (queue_at w)(t := rest)"
  proof -
    have "queue_at w' = queue_at ?u" unfolding w' by (rule queue_at_cong) simp_all
    then show ?thesis using slots_update_queue[OF len t] by simp
  qed
  have tot: "pid_total w' p + pids gone p = pid_total w p" for p
    using slot_total[OF len slot_lt, of t p rest "pids gone p"] es w'
      pid_total_cong[of "bitmap_clear (slot_of t) ?u" ?u p] by auto
  have "pids gone p \<le> pid_total w p" "pid_total w' p = pid_total w p - pids gone p" for p
    using tot[of p] by linarith+
  then have "counts_ok (w'\<lparr>pid_counts := fold (\<lambda>e. uncount_pid (fst e)) gone (pid_counts w)\<rparr>)"
    using uncount_all[of "pid_counts w" "pid_total w" gone] ok pid_total_cong[of "w'\<lparr>pid_counts := _\<rparr>" w']
    by (simp add: counts_ok_def wheel_ok_def)
  moreover have "cache_ok w'"
  proof (cases "rest = []")
    case False
    have "earliest (queue_at w') = Some t"
      unfolding q using False past by (intro earliest_SomeI) auto
    then show ?thesis using cache[OF False] False w' by (cases "next_cache w") (simp_all add: cache_ok_def)
  qed (simp add: w' cache_ok_def)
  moreover have "map_ok (current_time w' + wheel_size) (overflow w')"
    using ok by (simp add: w' wheel_ok_def)
  ultimately have "wheel_ok (w'\<lparr>pid_counts := fold (\<lambda>e. uncount_pid (fst e)) gone (pid_counts w)\<rparr>)"
    using b' bitmap_ok_cong[of "w'\<lparr>pid_counts := _\<rparr>" w'] queue_at_cong[of "w'\<lparr>pid_counts := _\<rparr>" w']
    by (simp add: wheel_ok_def cache_ok_def)
  then show ?thesis using q by blast
qed

lemma queue_at_current: "current_time w = t \<Longrightarrow> queue_at w t = slots w ! slot_of t"
  by (simp add: queue_at_def)

text \<open>Fields that do not matter.\<close>

lemma wheel_ok_cong:
  assumes "slots w' = slots w" "overflow w' = overflow w" "bitmap w' = bitmap w"
    "occupied_words w' = occupied_words w" "current_time w' = current_time w"
    "pid_counts w' = pid_counts w" "next_cache w' = next_cache w"
  shows "wheel_ok w' = wheel_ok w"
  using bitmap_ok_cong[of w' w] pid_total_cong[of w' w] queue_at_cong[of w' w] assms
  by (simp add: wheel_ok_def counts_ok_def cache_ok_def)

lemma wheel_ok_front:
  "wheel_ok (w\<lparr>front_pending := n\<rparr>) = wheel_ok w" "queue_at (w\<lparr>front_pending := n\<rparr>) = queue_at w"
  "wheel_ok (w\<lparr>last_pop_front := b\<rparr>) = wheel_ok w" "queue_at (w\<lparr>last_pop_front := b\<rparr>) = queue_at w"
  "queue_at (w\<lparr>pid_counts := m\<rparr>) = queue_at w"
  by (rule wheel_ok_cong queue_at_cong; simp)+

lemma wheel_ok_clear:
  assumes "wheel_ok w" and "slots w ! slot_of t = []"
  shows "wheel_ok (bitmap_clear (slot_of t) w)"
proof -
  have self: "w\<lparr>slots := (slots w)[slot_of t := []]\<rparr> = w"
    using assms(2) list_update_id[of "slots w" "slot_of t"] by simp
  have "bitmap_ok (bitmap_clear (slot_of t) w)"
    using bitmap_ok_empty[of w "slot_of t"] assms(1) self by (simp add: wheel_ok_def)
  then show ?thesis
    using assms(1) pid_total_cong[of "bitmap_clear (slot_of t) w" w]
    by (simp add: wheel_ok_def counts_ok_def cache_ok_def)
qed

lemma pop_front_ok:
  assumes ok: "wheel_ok w" and t: "current_time w \<le> t" and past: "\<And>x. x < t \<Longrightarrow> queue_at w x = []"
  shows "fst (pop_front t w) = (case queue_at w t of [] \<Rightarrow> None | e # _ \<Rightarrow> Some e) \<and>
    wheel_ok (snd (pop_front t w)) \<and>
    queue_at (snd (pop_front t w)) = (queue_at w)(t := tl (queue_at w t)) \<and>
    current_time (snd (pop_front t w)) = t"
proof -
  let ?a = "advance t w"
  have a: "wheel_ok ?a" "queue_at ?a = queue_at w" using advance_ok[OF assms] by simp_all
  have cur: "slots ?a ! slot_of t = queue_at w t" using a(2) queue_at_current[of ?a t] by simp
  show ?thesis
  proof (cases "queue_at w t")
    case Nil
    have self: "?a\<lparr>slots := (slots ?a)[slot_of t := []]\<rparr> = ?a"
      using cur Nil list_update_id[of "slots ?a" "slot_of t"] by simp
    have "wheel_ok (bitmap_clear (slot_of t) ?a)" using wheel_ok_clear[OF a(1)] cur Nil by simp
    moreover have "queue_at (bitmap_clear (slot_of t) ?a) = queue_at w"
      using a(2) queue_at_cong[of "bitmap_clear (slot_of t) ?a" ?a] by simp
    ultimately show ?thesis
      using cur Nil self by (simp add: pop_front_def Let_def wheel_ok_front fun_upd_idem)
  next
    case (Cons e rest)
    obtain pid c where e: "e = (pid, c)" by force
    let ?u = "?a\<lparr>slots := (slots ?a)[slot_of t := rest]\<rparr>"
    let ?w' = "if rest = [] then bitmap_clear (slot_of t) ?u else ?u"
    have "next_cache ?a \<noteq> None \<Longrightarrow> next_cache ?a = Some (Some t)"
      using ok Cons past earliest_SomeI[of "queue_at w" t] by (auto simp: wheel_ok_def cache_ok_def)
    then have "wheel_ok (?w'\<lparr>pid_counts := fold (\<lambda>e. uncount_pid (fst e)) [e] (pid_counts ?a)\<rparr>) \<and>
        queue_at ?w' = (queue_at ?a)(t := rest)"
      using cur Cons a past by (intro take_events_ok) simp_all
    moreover have "wheel_ok (snd (pop_front t w)) =
        wheel_ok (?w'\<lparr>pid_counts := fold (\<lambda>e. uncount_pid (fst e)) [e] (pid_counts ?a)\<rparr>)"
      using cur Cons e by (intro wheel_ok_cong) (simp_all add: pop_front_def Let_def)
    moreover have "queue_at (snd (pop_front t w)) = queue_at ?w'"
      using cur Cons e by (intro queue_at_cong) (simp_all add: pop_front_def Let_def)
    ultimately show ?thesis
      using cur Cons a(2) e by (simp add: pop_front_def Let_def)
  qed
qed

lemma remove_at_alt:
  "remove_at t w =
    (let a = advance t (if front_time w = t then w\<lparr>front_pending := 0\<rparr> else w); s = slot_of t; es = slots a ! s;
         w = a\<lparr>slots := (slots a)[s := []]\<rparr>
     in (es, if es = [] then w
             else (bitmap_clear s w)\<lparr>pid_counts := fold (\<lambda>e. uncount_pid (fst e)) es (pid_counts w)\<rparr>))"
proof -
  have "(if front_time (w\<lparr>current_time := t\<rparr>) = t then (w\<lparr>current_time := t\<rparr>)\<lparr>front_pending := 0\<rparr> else w\<lparr>current_time := t\<rparr>) =
      (if front_time w = t then w\<lparr>front_pending := 0\<rparr> else w)\<lparr>current_time := t\<rparr>"
    by simp
  then show ?thesis unfolding remove_at_def advance_def Let_def by (simp only:)
qed

lemma remove_at_ok:
  assumes ok: "wheel_ok w" and t: "current_time w \<le> t" and past: "\<And>x. x < t \<Longrightarrow> queue_at w x = []"
  shows "fst (remove_at t w) = queue_at w t \<and> wheel_ok (snd (remove_at t w)) \<and>
    queue_at (snd (remove_at t w)) = (queue_at w)(t := []) \<and> current_time (snd (remove_at t w)) = t"
proof -
  let ?w = "if front_time w = t then w\<lparr>front_pending := 0\<rparr> else w"
  have q: "queue_at ?w = queue_at w" and c: "current_time ?w = current_time w" and ok': "wheel_ok ?w"
    using ok by (simp_all add: wheel_ok_front)
  let ?a = "advance t ?w"
  have a: "wheel_ok ?a" "queue_at ?a = queue_at w"
    using advance_ok[OF ok', of t] t past by (simp_all only: q c)
  have cur: "slots ?a ! slot_of t = queue_at w t" using a(2) queue_at_current[of ?a t] by simp
  show ?thesis
  proof (cases "queue_at w t = []")
    case True
    have self: "?a\<lparr>slots := (slots ?a)[slot_of t := []]\<rparr> = ?a"
      using cur True list_update_id[of "slots ?a" "slot_of t"] by simp
    show ?thesis
      unfolding remove_at_alt Let_def cur self using True a by (simp add: fun_upd_idem)
  next
    case False
    let ?u = "?a\<lparr>slots := (slots ?a)[slot_of t := []]\<rparr>"
    let ?w' = "if ([] :: 'a event list) = [] then bitmap_clear (slot_of t) ?u else ?u"
    have "wheel_ok (?w'\<lparr>pid_counts := fold (\<lambda>e. uncount_pid (fst e)) (queue_at w t) (pid_counts ?a)\<rparr>) \<and>
        queue_at ?w' = (queue_at ?a)(t := [])"
      using cur a past False by (intro take_events_ok) simp_all
    then show ?thesis
      unfolding remove_at_alt Let_def cur using False a(2) by (simp add: wheel_ok_front)
  qed
qed

end
