(* ===== verification/Wheel_Scan.thy ===== *)
theory Wheel_Scan
  imports Wheel_Pop
begin

text \<open>
  \<^verbatim>\<open>next_time\<close>: the scan of the occupancy bitmap from the current slot, around the ring, finds the
  earliest event.
\<close>

section \<open>Trailing zeros\<close>

lemma trailing_zeros:
  assumes "v \<noteq> 0"
  shows "trailing_zeros64 v < 64" and "bit v (trailing_zeros64 v)"
    and "i < trailing_zeros64 v \<Longrightarrow> \<not> bit v i"
proof -
  let ?P = "\<lambda>i. \<not> bit v i"
  obtain j where j: "bit v j" using assms by (metis bit_eqI bit_0_eq bot_apply bot_bool_def)
  then have "j < 64" using bit_imp_le_length[of v j] by simp
  then have "\<not> (\<forall>i\<in>set [0..<64]. ?P i)" using j by auto
  then have "takeWhile ?P [0..<64] \<noteq> [0..<64]" by (metis set_takeWhileD)
  then show lt: "trailing_zeros64 v < 64"
    unfolding trailing_zeros64_def
    by (metis length_takeWhile_le length_upt diff_zero le_neq_implies_less takeWhile_eq_take take_all order_refl)
  then show "bit v (trailing_zeros64 v)"
    using nth_length_takeWhile[of ?P "[0..<64]"] by (simp add: trailing_zeros64_def)
  show "\<not> bit v i" if "i < trailing_zeros64 v"
  proof -
    have "takeWhile ?P [0..<64] ! i \<in> set (takeWhile ?P [0..<64])"
      using that by (intro nth_mem) (simp add: trailing_zeros64_def)
    moreover have "takeWhile ?P [0..<64] ! i = i"
      using that lt by (simp add: takeWhile_nth trailing_zeros64_def)
    ultimately show ?thesis by (auto dest: set_takeWhileD)
  qed
qed

section \<open>The ring\<close>

text \<open>Bit \<open>x\<close> of the bitmap, counted from the first bit of the start word.\<close>

definition ring_bit :: "u64 list \<Rightarrow> nat \<Rightarrow> nat \<Rightarrow> bool" where
  "ring_bit bm start_word x = bit (bm ! ((start_word + x div 64) mod bitmap_words)) (x mod 64)"

lemma ring_slot:
  assumes "st < wheel_size" and "x = st mod 64 + d"
  shows "((st + d) mod wheel_size) div 64 = (st div 64 + x div 64) mod bitmap_words"
    and "((st + d) mod wheel_size) mod 64 = x mod 64"
proof -
  have eq: "st + d = 64 * (st div 64) + x" using assms(2) by simp
  have "(st + d) mod (64 * bitmap_words) = 64 * ((st + d) div 64 mod bitmap_words) + (st + d) mod 64"
    by (rule mod_mult2_eq)
  moreover have "(st + d) div 64 = st div 64 + x div 64" "(st + d) mod 64 = x mod 64"
    unfolding eq by simp_all
  ultimately show "((st + d) mod wheel_size) div 64 = (st div 64 + x div 64) mod bitmap_words"
    and "((st + d) mod wheel_size) mod 64 = x mod 64"
    by (simp_all add: wheel_words)
qed

lemma queue_ring:
  assumes "bitmap_ok w" and "d < wheel_size" and "st = slot_of (current_time w)"
  shows "queue_at w (current_time w + d) \<noteq> [] \<longleftrightarrow> ring_bit (bitmap w) (st div 64) (st mod 64 + d)"
proof -
  have s: "slot_of (current_time w + d) = (st + d) mod wheel_size"
    by (simp add: assms(3) slot_of_def mod_add_left_eq)
  have "queue_at w (current_time w + d) \<noteq> [] \<longleftrightarrow> occupied (bitmap w) (slot_of (current_time w + d))"
    using assms(1,2) by (simp add: queue_at_def bitmap_ok_def)
  also have "\<dots> \<longleftrightarrow> ring_bit (bitmap w) (st div 64) (st mod 64 + d)"
    unfolding occupied_def ring_bit_def s using ring_slot[of st "st mod 64 + d" d] assms(3) by simp
  finally show ?thesis .
qed

lemma queue_past:
  assumes "wheel_ok w" and "x < current_time w"
  shows "queue_at w x = []"
  using assms bt_get_below[of "current_time w + wheel_size" "overflow w" x]
  by (simp add: queue_at_def wheel_ok_def)

lemma earliest_ring:
  assumes ok: "wheel_ok w" and st: "st = slot_of (current_time w)"
    and x: "st mod 64 \<le> x" "x < st mod 64 + wheel_size" "ring_bit (bitmap w) (st div 64) x"
    and least: "\<And>y. st mod 64 \<le> y \<Longrightarrow> y < x \<Longrightarrow> \<not> ring_bit (bitmap w) (st div 64) y"
  shows "earliest (queue_at w) = Some (current_time w + (x - st mod 64))"
proof (rule earliest_SomeI)
  have b: "bitmap_ok w" using ok by (simp add: wheel_ok_def)
  show "queue_at w (current_time w + (x - st mod 64)) \<noteq> []"
    using queue_ring[OF b _ st, of "x - st mod 64"] x by simp
  fix t assume t: "t < current_time w + (x - st mod 64)"
  show "queue_at w t = []"
  proof (cases "t < current_time w")
    case False
    define d where "d = t - current_time w"
    have d: "t = current_time w + d" "d < x - st mod 64" using False t by (auto simp: d_def)
    then show ?thesis using queue_ring[OF b _ st, of d] least[of "st mod 64 + d"] x(2) by auto
  qed (use queue_past[OF ok] in blast)
qed

lemma earliest_overflow:
  assumes ok: "wheel_ok w" and st: "st = slot_of (current_time w)"
    and none: "\<And>y. st mod 64 \<le> y \<Longrightarrow> y < st mod 64 + wheel_size \<Longrightarrow> \<not> ring_bit (bitmap w) (st div 64) y"
  shows "earliest (queue_at w) = first_key (overflow w)"
proof -
  have b: "bitmap_ok w" and m: "map_ok (current_time w + wheel_size) (overflow w)"
    using ok by (simp_all add: wheel_ok_def)
  have "queue_at w t = bt_get (overflow w) t" for t
  proof (cases "current_time w \<le> t \<and> t < current_time w + wheel_size")
    case True
    then have "queue_at w (current_time w + (t - current_time w)) = []"
      using queue_ring[OF b _ st, of "t - current_time w"] none by auto
    then show ?thesis using True bt_get_below[OF m, of t] by simp
  qed (auto simp: queue_at_def)
  then have "queue_at w = bt_get (overflow w)" by blast
  then show ?thesis using first_key_least[OF m] by simp
qed

section \<open>The scan\<close>

lemma scan_words_Some:
  "scan_words bm sw [lo..<hi] = Some slot \<Longrightarrow>
   \<exists>k. lo \<le> k \<and> k < hi \<and> (\<forall>j. lo \<le> j \<and> j < k \<longrightarrow> bm ! ((sw + j) mod bitmap_words) = 0) \<and>
     bm ! ((sw + k) mod bitmap_words) \<noteq> 0 \<and>
     slot = (sw + k) mod bitmap_words * 64 + trailing_zeros64 (bm ! ((sw + k) mod bitmap_words))"
proof (induction "hi - lo" arbitrary: lo)
  case (Suc n)
  then have lt: "lo < hi" and n: "n = hi - Suc lo" by simp_all
  then have upt: "[lo..<hi] = lo # [Suc lo..<hi]" by (simp add: upt_conv_Cons)
  show ?case
  proof (cases "bm ! ((sw + lo) mod bitmap_words) = 0")
    case True
    then have "scan_words bm sw [Suc lo..<hi] = Some slot" using Suc.prems upt by simp
    from Suc.hyps(1)[OF n this] obtain k where "Suc lo \<le> k" "k < hi"
      "\<forall>j. Suc lo \<le> j \<and> j < k \<longrightarrow> bm ! ((sw + j) mod bitmap_words) = 0"
      "bm ! ((sw + k) mod bitmap_words) \<noteq> 0"
      "slot = (sw + k) mod bitmap_words * 64 + trailing_zeros64 (bm ! ((sw + k) mod bitmap_words))" by blast
    moreover from this have "\<forall>j. lo \<le> j \<and> j < k \<longrightarrow> bm ! ((sw + j) mod bitmap_words) = 0"
      using True by (metis le_neq_implies_less Suc_leI)
    ultimately show ?thesis by (metis Suc_leD)
  next
    case False
    then show ?thesis using Suc.prems upt lt by (intro exI[of _ lo]) (auto simp: Let_def)
  qed
qed simp

lemma scan_words_None:
  "scan_words bm sw ks = None \<Longrightarrow> k \<in> set ks \<Longrightarrow> bm ! ((sw + k) mod bitmap_words) = 0"
  by (induction bm sw ks rule: scan_words.induct) (auto simp: Let_def split: if_splits)

lemma bit_above: "n < 64 \<Longrightarrow> bit (v AND shl64 (- 1) n) i \<longleftrightarrow> bit v i \<and> n \<le> i"
  using bit_imp_le_length[of v i] by (auto simp: bit_and_iff plane_bits)

lemma bit_below: "n < 64 \<Longrightarrow> bit (v AND NOT (shl64 (- 1) n)) i \<longleftrightarrow> bit v i \<and> i < n"
  using bit_imp_le_length[of v i] by (auto simp: bit_and_iff bit_not_iff plane_bits)

text \<open>Where a bit of the ring lies: in the start word, in a later one, or in the low bits of the start
  word after one turn.\<close>

lemma ring_low: "sw < bitmap_words \<Longrightarrow> x < 64 \<Longrightarrow> ring_bit bm sw x \<longleftrightarrow> bit (bm ! sw) x"
  by (simp add: ring_bit_def)

lemma ring_high: "sw < bitmap_words \<Longrightarrow> x div 64 = bitmap_words \<Longrightarrow> ring_bit bm sw x \<longleftrightarrow> bit (bm ! sw) (x mod 64)"
  by (simp add: ring_bit_def)

lemma ring_cases:
  fixes y sb :: nat
  assumes "sb < 64" and "y < sb + wheel_size"
  obtains "y < 64" | "1 \<le> y div 64" "y div 64 < bitmap_words" | "y div 64 = bitmap_words" "y mod 64 < sb"
proof -
  have lt: "y < 64 * bitmap_words + sb" using assms(2) by (simp add: wheel_words)
  then have "y div 64 \<le> bitmap_words" using assms(1) div_le_mono[of y "64 * bitmap_words + sb" 64] by simp
  moreover have "y mod 64 < sb" if "y div 64 = bitmap_words"
    using that lt div_mult_mod_eq[of y 64] by simp
  ultimately show ?thesis using that by (cases "y < 64"; cases "y div 64 < bitmap_words") auto
qed

lemma ring_before:
  fixes y k z :: nat
  assumes "y < 64 * k + z" and "z < 64"
  obtains "y < 64" | "1 \<le> y div 64" "y div 64 < k" | "y div 64 = k" "y mod 64 < z"
proof -
  have "y div 64 \<le> k" using assms div_le_mono[of y "64 * k + z" 64] by simp
  moreover have "y mod 64 < z" if "y div 64 = k"
    using that assms(1) div_mult_mod_eq[of y 64] by simp
  ultimately show ?thesis using that by (cases "y < 64"; cases "y div 64 < k") auto
qed

text \<open>The start position of the scan.\<close>

definition ring_start :: "'c timing_wheel \<Rightarrow> nat \<Rightarrow> nat \<Rightarrow> bool" where
  "ring_start w sw sb \<longleftrightarrow> slot_of (current_time w) = sw * 64 + sb \<and> sb < 64 \<and> sw < bitmap_words"

lemma ring_startE:
  obtains sw sb where "ring_start w sw sb" "sw = slot_of (current_time w) div 64" "sb = slot_of (current_time w) mod 64"
  using slot_word[OF slot_lt, of "current_time w"] by (simp add: ring_start_def)

lemma ring_earliest:
  assumes "wheel_ok w" and "ring_start w sw sb" and "sb \<le> x" and "x < sb + wheel_size" and "ring_bit (bitmap w) sw x"
    and "\<And>y. sb \<le> y \<Longrightarrow> y < x \<Longrightarrow> \<not> ring_bit (bitmap w) sw y"
  shows "earliest (queue_at w) = Some (current_time w + (x - sb))"
  using earliest_ring[OF assms(1) refl, of x] assms(2-6) by (simp add: ring_start_def)

lemma scan_start_word:
  assumes ok: "wheel_ok w" and st: "ring_start w sw sb" and nz: "bitmap w ! sw AND shl64 (- 1) sb \<noteq> 0"
    and x: "x = trailing_zeros64 (bitmap w ! sw AND shl64 (- 1) sb)"
  shows "earliest (queue_at w) = Some (current_time w + slot_delta (slot_of (current_time w)) (sw * 64 + x))"
proof -
  have sb: "sb < 64" and sw: "sw < bitmap_words" and eq: "slot_of (current_time w) = sw * 64 + sb"
    using st by (simp_all add: ring_start_def)
  have b: "x < 64" "bit (bitmap w ! sw) x" "sb \<le> x"
    using trailing_zeros[OF nz] by (simp_all add: x bit_above[OF sb])
  have "\<not> ring_bit (bitmap w) sw y" if "sb \<le> y" "y < x" for y
    using trailing_zeros(3)[OF nz, of y] that b ring_low[OF sw, of y] by (simp add: x bit_above[OF sb])
  then have "earliest (queue_at w) = Some (current_time w + (x - sb))"
    using b ring_low[OF sw] by (intro ring_earliest[OF ok st]) (auto simp: wheel_size_def)
  then show ?thesis using b eq by (simp add: slot_delta_def)
qed

lemma scan_later_words:
  assumes ok: "wheel_ok w" and st: "ring_start w sw sb" and first: "bitmap w ! sw AND shl64 (- 1) sb = 0"
    and scan: "scan_words (bitmap w) sw [1..<bitmap_words] = Some slot"
  shows "earliest (queue_at w) = Some (current_time w + slot_delta (slot_of (current_time w)) slot)"
proof -
  have sb: "sb < 64" and sw: "sw < bitmap_words" and eq: "slot_of (current_time w) = sw * 64 + sb"
    using st by (simp_all add: ring_start_def)
  obtain k where k: "1 \<le> k" "k < bitmap_words"
    and zero: "\<And>j. 1 \<le> j \<Longrightarrow> j < k \<Longrightarrow> bitmap w ! ((sw + j) mod bitmap_words) = 0"
    and nz: "bitmap w ! ((sw + k) mod bitmap_words) \<noteq> 0"
    and slot: "slot = (sw + k) mod bitmap_words * 64 + trailing_zeros64 (bitmap w ! ((sw + k) mod bitmap_words))"
    using scan_words_Some[OF scan] by blast
  define z where "z = trailing_zeros64 (bitmap w ! ((sw + k) mod bitmap_words))"
  have z: "z < 64" using trailing_zeros(1)[OF nz] by (simp add: z_def)
  have "ring_bit (bitmap w) sw (64 * k + z)" using trailing_zeros(2)[OF nz] z by (simp add: ring_bit_def z_def)
  moreover have "\<not> ring_bit (bitmap w) sw y" if y: "sb \<le> y" "y < 64 * k + z" for y
    using y(2) z
  proof (cases rule: ring_before)
    case 1
    then show ?thesis using first y(1) ring_low[OF sw] bit_above[OF sb, of "bitmap w ! sw" y] by auto
  next
    case 2
    then show ?thesis using zero[of "y div 64"] by (simp add: ring_bit_def)
  next
    case 3
    then show ?thesis using trailing_zeros(3)[OF nz] by (simp add: ring_bit_def z_def)
  qed
  moreover have "sb \<le> 64 * k + z" "64 * k + z < sb + wheel_size" using k z sb by (simp_all add: wheel_words)
  ultimately have "earliest (queue_at w) = Some (current_time w + (64 * k + z - sb))"
    by (intro ring_earliest[OF ok st]) auto
  moreover have "slot_delta (sw * 64 + sb) slot = 64 * k + z - sb"
  proof (cases "sw + k < bitmap_words")
    case True
    then show ?thesis using sb k by (simp add: slot slot_delta_def z_def)
  next
    case False
    then have m: "(sw + k) mod bitmap_words = sw + k - bitmap_words" using sw k by (simp add: mod_if)
    have slot': "slot = (sw + k - bitmap_words) * 64 + z" unfolding slot z_def m ..
    have "slot < sw * 64 + sb" using False sw k z by (simp add: slot')
    then show ?thesis using False sb k by (simp add: slot_delta_def slot' wheel_words)
  qed
  ultimately show ?thesis by (simp add: eq)
qed

lemma scan_wrapped:
  assumes ok: "wheel_ok w" and st: "ring_start w sw sb" and first: "bitmap w ! sw AND shl64 (- 1) sb = 0"
    and scan: "scan_words (bitmap w) sw [1..<bitmap_words] = None"
    and nz: "bitmap w ! sw AND NOT (shl64 (- 1) sb) \<noteq> 0"
    and z_def: "z = trailing_zeros64 (bitmap w ! sw AND NOT (shl64 (- 1) sb))"
  shows "earliest (queue_at w) = Some (current_time w + (sw * 64 + z + wheel_size - slot_of (current_time w)))"
proof -
  have sb: "sb < 64" and sw: "sw < bitmap_words" and eq: "slot_of (current_time w) = sw * 64 + sb"
    using st by (simp_all add: ring_start_def)
  have z: "bit (bitmap w ! sw) z" "z < sb" using trailing_zeros(2)[OF nz] by (simp_all add: z_def bit_below[OF sb])
  have x: "wheel_size + z = 64 * bitmap_words + z" by (simp add: wheel_words)
  have "ring_bit (bitmap w) sw (wheel_size + z)"
    unfolding x by (subst ring_high[OF sw]) (use z sb in simp_all)
  moreover have "\<not> ring_bit (bitmap w) sw y" if y: "sb \<le> y" "y < wheel_size + z" for y
    using y(2)[unfolded x] less_trans[OF z(2) sb]
  proof (cases rule: ring_before)
    case 1
    then show ?thesis using first y(1) ring_low[OF sw] bit_above[OF sb, of "bitmap w ! sw" y] by auto
  next
    case 2
    then show ?thesis using scan_words_None[OF scan, of "y div 64"] by (simp add: ring_bit_def)
  next
    case 3
    then show ?thesis using trailing_zeros(3)[OF nz] ring_high[OF sw] z by (simp add: z_def bit_below[OF sb])
  qed
  ultimately have "earliest (queue_at w) = Some (current_time w + (wheel_size + z - sb))"
    using z sb by (intro ring_earliest[OF ok st]) (auto simp: wheel_size_def)
  then show ?thesis using eq z by simp
qed

lemma scan_empty:
  assumes ok: "wheel_ok w" and st: "ring_start w sw sb" and first: "bitmap w ! sw AND shl64 (- 1) sb = 0"
    and scan: "scan_words (bitmap w) sw [1..<bitmap_words] = None"
    and last: "sb = 0 \<or> bitmap w ! sw AND NOT (shl64 (- 1) sb) = 0"
  shows "earliest (queue_at w) = first_key (overflow w)"
proof -
  have sb: "sb < 64" and sw: "sw < bitmap_words" and eq: "slot_of (current_time w) = sw * 64 + sb"
    using st by (simp_all add: ring_start_def)
  have "\<not> ring_bit (bitmap w) sw y" if y: "sb \<le> y" "y < sb + wheel_size" for y
    using sb y(2)
  proof (cases rule: ring_cases)
    case 1
    then show ?thesis using first y(1) ring_low[OF sw] bit_above[OF sb, of "bitmap w ! sw" y] by auto
  next
    case 2
    then show ?thesis using scan_words_None[OF scan, of "y div 64"] by (simp add: ring_bit_def)
  next
    case 3
    then show ?thesis using last ring_high[OF sw] bit_below[OF sb, of "bitmap w ! sw" "y mod 64"] by auto
  qed
  then show ?thesis using earliest_overflow[OF ok refl] sb by (simp add: eq)
qed

lemma next_time_scan_ok:
  assumes ok: "wheel_ok w"
  shows "next_time_scan w = earliest (queue_at w)"
proof -
  obtain sw sb where st: "ring_start w sw sb"
    and defs: "sw = slot_of (current_time w) div 64" "sb = slot_of (current_time w) mod 64"
    by (rule ring_startE)
  show ?thesis
    unfolding next_time_scan_def Let_def defs[symmetric]
    using scan_start_word[OF ok st _ refl] scan_later_words[OF ok st] scan_wrapped[OF ok st _ _ _ refl] scan_empty[OF ok st]
    by (auto split: option.splits)
qed

lemma next_time_ok:
  assumes "wheel_ok w"
  shows "fst (next_time w) = earliest (queue_at w) \<and> wheel_ok (snd (next_time w)) \<and>
    queue_at (snd (next_time w)) = queue_at w \<and> current_time (snd (next_time w)) = current_time w"
proof -
  have set: "wheel_ok (w\<lparr>next_cache := Some (earliest (queue_at w))\<rparr>) \<and>
      queue_at (w\<lparr>next_cache := Some (earliest (queue_at w))\<rparr>) = queue_at w"
    using assms bitmap_ok_cong[of "w\<lparr>next_cache := _\<rparr>" w] pid_total_cong[of "w\<lparr>next_cache := _\<rparr>" w]
      queue_at_cong[of "w\<lparr>next_cache := _\<rparr>" w]
    by (simp add: wheel_ok_def counts_ok_def cache_ok_def)
  show ?thesis
    using assms set by (auto simp: next_time_def Let_def next_time_scan_ok wheel_ok_def cache_ok_def split: option.splits)
qed

end
