(* ===== verification/Wheel_Query.thy ===== *)
theory Wheel_Query
  imports Wheel_Scan
begin

text \<open>
  The queries of the timing wheel read the queues: emptiness, lengths, processes with a queued event,
  and the earliest time after a given one; and the reordering of a slot.
\<close>

section \<open>Slots and times\<close>

text \<open>The time of the window whose slot is \<open>k\<close>.\<close>

definition slot_time :: "'c timing_wheel \<Rightarrow> nat \<Rightarrow> nat" where
  "slot_time w k = current_time w + (k + wheel_size - slot_of (current_time w)) mod wheel_size"

lemma slot_time_window: "current_time w \<le> slot_time w k" "slot_time w k < current_time w + wheel_size"
  by (simp_all add: slot_time_def)

lemma slot_of_slot_time: "k < wheel_size \<Longrightarrow> slot_of (slot_time w k) = k"
proof -
  assume k: "k < wheel_size"
  have "slot_of (slot_time w k) = (slot_of (current_time w) + (k + wheel_size - slot_of (current_time w))) mod wheel_size"
    by (simp add: slot_of_def slot_time_def mod_simps)
  also have "slot_of (current_time w) + (k + wheel_size - slot_of (current_time w)) = k + wheel_size"
    using slot_lt[of "current_time w"] by linarith
  also have "(k + wheel_size) mod wheel_size = k" using k by simp
  finally show ?thesis .
qed

lemma slot_time_slot:
  "current_time w \<le> t \<Longrightarrow> t < current_time w + wheel_size \<Longrightarrow> slot_time w (slot_of t) = t"
  using slot_inj[of "current_time w" "slot_time w (slot_of t)" t] slot_time_window[of w "slot_of t"]
  by (simp add: slot_of_slot_time)

lemma queue_slot_time: "k < wheel_size \<Longrightarrow> queue_at w (slot_time w k) = slots w ! k"
  by (simp add: queue_at_def slot_time_window slot_of_slot_time)

lemma queue_overflow:
  assumes "wheel_ok w" and "(t, es) \<in> set (overflow w)"
  shows "queue_at w t = es" and "es \<noteq> []" and "current_time w + wheel_size \<le> t"
proof -
  have m: "map_ok (current_time w + wheel_size) (overflow w)" using assms(1) by (simp add: wheel_ok_def)
  show "es \<noteq> []" "current_time w + wheel_size \<le> t" using m assms(2) by (auto simp: map_ok_def)
  then show "queue_at w t = es" using bt_get_mem[OF m assms(2)] by (simp add: queue_at_def)
qed

text \<open>Every event is in a slot or in the map.\<close>

lemma queue_cases:
  assumes "queue_at w t \<noteq> []"
  obtains (slot) "t = slot_time w (slot_of t)" "queue_at w t = slots w ! slot_of t"
  | (far) "(t, queue_at w t) \<in> set (overflow w)"
  using assms bt_get_key[of "overflow w" t] slot_time_slot[of w t]
  by (auto simp: queue_at_def split: if_splits)

section \<open>Emptiness and counts\<close>

lemma used_words_zero:
  assumes "bitmap_ok w"
  shows "occupied_words w = 0 \<longleftrightarrow> (\<forall>k < wheel_size. slots w ! k = [])"
proof
  assume "occupied_words w = 0"
  then have zero: "\<forall>b\<in>set (bitmap w). b = 0" using assms by (simp add: bitmap_ok_def used_words_def filter_empty_conv)
  show "\<forall>k < wheel_size. slots w ! k = []"
  proof (intro allI impI)
    fix k assume k: "k < wheel_size"
    then have "bitmap w ! (k div 64) = 0" using zero slot_word[OF k] assms by (simp add: bitmap_ok_def)
    then show "slots w ! k = []" using assms k by (auto simp: bitmap_ok_def occupied_def)
  qed
next
  assume none: "\<forall>k < wheel_size. slots w ! k = []"
  have "bitmap w ! i = 0" if i: "i < bitmap_words" for i
  proof (rule bit_eqI)
    fix n assume "possible_bit TYPE(u64) n"
    then have n: "n < 64" by (simp add: possible_bit_def)
    have "i * 64 + n < wheel_size" using i n by (simp add: wheel_words)
    then have "\<not> occupied (bitmap w) (i * 64 + n)" using assms none by (auto simp: bitmap_ok_def)
    then show "bit (bitmap w ! i) n = bit 0 n" using n by (simp add: occupied_def)
  qed
  then have "used_words (bitmap w) = 0"
    using assms by (auto simp: used_words_def filter_empty_conv in_set_conv_nth bitmap_ok_def)
  then show "occupied_words w = 0" using assms by (simp add: bitmap_ok_def)
qed

lemma wheel_is_empty_ok:
  assumes "wheel_ok w"
  shows "wheel_is_empty w \<longleftrightarrow> (\<forall>t. queue_at w t = [])"
proof
  assume "wheel_is_empty w"
  then show "\<forall>t. queue_at w t = []"
    using used_words_zero[of w] assms by (auto simp: wheel_is_empty_def queue_at_def wheel_ok_def)
next
  assume none: "\<forall>t. queue_at w t = []"
  have "slots w ! k = []" if "k < wheel_size" for k
    using none queue_slot_time[OF that, of w] by simp
  moreover have "overflow w = []"
  proof (rule ccontr)
    assume "overflow w \<noteq> []"
    then obtain t es m where "overflow w = (t, es) # m" by (metis list.exhaust surj_pair)
    then have "(t, es) \<in> set (overflow w)" by simp
    from queue_overflow[OF assms this] show False using none by simp
  qed
  ultimately show "wheel_is_empty w"
    using used_words_zero[of w] assms by (simp add: wheel_is_empty_def wheel_ok_def)
qed

lemma pids_zero: "pids es p = 0 \<longleftrightarrow> (\<forall>c. (p, c) \<notin> set es)"
  by (force simp: pids_def filter_empty_conv)

lemma pid_total_zero:
  assumes "wheel_ok w"
  shows "pid_total w p = 0 \<longleftrightarrow> (\<forall>t c. (p, c) \<notin> set (queue_at w t))"
proof -
  have len: "length (slots w) = wheel_size" using assms by (simp add: wheel_ok_def bitmap_ok_def)
  have "pid_total w p = 0 \<longleftrightarrow>
      (\<forall>es \<in> set (slots w). pids es p = 0) \<and> (\<forall>m \<in> set (overflow w). pids (snd m) p = 0)"
    by (simp add: pid_total_def sum_list_eq_0_iff)
  also have "\<dots> \<longleftrightarrow> (\<forall>t. pids (queue_at w t) p = 0)"
  proof (intro iffI allI; (elim conjE)?)
    fix t assume a: "\<forall>es \<in> set (slots w). pids es p = 0" "\<forall>m \<in> set (overflow w). pids (snd m) p = 0"
    show "pids (queue_at w t) p = 0"
    proof (cases "queue_at w t = []")
      case False
      then show ?thesis
      proof (cases rule: queue_cases)
        case slot
        have "slots w ! slot_of t \<in> set (slots w)" using len by simp
        then show ?thesis using a(1) slot(2) by simp
      next
        case far
        then show ?thesis using a(2) by fastforce
      qed
    qed simp
  next
    assume a: "\<forall>t. pids (queue_at w t) p = 0"
    show "(\<forall>es \<in> set (slots w). pids es p = 0) \<and> (\<forall>m \<in> set (overflow w). pids (snd m) p = 0)"
    proof (intro conjI ballI)
      fix es assume "es \<in> set (slots w)"
      then obtain k where "k < wheel_size" "es = slots w ! k" using len by (auto simp: in_set_conv_nth)
      then show "pids es p = 0" using a queue_slot_time by metis
    next
      fix m assume "m \<in> set (overflow w)"
      then show "pids (snd m) p = 0" using a queue_overflow(1)[OF assms, of "fst m" "snd m"] by (metis prod.collapse)
    qed
  qed
  finally show ?thesis by (simp add: pids_zero)
qed

lemma has_pid_ok:
  assumes "wheel_ok w"
  shows "has_pid p w \<longleftrightarrow> (\<exists>t c. (p, c) \<in> set (queue_at w t))"
proof -
  have "has_pid p w \<longleftrightarrow> pid_total w p \<noteq> 0" using assms by (simp add: has_pid_def wheel_ok_def counts_ok_def)
  then show ?thesis by (simp add: pid_total_zero[OF assms])
qed

lemma len_at_ok: "wheel_ok w \<Longrightarrow> len_at t w = length (queue_at w t)"
  using bt_get_below[of "current_time w + wheel_size" "overflow w" t]
  by (auto simp: len_at_def queue_at_def wheel_ok_def)

section \<open>The earliest time after a given one\<close>

definition is_least :: "nat set \<Rightarrow> nat option \<Rightarrow> bool" where
  "is_least S r \<longleftrightarrow> (case r of None \<Rightarrow> S = {} | Some m \<Rightarrow> m \<in> S \<and> (\<forall>x\<in>S. m \<le> x))"

lemma is_least_insert: "is_least S r \<Longrightarrow> is_least (insert t S) (opt_min r t)"
  by (auto simp: is_least_def opt_min_def min_def split: option.splits)

lemma is_least_fold:
  "is_least S b \<Longrightarrow> is_least (S \<union> f ` {x \<in> set xs. P x}) (fold (\<lambda>x b. if P x then opt_min b (f x) else b) xs b)"
proof (induction xs arbitrary: S b)
  case (Cons x xs)
  have "S \<union> f ` {y \<in> set (x # xs). P y} = (if P x then insert (f x) S else S) \<union> f ` {y \<in> set xs. P y}" by auto
  then show ?case
    using Cons.IH[of "if P x then insert (f x) S else S" "if P x then opt_min b (f x) else b"]
      is_least_insert[OF Cons.prems, of "f x"] Cons.prems by simp
qed simp

lemma is_least_earliest: "is_least {t. q t \<noteq> []} r \<Longrightarrow> r = earliest q"
proof (cases r)
  case (Some m)
  assume "is_least {t. q t \<noteq> []} r"
  then show ?thesis using Some by (metis (mono_tags, lifting) earliest_SomeI is_least_def mem_Collect_eq not_le option.simps(5))
qed (auto simp: is_least_def intro: earliest_NoneI[symmetric])

lemma is_least_first_key:
  assumes "map_ok lo m"
  shows "is_least (fst ` set m) (first_key m)"
proof (cases m)
  case (Cons a m')
  then show ?thesis using assms
    by (cases a) (force simp: is_least_def first_key_def map_ok_cons)
qed (simp add: is_least_def first_key_def)

lemma is_least_both:
  "is_least S a \<Longrightarrow> is_least T b \<Longrightarrow> is_least (S \<union> T) (case b of None \<Rightarrow> a | Some t \<Rightarrow> opt_min a t)"
  by (cases a; cases b) (fastforce simp: is_least_def opt_min_def min_def)+

lemma slot_bit_test: "bm ! (k div 64) AND slot_bit k = 0 \<longleftrightarrow> \<not> occupied bm k"
proof -
  have "bm ! (k div 64) AND slot_bit k = 0 \<longleftrightarrow> (\<forall>i < 64. \<not> bit (bm ! (k div 64) AND slot_bit k) i)"
    by (auto simp: bit_eq_iff possible_bit_def)
  also have "\<dots> \<longleftrightarrow> \<not> occupied bm k"
    using mod_less_divisor[of 64 k] by (auto simp: occupied_def bit_and_iff bit_slot_bit simp del: mod_less_divisor)
  finally show ?thesis .
qed

lemma next_time_after_ok:
  assumes ok: "wheel_ok w"
  shows "next_time_after a w = earliest (\<lambda>t. if a < t then queue_at w t else [])"
proof (rule is_least_earliest)
  have b: "bitmap_ok w" and m: "map_ok (current_time w + wheel_size) (overflow w)" using ok by (simp_all add: wheel_ok_def)
  let ?P = "\<lambda>k. occupied (bitmap w) k \<and> a < slot_time w k"
  let ?far = "filter (\<lambda>(t, _). a + 1 \<le> t) (overflow w)"
  have near: "is_least ({} \<union> slot_time w ` {k \<in> set [0..<wheel_size]. ?P k})
      (fold (\<lambda>k b. if ?P k then opt_min b (slot_time w k) else b) [0..<wheel_size] None)"
    by (rule is_least_fold) (simp add: is_least_def)
  have "map_ok (current_time w + wheel_size) ?far"
    using m by (auto simp: map_ok_def sorted_wrt_map intro: sorted_wrt_filter)
  then have far: "is_least (fst ` set ?far) (first_key ?far)" by (rule is_least_first_key)
  have "{t. (if a < t then queue_at w t else []) \<noteq> []} =
      ({} \<union> slot_time w ` {k \<in> set [0..<wheel_size]. ?P k}) \<union> fst ` set ?far" (is "?L = ?R")
  proof (intro set_eqI iffI)
    fix t assume "t \<in> ?L"
    then have t: "a < t" "queue_at w t \<noteq> []" by (simp_all split: if_splits)
    from t(2) show "t \<in> ?R"
    proof (cases rule: queue_cases)
      case slot
      have "occupied (bitmap w) (slot_of t)" using b slot t(2) by (simp add: bitmap_ok_def)
      then show ?thesis using slot t(1) by (intro UnI1 UnI2 image_eqI[of _ _ "slot_of t"]) simp_all
    next
      case far
      then show ?thesis using t(1) by force
    qed
  next
    fix t assume "t \<in> ?R"
    then consider (slot) k where "k < wheel_size" "?P k" "t = slot_time w k"
      | (far) es where "(t, es) \<in> set (overflow w)" "a < t" by auto
    then show "t \<in> ?L"
    proof cases
      case slot
      then show ?thesis using b by (simp add: queue_slot_time bitmap_ok_def)
    next
      case far
      then show ?thesis using queue_overflow[OF ok far(1)] by simp
    qed
  qed
  moreover have "next_time_after a w = (case first_key ?far of
      None \<Rightarrow> fold (\<lambda>k b. if ?P k then opt_min b (slot_time w k) else b) [0..<wheel_size] None
    | Some t \<Rightarrow> opt_min (fold (\<lambda>k b. if ?P k then opt_min b (slot_time w k) else b) [0..<wheel_size] None) t)"
    unfolding next_time_after_def Let_def slot_bit_test slot_time_def
    by (intro arg_cong3[where f = case_option] refl ext arg_cong2[where f = opt_min] fold_cong) auto
  ultimately show "is_least {t. (if a < t then queue_at w t else []) \<noteq> []} (next_time_after a w)"
    using is_least_both[OF near far] by simp
qed

section \<open>The initial queue and the reordering of a slot\<close>

lemma wheel_new_queue: "queue_at wheel_new t = []"
  by (simp add: queue_at_def wheel_new_def)

lemma wheel_new_ok: "wheel_ok (wheel_new :: 'c timing_wheel)"
proof -
  let ?w = "wheel_new :: 'c timing_wheel"
  have "bitmap_ok ?w"
    using slot_word by (simp add: bitmap_ok_def wheel_new_def occupied_def used_words_def)
  moreover have "counts_ok ?w"
    by (simp add: counts_ok_def pid_total_def wheel_new_def sum_list_replicate)
  moreover have "map_ok (current_time ?w + wheel_size) (overflow ?w)" "cache_ok ?w"
    by (simp_all add: map_ok_def cache_ok_def wheel_new_def)
  ultimately show ?thesis by (simp add: wheel_ok_def)
qed

lemma earliest_cong: "(\<And>t. q t = [] \<longleftrightarrow> q' t = []) \<Longrightarrow> earliest q = earliest q'"
  by (simp add: earliest_def)

definition pid_rank :: "(nat \<rightharpoonup> nat) \<Rightarrow> 'c event \<Rightarrow> nat" where
  "pid_rank rank e = (case rank (fst e) of None \<Rightarrow> 0 | Some r \<Rightarrow> r + 1)"

lemma pids_sort: "pids (sort_key f es) p = pids es p"
  by (simp add: pids_def filter_sort)

text \<open>Only the slot of \<open>t\<close> changes, to a stable sort by rank.\<close>

lemma reorder_slot_ok:
  assumes ok: "wheel_ok w" and t: "current_time w \<le> t" "t < current_time w + wheel_size"
  shows "wheel_ok (reorder_slot t rank w) \<and>
    queue_at (reorder_slot t rank w) = (queue_at w)(t := sort_key (pid_rank rank) (queue_at w t))"
proof -
  let ?es = "sort_key (pid_rank rank) (slots w ! slot_of t)"
  have w': "reorder_slot t rank w = w\<lparr>slots := (slots w)[slot_of t := ?es]\<rparr>"
    unfolding reorder_slot_def pid_rank_def[abs_def] ..
  have b: "bitmap_ok w" and len: "length (slots w) = wheel_size"
    using ok by (simp_all add: wheel_ok_def bitmap_ok_def)
  have q: "queue_at (reorder_slot t rank w) = (queue_at w)(t := sort_key (pid_rank rank) (queue_at w t))"
  proof
    fix x
    have "slot_of t = slot_of x \<Longrightarrow> current_time w \<le> x \<Longrightarrow> x < current_time w + wheel_size \<Longrightarrow> x = t"
      using slot_inj[of "current_time w" x t] t by simp
    then show "queue_at (reorder_slot t rank w) x = ((queue_at w)(t := sort_key (pid_rank rank) (queue_at w t))) x"
      using t len by (auto simp: w' queue_at_def nth_list_update)
  qed
  have ne: "sort_key (pid_rank rank) es = [] \<longleftrightarrow> es = []" for es :: "'a event list"
    by (metis length_0_conv length_sort)
  have "bitmap_ok (reorder_slot t rank w)"
    using b ne by (auto simp: w' bitmap_ok_def nth_list_update)
  moreover have "pid_total (reorder_slot t rank w) p = pid_total w p" for p
    unfolding w' using slot_total[OF len slot_lt, of t p ?es 0] by (simp add: pids_sort)
  moreover have "earliest (queue_at (reorder_slot t rank w)) = earliest (queue_at w)"
    unfolding q by (rule earliest_cong) (simp add: ne)
  ultimately show ?thesis
    using ok q by (simp add: wheel_ok_def counts_ok_def cache_ok_def w')
qed

end
