(* ===== verification/Wheel_Remove.thy ===== *)
theory Wheel_Remove
  imports Wheel_Query
begin

text \<open>
  \<^verbatim>\<open>remove_pid\<close>: the events of one process are taken out of the queue.  When the window of the wheel
  holds an event of the process, all its events go; when only the ordered map does, a single one goes.
\<close>

definition without :: "nat \<Rightarrow> 'c event list \<Rightarrow> 'c event list" where
  "without pid es = filter (\<lambda>(p, _). p \<noteq> pid) es"

text \<open>The earliest event of a process.\<close>

definition first_event :: "nat \<Rightarrow> (nat \<Rightarrow> 'c event list) \<Rightarrow> (nat \<times> 'c) option" where
  "first_event pid q =
     (case earliest (\<lambda>t. filter (\<lambda>e. fst e = pid) (q t)) of
        None \<Rightarrow> None
      | Some t \<Rightarrow> map_option (Pair t) (map_of (q t) pid))"

lemma has_event: "filter (\<lambda>e. fst e = pid) es = [] \<longleftrightarrow> map_of es pid = None"
  by (induction es) auto

lemma first_event_SomeI:
  assumes "map_of (q t) pid = Some c" and "\<And>t'. t' < t \<Longrightarrow> map_of (q t') pid = None"
  shows "first_event pid q = Some (t, c)"
proof -
  have "earliest (\<lambda>t. filter (\<lambda>e. fst e = pid) (q t)) = Some t"
    using assms by (intro earliest_SomeI) (simp_all add: has_event)
  then show ?thesis using assms(1) by (simp add: first_event_def)
qed

lemma first_event_NoneI: "(\<And>t. map_of (q t) pid = None) \<Longrightarrow> first_event pid q = None"
  using earliest_NoneI[of "\<lambda>t. filter (\<lambda>e. fst e = pid) (q t)"] by (simp add: first_event_def has_event)

lemma without_absent: "map_of es pid = None \<Longrightarrow> without pid es = es"
  by (induction es) (auto simp: without_def split: if_splits)

lemma pids_without: "pids (without pid es) p = (if p = pid then 0 else pids es p)"
  by (induction es) (auto simp: without_def pids_def)

lemma map_of_pids: "map_of es pid = None \<longleftrightarrow> pids es pid = 0"
  by (induction es) (auto simp: pids_def)

section \<open>The scan of the slots\<close>

lemma earlier_map_of:
  "earlier pid found es t =
     (case map_of es pid of
        None \<Rightarrow> found
      | Some c \<Rightarrow> if case found of None \<Rightarrow> True | Some (u, _) \<Rightarrow> t < u then Some (t, c) else found)"
proof (induction es arbitrary: found)
  case (Cons e es)
  obtain p c where e: "e = (p, c)" by force
  have step: "earlier pid found (e # es) t =
      earlier pid (if p = pid \<and> (case found of None \<Rightarrow> True | Some (u, _) \<Rightarrow> t < u) then Some (t, c) else found) es t"
    by (simp add: earlier_def e)
  show ?case unfolding step Cons.IH by (cases found) (auto simp: e split: option.splits)
qed (simp add: earlier_def)

text \<open>What the scan keeps, slot by slot.\<close>

definition found_ok :: "nat \<Rightarrow> 'c timing_wheel \<Rightarrow> nat set \<Rightarrow> (nat \<times> 'c) option \<Rightarrow> bool" where
  "found_ok pid w S found \<longleftrightarrow>
     (case found of
        None \<Rightarrow> \<forall>k\<in>S. map_of (slots w ! k) pid = None
      | Some (t, c) \<Rightarrow>
          (\<exists>k\<in>S. t = slot_time w k \<and> map_of (slots w ! k) pid = Some c) \<and>
          (\<forall>k\<in>S. map_of (slots w ! k) pid \<noteq> None \<longrightarrow> t \<le> slot_time w k))"

lemma found_ok_earlier:
  "found_ok pid w S found \<Longrightarrow> found_ok pid w (insert k S) (earlier pid found (slots w ! k) (slot_time w k))"
proof (cases "map_of (slots w ! k) pid")
  case (Some c)
  assume f: "found_ok pid w S found"
  show ?thesis
  proof (cases found)
    case None
    then show ?thesis using f Some by (simp add: found_ok_def earlier_map_of)
  next
    case (Some tc)
    obtain t c' where tc: "found = Some (t, c')" using Some by (cases tc) simp
    show ?thesis
    proof (cases "slot_time w k < t")
      case True
      have "\<forall>k'\<in>S. map_of (slots w ! k') pid \<noteq> None \<longrightarrow> slot_time w k \<le> slot_time w k'"
        using f tc True by (fastforce simp: found_ok_def)
      then show ?thesis using tc True \<open>map_of (slots w ! k) pid = Some c\<close>
        by (simp add: found_ok_def earlier_map_of)
    next
      case False
      then show ?thesis using f tc \<open>map_of (slots w ! k) pid = Some c\<close>
        by (simp add: found_ok_def earlier_map_of)
    qed
  qed
qed (auto simp: found_ok_def earlier_map_of split: option.splits)

definition cleared :: "nat \<Rightarrow> nat set \<Rightarrow> 'c timing_wheel \<Rightarrow> 'c timing_wheel \<Rightarrow> bool" where
  "cleared pid S w w' \<longleftrightarrow> bitmap_ok w' \<and>
     (\<forall>k < wheel_size. slots w' ! k = (if k \<in> S then without pid (slots w ! k) else slots w ! k)) \<and>
     overflow w' = overflow w \<and> current_time w' = current_time w \<and> pid_counts w' = pid_counts w \<and>
     next_cache w' = None"

lemma cleared_step:
  assumes "cleared pid S w w'" and "k < wheel_size" and "k \<notin> S" and "slots w' ! k \<noteq> []"
    and "w'' = w'\<lparr>slots := (slots w')[k := without pid (slots w' ! k)]\<rparr>"
  shows "cleared pid (insert k S) w (if without pid (slots w' ! k) = [] then bitmap_clear k w'' else w'')"
proof -
  have b: "bitmap_ok w'" using assms(1) by (simp add: cleared_def)
  have "bitmap_ok (if without pid (slots w' ! k) = [] then bitmap_clear k w'' else w'')"
    using bitmap_ok_empty[OF b assms(2)] bitmap_ok_refill[OF b assms(2) _ assms(4)] assms(5) by simp
  moreover have "length (slots w') = wheel_size" using b by (simp add: bitmap_ok_def)
  ultimately show ?thesis
    using assms by (auto simp: cleared_def nth_list_update)
qed

lemma scan_slots_ok:
  assumes "cleared pid S w w'" and "found_ok pid w S found" and "set ks \<subseteq> {..<wheel_size}"
    and "distinct ks" and "set ks \<inter> S = {}"
  shows "found_ok pid w (S \<union> set ks) (fst (scan_slots pid ks found w')) \<and>
    cleared pid (S \<union> set ks) w (snd (scan_slots pid ks found w'))"
  using assms
proof (induction ks arbitrary: S found w')
  case (Cons k ks)
  have k: "k < wheel_size" "k \<notin> S" and same: "slots w' ! k = slots w ! k" and cur: "current_time w' = current_time w"
    using Cons.prems by (auto simp: cleared_def)
  have union: "S \<union> set (k # ks) = insert k S \<union> set ks" by simp
  show ?case
  proof (cases "slots w' ! k = []")
    case True
    have "cleared pid (insert k S) w w'" "found_ok pid w (insert k S) found"
      using Cons.prems(1,2) True same by (auto simp: cleared_def found_ok_def without_def split: option.splits)
    from Cons.IH[OF this] Cons.prems show ?thesis unfolding union by (simp add: True)
  next
    case False
    let ?w = "w'\<lparr>slots := (slots w')[k := without pid (slots w' ! k)]\<rparr>"
    let ?w' = "if without pid (slots w' ! k) = [] then bitmap_clear k ?w else ?w"
    have "cleared pid (insert k S) w ?w'" by (rule cleared_step[OF Cons.prems(1) k False refl])
    moreover have "found_ok pid w (insert k S) (earlier pid found (slots w' ! k) (slot_time w k))"
      using found_ok_earlier[OF Cons.prems(2)] same by simp
    moreover have "scan_slots pid (k # ks) found w' =
        scan_slots pid ks (earlier pid found (slots w' ! k) (slot_time w k)) ?w'"
      using False by (simp add: Let_def without_def slot_time_def cur)
    ultimately show ?thesis
      using Cons.IH[of "insert k S" ?w' "earlier pid found (slots w' ! k) (slot_time w k)"] Cons.prems
      unfolding union by simp
  qed
qed simp

section \<open>The ordered map\<close>

fun drop_one :: "nat \<Rightarrow> 'c event list \<Rightarrow> 'c event list" where
  "drop_one pid [] = []"
| "drop_one pid ((p, c) # es) = (if p = pid then es else (p, c) # drop_one pid es)"

lemma remove_first_eq: "remove_first pid es = map_option (\<lambda>c. (c, drop_one pid es)) (map_of es pid)"
  by (induction pid es rule: remove_first.induct) (auto simp: option.map_comp o_def)

lemma pids_drop_one: "pids (drop_one pid es) p = pids es p - (if p = pid then 1 else 0)"
  by (induction pid es rule: drop_one.induct) (auto simp: pids_def)

lemma drop_one_single: "pids es pid = 1 \<Longrightarrow> drop_one pid es = without pid es"
proof (induction pid es rule: drop_one.induct)
  case (2 pid p c es)
  then show ?case
    using without_absent[of es pid] map_of_pids[of es pid] by (auto simp: pids_cons without_def split: if_splits)
qed simp

lemma overflow_first_None:
  "\<forall>(t, es)\<in>set m. map_of es pid = None \<Longrightarrow> overflow_first pid m = (None, m)"
  by (induction m) (auto simp: remove_first_eq)

abbreviation map_pids :: "nat \<Rightarrow> (nat \<times> 'c event list) list \<Rightarrow> nat" where
  "map_pids p m \<equiv> sum_list (map (\<lambda>m. pids (snd m) p) m)"

lemma drop_one_total:
  assumes "map_of v pid \<noteq> None"
  shows "pids (drop_one pid v) p + (if p = pid then 1 else 0) = pids v p"
  using assms map_of_pids[of v pid] by (auto simp: pids_drop_one)

lemma overflow_first_Some:
  assumes "map_ok lo m" and "(t, es) \<in> set m" and "map_of es pid \<noteq> None"
  shows "\<exists>t c m'. overflow_first pid m = (Some (t, c), m') \<and> map_ok lo m' \<and>
    map_of (bt_get m t) pid = Some c \<and> (\<forall>u < t. map_of (bt_get m u) pid = None) \<and>
    bt_get m' = (bt_get m)(t := drop_one pid (bt_get m t)) \<and> fst ` set m' \<subseteq> fst ` set m \<and>
    (\<forall>p. map_pids p m' + (if p = pid then 1 else 0) = map_pids p m)"
  using assms
proof (induction m)
  case (Cons a m)
  obtain k v where a: "a = (k, v)" by force
  have m: "map_ok lo m" "v \<noteq> []" "lo \<le> k" and gt: "\<forall>(t, es)\<in>set m. k < t"
    using Cons.prems(1) by (simp_all add: a map_ok_cons)
  have before: "bt_get m u = []" if "u \<le> k" for u
    using gt that by (intro bt_get_absent) auto
  show ?case
  proof (cases "map_of v pid")
    case (Some c)
    have ok: "map_ok lo ((k, drop_one pid v) # m)" if "drop_one pid v \<noteq> []" using m gt that by (simp add: map_ok_cons)
    let ?m' = "if drop_one pid v = [] then m else (k, drop_one pid v) # m"
    have "map_pids p ?m' + (if p = pid then 1 else 0) = map_pids p (a # m)" for p
      using drop_one_total[of v pid p] Some by (cases "drop_one pid v = []") (simp_all add: a)
    moreover have "overflow_first pid (a # m) = (Some (k, c), ?m')"
      using Some by (simp add: a remove_first_eq)
    moreover have "bt_get ?m' = (bt_get (a # m))(k := drop_one pid (bt_get (a # m) k))"
      using before by (auto simp: a bt_get_cons fun_eq_iff)
    moreover have "map_of (bt_get (a # m) k) pid = Some c" "\<forall>u < k. map_of (bt_get (a # m) u) pid = None"
      using Some before by (simp_all add: a bt_get_cons)
    moreover have "map_ok lo ?m'" "fst ` set ?m' \<subseteq> fst ` set (a # m)" using ok m(1) by (auto simp: a)
    ultimately show ?thesis by blast
  next
    case None
    then have "(t, es) \<in> set m" using Cons.prems(2,3) by (auto simp: a)
    from Cons.IH[OF m(1) this Cons.prems(3)] obtain u c m' where
      IH: "overflow_first pid m = (Some (u, c), m')" "map_ok lo m'" "map_of (bt_get m u) pid = Some c"
        "\<forall>x < u. map_of (bt_get m x) pid = None" "bt_get m' = (bt_get m)(u := drop_one pid (bt_get m u))"
        "fst ` set m' \<subseteq> fst ` set m" "\<forall>p. map_pids p m' + (if p = pid then 1 else 0) = map_pids p m"
      by blast
    have u: "k < u" using before[of u] IH(3) by (cases "u \<le> k") auto
    have "map_ok lo ((k, v) # m')" using IH(2,6) m gt by (force simp: map_ok_cons)
    then show ?thesis using None IH u by (auto simp: a remove_first_eq bt_get_cons fun_eq_iff)
  qed
qed simp

definition purge :: "nat \<Rightarrow> (nat \<times> 'c event list) list \<Rightarrow> (nat \<times> 'c event list) list" where
  "purge pid m = filter (\<lambda>(_, es). es \<noteq> []) (map (\<lambda>(t, es). (t, without pid es)) m)"

lemma purge_cons: "purge pid ((t, es) # m) = (if without pid es = [] then purge pid m else (t, without pid es) # purge pid m)"
  by (simp add: purge_def)

lemma purge_keys: "fst ` set (purge pid m) \<subseteq> fst ` set m"
  by (force simp: purge_def)

lemma purge_ok:
  "map_ok lo m \<Longrightarrow> map_ok lo (purge pid m) \<and> bt_get (purge pid m) = (\<lambda>t. without pid (bt_get m t))"
proof (induction m)
  case (Cons a m)
  obtain k v where a: "a = (k, v)" by force
  have m: "map_ok lo m" "lo \<le> k" and gt: "\<forall>(t, es)\<in>set m. k < t"
    using Cons.prems by (simp_all add: a map_ok_cons)
  have gt': "\<forall>(t, es)\<in>set (purge pid m). k < t" using gt purge_keys[of pid m] by force
  have "bt_get (purge pid m) k = []" using gt' by (intro bt_get_absent) auto
  then show ?case
    using Cons.IH[OF m(1)] m gt' by (auto simp: a purge_cons map_ok_cons bt_get_cons fun_eq_iff without_def)
qed (simp add: purge_def map_ok_def without_def fun_eq_iff)

lemma purge_total:
  "sum_list (map (\<lambda>m. pids (snd m) p) (purge pid m)) = (if p = pid then 0 else sum_list (map (\<lambda>m. pids (snd m) p) m))"
proof (induction m)
  case (Cons a m)
  have "without pid es = [] \<Longrightarrow> p \<noteq> pid \<Longrightarrow> pids es p = 0" for es :: "'a event list"
    using pids_without[of pid es p] by simp
  then show ?case using Cons by (cases a) (auto simp: purge_cons pids_without, fastforce)
qed (simp add: purge_def)

section \<open>The operation\<close>

lemma slots_without:
  assumes "cleared pid {..<wheel_size} w w'" and "length (slots w) = wheel_size"
  shows "slots w' = map (without pid) (slots w)"
  using assms by (intro nth_equalityI) (auto simp: cleared_def bitmap_ok_def)

lemma cleared_start:
  "wheel_ok w \<Longrightarrow> cleared pid {} w (w\<lparr>next_cache := None\<rparr>)"
  using bitmap_ok_cong[of "w\<lparr>next_cache := None\<rparr>" w] by (simp add: cleared_def wheel_ok_def)

lemma scan_all:
  assumes "wheel_ok w"
  obtains found w' where "scan_slots pid [0..<wheel_size] None (w\<lparr>next_cache := None\<rparr>) = (found, w')"
    "found_ok pid w {..<wheel_size} found" "cleared pid {..<wheel_size} w w'"
proof -
  let ?s = "scan_slots pid [0..<wheel_size] None (w\<lparr>next_cache := None\<rparr>)"
  have "found_ok pid w ({} \<union> set [0..<wheel_size]) (fst ?s) \<and> cleared pid ({} \<union> set [0..<wheel_size]) w (snd ?s)"
    by (rule scan_slots_ok[OF cleared_start[OF assms]]) (auto simp: found_ok_def)
  then show ?thesis by (intro that[of "fst ?s" "snd ?s"]) (simp_all add: lessThan_atLeast0)
qed

lemma pid_counts_without:
  assumes "counts_ok w" and "\<And>p. pid_total w' p = (if p = pid then 0 else pid_total w p)"
    and "pid_counts w' = (pid_counts w)(pid := None)"
  shows "counts_ok w'"
  using assms by (simp add: counts_ok_def)

text \<open>The window holds an event of the process.\<close>

lemma remove_pid_near:
  assumes ok: "wheel_ok w" and t: "t < current_time w + wheel_size" and has: "map_of (queue_at w t) pid \<noteq> None"
  shows "fst (remove_pid pid w) = first_event pid (queue_at w) \<and> wheel_ok (snd (remove_pid pid w)) \<and>
    queue_at (snd (remove_pid pid w)) = (\<lambda>t. without pid (queue_at w t)) \<and>
    current_time (snd (remove_pid pid w)) = current_time w"
proof -
  obtain found w' where scan: "scan_slots pid [0..<wheel_size] None (w\<lparr>next_cache := None\<rparr>) = (found, w')"
    and f: "found_ok pid w {..<wheel_size} found" and c: "cleared pid {..<wheel_size} w w'"
    using scan_all[OF ok] .
  have b: "bitmap_ok w" and m: "map_ok (current_time w + wheel_size) (overflow w)" and len: "length (slots w) = wheel_size"
    using ok by (simp_all add: wheel_ok_def bitmap_ok_def)
  have now: "current_time w \<le> t" using has queue_past[OF ok, of t] by (cases "t < current_time w") auto
  then have slot_t: "queue_at w t = slots w ! slot_of t" "slot_time w (slot_of t) = t"
    using t slot_time_slot by (simp_all add: queue_at_def)
  then obtain u e where ue: "found = Some (u, e)" using f has slot_lt by (cases found) (auto simp: found_ok_def)
  then obtain k where k: "k < wheel_size" "u = slot_time w k" "map_of (slots w ! k) pid = Some e"
    and least: "\<And>k. k < wheel_size \<Longrightarrow> map_of (slots w ! k) pid \<noteq> None \<Longrightarrow> u \<le> slot_time w k"
    using f by (auto simp: found_ok_def)
  have "first_event pid (queue_at w) = Some (u, e)"
  proof (rule first_event_SomeI)
    show "map_of (queue_at w u) pid = Some e" using k queue_slot_time by metis
    fix x assume x: "x < u"
    show "map_of (queue_at w x) pid = None"
    proof (rule ccontr)
      assume has: "map_of (queue_at w x) pid \<noteq> None"
      then have "queue_at w x \<noteq> []" by auto
      then show False
      proof (cases rule: queue_cases)
        case slot
        then show False using least[of "slot_of x"] has x by simp
      next
        case far
        then show False using queue_overflow(3)[OF ok far] x slot_time_window(2)[of w k] k(2) by simp
      qed
    qed
  qed
  moreover define r where "r = w'\<lparr>overflow := purge pid (overflow w), pid_counts := (pid_counts w)(pid := None)\<rparr>"
  have "pid_counts w pid \<noteq> None"
    using has has_pid_ok[OF ok, of pid] map_of_SomeD by (fastforce simp: has_pid_def)
  then have rem: "remove_pid pid w = (found, r)"
    using scan ue c by (simp add: remove_pid_def r_def purge_def without_def cleared_def)
  have sl: "slots r = map (without pid) (slots w)" and fields: "overflow r = purge pid (overflow w)"
    "pid_counts r = (pid_counts w)(pid := None)" "current_time r = current_time w" "next_cache r = None"
    using slots_without[OF c len] c by (simp_all add: r_def cleared_def)
  have "queue_at r = (\<lambda>t. without pid (queue_at w t))"
    using purge_ok[OF m, of pid] len by (auto simp: queue_at_def sl fields fun_eq_iff)
  moreover have "wheel_ok r"
  proof -
    have "bitmap_ok r" using c bitmap_ok_cong[of r w'] by (simp add: r_def cleared_def)
    moreover have "counts_ok r"
    proof (rule pid_counts_without[OF _ _ fields(2)])
      show "counts_ok w" using ok by (simp add: wheel_ok_def)
      show "pid_total r p = (if p = pid then 0 else pid_total w p)" for p
        by (simp add: pid_total_def sl fields purge_total pids_without o_def)
    qed
    ultimately show ?thesis using purge_ok[OF m, of pid] by (simp add: wheel_ok_def cache_ok_def fields)
  qed
  ultimately show ?thesis using rem ue fields by simp
qed

text \<open>Only the ordered map holds events of the process: one of them goes, the earliest.\<close>

definition without_first :: "nat \<Rightarrow> (nat \<Rightarrow> 'c event list) \<Rightarrow> nat \<Rightarrow> 'c event list" where
  "without_first pid q =
     (case first_event pid q of None \<Rightarrow> q | Some (t, _) \<Rightarrow> q(t := drop_one pid (q t)))"

lemma remove_pid_far:
  assumes ok: "wheel_ok w" and none: "\<And>t. t < current_time w + wheel_size \<Longrightarrow> map_of (queue_at w t) pid = None"
    and has: "has_pid pid w"
  shows "fst (remove_pid pid w) = first_event pid (queue_at w) \<and>
    queue_at (snd (remove_pid pid w)) = without_first pid (queue_at w) \<and>
    current_time (snd (remove_pid pid w)) = current_time w \<and>
    pid_counts (snd (remove_pid pid w)) = (pid_counts w)(pid := None) \<and>
    (\<forall>p. pid_total (snd (remove_pid pid w)) p + (if p = pid then 1 else 0) = pid_total w p) \<and>
    bitmap_ok (snd (remove_pid pid w)) \<and> next_cache (snd (remove_pid pid w)) = None \<and>
    map_ok (current_time w + wheel_size) (overflow (snd (remove_pid pid w)))"
proof -
  obtain found w' where scan: "scan_slots pid [0..<wheel_size] None (w\<lparr>next_cache := None\<rparr>) = (found, w')"
    and f: "found_ok pid w {..<wheel_size} found" and c: "cleared pid {..<wheel_size} w w'"
    using scan_all[OF ok] .
  have b: "bitmap_ok w" and m: "map_ok (current_time w + wheel_size) (overflow w)" and len: "length (slots w) = wheel_size"
    using ok by (simp_all add: wheel_ok_def bitmap_ok_def)
  have slot_none: "map_of (slots w ! k) pid = None" if "k < wheel_size" for k
    using none[OF slot_time_window(2)] queue_slot_time[OF that] by metis
  then have found: "found = None" using f by (cases found) (auto simp: found_ok_def)
  have "map (without pid) (slots w) = slots w"
    using slot_none len by (intro map_idI) (auto simp: in_set_conv_nth intro: without_absent)
  then have sl: "slots w' = slots w" using slots_without[OF c len] by simp
  obtain t0 c0 where ev: "(pid, c0) \<in> set (queue_at w t0)" using has has_pid_ok[OF ok] by blast
  then have has0: "map_of (queue_at w t0) pid \<noteq> None" unfolding map_of_eq_None_iff by force
  have "\<not> t0 < current_time w + wheel_size" using none[of t0] has0 by blast
  then have "queue_at w t0 = bt_get (overflow w) t0" by (simp add: queue_at_def)
  moreover have "queue_at w t0 \<noteq> []" using ev by auto
  ultimately have far0: "(t0, queue_at w t0) \<in> set (overflow w)" using bt_get_key[of "overflow w" t0] by simp
  obtain t e m' where ov: "overflow_first pid (overflow w) = (Some (t, e), m')" "map_ok (current_time w + wheel_size) m'"
    "map_of (bt_get (overflow w) t) pid = Some e" "\<forall>u < t. map_of (bt_get (overflow w) u) pid = None"
    "bt_get m' = (bt_get (overflow w))(t := drop_one pid (bt_get (overflow w) t))"
    "\<forall>p. map_pids p m' + (if p = pid then 1 else 0) = map_pids p (overflow w)"
    using overflow_first_Some[OF m far0 has0] by blast
  have t: "current_time w + wheel_size \<le> t"
    using ov(3) bt_get_below[OF m, of t] by (cases "t < current_time w + wheel_size") auto
  have qt: "queue_at w u = bt_get (overflow w) u" if "current_time w + wheel_size \<le> u" for u
    using that by (simp add: queue_at_def)
  have first: "first_event pid (queue_at w) = Some (t, e)"
  proof (rule first_event_SomeI)
    show "map_of (queue_at w t) pid = Some e" using ov(3) qt[OF t] by simp
    show "map_of (queue_at w u) pid = None" if "u < t" for u
      using none[of u] ov(4) qt[of u] that by (cases "u < current_time w + wheel_size") auto
  qed
  define r where "r = w'\<lparr>overflow := m', pid_counts := (pid_counts w)(pid := None)\<rparr>"
  have "pid_counts w pid \<noteq> None" using has by (simp add: has_pid_def)
  then have rem: "remove_pid pid w = (Some (t, e), r)"
    using scan found c ov(1) by (simp add: remove_pid_def r_def cleared_def)
  have "queue_at r = (queue_at w)(t := drop_one pid (queue_at w t))"
    using t ov(5) c sl by (auto simp: queue_at_def r_def cleared_def fun_eq_iff)
  moreover have "bitmap_ok r" using c bitmap_ok_cong[of r w'] by (simp add: r_def cleared_def)
  moreover have "pid_total r p + (if p = pid then 1 else 0) = pid_total w p" for p
    using ov(6)[rule_format, of p] by (simp add: pid_total_def r_def sl)
  ultimately show ?thesis using rem first ov(2) c by (simp add: without_first_def r_def cleared_def)
qed

lemma first_event_map: "first_event pid q = Some (t, c) \<Longrightarrow> map_of (q t) pid = Some c"
  by (auto simp: first_event_def split: option.splits)

lemma absent_total: "wheel_ok w \<Longrightarrow> pid_total w pid = 0 \<longleftrightarrow> (\<forall>t. map_of (queue_at w t) pid = None)"
  unfolding pid_total_zero map_of_eq_None_iff by force

text \<open>A single event goes in both cases.\<close>

lemma queue_pids_le:
  assumes "wheel_ok w"
  shows "pids (queue_at w t) p \<le> pid_total w p"
proof (cases "queue_at w t = []")
  case False
  then show ?thesis
  proof (cases rule: queue_cases)
    case slot
    have "pids (queue_at w t) p \<in> set (map (\<lambda>es. pids es p) (slots w))"
      using slot assms by (simp add: wheel_ok_def bitmap_ok_def)
    then show ?thesis unfolding pid_total_def using member_le_sum_list trans_le_add1 by blast
  next
    case far
    then have "pids (queue_at w t) p \<in> set (map (\<lambda>m. pids (snd m) p) (overflow w))" by force
    then show ?thesis unfolding pid_total_def using member_le_sum_list trans_le_add2 by blast
  qed
qed simp

lemma remove_pid_single:
  assumes ok: "wheel_ok w" and none: "\<And>t. t < current_time w + wheel_size \<Longrightarrow> map_of (queue_at w t) pid = None"
    and one: "pid_total w pid = 1"
  shows "wheel_ok (snd (remove_pid pid w)) \<and>
    queue_at (snd (remove_pid pid w)) = (\<lambda>t. without pid (queue_at w t))"
proof -
  have has: "has_pid pid w" using ok one by (simp add: has_pid_def wheel_ok_def counts_ok_def)
  note far = remove_pid_far[OF ok none has]
  let ?r = "snd (remove_pid pid w)"
  have tot: "pid_total ?r p = (if p = pid then 0 else pid_total w p)" for p
  proof -
    have "\<forall>p. pid_total ?r p + (if p = pid then 1 else 0) = pid_total w p" using far by blast
    from spec[OF this, of p] show ?thesis using one by auto
  qed
  have "counts_ok ?r"
    by (rule pid_counts_without[OF _ tot]) (use far ok in \<open>simp_all add: wheel_ok_def\<close>)
  then have ok': "wheel_ok ?r" using far by (simp add: wheel_ok_def cache_ok_def)
  obtain t c where tc: "first_event pid (queue_at w) = Some (t, c)"
  proof (cases "first_event pid (queue_at w)")
    case None
    then have "queue_at ?r = queue_at w" using far by (simp add: without_first_def)
    then show ?thesis using absent_total[OF ok', of pid] absent_total[OF ok, of pid] tot[of pid] one by simp
  qed force
  have "pids (queue_at w t) pid = 1"
    using first_event_map[OF tc] map_of_pids[of "queue_at w t" pid] queue_pids_le[OF ok, of t pid] one by fastforce
  then have at: "queue_at ?r t = without pid (queue_at w t)"
    using far tc by (simp add: without_first_def drop_one_single)
  have "queue_at ?r u = without pid (queue_at w u)" if "u \<noteq> t" for u
  proof -
    have same: "queue_at ?r u = queue_at w u" using far tc that by (simp add: without_first_def)
    have "map_of (queue_at ?r u) pid = None" using absent_total[OF ok', of pid] tot[of pid] by simp
    then show ?thesis using same without_absent by metis
  qed
  then show ?thesis using ok' at by (metis ext)
qed

text \<open>With several, the count of the process is dropped although events of it stay queued.\<close>

lemma remove_pid_leaves:
  assumes ok: "wheel_ok w" and none: "\<And>t. t < current_time w + wheel_size \<Longrightarrow> map_of (queue_at w t) pid = None"
    and more: "2 \<le> pid_total w pid"
  shows "\<not> has_pid pid (snd (remove_pid pid w)) \<and> (\<exists>t c. (pid, c) \<in> set (queue_at (snd (remove_pid pid w)) t))"
proof -
  have has: "has_pid pid w" using ok more by (simp add: has_pid_def wheel_ok_def counts_ok_def)
  note far = remove_pid_far[OF ok none has]
  let ?r = "snd (remove_pid pid w)"
  let ?s = "?r\<lparr>pid_counts := \<lambda>p. if pid_total ?r p = 0 then None else Some (pid_total ?r p)\<rparr>"
  have "wheel_ok ?s"
    using far pid_total_cong[of ?s ?r] bitmap_ok_cong[of ?s ?r] by (simp add: wheel_ok_def counts_ok_def cache_ok_def)
  moreover have "pid_total ?s pid \<noteq> 0"
  proof -
    have "\<forall>p. pid_total ?r p + (if p = pid then 1 else 0) = pid_total w p" using far by blast
    from spec[OF this, of pid] have "pid_total ?r pid + 1 = pid_total w pid" by simp
    then show ?thesis using more pid_total_cong[of ?s ?r pid] by simp
  qed
  moreover have "queue_at ?s = queue_at ?r" by (rule queue_at_cong) simp_all
  ultimately have "\<exists>t c. (pid, c) \<in> set (queue_at ?r t)" using pid_total_zero[of ?s pid] by simp
  then show ?thesis using far by (simp add: has_pid_def)
qed

lemma remove_pid_absent: "\<not> has_pid pid w \<Longrightarrow> remove_pid pid w = (None, w)"
  by (simp add: remove_pid_def has_pid_def)

end
