(* ===== verification/Event_Queue.thy ===== *)
theory Event_Queue
  imports Wheel_Remove Run_Loop
begin

text \<open>
  The contract of the event queue, as the scheduler uses it, and the loop that runs the processes of
  the active region (the inner loop of \<^verbatim>\<open>drain_condition_waiters\<close>, \<^verbatim>\<open>event_loop.rs\<close>).

  A queue denotes one first-in first-out list of events for every time.  The locale proves, from the
  contract alone, that the loop over a queue does what the loop over these lists does; the timing
  wheel is its interpretation.  Running a process is a parameter: it changes the rest of the
  simulator's state and asks for events at a delay from now.
\<close>

section \<open>The loop\<close>

datatype 'c request = Post nat "'c event" | Post_front nat "'c event"

fun serve :: "(nat \<Rightarrow> 'c event \<Rightarrow> 'q \<Rightarrow> 'q) \<Rightarrow> (nat \<Rightarrow> 'c event \<Rightarrow> 'q \<Rightarrow> 'q) \<Rightarrow> nat \<Rightarrow> 'c request \<Rightarrow> 'q \<Rightarrow> 'q" where
  "serve push front time (Post d e) q = push (time + d) e q"
| "serve push front time (Post_front d e) q = front (time + d) e q"

definition drain_step ::
  "('q \<Rightarrow> nat option \<times> 'q) \<Rightarrow> (nat \<Rightarrow> 'q \<Rightarrow> 'c event option \<times> 'q) \<Rightarrow> (nat \<Rightarrow> 'c request \<Rightarrow> 'q \<Rightarrow> 'q) \<Rightarrow>
   nat \<Rightarrow> ('s \<Rightarrow> bool) \<Rightarrow> ('c event \<Rightarrow> 's \<Rightarrow> 's \<times> 'c request list) \<Rightarrow>
   'q \<times> 's \<Rightarrow> ('q \<times> 's) + ('q \<times> 's)" where
  "drain_step peek pop srv time stop run = (\<lambda>(q, s).
     let (nt, q) = peek q
     in if nt = Some time \<and> \<not> stop s
        then case pop time q of
            (None, q) \<Rightarrow> Inr (q, s)
          | (Some e, q) \<Rightarrow> let (s, reqs) = run e s in Inl (fold (srv time) reqs q, s)
        else Inr (q, s))"

definition wheel_serve :: "nat \<Rightarrow> 'c request \<Rightarrow> 'c timing_wheel \<Rightarrow> 'c timing_wheel" where
  "wheel_serve = serve (\<lambda>t (pid, c). schedule t pid c) (\<lambda>t (pid, c). schedule_front t pid c)"

definition drain_active ::
  "nat \<Rightarrow> ('s \<Rightarrow> bool) \<Rightarrow> ('c event \<Rightarrow> 's \<Rightarrow> 's \<times> 'c request list) \<Rightarrow>
   'c timing_wheel \<times> 's \<Rightarrow> ('c timing_wheel \<times> 's) option" where
  "drain_active time stop run = run_loop (drain_step next_time pop_front wheel_serve time stop run)"

text \<open>The same loop over the lists.\<close>

definition spec_serve :: "nat \<Rightarrow> 'c request \<Rightarrow> (nat \<Rightarrow> 'c event list) \<Rightarrow> (nat \<Rightarrow> 'c event list)" where
  "spec_serve = serve (\<lambda>t e q. q(t := q t @ [e])) (\<lambda>t e q. q(t := e # q t))"

definition spec_step ::
  "nat \<Rightarrow> ('s \<Rightarrow> bool) \<Rightarrow> ('c event \<Rightarrow> 's \<Rightarrow> 's \<times> 'c request list) \<Rightarrow>
   (nat \<Rightarrow> 'c event list) \<times> 's \<Rightarrow> ((nat \<Rightarrow> 'c event list) \<times> 's) + ((nat \<Rightarrow> 'c event list) \<times> 's)" where
  "spec_step time stop run = (\<lambda>(q, s).
     if stop s then Inr (q, s)
     else case q time of
         [] \<Rightarrow> Inr (q, s)
       | e # es \<Rightarrow> let (s, reqs) = run e s in Inl (fold (spec_serve time) reqs (q(time := es)), s))"

definition spec_drain where
  "spec_drain time stop run = run_loop (spec_step time stop run)"

lemma steps_map: "steps (\<lambda>a. map_sum id f (step a)) k a = map_sum id f (steps step k a)"
  by (induction k arbitrary: a) (auto split: sum.splits simp: map_sum_def)

lemma run_loop_map: "run_loop (\<lambda>a. map_sum id f (step a)) a = map_option f (run_loop step a)"
proof (cases "run_loop step a")
  case None
  then have "\<forall>k. \<exists>b. steps step k a = Inl b" by (simp add: run_loop_None_iff)
  then have "\<forall>k. \<exists>b. steps (\<lambda>a. map_sum id f (step a)) k a = Inl b"
    unfolding steps_map by (metis id_apply map_sum.simps(1))
  then show ?thesis using None run_loop_None_iff by (metis option.map_disc_iff)
next
  case (Some r)
  then obtain k where "steps step k a = Inr r" unfolding run_loop_Some_iff ..
  then have "steps (\<lambda>a. map_sum id f (step a)) k a = Inr (f r)" by (simp add: steps_map)
  then show ?thesis using Some run_loop_steps_Inr by fastforce
qed

section \<open>The contract\<close>

locale event_queue =
  fixes inv :: "'q \<Rightarrow> bool" and queue :: "'q \<Rightarrow> nat \<Rightarrow> 'c event list" and now :: "'q \<Rightarrow> nat"
    and push :: "nat \<Rightarrow> 'c event \<Rightarrow> 'q \<Rightarrow> 'q" and front :: "nat \<Rightarrow> 'c event \<Rightarrow> 'q \<Rightarrow> 'q"
    and pop :: "nat \<Rightarrow> 'q \<Rightarrow> 'c event option \<times> 'q" and peek :: "'q \<Rightarrow> nat option \<times> 'q"
  assumes push: "inv q \<Longrightarrow> now q \<le> t \<Longrightarrow>
      inv (push t e q) \<and> queue (push t e q) = (queue q)(t := queue q t @ [e]) \<and> now (push t e q) = now q"
    and front: "inv q \<Longrightarrow> now q \<le> t \<Longrightarrow>
      inv (front t e q) \<and> queue (front t e q) = (queue q)(t := e # queue q t) \<and> now (front t e q) = now q"
    and pop: "inv q \<Longrightarrow> now q \<le> t \<Longrightarrow> (\<And>x. x < t \<Longrightarrow> queue q x = []) \<Longrightarrow>
      fst (pop t q) = (case queue q t of [] \<Rightarrow> None | e # _ \<Rightarrow> Some e) \<and> inv (snd (pop t q)) \<and>
      queue (snd (pop t q)) = (queue q)(t := tl (queue q t)) \<and> now (snd (pop t q)) = t"
    and next_time: "inv q \<Longrightarrow>
      fst (peek q) = earliest (queue q) \<and> inv (snd (peek q)) \<and> queue (snd (peek q)) = queue q \<and> now (snd (peek q)) = now q"
begin

definition "due time q \<longleftrightarrow> inv q \<and> now q \<le> time \<and> (\<forall>x < time. queue q x = [])"

lemma next_due:
  assumes "due time q"
  shows "fst (peek q) = Some time \<longleftrightarrow> queue q time \<noteq> []" and "due time (snd (peek q))" and "queue (snd (peek q)) = queue q"
proof -
  have "earliest (queue q) = Some time \<longleftrightarrow> queue q time \<noteq> []"
  proof
    assume "earliest (queue q) = Some time"
    then show "queue q time \<noteq> []" using earliest_SomeD by fast
  next
    assume "queue q time \<noteq> []"
    then show "earliest (queue q) = Some time" using assms by (intro earliest_SomeI) (simp_all add: due_def)
  qed
  then show "fst (peek q) = Some time \<longleftrightarrow> queue q time \<noteq> []" "due time (snd (peek q))" "queue (snd (peek q)) = queue q"
    using next_time[of q] assms by (simp_all add: due_def)
qed

lemma serve_due:
  assumes "due time q"
  shows "due time (serve push front time r q) \<and>
    queue (serve push front time r q) = spec_serve time r (queue q)"
proof (cases r)
  case (Post d e)
  show ?thesis using assms push[of q "time + d" e] by (simp add: Post due_def spec_serve_def)
next
  case (Post_front d e)
  show ?thesis using assms front[of q "time + d" e] by (simp add: Post_front due_def spec_serve_def)
qed

lemma serve_all_due:
  "due time q \<Longrightarrow> due time (fold (serve push front time) rs q) \<and>
    queue (fold (serve push front time) rs q) = fold (spec_serve time) rs (queue q)"
proof (induction rs arbitrary: q)
  case (Cons r rs)
  then show ?case using serve_due[OF Cons.prems, of r] by simp
qed simp

lemma drain_step_spec:
  assumes "due time q"
  shows "(case drain_step peek pop (serve push front) time stop run (q, s) of
      Inl (q', s') \<Rightarrow> due time q' \<and> spec_step time stop run (queue q, s) = Inl (queue q', s')
    | Inr (q', s') \<Rightarrow> due time q' \<and> spec_step time stop run (queue q, s) = Inr (queue q', s'))"
proof -
  obtain nt q1 where nx: "peek q = (nt, q1)" by force
  have q1: "due time q1" "queue q1 = queue q" "nt = Some time \<longleftrightarrow> queue q time \<noteq> []"
    using next_due[OF assms] by (simp_all add: nx)
  obtain oe q2 where pp: "pop time q1 = (oe, q2)" by force
  have p: "oe = (case queue q time of [] \<Rightarrow> None | e # _ \<Rightarrow> Some e)"
    "due time q2" "queue q2 = (queue q)(time := tl (queue q time))"
    using pop[of q1 time] q1 by (auto simp: due_def pp)
  show ?thesis
  proof (cases "stop s \<or> queue q time = []")
    case True
    then show ?thesis using q1 by (auto simp: drain_step_def spec_step_def nx split: list.splits)
  next
    case False
    then obtain e es where es: "queue q time = e # es" by (cases "queue q time") auto
    obtain s' rs where r: "run e s = (s', rs)" by force
    show ?thesis
      using False es r q1 p serve_all_due[OF p(2), of rs] by (simp add: drain_step_def spec_step_def nx pp)
  qed
qed

text \<open>The two loops agree, also on running forever.\<close>

lemma drain_refines:
  fixes s :: 's
  assumes "due time q"
  shows "map_option (\<lambda>(q, s). (queue q, s)) (run_loop (drain_step peek pop (serve push front) time stop run) (q, s)) =
    spec_drain time stop run (queue q, s)"
proof -
  let ?f = "\<lambda>(q, s :: 's). (queue q, s)"
  define R where "R a b \<longleftrightarrow> due time (fst a) \<and> b = ?f a" for a :: "'q \<times> 's" and b
  define A where "A a = map_sum id ?f (drain_step peek pop (serve push front) time stop run a)" for a
  define B where "B = spec_step time stop run"
  have "step_refinement A B R (\<lambda>_. True)"
  proof (rule step_refinement.intro)
    fix a b assume "R a b"
    then obtain q s where a: "a = (q, s)" and d: "due time q" and b: "b = (queue q, s)" by (cases a) (auto simp: R_def)
    note one = drain_step_spec[OF d, of stop run s, folded B_def]
    show "(\<exists>k r. steps A k a = Inr r \<and> \<not> True) \<or>
      (\<exists>k m a' b'. steps A (Suc k) a = Inl a' \<and> steps B (Suc m) b = Inl b' \<and> R a' b') \<or>
      (\<exists>k m r. steps A k a = Inr r \<and> steps B m b = Inr r)"
    proof (cases "drain_step peek pop (serve push front) time stop run (q, s)")
      case (Inl a')
      then have "steps A (Suc 0) a = Inl a'" "steps B (Suc 0) b = Inl (?f a')" "R a' (?f a')"
        using one by (auto simp: A_def R_def a b split: prod.splits)
      then show ?thesis by blast
    next
      case (Inr a')
      then have "steps A (Suc 0) a = Inr (?f a')" "steps B (Suc 0) b = Inr (?f a')"
        using one by (auto simp: A_def a b split: prod.splits)
      then show ?thesis by blast
    qed
  qed
  from step_refinement.run_equal[OF this, of "(q, s)" "(queue q, s)"] assms
  have "run_loop A (q, s) = run_loop B (queue q, s)" by (simp add: R_def)
  moreover have "run_loop A (q, s) = map_option ?f (run_loop (drain_step peek pop (serve push front) time stop run) (q, s))"
    unfolding A_def by (rule run_loop_map)
  ultimately show ?thesis by (simp add: spec_drain_def B_def)
qed

lemma drain_due:
  assumes "due time q" and "run_loop (drain_step peek pop (serve push front) time stop run) (q, s) = Some (q', s')"
  shows "due time q'"
proof -
  obtain k where "steps (drain_step peek pop (serve push front) time stop run) k (q, s) = Inr (q', s')"
    using assms(2) run_loop_Some_iff by metis
  with assms(1) show ?thesis
  proof (induction k arbitrary: q s)
    case (Suc k)
    then show ?case using drain_step_spec[OF Suc.prems(1), of stop run s]
      by (cases "drain_step peek pop (serve push front) time stop run (q, s)") (auto split: prod.splits)
  qed simp
qed

end

section \<open>A batch that asks only for later events\<close>

fun delay_of :: "'c request \<Rightarrow> nat" where
  "delay_of (Post d e) = d"
| "delay_of (Post_front d e) = d"

text \<open>Running a list of processes one after the other, and collecting their requests.\<close>

fun run_all :: "('c event \<Rightarrow> 's \<Rightarrow> 's \<times> 'c request list) \<Rightarrow> 'c event list \<Rightarrow> 's \<Rightarrow> 's \<times> 'c request list" where
  "run_all run [] s = (s, [])"
| "run_all run (e # es) s =
     (let (s1, rs) = run e s; (s2, rs') = run_all run es s1 in (s2, rs @ rs'))"

lemma spec_serve_later: "0 < delay_of r \<Longrightarrow> spec_serve t r q t = q t"
  by (cases r) (auto simp: spec_serve_def)

lemma spec_serve_rest: "0 < delay_of r \<Longrightarrow> spec_serve t r (q(t := es)) = (spec_serve t r q)(t := es)"
  by (cases r) (auto simp: spec_serve_def fun_upd_twist)

lemma serve_list_later: "\<forall>r\<in>set rs. 0 < delay_of r \<Longrightarrow> fold (spec_serve t) rs q t = q t"
  by (induction rs arbitrary: q) (simp_all add: spec_serve_later)

lemma serve_list_rest:
  "\<forall>r\<in>set rs. 0 < delay_of r \<Longrightarrow> fold (spec_serve t) rs (q(t := es)) = (fold (spec_serve t) rs q)(t := es)"
  by (induction rs arbitrary: q) (simp_all add: spec_serve_rest)

lemma run_all_later:
  assumes "\<And>e s r. r \<in> set (snd (run e s)) \<Longrightarrow> 0 < delay_of r"
  shows "\<forall>r \<in> set (snd (run_all run es s)). 0 < delay_of r"
proof (induction es arbitrary: s)
  case (Cons e es)
  obtain s1 rs s2 rs' where "run e s = (s1, rs)" "run_all run es s1 = (s2, rs')" by (metis surj_pair)
  then show ?case using assms[of _ e s] Cons[of s1] by auto
qed simp

lemma spec_drain_batch:
  assumes "\<And>s. \<not> stop s" and later: "\<And>e s r. r \<in> set (snd (run e s)) \<Longrightarrow> 0 < delay_of r"
  shows "spec_drain t stop run (q, s) =
    Some (fold (spec_serve t) (snd (run_all run (q t) s)) (q(t := [])), fst (run_all run (q t) s))"
proof (induction "q t" arbitrary: q s)
  case Nil
  have "q(t := []) = q" using Nil by auto
  then show ?case
    using Nil[symmetric] assms(1) by (simp add: spec_drain_def run_loop_Inr spec_step_def)
next
  case (Cons e es)
  obtain s1 rs where r: "run e s = (s1, rs)" by force
  have rs: "\<forall>r\<in>set rs. 0 < delay_of r" using later[of _ e s] r by auto
  let ?q = "fold (spec_serve t) rs (q(t := es))"
  have q: "?q t = es" "?q(t := []) = fold (spec_serve t) rs (q(t := []))"
    using serve_list_rest[OF rs] by (simp_all add: fun_upd_idem_iff)
  have "spec_step t stop run (q, s) = Inl (?q, s1)"
    using Cons.hyps(2)[symmetric] assms(1) r by (simp add: spec_step_def)
  then have "spec_drain t stop run (q, s) = spec_drain t stop run (?q, s1)"
    by (simp add: spec_drain_def run_loop_Inl)
  also have "\<dots> = Some (fold (spec_serve t) (snd (run_all run es s1)) (?q(t := [])), fst (run_all run es s1))"
    using Cons.hyps(1)[of ?q s1] q(1) by simp
  finally show ?case
    unfolding q(2) using Cons.hyps(2)[symmetric] r by (auto simp: Let_def split: prod.splits)
qed

section \<open>The timing wheel is an event queue\<close>

interpretation wq: event_queue wheel_ok queue_at current_time
  "\<lambda>t (pid, c). schedule t pid c" "\<lambda>t (pid, c). schedule_front t pid c" pop_front next_time
proof
  fix w :: "'c timing_wheel" and t e
  assume ok: "wheel_ok w"
  show "fst (next_time w) = earliest (queue_at w) \<and> wheel_ok (snd (next_time w)) \<and>
      queue_at (snd (next_time w)) = queue_at w \<and> current_time (snd (next_time w)) = current_time w"
    by (rule next_time_ok[OF ok])
  assume t: "current_time w \<le> t"
  show "wheel_ok ((case e of (pid, c) \<Rightarrow> schedule t pid c) w) \<and>
      queue_at ((case e of (pid, c) \<Rightarrow> schedule t pid c) w) = (queue_at w)(t := queue_at w t @ [e]) \<and>
      current_time ((case e of (pid, c) \<Rightarrow> schedule t pid c) w) = current_time w"
    using schedule_ok[OF ok t] by (cases e) simp
  show "wheel_ok ((case e of (pid, c) \<Rightarrow> schedule_front t pid c) w) \<and>
      queue_at ((case e of (pid, c) \<Rightarrow> schedule_front t pid c) w) = (queue_at w)(t := e # queue_at w t) \<and>
      current_time ((case e of (pid, c) \<Rightarrow> schedule_front t pid c) w) = current_time w"
    using schedule_front_ok[OF ok t] by (cases e) simp
  assume "\<And>x. x < t \<Longrightarrow> queue_at w x = []"
  then show "fst (pop_front t w) = (case queue_at w t of [] \<Rightarrow> None | e # _ \<Rightarrow> Some e) \<and>
      wheel_ok (snd (pop_front t w)) \<and>
      queue_at (snd (pop_front t w)) = (queue_at w)(t := tl (queue_at w t)) \<and> current_time (snd (pop_front t w)) = t"
    by (rule pop_front_ok[OF ok t])
qed

lemma wheel_due: "wq.due t w \<longleftrightarrow> wheel_ok w \<and> current_time w \<le> t \<and> (\<forall>x < t. queue_at w x = [])"
  by (simp add: wq.due_def)

lemmas drain_active_refines = wq.drain_refines[folded wheel_serve_def, folded drain_active_def]
lemmas drain_active_due = wq.drain_due[folded wheel_serve_def, folded drain_active_def]

end
