(* ===== verification/Wheel_Reach.thy ===== *)
theory Wheel_Reach
  imports Event_Queue
begin

text \<open>
  The timing wheels a run can reach: from the empty wheel, by the operations under the guards the
  scheduler keeps.  Events are scheduled now or later, the wheel is advanced only past times whose
  queues are empty, and a process taken out of the queue by \<^verbatim>\<open>remove_pid\<close> has a single event.
\<close>

definition nothing_before :: "nat \<Rightarrow> 'c timing_wheel \<Rightarrow> bool" where
  "nothing_before t w \<longleftrightarrow> (case fst (next_time w) of None \<Rightarrow> True | Some u \<Rightarrow> t \<le> u)"

inductive wheel_reachable :: "'c timing_wheel \<Rightarrow> bool" where
  new: "wheel_reachable wheel_new"
| schedule: "wheel_reachable w \<Longrightarrow> current_time w \<le> t \<Longrightarrow> wheel_reachable (schedule t pid c w)"
| schedule_front: "wheel_reachable w \<Longrightarrow> current_time w \<le> t \<Longrightarrow> wheel_reachable (schedule_front t pid c w)"
| requeue_front: "wheel_reachable w \<Longrightarrow> current_time w \<le> t \<Longrightarrow> rest \<noteq> [] \<Longrightarrow> wheel_reachable (requeue_front t rest w)"
| next_time: "wheel_reachable w \<Longrightarrow> wheel_reachable (snd (next_time w))"
| pop_front: "wheel_reachable w \<Longrightarrow> current_time w \<le> t \<Longrightarrow> nothing_before t w \<Longrightarrow> wheel_reachable (snd (pop_front t w))"
| remove_at: "wheel_reachable w \<Longrightarrow> current_time w \<le> t \<Longrightarrow> nothing_before t w \<Longrightarrow> wheel_reachable (snd (remove_at t w))"
| reorder_slot: "wheel_reachable w \<Longrightarrow> wheel_reachable (reorder_slot (current_time w) rank w)"
| remove_pid: "wheel_reachable w \<Longrightarrow> pid_counts w pid = Some 1 \<Longrightarrow> wheel_reachable (snd (remove_pid pid w))"

lemma nothing_before_queue:
  assumes "wheel_ok w" and "nothing_before t w" and "x < t"
  shows "queue_at w x = []"
proof (cases "earliest (queue_at w)")
  case None
  then show ?thesis by (rule earliest_NoneD)
next
  case (Some m)
  then show ?thesis using earliest_SomeD[OF Some] next_time_ok[OF assms(1)] assms(2,3) by (simp add: nothing_before_def)
qed

lemma remove_pid_ok:
  assumes ok: "wheel_ok w" and one: "pid_counts w pid = Some 1"
  shows "wheel_ok (snd (remove_pid pid w)) \<and> fst (remove_pid pid w) = first_event pid (queue_at w) \<and>
    queue_at (snd (remove_pid pid w)) = (\<lambda>t. without pid (queue_at w t)) \<and>
    current_time (snd (remove_pid pid w)) = current_time w"
proof -
  have total: "pid_total w pid = 1" using ok one by (auto simp: wheel_ok_def counts_ok_def split: if_splits)
  have has: "has_pid pid w" using one by (simp add: has_pid_def)
  show ?thesis
  proof (cases "\<forall>t < current_time w + wheel_size. map_of (queue_at w t) pid = None")
    case True
    then have none: "\<And>t. t < current_time w + wheel_size \<Longrightarrow> map_of (queue_at w t) pid = None" by blast
    show ?thesis using remove_pid_single[OF ok none total] remove_pid_far[OF ok none has] by simp
  next
    case False
    then show ?thesis using remove_pid_near[OF ok] by blast
  qed
qed

lemma reachable_ok: "wheel_reachable w \<Longrightarrow> wheel_ok w"
proof (induction rule: wheel_reachable.induct)
  case (pop_front w t)
  then show ?case using pop_front_ok[of w t] nothing_before_queue[of w t] by blast
next
  case (remove_at w t)
  then show ?case using remove_at_ok[of w t] nothing_before_queue[of w t] by blast
next
  case (reorder_slot w rank)
  then show ?case using reorder_slot_ok[of w "current_time w" rank] by simp
next
  case (remove_pid w pid)
  then show ?case using remove_pid_ok by blast
qed (simp_all add: wheel_new_ok schedule_ok schedule_front_ok requeue_front_ok next_time_ok)

end
