(* ===== verification/Wheel_Examples.thy ===== *)
theory Wheel_Examples
  imports Wheel_Reach
begin

text \<open>A wheel with two events of the time 10, one of the time 20, and two beyond the window.\<close>

definition ex_wheel :: "string timing_wheel" where
  "ex_wheel =
     schedule 9000 7 ''late'' (schedule 10 4 ''b'' (schedule 5000 7 ''far''
       (schedule 20 5 ''d'' (schedule 10 3 ''a'' wheel_new))))"

lemma ex_reachable: "wheel_reachable ex_wheel" and ex_time: "current_time ex_wheel = 0"
  and ex_queue: "queue_at ex_wheel =
    (\<lambda>_. [])(10 := [(3, ''a''), (4, ''b'')], 20 := [(5, ''d'')], 5000 := [(7, ''far'')], 9000 := [(7, ''late'')])"
proof -
  define w0 :: "string timing_wheel" where "w0 = wheel_new"
  have w0: "wheel_reachable w0" "current_time w0 = 0" "queue_at w0 = (\<lambda>_. [])"
    using wheel_new_queue by (auto simp: w0_def wheel_reachable.new fun_eq_iff) (simp add: wheel_new_def)
  have step: "wheel_reachable (schedule t p c w) \<and> current_time (schedule t p c w) = 0 \<and>
      queue_at (schedule t p c w) = (queue_at w)(t := queue_at w t @ [(p, c)])"
    if "wheel_reachable w \<and> current_time w = 0" for t p c and w :: "string timing_wheel"
    using that schedule_ok[OF reachable_ok, of w t p c] wheel_reachable.schedule[of w t p c] by simp
  define w1 where "w1 = schedule 10 3 ''a'' w0"
  define w2 where "w2 = schedule 20 5 ''d'' w1"
  define w3 where "w3 = schedule 5000 7 ''far'' w2"
  define w4 where "w4 = schedule 10 4 ''b'' w3"
  have w: "ex_wheel = schedule 9000 7 ''late'' w4" by (simp add: ex_wheel_def w4_def w3_def w2_def w1_def w0_def)
  note w1 = step[of w0 10 3 "''a''", folded w1_def]
  note w2 = step[of w1 20 5 "''d''", folded w2_def]
  note w3 = step[of w2 5000 7 "''far''", folded w3_def]
  note w4 = step[of w3 10 4 "''b''", folded w4_def]
  note w5 = step[of w4 9000 7 "''late''", folded w]
  show "wheel_reachable ex_wheel" "current_time ex_wheel = 0" using w0 w1 w2 w3 w4 w5 by simp_all
  show "queue_at ex_wheel = (\<lambda>_. [])(10 := [(3, ''a''), (4, ''b'')], 20 := [(5, ''d'')], 5000 := [(7, ''far'')], 9000 := [(7, ''late'')])"
    using w0 w1 w2 w3 w4 w5 by (auto simp: fun_eq_iff)
qed

lemma ex_earliest: "earliest (queue_at ex_wheel) = Some 10"
  by (rule earliest_SomeI) (simp_all add: ex_queue)

lemma ex_due: "nothing_before 10 ex_wheel"
  using next_time_ok[OF reachable_ok[OF ex_reachable]] by (simp add: nothing_before_def ex_earliest)

lemma ex_counts: "pid_counts ex_wheel 7 = Some 2" "pid_counts ex_wheel 5 = Some 1"
  by (simp_all add: ex_wheel_def schedule_def count_pid_def wheel_new_def)

text \<open>Running a process appends its name and asks for an event one tick later.\<close>

definition ex_run :: "string event \<Rightarrow> string list \<Rightarrow> string list \<times> string request list" where
  "ex_run = (\<lambda>(pid, c) log. (log @ [c], [Post 1 (pid, c)]))"

end
