(* ===== verification/Csp_Dom.thy ===== *)
theory Csp_Dom
  imports Xz_Prelude "HOL-Library.Product_Lexorder" "HOL-Library.Signed_Division"
begin

text \<open>
  The domains of the constraint solver (\<^verbatim>\<open>rand_csp.rs\<close>): sorted, disjoint, inclusive intervals.  An
  \<^verbatim>\<open>i128\<close> is an integer here; where the code saturates or checks, so do the definitions.  Its division
  and remainder truncate.
\<close>

type_synonym dom = "(int \<times> int) list"

definition i128_max :: int where "i128_max = 2 ^ 127 - 1"
definition i128_min :: int where "i128_min = - (2 ^ 127)"
definition u128_max :: nat where "u128_max = 2 ^ 128 - 1"

definition dom_size :: "dom \<Rightarrow> nat" where
  "dom_size d = fold (\<lambda>(l, h) a. min (a + (nat (h - l) + 1)) u128_max) d 0"

definition dom_fixed :: "dom \<Rightarrow> int option" where
  "dom_fixed d = (case d of [(l, h)] \<Rightarrow> if l = h then Some l else None | _ \<Rightarrow> None)"

fun merge_ivs :: "int \<times> int \<Rightarrow> dom \<Rightarrow> dom" where
  "merge_ivs i [] = [i]"
| "merge_ivs (a, b) ((l, h) # v) =
     (if l \<le> min (b + 1) i128_max then merge_ivs (a, max b h) v else (a, b) # merge_ivs (l, h) v)"

definition dom_norm :: "(int \<times> int) list \<Rightarrow> dom" where
  "dom_norm v = (case sort (filter (\<lambda>(l, h). l \<le> h) v) of [] \<Rightarrow> [] | i # is \<Rightarrow> merge_ivs i is)"

definition dom_clip :: "dom \<Rightarrow> int \<Rightarrow> int \<Rightarrow> dom" where
  "dom_clip d lo hi = filter (\<lambda>(a, b). a \<le> b) (map (\<lambda>(a, b). (max a lo, min b hi)) d)"

fun dom_meet :: "dom \<Rightarrow> dom \<Rightarrow> dom" where
  "dom_meet ((l1, h1) # a) ((l2, h2) # b) =
     (let lo = max l1 l2; hi = min h1 h2;
          rest = (if h1 < h2 then dom_meet a ((l2, h2) # b) else dom_meet ((l1, h1) # a) b)
      in if lo \<le> hi then (lo, hi) # rest else rest)"
| "dom_meet a b = []"

text \<open>One interval without the intervals from \<open>k\<close> on, then the whole.\<close>

fun minus_one :: "int \<Rightarrow> int \<Rightarrow> dom \<Rightarrow> dom" where
  "minus_one lo hi [] = (if lo \<le> hi then [(lo, hi)] else [])"
| "minus_one lo hi ((l, h) # b) =
     (if lo > hi then []
      else if l > hi then [(lo, hi)]
      else (if l > lo then [(lo, l - 1)] else []) @ (if h \<ge> hi then [] else minus_one (h + 1) hi b))"

fun dom_minus :: "dom \<Rightarrow> dom \<Rightarrow> dom" where
  "dom_minus [] b = []"
| "dom_minus ((lo, hi) # a) b =
     (let b = dropWhile (\<lambda>(l, h). h < lo) b in minus_one lo hi b @ dom_minus a b)"

definition dom_has :: "dom \<Rightarrow> int \<Rightarrow> bool" where
  "dom_has d v \<longleftrightarrow> list_ex (\<lambda>(l, h). l \<le> v \<and> v \<le> h) d"

fun dom_nth :: "dom \<Rightarrow> nat \<Rightarrow> int" where
  "dom_nth [] k = 0"
| "dom_nth ((l, h) # d) k =
     (let n = nat (h - l) + 1
      in if k < n then l + int k else if d = [] then h else dom_nth d (k - n))"

definition floor_div :: "int \<Rightarrow> int \<Rightarrow> int" where
  "floor_div a b = (let q = a sdiv b in if a smod b \<noteq> 0 \<and> ((a < 0) \<noteq> (b < 0)) then q - 1 else q)"

definition ceil_div :: "int \<Rightarrow> int \<Rightarrow> int" where
  "ceil_div a b = - floor_div (- a) b"

text \<open>The values of an operand of \<open>w\<close> bits.\<close>

definition ws_range :: "nat \<Rightarrow> bool \<Rightarrow> int \<times> int" where
  "ws_range w s =
     (let w = max 1 (min w 64) in if s then (- (2 ^ (w - 1)), 2 ^ (w - 1) - 1) else (0, 2 ^ w - 1))"

section \<open>The sets the operations compute\<close>

text \<open>In order, disjoint and without empty intervals.\<close>

fun dom_ok :: "dom \<Rightarrow> bool" where
  "dom_ok [] \<longleftrightarrow> True"
| "dom_ok ((l, h) # d) \<longleftrightarrow> l \<le> h \<and> (\<forall>(l', h')\<in>set d. h < l') \<and> dom_ok d"

lemma dom_has_simps [simp]:
  "\<not> dom_has [] x" "dom_has ((l, h) # d) x \<longleftrightarrow> l \<le> x \<and> x \<le> h \<or> dom_has d x"
  "dom_has (a @ b) x \<longleftrightarrow> dom_has a x \<or> dom_has b x"
  by (auto simp: dom_has_def)

lemma dom_has_set: "dom_has d x \<longleftrightarrow> (\<exists>(l, h)\<in>set d. l \<le> x \<and> x \<le> h)"
  by (auto simp: dom_has_def list_ex_iff)

lemma dom_has_above: "\<forall>(l, h)\<in>set d. y < l \<Longrightarrow> dom_has d x \<Longrightarrow> y < x"
  by (force simp: dom_has_set)

lemma clip_has: "dom_has (dom_clip d lo hi) x \<longleftrightarrow> dom_has d x \<and> lo \<le> x \<and> x \<le> hi"
  by (induction d) (auto simp: dom_clip_def)

lemma clip_ok: "dom_ok d \<Longrightarrow> dom_ok (dom_clip d lo hi)"
  by (induction d rule: dom_ok.induct) (auto simp: dom_clip_def)

lemma meet_bounds: "(l, h) \<in> set (dom_meet a b) \<Longrightarrow> (\<exists>(l', h')\<in>set a. l' \<le> l) \<and> (\<exists>(l', h')\<in>set b. l' \<le> l)"
  by (induction a b rule: dom_meet.induct) (fastforce simp: Let_def split: if_splits)+

lemma meet_has: "dom_ok a \<Longrightarrow> dom_ok b \<Longrightarrow> dom_has (dom_meet a b) x \<longleftrightarrow> dom_has a x \<and> dom_has b x"
proof (induction a b rule: dom_meet.induct)
  case (1 l1 h1 a l2 h2 b)
  have above: "dom_has a x \<Longrightarrow> h1 < x" "dom_has b x \<Longrightarrow> h2 < x"
    using 1(3,4) dom_has_above[of a h1 x] dom_has_above[of b h2 x] by auto
  show ?case
  proof (cases "h1 < h2")
    case True
    have "dom_has (dom_meet a ((l2, h2) # b)) x \<longleftrightarrow> dom_has a x \<and> dom_has ((l2, h2) # b) x"
      using 1(1)[OF refl refl] True 1(3,4) by simp
    then show ?thesis using True above by (auto simp: Let_def)
  next
    case False
    have "dom_has (dom_meet ((l1, h1) # a) b) x \<longleftrightarrow> dom_has ((l1, h1) # a) x \<and> dom_has b x"
      using 1(2)[OF refl refl] False 1(3,4) by simp
    then show ?thesis using False above by (auto simp: Let_def)
  qed
qed auto

lemma meet_low: "(l, h) \<in> set (dom_meet a b) \<Longrightarrow> \<forall>(l', h')\<in>set a. y < l' \<Longrightarrow> y < l"
  using meet_bounds[of l h a b] by fastforce

lemma meet_low2: "(l, h) \<in> set (dom_meet a b) \<Longrightarrow> \<forall>(l', h')\<in>set b. y < l' \<Longrightarrow> y < l"
  using meet_bounds[of l h a b] by fastforce

lemma meet_ok: "dom_ok a \<Longrightarrow> dom_ok b \<Longrightarrow> dom_ok (dom_meet a b)"
proof (induction a b rule: dom_meet.induct)
  case (1 l1 h1 a l2 h2 b)
  show ?case
  proof (cases "h1 < h2")
    case True
    have ok: "dom_ok (dom_meet a ((l2, h2) # b))" using 1(1)[OF refl refl] True 1(3,4) by simp
    have "h1 < l" if "(l, h) \<in> set (dom_meet a ((l2, h2) # b))" for l h
      using meet_low[OF that, of h1] 1(3) by simp
    then show ?thesis using True ok by (auto simp: Let_def)
  next
    case False
    have ok: "dom_ok (dom_meet ((l1, h1) # a) b)" using 1(2)[OF refl refl] False 1(3,4) by simp
    have "h2 < l" if "(l, h) \<in> set (dom_meet ((l1, h1) # a) b)" for l h
      using meet_low2[OF that, of h2] 1(4) by simp
    then show ?thesis using False ok by (auto simp: Let_def)
  qed
qed auto

lemma minus_one_has: "dom_ok b \<Longrightarrow> \<forall>(l', h')\<in>set b. lo \<le> h' \<Longrightarrow> dom_has (minus_one lo hi b) x \<longleftrightarrow> lo \<le> x \<and> x \<le> hi \<and> \<not> dom_has b x"
proof (induction lo hi b rule: minus_one.induct)
  case (2 lo hi l h b)
  have up: "\<forall>(l'', h'')\<in>set b. h + 1 \<le> h''" using 2(2) by (induction b rule: dom_ok.induct) auto
  have "dom_has b x \<Longrightarrow> h < x" using 2(2) dom_has_above[of b h x] by auto
  then show ?case using 2 up by auto
qed auto

lemma minus_one_in: "(l, h) \<in> set (minus_one lo hi b) \<Longrightarrow> dom_ok b \<Longrightarrow> \<forall>(l', h')\<in>set b. lo \<le> h' \<Longrightarrow> lo \<le> l \<and> l \<le> h \<and> h \<le> hi"
proof (induction lo hi b rule: minus_one.induct)
  case (2 lo hi l' h' b)
  have "\<forall>(l'', h'')\<in>set b. h' + 1 \<le> h''" using 2(3) by (induction b rule: dom_ok.induct) auto
  then show ?case using 2 by (auto split: if_splits)
qed (auto split: if_splits)

lemma minus_one_ok: "dom_ok b \<Longrightarrow> \<forall>(l', h')\<in>set b. lo \<le> h' \<Longrightarrow> dom_ok (minus_one lo hi b)"
proof (induction lo hi b rule: minus_one.induct)
  case (2 lo hi l' h' b)
  have up: "\<forall>(l'', h'')\<in>set b. h' + 1 \<le> h''" using 2(2) by (induction b rule: dom_ok.induct) auto
  have "l' - 1 < l" if "(l, h) \<in> set (minus_one (h' + 1) hi b)" for l h
    using minus_one_in[OF that _ up] 2(2) by auto
  then show ?case using 2 up by auto
qed auto

lemma dom_ok_append: "dom_ok (a @ b) \<longleftrightarrow> dom_ok a \<and> dom_ok b \<and> (\<forall>(l, h)\<in>set a. \<forall>(l', h')\<in>set b. h < l')"
  by (induction a rule: dom_ok.induct) auto

lemma drop_ok: "dom_ok b \<Longrightarrow> dom_ok (dropWhile (\<lambda>(l, h). h < lo) b)"
  by (induction b rule: dom_ok.induct) auto

lemma drop_above: "dom_ok b \<Longrightarrow> \<forall>(l', h')\<in>set (dropWhile (\<lambda>(l, h). h < lo) b). lo \<le> h'"
proof (induction b rule: dom_ok.induct)
  case (2 l h d)
  have "\<forall>(l', h')\<in>set d. h \<le> h'" using 2(2) by (induction d rule: dom_ok.induct) auto
  then show ?case using 2 by auto
qed simp

lemma drop_has: "lo \<le> x \<Longrightarrow> dom_has (dropWhile (\<lambda>(l, h). h < lo) b) x \<longleftrightarrow> dom_has b x"
  by (induction b) auto

lemma minus_in: "(l, h) \<in> set (dom_minus a b) \<Longrightarrow> dom_ok a \<Longrightarrow> dom_ok b \<Longrightarrow> \<exists>(l', h')\<in>set a. l' \<le> l \<and> h \<le> h'"
proof (induction a b rule: dom_minus.induct)
  case (2 lo hi a b)
  let ?b = "dropWhile (\<lambda>(l, h). h < lo) b"
  consider "(l, h) \<in> set (minus_one lo hi ?b)" | "(l, h) \<in> set (dom_minus a ?b)" using 2(2) by (auto simp: Let_def)
  then show ?case
  proof cases
    case 1
    then show ?thesis using minus_one_in[OF 1 drop_ok[OF 2(4)] drop_above[OF 2(4)]] by auto
  next
    case later: 2
    then show ?thesis using 2(1)[OF refl later _ drop_ok[OF 2(4)]] 2(3) by auto
  qed
qed simp

lemma minus_has: "dom_ok a \<Longrightarrow> dom_ok b \<Longrightarrow> dom_has (dom_minus a b) x \<longleftrightarrow> dom_has a x \<and> \<not> dom_has b x"
proof (induction a b rule: dom_minus.induct)
  case (2 lo hi a b)
  let ?b = "dropWhile (\<lambda>(l, h). h < lo) b"
  note dr = drop_ok[OF 2(3), of lo] drop_above[OF 2(3), of lo] drop_has
  have "dom_has (dom_minus a ?b) x \<longleftrightarrow> dom_has a x \<and> \<not> dom_has ?b x" using 2(1)[OF refl] 2(2) dr(1) by simp
  moreover have "dom_has a x \<Longrightarrow> lo \<le> x" using 2(2) dom_has_above[of a hi x] by auto
  ultimately show ?case using minus_one_has[OF dr(1,2), of hi x] dr(3)[of lo x b] by (auto simp: Let_def)
qed simp

lemma minus_ok: "dom_ok a \<Longrightarrow> dom_ok b \<Longrightarrow> dom_ok (dom_minus a b)"
proof (induction a b rule: dom_minus.induct)
  case (2 lo hi a b)
  let ?b = "dropWhile (\<lambda>(l, h). h < lo) b"
  note dr = drop_ok[OF 2(3), of lo] drop_above[OF 2(3), of lo]
  have ok: "dom_ok (dom_minus a ?b)" "dom_ok a" using 2(1)[OF refl] 2(2) dr(1) by auto
  have "h < l'" if lh: "(l, h) \<in> set (minus_one lo hi ?b)" and lh': "(l', h') \<in> set (dom_minus a ?b)" for l h l' h'
  proof -
    obtain l0 h0 where a: "(l0, h0) \<in> set a" "l0 \<le> l'" using minus_in[OF lh' ok(2) dr(1)] by blast
    have "h \<le> hi" using minus_one_in[OF lh dr(1,2)] by simp
    moreover have "hi < l0" using 2(2) a(1) by auto
    ultimately show ?thesis using a(2) by simp
  qed
  then have "\<forall>(l, h)\<in>set (minus_one lo hi ?b). \<forall>(l', h')\<in>set (dom_minus a ?b). h < l'" by blast
  then show ?case using minus_one_ok[OF dr(1,2)] ok(1) by (simp only: dom_minus.simps Let_def dom_ok_append simp_thms)
qed simp

lemma merge_has: "a \<le> b \<Longrightarrow> \<forall>(l, h)\<in>set v. a \<le> l \<and> l \<le> h \<Longrightarrow> sorted (map fst v) \<Longrightarrow>
    dom_has (merge_ivs (a, b) v) x \<longleftrightarrow> a \<le> x \<and> x \<le> b \<or> dom_has v x"
proof (induction "(a, b)" v arbitrary: a b rule: merge_ivs.induct)
  case (2 a b l h v)
  have s: "\<forall>(l', h')\<in>set v. l \<le> l'" "sorted (map fst v)" using 2(5) by auto
  show ?case
  proof (cases "l \<le> min (b + 1) i128_max")
    case True
    have "dom_has (merge_ivs (a, max b h) v) x \<longleftrightarrow> a \<le> x \<and> x \<le> max b h \<or> dom_has v x"
      using 2(1)[OF True] 2(3,4) s(2) by auto
    then show ?thesis using True 2(4) by auto
  next
    case False
    have "dom_has (merge_ivs (l, h) v) x \<longleftrightarrow> l \<le> x \<and> x \<le> h \<or> dom_has v x"
      using 2(2)[OF False] 2(4) s by auto
    then show ?thesis using False by auto
  qed
qed simp

lemma merge_ok: "a \<le> b \<Longrightarrow> \<forall>(l, h)\<in>set v. a \<le> l \<and> l \<le> h \<and> l \<le> i128_max \<Longrightarrow> sorted (map fst v) \<Longrightarrow>
    dom_ok (merge_ivs (a, b) v) \<and> (\<forall>(l, h)\<in>set (merge_ivs (a, b) v). a \<le> l)"
proof (induction "(a, b)" v arbitrary: a b rule: merge_ivs.induct)
  case (2 a b l h v)
  have s: "\<forall>(l', h')\<in>set v. l \<le> l' \<and> l' \<le> h' \<and> l' \<le> i128_max" "sorted (map fst v)" using 2(4,5) by auto
  show ?case
  proof (cases "l \<le> min (b + 1) i128_max")
    case True
    then show ?thesis using 2(1)[OF True] 2(3,4) s(2) by auto
  next
    case False
    then have "dom_ok (merge_ivs (l, h) v) \<and> (\<forall>(l', h')\<in>set (merge_ivs (l, h) v). l \<le> l')" "b < l" "a \<le> l"
      using 2(2)[OF False] 2(4) s by auto
    then show ?thesis using False 2(3) by fastforce
  qed
qed simp

lemma sorted_pairs: "sorted (v :: (int \<times> int) list) \<Longrightarrow> sorted (map fst v)"
  by (induction v) (auto simp: less_eq_prod_def)

lemma norm_has: "dom_has (dom_norm v) x \<longleftrightarrow> (\<exists>(l, h)\<in>set v. l \<le> x \<and> x \<le> h)"
proof -
  let ?s = "sort (filter (\<lambda>(l, h). l \<le> h) v)"
  have "dom_has (dom_norm v) x \<longleftrightarrow> dom_has ?s x"
  proof (cases ?s)
    case (Cons i s)
    obtain a b where i: "i = (a, b)" by force
    have "sorted (map fst (i # s))" using sorted_sort[of "filter (\<lambda>(l, h). l \<le> h) v"] sorted_pairs Cons by metis
    moreover have "set (i # s) = set (filter (\<lambda>(l, h). l \<le> h) v)" unfolding Cons[symmetric] by simp
    ultimately have "a \<le> b" "\<forall>(l, h)\<in>set s. a \<le> l \<and> l \<le> h" "sorted (map fst s)" by (fastforce simp: i)+
    then show ?thesis using merge_has[of a b s x] by (simp add: dom_norm_def Cons i)
  qed (simp add: dom_norm_def)
  also have "\<dots> \<longleftrightarrow> (\<exists>(l, h)\<in>set v. l \<le> x \<and> x \<le> h)" by (force simp: dom_has_set)
  finally show ?thesis .
qed

lemma norm_ok:
  assumes "\<forall>(l, h)\<in>set v. l \<le> i128_max"
  shows "dom_ok (dom_norm v)"
proof -
  let ?s = "sort (filter (\<lambda>(l, h). l \<le> h) v)"
  show ?thesis
  proof (cases ?s)
    case (Cons i s)
    obtain a b where i: "i = (a, b)" by force
    have "sorted (map fst (i # s))" using sorted_sort[of "filter (\<lambda>(l, h). l \<le> h) v"] sorted_pairs Cons by metis
    moreover have "set (i # s) = set (filter (\<lambda>(l, h). l \<le> h) v)" unfolding Cons[symmetric] by simp
    ultimately have "a \<le> b" "\<forall>(l, h)\<in>set s. a \<le> l \<and> l \<le> h \<and> l \<le> i128_max" "sorted (map fst s)"
      using assms by (fastforce simp: i)+
    then show ?thesis using merge_ok[of a b s] by (simp add: dom_norm_def Cons i)
  qed (simp add: dom_norm_def)
qed

section \<open>Bounds, sizes and elements\<close>

lemma dom_low: "dom_ok ((l, h) # d) \<Longrightarrow> dom_has ((l, h) # d) x \<Longrightarrow> l \<le> x"
  using dom_has_above[of d h x] by auto

lemma dom_high: "dom_ok d \<Longrightarrow> dom_has d x \<Longrightarrow> x \<le> snd (last d)"
proof (induction d rule: dom_ok.induct)
  case (2 l h d)
  have "h \<le> snd (last d)" if "d \<noteq> []"
  proof -
    have "last d \<in> set d" using that by simp
    moreover have "\<forall>(l', h')\<in>set d. h \<le> h'" using 2(2) by (induction d rule: dom_ok.induct) auto
    ultimately show ?thesis by (metis case_prod_conv prod.collapse)
  qed
  then show ?case using 2 by auto
qed simp

lemma dom_bounds:
  assumes "dom_ok d" and "dom_has d x"
  shows "fst (hd d) \<le> x" "x \<le> snd (last d)"
proof -
  obtain l h d' where d: "d = (l, h) # d'" using assms(2) by (cases d) auto
  show "fst (hd d) \<le> x" using dom_low[of l h d' x] assms by (simp add: d)
  show "x \<le> snd (last d)" by (rule dom_high[OF assms])
qed

lemma dom_fixed_has: "dom_fixed d = Some x \<Longrightarrow> dom_has d y \<longleftrightarrow> y = x"
  by (auto simp: dom_fixed_def split: list.splits prod.splits if_splits)

lemma smod_zero: "a smod b = 0 \<longleftrightarrow> b dvd a" for a b :: int
  by (cases "a = 0") (auto simp: signed_modulo_int_def sgn_0_0 dvd_eq_mod_eq_0[symmetric])

lemma floor_div_div: "b \<noteq> 0 \<Longrightarrow> floor_div a b = a div b"
  by (auto simp: floor_div_def Let_def divide_int_eq_signed_divide_int smod_zero sgn_if)

lemma ceil_div_div: "b \<noteq> 0 \<Longrightarrow> ceil_div a b = - (- a div b)"
  by (simp add: ceil_div_def floor_div_div)

lemma dom_within:
  assumes "dom_ok d"
  shows "(\<forall>(l, h)\<in>set d. lo \<le> l \<and> h \<le> hi) \<longleftrightarrow> (\<forall>x. dom_has d x \<longrightarrow> lo \<le> x \<and> x \<le> hi)"
proof
  show "\<forall>(l, h)\<in>set d. lo \<le> l \<and> h \<le> hi" if "\<forall>x. dom_has d x \<longrightarrow> lo \<le> x \<and> x \<le> hi"
  proof -
    have "l \<le> h" if "(l, h) \<in> set d" for l h using assms that by (induction d rule: dom_ok.induct) auto
    then have "dom_has d l" "dom_has d h" if "(l, h) \<in> set d" for l h using that by (force simp: dom_has_set)+
    then show ?thesis using that by blast
  qed
qed (force simp: dom_has_set)

lemma dom_empty: "dom_ok d \<Longrightarrow> (\<forall>x. \<not> dom_has d x) \<longleftrightarrow> d = []"
  by (cases d) auto

lemma point_ok [simp]: "dom_ok [(x, x)]" "dom_has [(x, x)] y \<longleftrightarrow> y = x"
  by auto

lemma dom_has_between:
  assumes "dom_ok d" and "dom_has d x" shows "d \<noteq> []" using assms by auto

end
