(* ===== verification/Csp_Lin.thy ===== *)
theory Csp_Lin
  imports Csp_Dom
begin

text \<open>
  Linear forms of the constraint solver (\<^verbatim>\<open>rand_csp.rs\<close>: \<^verbatim>\<open>Lin\<close>, \<^verbatim>\<open>Fit\<close>, \<^verbatim>\<open>LinCx\<close>) and its search
  state (\<^verbatim>\<open>St\<close>): domains with a trail, and the propagation of bounds.
\<close>

record lin =
  lin_t :: "(nat \<times> int) list"
  lin_k :: int

definition coef_max :: int where "coef_max = 2 ^ 40"
definition konst_max :: int where "konst_max = 2 ^ 100"

definition checked :: "int \<Rightarrow> int option" where
  "checked x = (if i128_min \<le> x \<and> x \<le> i128_max then Some x else None)"

definition lin_konst :: "int \<Rightarrow> lin" where
  "lin_konst k = \<lparr>lin_t = [], lin_k = k\<rparr>"

definition lin_var :: "nat \<Rightarrow> lin" where
  "lin_var v = \<lparr>lin_t = [(v, 1)], lin_k = 0\<rparr>"

fun merge_terms :: "nat \<times> int \<Rightarrow> (nat \<times> int) list \<Rightarrow> (nat \<times> int) list" where
  "merge_terms i [] = [i]"
| "merge_terms (v, c) ((v', c') # t) =
     (if v' = v then merge_terms (v, c + c') t else (v, c) # merge_terms (v', c') t)"

definition lin_norm :: "lin \<Rightarrow> lin option" where
  "lin_norm l =
     (let out = filter (\<lambda>(v, c). c \<noteq> 0) (case sort_key fst (lin_t l) of [] \<Rightarrow> [] | i # t \<Rightarrow> merge_terms i t)
      in if \<bar>lin_k l\<bar> > konst_max \<or> list_ex (\<lambda>(v, c). \<bar>c\<bar> > coef_max) out then None else Some (l\<lparr>lin_t := out\<rparr>))"

definition lin_plus :: "lin \<Rightarrow> lin \<Rightarrow> int \<Rightarrow> lin option" where
  "lin_plus l o' sg =
     Option.bind (checked (lin_k o' * sg)) (\<lambda>k. Option.bind (checked (lin_k l + k)) (\<lambda>k.
       lin_norm \<lparr>lin_t = lin_t l @ map (\<lambda>(v, c). (v, c * sg)) (lin_t o'), lin_k = k\<rparr>))"

definition lin_scale :: "lin \<Rightarrow> int \<Rightarrow> lin option" where
  "lin_scale l c =
     Option.bind (checked (lin_k l * c)) (\<lambda>k.
       if list_ex (\<lambda>(v, d). checked (d * c) = None) (lin_t l) then None
       else lin_norm \<lparr>lin_t = map (\<lambda>(v, d). (v, d * c)) (lin_t l), lin_k = k\<rparr>)"

definition lin_shift :: "lin \<Rightarrow> int \<Rightarrow> lin option" where
  "lin_shift l d =
     Option.bind (checked (lin_k l + d)) (\<lambda>k. if \<bar>k\<bar> \<le> konst_max then Some (l\<lparr>lin_k := k\<rparr>) else None)"

text \<open>The form must stay in \<open>[fit_lo, fit_hi]\<close>.\<close>

record fit =
  fit_lin :: lin
  fit_lo :: int
  fit_hi :: int
  fit_modw :: nat

section \<open>Carries\<close>

record carry =
  ca_acc :: lin
  ca_w :: nat
  ca_s :: bool
  ca_k :: "int \<times> int"

record lin_cx =
  cx_dom0 :: "dom list"
  cx_base :: nat
  cx_carries :: "carry list"
  cx_made :: "(nat \<times> nat \<times> nat list) list"
  cx_made_accs :: "(lin \<times> nat \<times> bool) list"

definition cx_bounds :: "lin_cx \<Rightarrow> nat \<Rightarrow> (int \<times> int) option" where
  "cx_bounds cx v =
     (if v < cx_base cx
      then (if v < length (cx_dom0 cx) \<and> cx_dom0 cx ! v \<noteq> [] then Some (fst (hd (cx_dom0 cx ! v)), snd (last (cx_dom0 cx ! v))) else None)
      else let i = (v - cx_base cx) div 2
           in if i < length (cx_carries cx)
              then (let c = cx_carries cx ! i in Some (if even (v - cx_base cx) then ws_range (ca_w c) (ca_s c) else ca_k c))
              else None)"

fun range_terms :: "lin_cx \<Rightarrow> (nat \<times> int) list \<Rightarrow> int \<times> int \<Rightarrow> (int \<times> int) option" where
  "range_terms cx [] r = Some r"
| "range_terms cx ((v, c) # t) (lo, hi) =
     Option.bind (cx_bounds cx v) (\<lambda>(a, b). Option.bind (checked (a * c)) (\<lambda>x. Option.bind (checked (b * c)) (\<lambda>y.
       Option.bind (checked (lo + min x y)) (\<lambda>lo. Option.bind (checked (hi + max x y)) (\<lambda>hi.
         range_terms cx t (lo, hi))))))"

definition cx_range :: "lin_cx \<Rightarrow> lin \<Rightarrow> (int \<times> int) option" where
  "cx_range cx l = range_terms cx (lin_t l) (lin_k l, lin_k l)"

text \<open>The variable of a sum that wraps, with the context in which it is numbered.\<close>

definition cx_carry :: "lin_cx \<Rightarrow> lin \<Rightarrow> nat \<Rightarrow> bool \<Rightarrow> nat option \<times> lin_cx" where
  "cx_carry cx acc w s =
     (case cx_range cx acc of
        None \<Rightarrow> (None, cx)
      | Some (lo, hi) \<Rightarrow>
          let (rlo, rhi) = ws_range w s; m = 2 ^ min w 64
          in if lo \<ge> rlo \<and> hi \<le> rhi then (None, cx)
             else if w > 64 \<or> m > coef_max then (None, cx)
             else case find (\<lambda>i. cx_made_accs cx ! i = (acc, w, s)) [0..<length (cx_made_accs cx)] of
                    Some i \<Rightarrow> (Some (fst (cx_made cx ! i)), cx)
                  | None \<Rightarrow>
                      (case find (\<lambda>i. let c = cx_carries cx ! i in ca_acc c = acc \<and> ca_w c = w \<and> ca_s c = s)
                              [0..<length (cx_carries cx)] of
                         Some i \<Rightarrow> (Some (cx_base cx + 2 * i), cx)
                       | None \<Rightarrow>
                           (Some (cx_base cx + 2 * length (cx_carries cx)),
                            cx\<lparr>cx_carries := cx_carries cx @
                                 [\<lparr>ca_acc = acc, ca_w = w, ca_s = s,
                                   ca_k = (floor_div (lo - rlo) m, floor_div (hi - rlo) m)\<rparr>]\<rparr>)))"

section \<open>The search state\<close>

text \<open>The trail is newest first.\<close>

record st =
  st_d :: "dom list"
  st_trail :: "(nat \<times> dom) list"
  st_dirty :: "nat list"
  st_work :: nat
  est_work :: nat
  st_cut :: bool
  level_tries :: nat
  level_cut :: bool

definition st_set :: "nat \<Rightarrow> dom \<Rightarrow> st \<Rightarrow> bool \<times> st" where
  "st_set v nd s =
     (if nd = st_d s ! v then (True, s)
      else (nd \<noteq> [], s\<lparr>st_d := (st_d s)[v := nd], st_trail := (v, st_d s ! v) # st_trail s, st_dirty := st_dirty s @ [v]\<rparr>))"

fun undo_trail :: "nat \<Rightarrow> dom list \<Rightarrow> (nat \<times> dom) list \<Rightarrow> dom list \<times> (nat \<times> dom) list" where
  "undo_trail mark d [] = (d, [])"
| "undo_trail mark d ((v, old) # t) =
     (if Suc (length t) > mark then undo_trail mark (d[v := old]) t else (d, (v, old) # t))"

definition st_undo :: "nat \<Rightarrow> st \<Rightarrow> st" where
  "st_undo mark s = (let (d, t) = undo_trail mark (st_d s) (st_trail s) in s\<lparr>st_d := d, st_trail := t\<rparr>)"

definition st_bounds :: "st \<Rightarrow> nat \<Rightarrow> int \<times> int" where
  "st_bounds s v = (let d = st_d s ! v in if d = [] then (0, - 1) else (fst (hd d), snd (last d)))"

definition st_fixed :: "st \<Rightarrow> nat \<Rightarrow> int option" where
  "st_fixed s v = dom_fixed (st_d s ! v)"

definition lin_bounds :: "st \<Rightarrow> lin \<Rightarrow> int \<times> int" where
  "lin_bounds s l =
     fold (\<lambda>(v, c) (lo, hi). let (a, b) = st_bounds s v
             in if c > 0 then (lo + c * a, hi + c * b) else (lo + c * b, hi + c * a))
       (lin_t l) (lin_k l, lin_k l)"

definition fit_holds :: "st \<Rightarrow> fit \<Rightarrow> bool" where
  "fit_holds s f = (let (lo, hi) = lin_bounds s (fit_lin f) in lo \<ge> fit_lo f \<and> hi \<le> fit_hi f)"

definition fits_hold :: "st \<Rightarrow> fit list \<Rightarrow> bool" where
  "fits_hold s fits = list_all (fit_holds s) fits"

definition fits_hold_mod :: "st \<Rightarrow> fit list \<Rightarrow> nat \<Rightarrow> bool" where
  "fits_hold_mod s fits w = list_all (\<lambda>f. fit_modw f \<ge> w \<or> fit_holds s f) fits"

definition all_fixed :: "st \<Rightarrow> nat list \<Rightarrow> bool" where
  "all_fixed s vs = list_all (\<lambda>v. st_fixed s v \<noteq> None) vs"

text \<open>One variable: \<open>lo\<close> and \<open>hi\<close> are the bounds of the form before the loop.\<close>

definition prop_term :: "bool \<Rightarrow> int \<Rightarrow> int \<Rightarrow> nat \<times> int \<Rightarrow> st \<Rightarrow> bool \<times> st" where
  "prop_term upper lo hi = (\<lambda>(v, c) s.
     let (a, b) = st_bounds s v; (tmin, tmax) = (if c > 0 then (c * a, c * b) else (c * b, c * a)); d = st_d s ! v
     in if upper
        then (let r = tmin - lo
              in if c > 0 then (let h = floor_div r c in if h \<ge> b then (True, s) else st_set v (dom_clip d i128_min h) s)
                 else (let l = ceil_div r c in if l \<le> a then (True, s) else st_set v (dom_clip d l i128_max) s))
        else (let r = tmax - hi
              in if c > 0 then (let l = ceil_div r c in if l \<le> a then (True, s) else st_set v (dom_clip d l i128_max) s)
                 else (let h = floor_div r c in if h \<ge> b then (True, s) else st_set v (dom_clip d i128_min h) s)))"

fun prop_terms :: "bool \<Rightarrow> int \<Rightarrow> int \<Rightarrow> (nat \<times> int) list \<Rightarrow> st \<Rightarrow> bool \<times> st" where
  "prop_terms upper lo hi [] s = (True, s)"
| "prop_terms upper lo hi (vc # t) s =
     (case prop_term upper lo hi vc s of (ok, s) \<Rightarrow> if ok then prop_terms upper lo hi t s else (False, s))"

definition prop_bound :: "lin \<Rightarrow> bool \<Rightarrow> st \<Rightarrow> bool \<times> st" where
  "prop_bound l upper s =
     (let (lo, hi) = lin_bounds s l
      in if upper \<and> lo > 0 \<or> \<not> upper \<and> hi < 0 then (False, s) else prop_terms upper lo hi (lin_t l) s)"

end
