(* ===== verification/Csp_Node.thy ===== *)
theory Csp_Node
  imports Csp_Lin "HOL-Library.Word"
begin

text \<open>
  The nodes of the constraint solver and what the code does with them (\<^verbatim>\<open>rand_csp.rs\<close>):
  \<^verbatim>\<open>csp_status\<close> judges a node under the current domains, \<^verbatim>\<open>csp_enforce\<close> narrows the domains by it.

  The evaluator of expressions is the AST interpreter: \<open>ev_holds\<close> and \<open>ev_value\<close> give, for a source
  constraint and an assignment of the variables it reads, whether it holds and its value.
\<close>

datatype rel = RelLe | RelEq | RelNe

datatype cmp_op = OpEq | OpCaseEq | OpNeq | OpCaseNeq | OpLt | OpLeq | OpGt | OpGeq

record wrap =
  wr_w :: nat
  wr_s :: bool
  wr_n :: nat
  wr_sg :: int

datatype csp_node =
    NTrue
  | NFalse
  | NLin lin rel "fit list" nat bool "wrap option"
  | NIn lin dom bool "fit list" nat "wrap option"
  | NAllDiff "nat list"
  | NPop nat nat nat
  | NEval nat bool
  | NFun nat cmp_op nat nat bool
  | NAnd "csp_node list"
  | NOr "csp_node list"
  | NIf csp_node csp_node csp_node csp_node

text \<open>What the solver asks of a value: \<^verbatim>\<open>has_unknown\<close>, \<^verbatim>\<open>is_signed\<close>, \<^verbatim>\<open>width\<close>, \<^verbatim>\<open>to_u64\<close>.\<close>

record cval =
  cv_unknown :: bool
  cv_signed :: bool
  cv_width :: nat
  cv_u64 :: "nat option"

record csp =
  cs_width :: "nat list"
  cs_signed :: "bool list"
  cs_deps :: "nat list list"
  cs_stale :: "bool list"
  cs_wide :: "nat \<Rightarrow> bool"
  cs_seg :: "nat \<Rightarrow> bool"
  cs_base :: "nat \<Rightarrow> nat option"
  cs_has_subs :: bool
  cs_nodes :: "csp_node list"
  cs_dom0 :: "dom list"
  ev_holds :: "nat \<Rightarrow> (nat \<Rightarrow> int) \<Rightarrow> bool"
  ev_value :: "nat \<Rightarrow> (nat \<Rightarrow> int) \<Rightarrow> cval"

definition src_fixed :: "csp \<Rightarrow> st \<Rightarrow> nat \<Rightarrow> bool" where
  "src_fixed P s src \<longleftrightarrow> \<not> cs_stale P ! src \<and> all_fixed s (cs_deps P ! src)"

text \<open>The fixed variables, as they are written before a source is evaluated.\<close>

definition written :: "st \<Rightarrow> nat \<Rightarrow> int" where
  "written s v = (case st_fixed s v of Some x \<Rightarrow> x | None \<Rightarrow> 0)"

definition eval_src :: "csp \<Rightarrow> st \<Rightarrow> nat \<Rightarrow> bool" where
  "eval_src P s src = ev_holds P src (written s)"

section \<open>Relations that wrap\<close>

text \<open>The only open variable, with the sum of the rest; \<open>None\<close> with two open variables.\<close>

fun one_free :: "st \<Rightarrow> (nat \<times> int) list \<Rightarrow> (nat \<times> int) option \<Rightarrow> int \<Rightarrow> ((nat \<times> int) option \<times> int) option" where
  "one_free s [] free rest = Some (free, rest)"
| "one_free s ((v, c) # t) free rest =
     (case st_fixed s v of
        Some x \<Rightarrow> one_free s t free (rest + c * x)
      | None \<Rightarrow> if free = None then one_free s t (Some (v, c)) rest else None)"

text \<open>The members of a residue class up to \<open>hi\<close>, if there are at most \<open>n\<close>.\<close>

fun residues :: "nat \<Rightarrow> int \<Rightarrow> int \<Rightarrow> int \<Rightarrow> int list option" where
  "residues 0 x m hi = (if x \<le> hi then None else Some [])"
| "residues (Suc n) x m hi = (if x \<le> hi then map_option ((#) x) (residues n (x + m) m hi) else Some [])"

definition points :: "int list \<Rightarrow> dom" where
  "points xs = map (\<lambda>x. (x, x)) xs"

definition wrap_eq :: "lin \<Rightarrow> nat \<Rightarrow> st \<Rightarrow> (bool \<times> st) option" where
  "wrap_eq l w s =
     (if w = 0 \<or> w > 64 then None
      else let m = 2 ^ w
           in case one_free s (lin_t l) None (lin_k l) of
                None \<Rightarrow> None
              | Some (None, rest) \<Rightarrow> Some (rest mod m = 0, s)
              | Some (Some (v, c), rest) \<Rightarrow>
                  if c \<noteq> 1 \<and> c \<noteq> - 1 then None
                  else let r = (- rest * c) mod m; (lo, hi) = st_bounds s v
                       in map_option (\<lambda>cands. st_set v (dom_meet (st_d s ! v) (points cands)) s)
                            (residues 8 (r + ceil_div (lo - r) m * m) m hi))"

fun trailing_zeros :: "nat \<Rightarrow> int \<Rightarrow> nat" where
  "trailing_zeros 0 c = 0"
| "trailing_zeros (Suc n) c = (if odd c then 0 else Suc (trailing_zeros n (c div 2)))"

text \<open>Newton's iteration for the inverse of an odd number modulo \<open>2 ^ 128\<close>.\<close>

definition newton_inv :: "128 word \<Rightarrow> 128 word" where
  "newton_inv a = ((\<lambda>iv. iv * (2 - a * iv)) ^^ 7) a"

text \<open>The values of \<open>x\<close> with \<open>c * x + rest\<close> congruent to a target, at most 64 in all.\<close>

fun even_cands :: "int \<Rightarrow> int \<Rightarrow> int \<Rightarrow> int \<Rightarrow> 128 word \<Rightarrow> int \<Rightarrow> int \<Rightarrow> int list \<Rightarrow> int list \<Rightarrow> int list option" where
  "even_cands rest m g mg iv lo hi [] allowed = Some allowed"
| "even_cands rest m g mg iv lo hi (t # ts) allowed =
     (let r = (t - rest) mod m
      in if r smod g \<noteq> 0 then even_cands rest m g mg iv lo hi ts allowed
         else let x0 = uint ((word_of_int (r sdiv g) * iv) AND word_of_int (mg - 1))
              in case residues (64 - length allowed) (x0 + ceil_div (lo - x0) mg * mg) mg hi of
                   None \<Rightarrow> None
                 | Some xs \<Rightarrow> even_cands rest m g mg iv lo hi ts (allowed @ xs))"

definition shifted_cands :: "int \<Rightarrow> int \<Rightarrow> int \<Rightarrow> int \<Rightarrow> int \<Rightarrow> int \<Rightarrow> dom \<Rightarrow> dom" where
  "shifted_cands c rest m ylo yhi j target =
     map (\<lambda>(a, b). if c = 1 then (a - rest, b - rest) else (rest - b, rest - a))
       (filter (\<lambda>(a, b). a \<le> b) (map (\<lambda>(a, b). (max (a + j * m) ylo, min (b + j * m) yhi)) target))"

definition wrap_set :: "lin \<Rightarrow> dom \<Rightarrow> bool \<Rightarrow> nat \<Rightarrow> bool \<Rightarrow> st \<Rightarrow> (bool \<times> st) option" where
  "wrap_set l tgt neg w sg s =
     (if w = 0 \<or> w > 64 then None
      else let m = 2 ^ w; (rlo, rhi) = ws_range w sg
           in case one_free s (lin_t l) None (lin_k l) of
                None \<Rightarrow> None
              | Some (free, rest) \<Rightarrow>
                  let target = (if neg then dom_minus [(rlo, rhi)] tgt else dom_clip tgt rlo rhi)
                  in case free of
                       None \<Rightarrow> Some (dom_has target (rlo + (rest - rlo) mod m), s)
                     | Some (v, c) \<Rightarrow>
                         let (lo, hi) = st_bounds s v
                         in if lo > hi then Some (False, s)
                            else if c = 1 \<or> c = - 1
                            then (let (ylo, yhi) = (if c = 1 then (lo + rest, hi + rest) else (rest - hi, rest - lo));
                                      j0 = floor_div (ylo - rlo) m; j1 = floor_div (yhi - rlo) m
                                  in if j1 - j0 > 8 then None
                                     else let allowed = concat (map (\<lambda>j. shifted_cands c rest m ylo yhi j target) [j0..j1])
                                          in Some (st_set v (dom_meet (st_d s ! v) (dom_norm allowed)) s))
                            else if dom_size target > 64 then None
                            else let tz = min (trailing_zeros 128 c) w
                                 in if tz = w then Some (dom_has target (rlo + (rest - rlo) mod m), s)
                                    else let g = 2 ^ tz; mg = m div 2 ^ tz; a = word_of_int ((c div 2 ^ tz) mod mg)
                                         in map_option (\<lambda>xs. st_set v (dom_meet (st_d s ! v) (dom_norm (points xs))) s)
                                              (even_cands rest m g mg (newton_inv a) lo hi
                                                 (concat (map (\<lambda>(a, b). [a..b]) target)) []))"

definition wrapv :: "nat \<Rightarrow> bool \<Rightarrow> int \<Rightarrow> int" where
  "wrapv w sg y = (let rlo = fst (ws_range w sg) in rlo + (y - rlo) mod 2 ^ w)"

text \<open>The value of a form whose variables are all fixed.\<close>

fun fixed_sum :: "st \<Rightarrow> (nat \<times> int) list \<Rightarrow> int \<Rightarrow> int option" where
  "fixed_sum s [] x = Some x"
| "fixed_sum s ((v, c) # t) x = (case st_fixed s v of None \<Rightarrow> None | Some y \<Rightarrow> fixed_sum s t (x + c * y))"

definition fixed_val :: "st \<Rightarrow> lin \<Rightarrow> int option" where
  "fixed_val s l = fixed_sum s (lin_t l) (lin_k l)"

definition rel_holds :: "rel \<Rightarrow> int \<Rightarrow> bool" where
  "rel_holds r d = (case r of RelLe \<Rightarrow> d \<le> 0 | RelEq \<Rightarrow> d = 0 | RelNe \<Rightarrow> d \<noteq> 0)"

definition wrap_rel :: "lin \<Rightarrow> rel \<Rightarrow> fit list \<Rightarrow> wrap \<Rightarrow> st \<Rightarrow> (bool \<times> st) option" where
  "wrap_rel l rl fits wr s =
     (if length fits \<le> wr_n wr + 1 then None
      else let la = fit_lin (fits ! wr_n wr); lb = fit_lin (fits ! (wr_n wr + 1)); w = wr_w wr; sg = wr_sg wr
           in if w = 0 \<or> w > 64 then None
              else let (rlo, rhi) = ws_range w (wr_s wr); delta = lin_k l - sg * (lin_k la - lin_k lb);
                       go = (\<lambda>x k left.
                         let (tgt, neg) =
                           (case rl of
                              RelLe \<Rightarrow>
                                let up = ((sg = 1) = left); (a, b) = (if up then (rlo, k - delta) else (k + delta, rhi))
                                in (if a \<le> b then [(a, b)] else [], False)
                            | _ \<Rightarrow>
                                let t = (if left then k - sg * delta else k + sg * delta) in ([(t, t)], rl = RelNe))
                         in wrap_set x tgt neg w (wr_s wr) s)
                   in case (fixed_val s la, fixed_val s lb) of
                        (Some a, Some b) \<Rightarrow>
                          Some (rel_holds rl (sg * (wrapv w (wr_s wr) a - wrapv w (wr_s wr) b) + delta), s)
                      | (None, Some b) \<Rightarrow> go la (wrapv w (wr_s wr) b) True
                      | (Some a, None) \<Rightarrow> go lb (wrapv w (wr_s wr) a) False
                      | (None, None) \<Rightarrow> None)"

section \<open>Judging a node\<close>

fun pop_cnt :: "nat \<Rightarrow> nat" where
  "pop_cnt n = (if n = 0 then 0 else n mod 2 + pop_cnt (n div 2))"

fun u128_len :: "nat \<Rightarrow> nat" where
  "u128_len n = (if n = 0 then 0 else Suc (u128_len (n div 2)))"

declare pop_cnt.simps [simp del] u128_len.simps [simp del]

definition bits_at :: "int \<Rightarrow> nat \<Rightarrow> nat" where
  "bits_at v w = nat (v mod 2 ^ min w 128)"

definition ones_at :: "int \<Rightarrow> nat \<Rightarrow> int" where
  "ones_at v w = int (pop_cnt (bits_at v w))"

definition status_lin :: "csp \<Rightarrow> st \<Rightarrow> lin \<Rightarrow> rel \<Rightarrow> fit list \<Rightarrow> nat \<Rightarrow> bool \<Rightarrow> bool option" where
  "status_lin P s l rl fits src sneg =
     (if \<not> fits_hold s fits then (if src_fixed P s src then Some (eval_src P s src \<noteq> sneg) else None)
      else let (lo, hi) = lin_bounds s l;
               eq = (if lo = 0 \<and> hi = 0 then Some True else if lo > 0 \<or> hi < 0 then Some False else None)
           in case rl of
                RelLe \<Rightarrow> if hi \<le> 0 then Some True else if lo > 0 then Some False else None
              | RelEq \<Rightarrow> eq
              | RelNe \<Rightarrow> map_option Not eq)"

definition status_in :: "csp \<Rightarrow> st \<Rightarrow> lin \<Rightarrow> dom \<Rightarrow> bool \<Rightarrow> fit list \<Rightarrow> nat \<Rightarrow> bool option" where
  "status_in P s l tgt neg fits src =
     (if \<not> fits_hold s fits then (if src_fixed P s src then Some (eval_src P s src \<noteq> neg) else None)
      else let (lo, hi) = lin_bounds s l
           in if lo = hi then Some (dom_has tgt lo \<noteq> neg)
              else if dom_clip tgt lo hi = [] then Some neg
              else if list_ex (\<lambda>(l, h). l \<le> lo \<and> hi \<le> h) tgt then Some (\<not> neg)
              else None)"

fun csp_status :: "csp \<Rightarrow> csp_node \<Rightarrow> st \<Rightarrow> bool option"
  and status_all :: "csp \<Rightarrow> csp_node list \<Rightarrow> bool \<Rightarrow> st \<Rightarrow> bool option"
  and status_any :: "csp \<Rightarrow> csp_node list \<Rightarrow> bool \<Rightarrow> st \<Rightarrow> bool option" where
  "csp_status P NTrue s = Some True"
| "csp_status P NFalse s = Some False"
| "csp_status P (NLin l rl fits src sneg wr) s = status_lin P s l rl fits src sneg"
| "csp_status P (NIn l tgt neg fits src wr) s = status_in P s l tgt neg fits src"
| "csp_status P (NPop x c w) s =
     (case st_fixed s x of
        None \<Rightarrow> None
      | Some v \<Rightarrow> if \<not> dom_has (st_d s ! c) (ones_at v w) then Some False else map_option (\<lambda>_. True) (st_fixed s c))"
| "csp_status P (NAllDiff vs) s =
     (if \<not> all_fixed s vs then None else Some (distinct (map (\<lambda>v. the (st_fixed s v)) vs)))"
| "csp_status P (NEval src neg) s = (if src_fixed P s src then Some (eval_src P s src \<noteq> neg) else None)"
| "csp_status P (NFun var op other whole neg) s = (if src_fixed P s whole then Some (eval_src P s whole \<noteq> neg) else None)"
| "csp_status P (NAnd ns) s = status_all P ns True s"
| "csp_status P (NOr ns) s = status_any P ns True s"
| "csp_status P (NIf cond ncond thn els) s =
     (case csp_status P cond s of
        Some True \<Rightarrow> csp_status P thn s
      | Some False \<Rightarrow> csp_status P els s
      | None \<Rightarrow> let t = csp_status P thn s; e = csp_status P els s in if t \<noteq> None \<and> t = e then t else None)"
| "status_all P [] all s = (if all then Some True else None)"
| "status_all P (m # ms) all s =
     (case csp_status P m s of
        Some False \<Rightarrow> Some False
      | Some True \<Rightarrow> status_all P ms all s
      | None \<Rightarrow> status_all P ms False s)"
| "status_any P [] none s = (if none then Some False else None)"
| "status_any P (m # ms) none s =
     (case csp_status P m s of
        Some True \<Rightarrow> Some True
      | Some False \<Rightarrow> status_any P ms none s
      | None \<Rightarrow> status_any P ms False s)"

end
