(* ===== verification/Csp_Enforce.thy ===== *)
theory Csp_Enforce
  imports Csp_Node
begin

text \<open>
  Narrowing the domains by a node (\<^verbatim>\<open>rand_csp.rs\<close>: \<^verbatim>\<open>csp_enforce\<close> and its helpers).  The result is
  false on a conflict.
\<close>

definition big :: int where
  "big = i128_max div 4"

text \<open>A comparison with a value, as it narrows the variable on its left.\<close>

definition cmp_narrow :: "cmp_op \<Rightarrow> int \<Rightarrow> dom \<Rightarrow> dom" where
  "cmp_narrow cop k d =
     (case cop of
        OpEq \<Rightarrow> dom_meet d [(k, k)] | OpCaseEq \<Rightarrow> dom_meet d [(k, k)]
      | OpNeq \<Rightarrow> dom_minus d [(k, k)] | OpCaseNeq \<Rightarrow> dom_minus d [(k, k)]
      | OpLt \<Rightarrow> dom_clip d (- big) (k - 1) | OpLeq \<Rightarrow> dom_clip d (- big) k
      | OpGt \<Rightarrow> dom_clip d (k + 1) big | OpGeq \<Rightarrow> dom_clip d k big)"

text \<open>The signed reading of the low \<open>w\<close> bits.\<close>

definition sext64 :: "nat \<Rightarrow> nat \<Rightarrow> int" where
  "sext64 x w = (let sh = 64 - max 1 w in sint (signed_drop_bit sh (push_bit sh (word_of_nat x :: 64 word))))"

text \<open>The value of the other side, as a variable of width \<open>vw\<close> and signedness \<open>vs\<close> compares with it;
  \<open>lo\<close> is the least value the variable has.\<close>

definition fun_value :: "nat \<Rightarrow> bool \<Rightarrow> int \<Rightarrow> cval \<Rightarrow> int option" where
  "fun_value vw vs lo c =
     (case (vs, cv_signed c) of
        (False, False) \<Rightarrow> map_option int (cv_u64 c)
      | (True, True) \<Rightarrow> if cv_width c \<le> 64 then Some (sext64 (case cv_u64 c of Some x \<Rightarrow> x | None \<Rightarrow> 0) (cv_width c)) else None
      | (True, False) \<Rightarrow> if lo \<ge> 0 \<and> cv_width c \<ge> vw then map_option int (cv_u64 c) else None
      | (False, True) \<Rightarrow> if cv_width c \<le> vw then map_option int (cv_u64 c) else None)"

section \<open>Enumerations\<close>

definition dom_values :: "dom \<Rightarrow> int list" where
  "dom_values d = concat (map (\<lambda>(l, h). [l..h]) d)"

text \<open>The assignments of the inputs, the first input fastest.\<close>

fun combos :: "int list list \<Rightarrow> int list list" where
  "combos [] = [[]]"
| "combos (xs # rest) = concat (map (\<lambda>r. map (\<lambda>x. x # r) xs) (combos rest))"

text \<open>The value of \<open>other\<close> for one combination, or \<open>None\<close> where the code gives up.\<close>

definition combo_value :: "csp \<Rightarrow> st \<Rightarrow> nat \<Rightarrow> nat \<Rightarrow> int list \<Rightarrow> int option" where
  "combo_value P s var other xs =
     (let \<sigma> = fold (\<lambda>(d, x) f. f(d := x)) (zip (cs_deps P ! other) xs) (written s); c = ev_value P other \<sigma>;
          vw = cs_width P ! var; vs = cs_signed P ! var
      in if cv_unknown c \<or> cv_width c > 64 \<or> vs \<noteq> cv_signed c \<and> \<not> (\<not> vs \<and> cv_width c \<le> vw) then None
         else let x = (case cv_u64 c of Some x \<Rightarrow> x | None \<Rightarrow> 0)
              in Some (if cv_signed c then sext64 x (cv_width c) else int x))"

definition max_combos :: nat where "max_combos = 256"
definition est_max_dom :: nat where "est_max_dom = 64"

definition fun_range :: "csp \<Rightarrow> nat \<Rightarrow> cmp_op \<Rightarrow> nat \<Rightarrow> st \<Rightarrow> bool \<times> st" where
  "fun_range P var cop other s =
     (let deps = cs_deps P ! other; n = fold (\<lambda>d n. min (n * dom_size (st_d s ! d)) u128_max) deps 1
      in if deps = [] \<or> length deps > 4 \<or> var \<in> set deps \<or> n > max_combos then (True, s)
         else let s = s\<lparr>st_work := st_work s + n\<rparr>;
                  ks = map (combo_value P s var other) (combos (map (\<lambda>d. dom_values (st_d s ! d)) deps))
              in if None \<in> set ks then (True, s)
                 else let vals = dom_norm (points (map the ks)); lo = fst (hd vals); hi = snd (last vals); d = st_d s ! var
                      in case cop of
                           OpEq \<Rightarrow> st_set var (dom_meet d vals) s | OpCaseEq \<Rightarrow> st_set var (dom_meet d vals) s
                         | OpLt \<Rightarrow> st_set var (dom_clip d (- big) (hi - 1)) s | OpLeq \<Rightarrow> st_set var (dom_clip d (- big) hi) s
                         | OpGt \<Rightarrow> st_set var (dom_clip d (lo + 1) big) s | OpGeq \<Rightarrow> st_set var (dom_clip d lo big) s
                         | _ \<Rightarrow> (True, s))"

text \<open>A source with one variable open, of a few values: keep those for which it holds.\<close>

definition eval_forward :: "csp \<Rightarrow> nat \<Rightarrow> bool \<Rightarrow> st \<Rightarrow> bool \<times> st" where
  "eval_forward P src neg s =
     (if cs_stale P ! src then (True, s)
      else case filter (\<lambda>v. st_fixed s v = None) (cs_deps P ! src) of
             [v] \<Rightarrow>
               let n = dom_size (st_d s ! v)
               in if n > est_max_dom \<or> cs_wide P v \<or> cs_seg P v then (True, s)
                  else if (case cs_base P v of Some b \<Rightarrow> b \<in> set (cs_deps P ! src) | None \<Rightarrow> False) then (True, s)
                  else let s = s\<lparr>st_work := st_work s + n\<rparr>; vals = map (dom_nth (st_d s ! v)) [0..<n]
                       in st_set v (dom_norm (points (filter (\<lambda>x. ev_holds P src ((written s)(v := x)) \<noteq> neg) vals))) s
           | _ \<Rightarrow> (True, s))"

section \<open>The kinds of nodes\<close>

definition enforce_ne :: "lin \<Rightarrow> st \<Rightarrow> bool \<times> st" where
  "enforce_ne l s =
     (case one_free s (lin_t l) None (lin_k l) of
        None \<Rightarrow> (True, s)
      | Some (None, rest) \<Rightarrow> (rest \<noteq> 0, s)
      | Some (Some (v, c), rest) \<Rightarrow>
          if (- rest) smod c \<noteq> 0 then (True, s)
          else let x = (- rest) sdiv c in st_set v (dom_minus (st_d s ! v) [(x, x)]) s)"

text \<open>A node judged by the evaluator.\<close>

definition judge :: "csp \<Rightarrow> nat \<Rightarrow> bool \<Rightarrow> st \<Rightarrow> bool \<times> st" where
  "judge P src neg s = (\<not> src_fixed P s src \<or> eval_src P s src \<noteq> neg, s)"

definition enforce_lin :: "csp \<Rightarrow> lin \<Rightarrow> rel \<Rightarrow> fit list \<Rightarrow> nat \<Rightarrow> bool \<Rightarrow> wrap option \<Rightarrow> st \<Rightarrow> bool \<times> st" where
  "enforce_lin P l rl fits src sneg wr s =
     (if \<not> fits_hold s fits
      then (case wr of
              None \<Rightarrow> judge P src sneg s
            | Some wr \<Rightarrow>
                if fits_hold_mod s (take (wr_n wr) fits) (wr_w wr)
                then (case (case rl of RelEq \<Rightarrow> wrap_eq l (wr_w wr) s | _ \<Rightarrow> wrap_rel l rl fits wr s) of
                        Some r \<Rightarrow> r | None \<Rightarrow> judge P src sneg s)
                else judge P src sneg s)
      else case rl of
             RelLe \<Rightarrow> prop_bound l True s
           | RelEq \<Rightarrow> (case prop_bound l True s of (ok, s) \<Rightarrow> if ok then prop_bound l False s else (False, s))
           | RelNe \<Rightarrow> enforce_ne l s)"

text \<open>A set between its least and its greatest member.\<close>

definition in_bounded :: "lin \<Rightarrow> dom \<Rightarrow> bool \<Rightarrow> st \<Rightarrow> bool \<times> st" where
  "in_bounded l tgt neg s =
     (let (lo, hi) = lin_bounds s l
      in if lo = hi then (dom_has tgt lo \<noteq> neg, s)
         else if neg \<or> tgt = [] then (tgt \<noteq> [] \<or> neg, s)
         else case (lin_shift l (- snd (last tgt)), lin_shift l (- fst (hd tgt))) of
                (Some up, Some dn) \<Rightarrow> (case prop_bound up True s of (ok, s) \<Rightarrow> if ok then prop_bound dn False s else (False, s))
              | _ \<Rightarrow> (True, s))"

definition enforce_in :: "csp \<Rightarrow> lin \<Rightarrow> dom \<Rightarrow> bool \<Rightarrow> fit list \<Rightarrow> nat \<Rightarrow> wrap option \<Rightarrow> st \<Rightarrow> bool \<times> st" where
  "enforce_in P l tgt neg fits src wr s =
     (if \<not> fits_hold s fits
      then (case wr of
                 None \<Rightarrow> judge P src neg s
               | Some wr \<Rightarrow>
                   if fits_hold_mod s (take (wr_n wr) fits) (wr_w wr)
                   then (case wrap_set l tgt neg (wr_w wr) (wr_s wr) s of Some r \<Rightarrow> r | None \<Rightarrow> judge P src neg s)
                   else judge P src neg s)
      else case lin_t l of
                [(v, c)] \<Rightarrow>
                  if c = 1 \<or> c = - 1
                  then let allowed = (if c = 1 then map (\<lambda>(a, b). (a - lin_k l, b - lin_k l)) tgt
                                      else dom_norm (map (\<lambda>(a, b). (lin_k l - b, lin_k l - a)) tgt))
                       in st_set v (if neg then dom_minus (st_d s ! v) allowed else dom_meet (st_d s ! v) allowed) s
                  else in_bounded l tgt neg s
              | _ \<Rightarrow> in_bounded l tgt neg s)"

fun alldiff_loop :: "dom \<Rightarrow> nat list \<Rightarrow> nat \<Rightarrow> dom \<Rightarrow> st \<Rightarrow> bool \<times> st" where
  "alldiff_loop taken [] free pool s = (free = 0 \<or> dom_size (dom_norm pool) \<ge> free, s)"
| "alldiff_loop taken (v # vs) free pool s =
     (if st_fixed s v \<noteq> None then alldiff_loop taken vs free pool s
      else case st_set v (dom_minus (st_d s ! v) taken) s of
             (ok, s) \<Rightarrow> if ok then alldiff_loop taken vs (free + 1) (pool @ st_d s ! v) s else (False, s))"

definition enforce_alldiff :: "nat list \<Rightarrow> st \<Rightarrow> bool \<times> st" where
  "enforce_alldiff vs s =
     (let taken = points (List.map_filter (st_fixed s) vs); known = length taken; taken = dom_norm taken
      in if dom_size taken < known then (False, s) else alldiff_loop taken vs 0 [] s)"

definition enforce_pop :: "nat \<Rightarrow> nat \<Rightarrow> nat \<Rightarrow> st \<Rightarrow> bool \<times> st" where
  "enforce_pop x c w s =
     (case st_fixed s x of
        Some v \<Rightarrow> st_set c (dom_meet (st_d s ! c) [(ones_at v w, ones_at v w)]) s
      | None \<Rightarrow>
          if dom_size (st_d s ! x) \<le> 64
          then (let xs = filter (\<lambda>v. dom_has (st_d s ! c) (ones_at v w)) (dom_values (st_d s ! x));
                    ns = map (\<lambda>v. ones_at v w) xs
                in case st_set x (dom_norm (points xs)) s of
                     (ok, s) \<Rightarrow> if ok then st_set c (dom_norm (points ns)) s else (False, s))
          else let (lo, hi) = st_bounds s x
               in if lo \<ge> 0
                  then let h = nat hi; cmax = int (max (pop_cnt h) (u128_len h - 1))
                       in st_set c (dom_clip (st_d s ! c) (if lo > 0 then 1 else 0) cmax) s
                  else (True, s))"

definition enforce_fun :: "csp \<Rightarrow> nat \<Rightarrow> cmp_op \<Rightarrow> nat \<Rightarrow> nat \<Rightarrow> bool \<Rightarrow> st \<Rightarrow> bool \<times> st" where
  "enforce_fun P var cop other whole neg s =
     (if \<not> src_fixed P s other
      then (if cs_stale P ! other \<or> \<not> cs_has_subs P then (True, s) else fun_range P var cop other s)
      else if src_fixed P s whole then (eval_src P s whole \<noteq> neg, s)
      else let c = ev_value P other (written s)
           in if cv_unknown c then (False, s)
              else case fun_value (cs_width P ! var) (cs_signed P ! var) (fst (st_bounds s var)) c of
                     None \<Rightarrow> (True, s)
                   | Some k \<Rightarrow> st_set var (cmp_narrow cop k (st_d s ! var)) s)"

text \<open>The members of a disjunction that are open; \<open>None\<close> if one holds.\<close>

fun or_open :: "csp \<Rightarrow> csp_node list \<Rightarrow> st \<Rightarrow> csp_node list option" where
  "or_open P [] s = Some []"
| "or_open P (m # ms) s =
     (case csp_status P m s of
        Some True \<Rightarrow> None
      | Some False \<Rightarrow> or_open P ms s
      | None \<Rightarrow> map_option ((#) m) (or_open P ms s))"

lemma or_open_in: "or_open P ms s = Some os \<Longrightarrow> m \<in> set os \<Longrightarrow> m \<in> set ms"
  by (induction ms arbitrary: os) (auto split: option.splits bool.splits)

function (sequential) csp_enforce :: "csp \<Rightarrow> csp_node \<Rightarrow> st \<Rightarrow> bool \<times> st"
  and enforce_all :: "csp \<Rightarrow> csp_node list \<Rightarrow> st \<Rightarrow> bool \<times> st" where
  "csp_enforce P NTrue s = (True, s)"
| "csp_enforce P NFalse s = (False, s)"
| "csp_enforce P (NLin l rl fits src sneg wr) s = enforce_lin P l rl fits src sneg wr s"
| "csp_enforce P (NIn l tgt neg fits src wr) s = enforce_in P l tgt neg fits src wr s"
| "csp_enforce P (NAllDiff vs) s = enforce_alldiff vs s"
| "csp_enforce P (NPop x c w) s = enforce_pop x c w s"
| "csp_enforce P (NEval src neg) s =
     (if src_fixed P s src then (eval_src P s src \<noteq> neg, s) else eval_forward P src neg s)"
| "csp_enforce P (NFun var cop other whole neg) s = enforce_fun P var cop other whole neg s"
| "csp_enforce P (NAnd ns) s = enforce_all P ns s"
| "csp_enforce P (NOr ns) s =
     (case or_open P ns s of
        None \<Rightarrow> (True, s)
      | Some os \<Rightarrow> (case os of [] \<Rightarrow> (False, s) | [m] \<Rightarrow> csp_enforce P m s | _ \<Rightarrow> (True, s)))"
| "csp_enforce P (NIf cond ncond thn els) s =
     (case csp_status P cond s of
        Some True \<Rightarrow> csp_enforce P thn s
      | Some False \<Rightarrow> csp_enforce P els s
      | None \<Rightarrow>
          if csp_status P thn s = Some False then csp_enforce P ncond s
          else if csp_status P els s = Some False then csp_enforce P cond s
          else (True, s))"
| "enforce_all P [] s = (True, s)"
| "enforce_all P (m # ms) s =
     (case csp_enforce P m s of (ok, s) \<Rightarrow> if ok then enforce_all P ms s else (False, s))"
  by pat_completeness auto
termination
  by (relation "measure (\<lambda>x. case x of Inl (P, n, s) \<Rightarrow> size n | Inr (P, ns, s) \<Rightarrow> size_list size ns)")
    (auto simp: less_Suc_eq_le dest!: or_open_in[of _ _ _ "[_]"] intro: size_list_estimation' le_SucI)

end
