(* ===== verification/Csp_Grows.thy ===== *)
theory Csp_Grows
  imports Csp_Enforce
begin

text \<open>
  How the solver changes its state: by setting domains and counting work.  What was there can be
  undone back to, and the counters and marks never go back.
\<close>

inductive grows :: "st \<Rightarrow> st \<Rightarrow> bool" where
  grows_refl: "grows s s"
| grows_set: "grows s t \<Longrightarrow> grows s (snd (st_set v d t))"
| grows_work: "grows s t \<Longrightarrow> grows s (t\<lparr>st_work := st_work t + n\<rparr>)"
| grows_dirty: "grows s t \<Longrightarrow> grows s (t\<lparr>st_dirty := vs\<rparr>)"
| grows_cut: "grows s t \<Longrightarrow> grows s (t\<lparr>st_cut := True\<rparr>)"

lemma grows_trans: "grows t u \<Longrightarrow> grows s t \<Longrightarrow> grows s u"
  by (induction rule: grows.induct) (auto intro: grows.intros)

lemma grows_counts:
  assumes "grows s t"
  shows "st_work s \<le> st_work t" "st_cut s \<Longrightarrow> st_cut t" "level_tries t = level_tries s" "level_cut t = level_cut s"
    "est_work t = est_work s" "length (st_d t) = length (st_d s)"
  using assms by (induction rule: grows.induct) (auto simp: st_set_def)

lemma undo_set: "mark \<le> length (st_trail s) \<Longrightarrow>
    undo_trail mark (st_d (snd (st_set v d s))) (st_trail (snd (st_set v d s))) = undo_trail mark (st_d s) (st_trail s)"
  by (simp add: st_set_def list_update_overwrite)

lemma undo_trail_id [simp]: "undo_trail (length t) d t = (d, t)"
  by (cases t) auto

text \<open>Undoing to a mark forgets everything after it.\<close>

lemma grows_undo:
  assumes "grows s t" and "mark \<le> length (st_trail s)"
  shows "length (st_trail s) \<le> length (st_trail t) \<and>
    undo_trail mark (st_d t) (st_trail t) = undo_trail mark (st_d s) (st_trail s)"
  using assms
proof (induction rule: grows.induct)
  case (grows_set s t v d)
  then show ?case using undo_set[of mark t v d] by (auto simp: st_set_def)
qed auto

section \<open>Enforcing a node\<close>

named_theorems grows_intros

declare grows_refl [grows_intros]

lemma grows_set1 [grows_intros]: "grows s (snd (st_set v d s))"
  by (intro grows_set grows_refl)

lemma grows_work_set [grows_intros]: "grows s (snd (st_set v d (s\<lparr>st_work := st_work s + n\<rparr>)))"
  by (intro grows_set grows_work grows_refl)

lemma grows_work1 [grows_intros]: "grows s (s\<lparr>st_work := st_work s + n\<rparr>)"
  by (intro grows_work grows_refl)

lemma grows_case:
  assumes "grows s (snd r)" and "\<And>t. grows t (snd (f t))"
  shows "grows s (snd (case r of (ok, t) \<Rightarrow> if ok then f t else (False, t)))"
  using assms grows_trans[OF assms(2)] by (cases r) auto

lemma prop_term_grows: "grows s (snd (prop_term upper lo hi vc s))"
  by (cases vc) (auto simp: prop_term_def Let_def split: prod.splits intro: grows_intros)

lemma prop_terms_grows: "grows s (snd (prop_terms upper lo hi t s))"
  by (induction t arbitrary: s) (auto intro!: grows_case prop_term_grows grows_intros simp del: split_paired_All)

lemma prop_bound_grows [grows_intros]: "grows s (snd (prop_bound l upper s))"
  by (auto simp: prop_bound_def split: prod.splits intro: prop_terms_grows grows_intros)

lemma wrap_eq_grows: "wrap_eq l w s = Some r \<Longrightarrow> grows s (snd r)"
  by (auto simp: wrap_eq_def Let_def split: if_splits option.splits prod.splits intro: grows_intros)

lemma wrap_set_grows: "wrap_set l tgt neg w sg s = Some r \<Longrightarrow> grows s (snd r)"
  by (auto simp: wrap_set_def Let_def split: if_splits option.splits prod.splits intro: grows_intros)

lemma wrap_rel_grows: "wrap_rel l rl fits wr s = Some r \<Longrightarrow> grows s (snd r)"
  by (auto simp: wrap_rel_def Let_def split: if_splits option.splits prod.splits intro: grows_intros wrap_set_grows)

lemma judge_grows [grows_intros]: "grows s (snd (judge P src neg s))"
  by (simp add: judge_def grows_intros)

lemma enforce_ne_grows [grows_intros]: "grows s (snd (enforce_ne l s))"
  by (auto simp: enforce_ne_def Let_def split: option.splits prod.splits intro: grows_intros)

lemma enforce_lin_grows: "grows s (snd (enforce_lin P l rl fits src sneg wr s))"
  by (auto simp: enforce_lin_def split: option.splits rel.splits intro: grows_intros grows_case dest: wrap_eq_grows wrap_rel_grows)

lemma in_bounded_grows [grows_intros]: "grows s (snd (in_bounded l tgt neg s))"
  by (cases "lin_bounds s l") (auto simp: in_bounded_def split: option.splits intro!: grows_intros grows_case)

lemma enforce_in_grows: "grows s (snd (enforce_in P l tgt neg fits src wr s))"
  by (auto simp: enforce_in_def Let_def split: option.splits list.splits intro: grows_intros dest: wrap_set_grows)

lemma alldiff_loop_grows: "grows s (snd (alldiff_loop taken vs free pool s))"
proof (induction vs arbitrary: free pool s)
  case (Cons v vs)
  then show ?case by (auto simp: grows_refl intro!: grows_case[OF grows_set1])
qed (simp add: grows_refl)

lemma enforce_alldiff_grows: "grows s (snd (enforce_alldiff vs s))"
  by (auto simp: enforce_alldiff_def Let_def intro: grows_intros alldiff_loop_grows)

lemma enforce_pop_grows: "grows s (snd (enforce_pop x c w s))"
  by (cases "st_bounds s x") (auto simp: enforce_pop_def Let_def split: option.splits intro!: grows_intros grows_case)

lemma fun_range_grows [grows_intros]: "grows s (snd (fun_range P var cop other s))"
  unfolding fun_range_def Let_def by (cases cop) (auto intro: grows_intros)

lemma eval_forward_grows [grows_intros]: "grows s (snd (eval_forward P src neg s))"
  by (auto simp: eval_forward_def Let_def split: list.splits intro: grows_intros)

lemma enforce_fun_grows: "grows s (snd (enforce_fun P var cop other whole neg s))"
  by (auto simp: enforce_fun_def Let_def split: option.splits intro: grows_intros)

lemma enforce_grows:
  shows "grows s (snd (csp_enforce P n s))" and "grows s (snd (enforce_all P ns s))"
proof (induction P n s and P ns s rule: csp_enforce_enforce_all.induct)
  case (13 P m ms s)
  then show ?case using grows_trans by (cases "csp_enforce P m s") auto
qed (auto intro: grows_intros enforce_lin_grows enforce_in_grows enforce_alldiff_grows enforce_pop_grows enforce_fun_grows
    split: option.splits bool.splits list.splits)

end
