(* ===== verification/Csp_Search.thy ===== *)
theory Csp_Search
  imports Csp_Grows
begin

text \<open>
  The search of the constraint solver (\<^verbatim>\<open>rand_csp.rs\<close>: \<^verbatim>\<open>csp_propagate\<close>, \<^verbatim>\<open>csp_pick_var\<close>,
  \<^verbatim>\<open>csp_pick_val\<close>, \<^verbatim>\<open>csp_weigh\<close>, \<^verbatim>\<open>csp_search\<close>, \<^verbatim>\<open>csp_find\<close>).

  Random numbers come from a generator of type \<open>'r\<close>.  The draws by weight compute with floating point
  numbers; they are the fields of \<open>draws\<close>, and what is proved holds for every choice they make.
\<close>

definition node_budget :: nat where "node_budget = 40000"
definition work_budget :: nat where "work_budget = 1000000"
definition est_budget :: nat where "est_budget = 200000"

section \<open>Propagation\<close>

fun node_vars :: "csp \<Rightarrow> csp_node \<Rightarrow> nat list" where
  "node_vars P NTrue = []"
| "node_vars P NFalse = []"
| "node_vars P (NLin l rl fits src sneg wr) =
     map fst (lin_t l) @ concat (map (\<lambda>f. map fst (lin_t (fit_lin f))) fits) @ cs_deps P ! src"
| "node_vars P (NIn l tgt neg fits src wr) =
     map fst (lin_t l) @ concat (map (\<lambda>f. map fst (lin_t (fit_lin f))) fits) @ cs_deps P ! src"
| "node_vars P (NAllDiff vs) = vs"
| "node_vars P (NPop x c w) = [x, c]"
| "node_vars P (NEval src neg) = cs_deps P ! src"
| "node_vars P (NFun var cop other whole neg) = var # cs_deps P ! other @ cs_deps P ! whole"
| "node_vars P (NAnd ns) = concat (map (node_vars P) ns)"
| "node_vars P (NOr ns) = concat (map (node_vars P) ns)"
| "node_vars P (NIf cond ncond thn els) = node_vars P cond @ node_vars P thn @ node_vars P els"

text \<open>The nodes that read each variable.\<close>

definition csp_watch :: "csp \<Rightarrow> nat list list" where
  "csp_watch P = map (\<lambda>v. filter (\<lambda>i. v \<in> set (node_vars P (cs_nodes P ! i))) [0..<length (cs_nodes P)])
     [0..<length (cs_dom0 P)]"

definition csp_watchers :: "nat list list \<Rightarrow> nat list \<Rightarrow> nat list" where
  "csp_watchers watch vs = remdups_adj (sort (concat (map ((!) watch) vs)))"

fun enqueue :: "nat list \<Rightarrow> nat list \<Rightarrow> bool list \<Rightarrow> nat list \<times> bool list" where
  "enqueue [] q queued = (q, queued)"
| "enqueue (j # js) q queued = (if queued ! j then enqueue js q queued else enqueue js (q @ [j]) (queued[j := True]))"

lemma enforce_work: "csp_enforce P n s = (ok, t) \<Longrightarrow> st_work s \<le> st_work t"
  using grows_counts(1)[OF enforce_grows(1), of s P n] by simp

function propagate_loop :: "csp \<Rightarrow> nat list list \<Rightarrow> nat \<Rightarrow> nat list \<Rightarrow> bool list \<Rightarrow> nat list \<Rightarrow> st \<Rightarrow> bool option \<times> st" where
  "propagate_loop P watch stall [] queued runs s = (Some True, s)"
| "propagate_loop P watch stall (i # q) queued runs s =
     (let queued = queued[i := False]; runs = runs[i := runs ! i + 1]
      in if runs ! i > stall then (Some False, s\<lparr>st_cut := True\<rparr>)
         else let s = s\<lparr>st_work := st_work s + 1\<rparr>
              in if st_work s \<ge> work_budget then (None, s)
                 else case csp_enforce P (cs_nodes P ! i) (s\<lparr>st_dirty := []\<rparr>) of (ok, s) \<Rightarrow>
                   if \<not> ok then (Some False, s)
                   else case enqueue (concat (map ((!) watch) (st_dirty s))) q queued of (q, queued) \<Rightarrow>
                     propagate_loop P watch stall q queued runs (s\<lparr>st_dirty := []\<rparr>))"
  by pat_completeness auto
termination
  by (relation "measure (\<lambda>(P, watch, stall, q, queued, runs, s). work_budget - st_work s)")
    (auto dest!: enforce_work[OF sym])

definition csp_propagate :: "csp \<Rightarrow> nat list list \<Rightarrow> nat list \<Rightarrow> st \<Rightarrow> bool option \<times> st" where
  "csp_propagate P watch start s =
     (let n = length (cs_nodes P); (q, queued) = enqueue start [] (replicate n False)
      in propagate_loop P watch (1000 + 2 * length (cs_dom0 P)) q queued (replicate n 0) s)"

text \<open>Set a domain, then run the nodes that read what changed (\<open>dirty\<close> is taken).\<close>

definition set_and_run :: "csp \<Rightarrow> nat list list \<Rightarrow> nat \<Rightarrow> dom \<Rightarrow> st \<Rightarrow> bool option \<times> st" where
  "set_and_run P watch v d s =
     (let s = snd (st_set v d (s\<lparr>st_dirty := []\<rparr>))
      in csp_propagate P watch (csp_watchers watch (st_dirty s)) (s\<lparr>st_dirty := []\<rparr>))"

section \<open>The variable to decide\<close>

text \<open>The guards of each dist, and the tables of \<^verbatim>\<open>csp_aux\<close> that the choices read.\<close>

record aux =
  ax_guards :: "csp_node list list"
  ax_dists :: "nat list list"
  ax_preds :: "nat list list"
  ax_seg_hi :: "nat list list"
  ax_composite :: "bool list"
  ax_guard_var :: "bool list"

fun guard_state :: "csp \<Rightarrow> st \<Rightarrow> csp_node list \<Rightarrow> bool \<Rightarrow> bool \<Rightarrow> bool \<times> bool" where
  "guard_state P s [] all opn = (all, opn)"
| "guard_state P s (g # gs) all opn =
     (case csp_status P g s of
        Some True \<Rightarrow> guard_state P s gs all opn
      | Some False \<Rightarrow> (False, opn)
      | None \<Rightarrow> guard_state P s gs False True)"

fun dist_state :: "csp \<Rightarrow> aux \<Rightarrow> st \<Rightarrow> nat list \<Rightarrow> bool \<Rightarrow> nat option \<times> bool" where
  "dist_state P A s [] opn = (None, opn)"
| "dist_state P A s (di # ds) opn =
     (case guard_state P s (ax_guards A ! di) True opn of (all, opn) \<Rightarrow>
        if all then (Some di, opn) else dist_state P A s ds opn)"

definition var_rank :: "csp \<Rightarrow> aux \<Rightarrow> st \<Rightarrow> nat \<Rightarrow> nat" where
  "var_rank P A s v =
     (let blocked = (list_ex (\<lambda>p. st_fixed s p = None) (ax_preds A ! v) \<or> list_ex (\<lambda>p. st_fixed s p = None) (ax_seg_hi A ! v));
          tier = (if ax_dists A ! v = [] then 1
                  else case dist_state P A s (ax_dists A ! v) False of
                         (Some di, opn) \<Rightarrow> 0 | (None, opn) \<Rightarrow> if opn then 2 else 1)
      in (if blocked then 3 else 0) + tier)"

record 'r draws =
  dr_tie :: "'r \<Rightarrow> nat \<Rightarrow> bool \<times> 'r"
  dr_first :: "'r \<Rightarrow> st \<Rightarrow> nat \<Rightarrow> int option \<times> 'r"
  dr_weigh :: "'r \<Rightarrow> st \<Rightarrow> nat \<Rightarrow> st option list \<Rightarrow> nat option \<times> 'r"
  dr_any :: "'r \<Rightarrow> nat \<Rightarrow> nat \<times> 'r"

text \<open>The best variable so far with its rank and size, the ties so far, and the first composite one.\<close>

fun pick_loop :: "'r draws \<Rightarrow> aux \<Rightarrow> csp \<Rightarrow> st \<Rightarrow> nat list \<Rightarrow> (nat \<times> nat \<times> nat) option \<Rightarrow> nat \<Rightarrow> nat option \<Rightarrow> 'r \<Rightarrow> nat option \<times> 'r" where
  "pick_loop D A P s [] best ties cv r = (case best of Some (_, _, v) \<Rightarrow> Some v | None \<Rightarrow> cv, r)"
| "pick_loop D A P s (v # vs) best ties cv r =
     (if st_fixed s v \<noteq> None then pick_loop D A P s vs best ties cv r
      else if ax_composite A ! v
      then pick_loop D A P s vs best ties (case cv of None \<Rightarrow> Some v | Some c \<Rightarrow> Some c) r
      else let rank = var_rank P A s v; n = dom_size (st_d s ! v)
           in case best of
                Some (br, bn, bv) \<Rightarrow>
                  if rank > br \<or> rank = br \<and> n > bn then pick_loop D A P s vs best ties cv r
                  else if rank = br \<and> n = bn
                  then (case dr_tie D r (ties + 1) of (win, r) \<Rightarrow>
                          pick_loop D A P s vs (if win then Some (rank, n, v) else best) (ties + 1) cv r)
                  else pick_loop D A P s vs (Some (rank, n, v)) 0 cv r
              | None \<Rightarrow> pick_loop D A P s vs (Some (rank, n, v)) 0 cv r)"

definition pick_var :: "'r draws \<Rightarrow> aux \<Rightarrow> csp \<Rightarrow> st \<Rightarrow> 'r \<Rightarrow> nat option \<times> 'r" where
  "pick_var D A P s r = pick_loop D A P s [0..<length (st_d s)] None 0 None r"

section \<open>The value\<close>

text \<open>
  Weighing: each value is tried, propagated and undone; its work goes to \<open>est_work\<close>.  The state after
  the propagation is what its weight is computed from; \<open>None\<close> for a value that is refuted.
\<close>

definition weigh_probe :: "csp \<Rightarrow> nat list list \<Rightarrow> nat \<Rightarrow> int \<Rightarrow> st \<Rightarrow> bool option \<times> st \<times> st" where
  "weigh_probe P watch v x s =
     (case set_and_run P watch v [(x, x)] s of (res, t) \<Rightarrow>
        (res, t, (st_undo (length (st_trail s)) t)\<lparr>est_work := est_work t + (st_work t - st_work s), st_work := st_work s\<rparr>))"

fun weigh_probes :: "csp \<Rightarrow> nat list list \<Rightarrow> nat \<Rightarrow> int list \<Rightarrow> st \<Rightarrow> st option list option \<times> st" where
  "weigh_probes P watch v [] s = (Some [], s)"
| "weigh_probes P watch v (x # xs) s =
     (case weigh_probe P watch v x s of (res, t, s) \<Rightarrow>
        if res = None then (None, s)
        else case weigh_probes P watch v xs s of (rest, s) \<Rightarrow>
          (map_option ((#) (if res = Some True then Some t else None)) rest, s))"

definition pick_val :: "'r draws \<Rightarrow> aux \<Rightarrow> csp \<Rightarrow> nat list list \<Rightarrow> st \<Rightarrow> nat \<Rightarrow> 'r \<Rightarrow> int \<times> st \<times> 'r" where
  "pick_val D A P watch s v r =
     (case dr_first D r s v of
        (Some x, r) \<Rightarrow> (x, s, r)
      | (None, r) \<Rightarrow>
          let size = dom_size (st_d s ! v);
              any = (\<lambda>s r. case dr_any D r size of (k, r) \<Rightarrow> (dom_nth (st_d s ! v) k, s, r))
          in if ax_guard_var A ! v \<and> size \<le> est_max_dom \<and> est_work s < est_budget
             then (let vals = dom_values (st_d s ! v)
                   in case weigh_probes P watch v vals s of
                        (None, s) \<Rightarrow> any s r
                      | (Some ls, s) \<Rightarrow> (case dr_weigh D r s v ls of
                                           (Some i, r) \<Rightarrow> (vals ! i, s, r)
                                         | (None, r) \<Rightarrow> any s r))
             else any s r)"

section \<open>The search\<close>

text \<open>\<^verbatim>\<open>refuted.resize(d + 1, 0)\<close>, one more at \<open>d\<close>.\<close>

definition count_refuted :: "nat \<Rightarrow> nat list \<Rightarrow> nat list" where
  "count_refuted d refuted =
     (let refuted = take (d + 1) refuted @ replicate (d + 1 - length refuted) 0 in refuted[d := refuted ! d + 1])"

text \<open>A decision: the variable, its value, and the length of the trail before it.\<close>

type_synonym frame = "nat \<times> int \<times> nat"

text \<open>
  \<open>search_decide\<close> takes the next decision; \<open>search_undo\<close> undoes decisions until one can be reversed.
  The result is with the budget that is left.
\<close>

function (sequential) search_decide :: "'r draws \<Rightarrow> aux \<Rightarrow> csp \<Rightarrow> nat list list \<Rightarrow> nat \<Rightarrow> frame list \<Rightarrow> nat list \<Rightarrow> st \<Rightarrow> 'r
    \<Rightarrow> bool option \<times> nat \<times> st \<times> 'r"
  and search_undo :: "'r draws \<Rightarrow> aux \<Rightarrow> csp \<Rightarrow> nat list list \<Rightarrow> nat \<Rightarrow> frame list \<Rightarrow> nat list \<Rightarrow> st \<Rightarrow> 'r
    \<Rightarrow> bool option \<times> nat \<times> st \<times> 'r" where
  "search_decide D A P watch budget stack refuted s r =
     (case pick_var D A P s r of
        (None, r) \<Rightarrow> (Some True, budget, s, r)
      | (Some v, r) \<Rightarrow>
          if budget = 0 then (None, budget, s, r)
          else case pick_val D A P watch s v r of (x, s, r) \<Rightarrow>
            (let stack = (v, x, length (st_trail s)) # stack
             in case set_and_run P watch v [(x, x)] s of
                  (Some True, s) \<Rightarrow> search_decide D A P watch (budget - 1) stack refuted s r
                | (Some False, s) \<Rightarrow> search_undo D A P watch (budget - 1) stack refuted s r
                | (None, s) \<Rightarrow> (None, budget - 1, s, r)))"
| "search_undo D A P watch budget [] refuted s r = (Some False, budget, s, r)"
| "search_undo D A P watch budget ((v, x, mark) # stack) refuted s r =
     (let s = st_undo mark s; d = length stack; refuted = (if level_tries s > 0 then count_refuted d refuted else refuted)
      in if level_tries s > 0 \<and> refuted ! d > level_tries s \<and> dom_size (st_d s ! v) > 2
         then search_undo D A P watch budget stack (take d refuted) (s\<lparr>st_cut := True, level_cut := True\<rparr>) r
         else if budget = 0 then (None, budget, s, r)
         else let s = s\<lparr>st_work := st_work s + length (st_d s ! v), st_dirty := []\<rparr>
              in if st_work s \<ge> work_budget then (None, budget - 1, s, r)
                 else let nd = dom_minus (st_d s ! v) [(x, x)]
                      in if \<not> fst (st_set v nd s) then search_undo D A P watch (budget - 1) stack refuted (snd (st_set v nd s)) r
                         else case set_and_run P watch v nd s of
                                (Some True, s) \<Rightarrow> search_decide D A P watch (budget - 1) stack refuted s r
                              | (Some False, s) \<Rightarrow> search_undo D A P watch (budget - 1) stack refuted s r
                              | (None, s) \<Rightarrow> (None, budget - 1, s, r))"
  by pat_completeness auto
termination
  by (relation "inv_image (less_than <*lex*> less_than)
        (\<lambda>x. case x of Inl (D, A, P, watch, b, stack, refuted, s, r) \<Rightarrow> (b, length stack)
           | Inr (D, A, P, watch, b, stack, refuted, s, r) \<Rightarrow> (b, length stack))") auto

definition csp_search :: "'r draws \<Rightarrow> aux \<Rightarrow> csp \<Rightarrow> nat list list \<Rightarrow> nat \<Rightarrow> st \<Rightarrow> 'r \<Rightarrow> bool option \<times> nat \<times> st \<times> 'r" where
  "csp_search D A P watch budget s r =
     (case csp_propagate P watch [0..<length (cs_nodes P)] s of
        (Some True, s) \<Rightarrow> search_decide D A P watch budget [] [] s r
      | (res, s) \<Rightarrow> (res, budget, s, r))"

section \<open>Restarts\<close>

datatype found = Found st | Unsat | GaveUp

definition tries_max :: nat where "tries_max = 2 ^ 32 - 1"

partial_function (option) find_loop :: "'r draws \<Rightarrow> aux \<Rightarrow> csp \<Rightarrow> nat \<Rightarrow> nat \<Rightarrow> nat \<Rightarrow> st \<Rightarrow> 'r \<Rightarrow> found option" where
  "find_loop D A P budget run_budget tries s r =
     (let s = s\<lparr>st_d := cs_dom0 P, st_trail := [], st_dirty := [], level_tries := (if cs_has_subs P then tries else 0),
              level_cut := False\<rparr>;
          run = min run_budget budget
      in case csp_search D A P (csp_watch P) run s r of (res, left, s, r) \<Rightarrow>
        (let budget = budget - (run - left)
         in if res = Some True then Some (Found s)
            else if res = Some False
            then (if level_cut s \<and> budget > 0 \<and> st_work s < work_budget
                  then find_loop D A P budget (2 * run_budget) (min (2 * tries) tries_max) s r
                  else Some (if st_cut s then GaveUp else Unsat))
            else if budget = 0 \<or> st_work s \<ge> work_budget then Some GaveUp
            else find_loop D A P budget (2 * run_budget) tries s r))"

declare find_loop.simps [code]

definition csp_find :: "'r draws \<Rightarrow> aux \<Rightarrow> csp \<Rightarrow> 'r \<Rightarrow> found option" where
  "csp_find D A P r =
     find_loop D A P node_budget 1000 16
       \<lparr>st_d = cs_dom0 P, st_trail = [], st_dirty = [], st_work = 0, est_work = 0, st_cut = False, level_tries = 0, level_cut = False\<rparr> r"

end
