(* ===== verification/Csp_Lin_Props.thy ===== *)
theory Csp_Lin_Props
  imports Csp_Lin "HOL-Library.Multiset"
begin

text \<open>
  What linear forms stand for, and that the search state only ever loses values that the propagated
  relation excludes.
\<close>

section \<open>Values of linear forms\<close>

definition term_val :: "(nat \<Rightarrow> int) \<Rightarrow> (nat \<times> int) list \<Rightarrow> int" where
  "term_val \<sigma> t = (\<Sum>(v, c)\<leftarrow>t. c * \<sigma> v)"

definition lin_val :: "(nat \<Rightarrow> int) \<Rightarrow> lin \<Rightarrow> int" where
  "lin_val \<sigma> l = term_val \<sigma> (lin_t l) + lin_k l"

lemma term_val_simps [simp]:
  "term_val \<sigma> [] = 0" "term_val \<sigma> ((v, c) # t) = c * \<sigma> v + term_val \<sigma> t"
  "term_val \<sigma> (t @ u) = term_val \<sigma> t + term_val \<sigma> u"
  by (simp_all add: term_val_def)

lemma merge_terms_val: "term_val \<sigma> (merge_terms i t) = term_val \<sigma> (i # t)"
  by (induction i t rule: merge_terms.induct) (auto simp: algebra_simps)

lemma term_val_filter: "term_val \<sigma> (filter (\<lambda>(v, c). c \<noteq> 0) t) = term_val \<sigma> t"
  by (induction t) auto

lemma term_val_mset: "mset t = mset u \<Longrightarrow> term_val \<sigma> t = term_val \<sigma> u"
  by (simp add: term_val_def flip: sum_mset_sum_list)

lemma lin_norm_val: "lin_norm l = Some m \<Longrightarrow> lin_val \<sigma> m = lin_val \<sigma> l"
proof -
  assume n: "lin_norm l = Some m"
  let ?t = "case sort_key fst (lin_t l) of [] \<Rightarrow> [] | i # t \<Rightarrow> merge_terms i t"
  have "term_val \<sigma> ?t = term_val \<sigma> (sort_key fst (lin_t l))"
    by (cases "sort_key fst (lin_t l)") (auto simp: merge_terms_val simp del: term_val_simps(2))
  also have "\<dots> = term_val \<sigma> (lin_t l)" by (rule term_val_mset) simp
  finally show ?thesis using n by (auto simp: lin_norm_def Let_def lin_val_def term_val_filter split: if_splits)
qed

text \<open>Normalised: the variables are distinct, no coefficient is 0, and nothing is large.\<close>

definition lin_ok :: "lin \<Rightarrow> bool" where
  "lin_ok l \<longleftrightarrow> distinct (map fst (lin_t l)) \<and> (\<forall>(v, c)\<in>set (lin_t l). c \<noteq> 0 \<and> \<bar>c\<bar> \<le> coef_max) \<and> \<bar>lin_k l\<bar> \<le> konst_max"

lemma merge_terms_vars:
  "sorted (map fst (i # t)) \<Longrightarrow> sorted_wrt (<) (map fst (merge_terms i t)) \<and> fst ` set (merge_terms i t) \<subseteq> fst ` set (i # t)"
proof (induction i t rule: merge_terms.induct)
  case (2 v c v' c' t)
  show ?case
  proof (cases "v' = v")
    case True
    then show ?thesis using 2(1)[OF True] 2(3) by auto
  next
    case False
    have ih: "sorted_wrt (<) (map fst (merge_terms (v', c') t))" "fst ` set (merge_terms (v', c') t) \<subseteq> fst ` set ((v', c') # t)"
      using 2(2)[OF False] 2(3) by auto
    have "\<forall>x\<in>fst ` set ((v', c') # t). v < x" using 2(3) False by fastforce
    then have "\<forall>x\<in>set (map fst (merge_terms (v', c') t)). v < x" unfolding set_map using ih(2) by blast
    then show ?thesis using False ih by auto
  qed
qed simp

lemma lin_norm_ok: "lin_norm l = Some m \<Longrightarrow> lin_ok m"
proof -
  assume n: "lin_norm l = Some m"
  define ts where "ts = (case sort_key fst (lin_t l) of [] \<Rightarrow> [] | i # t \<Rightarrow> merge_terms i t)"
  have "sorted_wrt (<) (map fst ts)"
    using merge_terms_vars sorted_sort_key[of fst "lin_t l"] by (cases "sort_key fst (lin_t l)") (auto simp: ts_def)
  then have "distinct (map fst ts)" by (simp add: strict_sorted_iff)
  then have d: "distinct (map fst (filter (\<lambda>(v, c). c \<noteq> 0) ts))" by (rule distinct_map_filter)
  have m: "m = l\<lparr>lin_t := filter (\<lambda>(v, c). c \<noteq> 0) ts\<rparr>" "\<bar>lin_k l\<bar> \<le> konst_max"
    "\<not> list_ex (\<lambda>(v, c). \<bar>c\<bar> > coef_max) (filter (\<lambda>(v, c). c \<noteq> 0) ts)"
    using n unfolding lin_norm_def Let_def ts_def[symmetric] by (auto split: if_splits)
  then show ?thesis using d by (force simp: lin_ok_def list_ex_iff not_less)
qed

lemma lin_plus_val: "lin_plus l o' sg = Some m \<Longrightarrow> lin_val \<sigma> m = lin_val \<sigma> l + sg * lin_val \<sigma> o'"
proof -
  assume "lin_plus l o' sg = Some m"
  then have "lin_norm \<lparr>lin_t = lin_t l @ map (\<lambda>(v, c). (v, c * sg)) (lin_t o'), lin_k = lin_k l + lin_k o' * sg\<rparr> = Some m"
    by (auto simp: lin_plus_def checked_def bind_eq_Some_conv split: if_splits)
  moreover have "term_val \<sigma> (map (\<lambda>(v, c). (v, c * sg)) t) = sg * term_val \<sigma> t" for t
    by (induction t) (auto simp: algebra_simps)
  ultimately show ?thesis using lin_norm_val by (fastforce simp: lin_val_def algebra_simps)
qed

lemma lin_scale_val: "lin_scale l c = Some m \<Longrightarrow> lin_val \<sigma> m = c * lin_val \<sigma> l"
proof -
  assume "lin_scale l c = Some m"
  then have "lin_norm \<lparr>lin_t = map (\<lambda>(v, d). (v, d * c)) (lin_t l), lin_k = lin_k l * c\<rparr> = Some m"
    by (auto simp: lin_scale_def checked_def bind_eq_Some_conv split: if_splits)
  moreover have "term_val \<sigma> (map (\<lambda>(v, d). (v, d * c)) t) = c * term_val \<sigma> t" for t
    by (induction t) (auto simp: algebra_simps)
  ultimately show ?thesis using lin_norm_val by (fastforce simp: lin_val_def algebra_simps)
qed

lemma lin_shift_val: "lin_shift l d = Some m \<Longrightarrow> lin_val \<sigma> m = lin_val \<sigma> l + d"
  by (auto simp: lin_shift_def checked_def lin_val_def bind_eq_Some_conv split: if_splits)

lemma lin_shift_ok: "lin_shift l d = Some m \<Longrightarrow> lin_ok l \<Longrightarrow> lin_ok m \<and> lin_t m = lin_t l"
  by (auto simp: lin_shift_def checked_def lin_ok_def bind_eq_Some_conv split: if_splits)

section \<open>States\<close>

text \<open>Domains are in order, and their values are within \<^verbatim>\<open>i128\<close>.\<close>

definition st_ok :: "st \<Rightarrow> bool" where
  "st_ok s \<longleftrightarrow> (\<forall>d\<in>set (st_d s). dom_ok d \<and> (\<forall>x. dom_has d x \<longrightarrow> i128_min \<le> x \<and> x \<le> i128_max))"

definition admits :: "st \<Rightarrow> (nat \<Rightarrow> int) \<Rightarrow> bool" where
  "admits s \<sigma> \<longleftrightarrow> (\<forall>v < length (st_d s). dom_has (st_d s ! v) (\<sigma> v))"

text \<open>\<open>t\<close> has the variables of \<open>s\<close>, and is a state with a subset of its values; what it marks as changed exists.\<close>

definition narrows :: "st \<Rightarrow> st \<Rightarrow> bool" where
  "narrows s t \<longleftrightarrow> st_ok t \<and> length (st_d t) = length (st_d s) \<and>
     (\<forall>v < length (st_d s). \<forall>x. dom_has (st_d t ! v) x \<longrightarrow> dom_has (st_d s ! v) x) \<and>
     set (st_dirty t) \<subseteq> set (st_dirty s) \<union> {..<length (st_d s)}"

lemma narrows_refl: "st_ok s \<Longrightarrow> narrows s s"
  by (simp add: narrows_def)

lemma narrows_trans: "narrows s t \<Longrightarrow> narrows t u \<Longrightarrow> narrows s u"
  by (auto simp: narrows_def)

lemma st_okD: "st_ok s \<Longrightarrow> v < length (st_d s) \<Longrightarrow> dom_ok (st_d s ! v)"
  "st_ok s \<Longrightarrow> v < length (st_d s) \<Longrightarrow> dom_has (st_d s ! v) x \<Longrightarrow> i128_min \<le> x \<and> x \<le> i128_max"
  by (auto simp: st_ok_def)

lemma st_set_narrows:
  assumes "st_ok s" and "v < length (st_d s)" and "dom_ok nd" and "\<And>x. dom_has nd x \<Longrightarrow> dom_has (st_d s ! v) x"
  shows "narrows s (snd (st_set v nd s))"
  using assms st_okD[OF assms(1,2)]
  by (auto simp: narrows_def st_set_def st_ok_def nth_list_update dest!: set_update_subset_insert[THEN subsetD])

text \<open>A result and the new state lose no assignment of \<open>A\<close>.\<close>

definition keeps :: "((nat \<Rightarrow> int) \<Rightarrow> bool) \<Rightarrow> st \<Rightarrow> bool \<times> st \<Rightarrow> bool" where
  "keeps A s r \<longleftrightarrow> (\<forall>\<sigma>. admits s \<sigma> \<longrightarrow> A \<sigma> \<longrightarrow> fst r \<and> admits (snd r) \<sigma>)"

definition sound :: "((nat \<Rightarrow> int) \<Rightarrow> bool) \<Rightarrow> st \<Rightarrow> bool \<times> st \<Rightarrow> bool" where
  "sound A s r \<longleftrightarrow> narrows s (snd r) \<and> keeps A s r"

lemma sound_set:
  assumes "st_ok s" and "v < length (st_d s)" and "dom_ok nd" and "\<And>x. dom_has nd x \<Longrightarrow> dom_has (st_d s ! v) x"
    and "\<And>\<sigma>. admits s \<sigma> \<Longrightarrow> A \<sigma> \<Longrightarrow> dom_has nd (\<sigma> v)"
  shows "sound A s (st_set v nd s)"
proof -
  have "fst (st_set v nd s) \<and> admits (snd (st_set v nd s)) \<sigma>" if s: "admits s \<sigma>" and a: "A \<sigma>" for \<sigma>
    using assms(5)[OF s a] s assms(2) by (auto simp: st_set_def admits_def nth_list_update)
  then show ?thesis using st_set_narrows[OF assms(1-4)] by (simp add: sound_def keeps_def)
qed

lemma sound_true: "st_ok s \<Longrightarrow> sound A s (True, s)"
  by (simp add: sound_def keeps_def narrows_refl)

lemma sound_false: "st_ok s \<Longrightarrow> (\<And>\<sigma>. admits s \<sigma> \<Longrightarrow> \<not> A \<sigma>) \<Longrightarrow> sound A s (False, s)"
  by (auto simp: sound_def keeps_def narrows_refl)

lemma sound_weaken: "sound A s r \<Longrightarrow> (\<And>\<sigma>. admits s \<sigma> \<Longrightarrow> B \<sigma> \<Longrightarrow> A \<sigma>) \<Longrightarrow> sound B s r"
  by (auto simp: sound_def keeps_def)

lemma sound_then:
  assumes "sound A s (ok, t)" and "ok \<Longrightarrow> sound A t r"
  shows "sound A s (if ok then r else (False, t))"
  using assms by (auto simp: sound_def keeps_def intro: narrows_trans)

lemma admits_narrow: "narrows s t \<Longrightarrow> admits t \<sigma> \<Longrightarrow> admits s \<sigma>"
  by (auto simp: narrows_def admits_def)

section \<open>Bounds\<close>

lemma bounds_ok:
  assumes "st_ok s" and "admits s \<sigma>" and "v < length (st_d s)" and "st_bounds s v = (a, b)"
  shows "a \<le> \<sigma> v" "\<sigma> v \<le> b"
proof -
  have h: "dom_has (st_d s ! v) (\<sigma> v)" "dom_ok (st_d s ! v)" using assms by (auto simp: admits_def st_okD)
  then have "st_d s ! v \<noteq> []" by auto
  then show "a \<le> \<sigma> v" "\<sigma> v \<le> b" using dom_bounds[OF h(2,1)] assms(4) by (auto simp: st_bounds_def Let_def)
qed

definition vars_in :: "st \<Rightarrow> lin \<Rightarrow> bool" where
  "vars_in s l \<longleftrightarrow> (\<forall>v\<in>fst ` set (lin_t l). v < length (st_d s))"

text \<open>The bounds of the terms.\<close>

definition term_lo :: "st \<Rightarrow> nat \<times> int \<Rightarrow> int" where
  "term_lo s = (\<lambda>(v, c). let (a, b) = st_bounds s v in if c > 0 then c * a else c * b)"

definition term_hi :: "st \<Rightarrow> nat \<times> int \<Rightarrow> int" where
  "term_hi s = (\<lambda>(v, c). let (a, b) = st_bounds s v in if c > 0 then c * b else c * a)"

lemma lin_bounds_sum: "lin_bounds s l = (lin_k l + sum_list (map (term_lo s) (lin_t l)), lin_k l + sum_list (map (term_hi s) (lin_t l)))"
proof -
  have "fold (\<lambda>(v, c) (lo, hi). let (a, b) = st_bounds s v
             in if c > 0 then (lo + c * a, hi + c * b) else (lo + c * b, hi + c * a)) t (lo, hi) =
      (lo + sum_list (map (term_lo s) t), hi + sum_list (map (term_hi s) t))" for t lo hi
    by (induction t arbitrary: lo hi) (auto simp: term_lo_def term_hi_def Let_def split: prod.splits)
  then show ?thesis by (simp add: lin_bounds_def)
qed

lemma term_bounds:
  assumes "st_ok s" and "admits s \<sigma>" and "v < length (st_d s)"
  shows "term_lo s (v, c) \<le> c * \<sigma> v" "c * \<sigma> v \<le> term_hi s (v, c)"
  using bounds_ok[OF assms(1,2,3)] by (auto simp: term_lo_def term_hi_def Let_def split: prod.splits intro: mult_left_mono mult_left_mono_neg)

lemma terms_bounds:
  assumes "st_ok s" and "admits s \<sigma>" and "\<forall>v\<in>fst ` set t. v < length (st_d s)"
  shows "sum_list (map (term_lo s) t) \<le> term_val \<sigma> t" "term_val \<sigma> t \<le> sum_list (map (term_hi s) t)"
  using assms(3) by (induction t) (auto simp: add_mono term_bounds[OF assms(1,2)])

lemma lin_bounds_ok:
  assumes "st_ok s" and "admits s \<sigma>" and "vars_in s l" and "lin_bounds s l = (lo, hi)"
  shows "lo \<le> lin_val \<sigma> l" "lin_val \<sigma> l \<le> hi"
  using terms_bounds[OF assms(1,2), of "lin_t l"] assms(3,4) by (auto simp: lin_bounds_sum vars_in_def lin_val_def)

text \<open>Every other term at its least leaves at most \<open>tmin - lo\<close> for one term.\<close>

lemma slack:
  assumes s: "st_ok s" "admits s \<sigma>" "vars_in s l" and lb: "lin_bounds s l = (lo, hi)" and v: "(v, c) \<in> set (lin_t l)"
  shows "lin_val \<sigma> l \<le> 0 \<Longrightarrow> c * \<sigma> v \<le> term_lo s (v, c) - lo" "0 \<le> lin_val \<sigma> l \<Longrightarrow> term_hi s (v, c) - hi \<le> c * \<sigma> v"
proof -
  obtain t u where t: "lin_t l = t @ (v, c) # u" using v by (meson split_list)
  have tu: "\<forall>v\<in>fst ` set t. v < length (st_d s)" "\<forall>v\<in>fst ` set u. v < length (st_d s)" using s(3) by (auto simp: vars_in_def t)
  note b = terms_bounds[OF s(1,2) tu(1)] terms_bounds[OF s(1,2) tu(2)]
  show "c * \<sigma> v \<le> term_lo s (v, c) - lo" if "lin_val \<sigma> l \<le> 0"
    using b(1,3) that lb by (auto simp: lin_bounds_sum lin_val_def t)
  show "term_hi s (v, c) - hi \<le> c * \<sigma> v" if "0 \<le> lin_val \<sigma> l"
    using b(2,4) that lb by (auto simp: lin_bounds_sum lin_val_def t)
qed

section \<open>Propagation of bounds\<close>

lemma le_div_pos: "0 < b \<Longrightarrow> x \<le> a div b \<longleftrightarrow> b * x \<le> a" for a b x :: int
proof
  assume b: "0 < b"
  have "b * (a div b) + a mod b = a" "0 \<le> a mod b" using b by simp_all
  then have "b * (a div b) \<le> a" by linarith
  then show "b * x \<le> a" if "x \<le> a div b" using that b mult_left_mono[OF that, of b] by linarith
  show "x \<le> a div b" if "b * x \<le> a" using zdiv_mono1[OF that b] b by simp
qed

lemma floor_le: "0 < b \<Longrightarrow> x \<le> floor_div a b \<longleftrightarrow> b * x \<le> a" "b < 0 \<Longrightarrow> x \<le> floor_div a b \<longleftrightarrow> a \<le> b * x"
  using le_div_pos[of b x a] le_div_pos[of "- b" x "- a"] by (auto simp: floor_div_div)

lemma ceil_le: "0 < b \<Longrightarrow> ceil_div a b \<le> x \<longleftrightarrow> a \<le> b * x" "b < 0 \<Longrightarrow> ceil_div a b \<le> x \<longleftrightarrow> b * x \<le> a"
  using floor_le[of b "- x" "- a"] by (auto simp: ceil_div_def)

text \<open>The bound a relation puts on one of its variables.\<close>

definition bound_rel :: "lin \<Rightarrow> bool \<Rightarrow> (nat \<Rightarrow> int) \<Rightarrow> bool" where
  "bound_rel l upper \<sigma> \<longleftrightarrow> (if upper then lin_val \<sigma> l \<le> 0 else 0 \<le> lin_val \<sigma> l)"

lemma clip_sound:
  assumes "st_ok s" and "v < length (st_d s)" and "\<And>\<sigma>. admits s \<sigma> \<Longrightarrow> A \<sigma> \<Longrightarrow> lo \<le> \<sigma> v \<and> \<sigma> v \<le> hi"
  shows "sound A s (st_set v (dom_clip (st_d s ! v) lo hi) s)"
  using assms by (intro sound_set) (auto simp: clip_has clip_ok st_okD admits_def)

lemma prop_term_sound:
  assumes s: "st_ok s" "v < length (st_d s)" and c: "c \<noteq> 0"
    and slack: "\<And>\<sigma>. admits s \<sigma> \<Longrightarrow> A \<sigma> \<Longrightarrow> if upper then c * \<sigma> v \<le> term_lo s (v, c) - lo else term_hi s (v, c) - hi \<le> c * \<sigma> v"
  shows "sound A s (prop_term upper lo hi (v, c) s)"
proof -
  obtain a b where ab: "st_bounds s v = (a, b)" by force
  have i128: "i128_min \<le> \<sigma> v \<and> \<sigma> v \<le> i128_max" if "admits s \<sigma>" for \<sigma>
    using st_okD(2)[OF s] that s(2) by (simp add: admits_def)
  have t: "term_lo s (v, c) = (if c > 0 then c * a else c * b)" "term_hi s (v, c) = (if c > 0 then c * b else c * a)"
    by (simp_all add: term_lo_def term_hi_def ab)
  note sl = slack[unfolded t]
  show ?thesis
  proof (cases "0 < c")
    case True
    then have sl': "(upper \<longrightarrow> \<sigma> v \<le> floor_div (c * a - lo) c) \<and> (\<not> upper \<longrightarrow> ceil_div (c * b - hi) c \<le> \<sigma> v)"
      if "admits s \<sigma>" "A \<sigma>" for \<sigma>
      using sl[OF that] by (auto simp: floor_le ceil_le split: if_splits)
    show ?thesis
      using True clip_sound[OF s, of A i128_min "floor_div (c * a - lo) c"]
        clip_sound[OF s, of A "ceil_div (c * b - hi) c" i128_max] sl' i128 sound_true[OF s(1), of A]
      by (cases upper) (simp_all add: prop_term_def ab Let_def)
  next
    case False
    then have "c < 0" using c by simp
    then have sl': "(upper \<longrightarrow> ceil_div (c * b - lo) c \<le> \<sigma> v) \<and> (\<not> upper \<longrightarrow> \<sigma> v \<le> floor_div (c * a - hi) c)"
      if "admits s \<sigma>" "A \<sigma>" for \<sigma>
      using sl[OF that] False by (auto simp: floor_le ceil_le split: if_splits)
    show ?thesis
      using False clip_sound[OF s, of A i128_min "floor_div (c * a - hi) c"]
        clip_sound[OF s, of A "ceil_div (c * b - lo) c" i128_max] sl' i128 sound_true[OF s(1), of A]
      by (cases upper) (simp_all add: prop_term_def ab Let_def)
  qed
qed

lemma prop_term_other: "w \<noteq> v \<Longrightarrow> st_d (snd (prop_term upper lo hi (v, c) s)) ! w = st_d s ! w"
  by (simp add: prop_term_def st_set_def Let_def split: prod.splits)

lemma prop_terms_sound:
  assumes s0: "st_ok s0" and v: "vars_in s0 l" and lok: "lin_ok l" and lb: "lin_bounds s0 l = (lo, hi)"
    and t: "lin_t l = u @ t" and n: "narrows s0 s" and same: "\<forall>v\<in>fst ` set t. st_d s ! v = st_d s0 ! v"
  shows "sound (bound_rel l upper) s (prop_terms upper lo hi t s)"
  using t n same
proof (induction t arbitrary: u s)
  case Nil
  then show ?case by (simp add: sound_true narrows_def)
next
  case (Cons vc t)
  obtain v c where vc: "vc = (v, c)" by force
  have ok: "st_ok s" "length (st_d s) = length (st_d s0)" using Cons.prems(2) by (auto simp: narrows_def)
  have inl: "(v, c) \<in> set (lin_t l)" using Cons.prems(1) by (simp add: vc)
  have vc': "v < length (st_d s)" "c \<noteq> 0" using assms(2,3) inl ok(2) by (force simp: vars_in_def lin_ok_def)+
  have same_v: "term_lo s (v, c) = term_lo s0 (v, c)" "term_hi s (v, c) = term_hi s0 (v, c)"
    using Cons.prems(3) by (simp_all add: vc term_lo_def term_hi_def st_bounds_def)
  obtain b s' where step: "prop_term upper lo hi (v, c) s = (b, s')" by force
  have one: "sound (bound_rel l upper) s (b, s')"
    unfolding step[symmetric]
  proof (rule prop_term_sound[OF ok(1) vc'])
    fix \<sigma> assume "admits s \<sigma>" "bound_rel l upper \<sigma>"
    then show "if upper then c * \<sigma> v \<le> term_lo s (v, c) - lo else term_hi s (v, c) - hi \<le> c * \<sigma> v"
      using slack[OF s0 admits_narrow[OF Cons.prems(2)] assms(2) lb inl] by (auto simp: same_v bound_rel_def)
  qed
  have nar: "narrows s s'" using one by (simp add: sound_def)
  have dist: "v \<notin> fst ` set t" using lok Cons.prems(1) by (auto simp: lin_ok_def vc)
  have "\<forall>w\<in>fst ` set t. st_d s' ! w = st_d s0 ! w"
  proof
    fix w assume w: "w \<in> fst ` set t"
    then have "w \<noteq> v" using dist by auto
    then show "st_d s' ! w = st_d s0 ! w"
      using prop_term_other[of w v upper lo hi c s] step Cons.prems(3) w by simp
  qed
  then have rest: "sound (bound_rel l upper) s' (prop_terms upper lo hi t s')"
    using Cons.IH[of "u @ [vc]" s'] Cons.prems(1,2) nar narrows_trans by fastforce
  show ?case using sound_then[OF one rest] by (simp add: vc step)
qed

lemma prop_bound_sound:
  assumes "st_ok s" and "vars_in s l" and "lin_ok l"
  shows "sound (bound_rel l upper) s (prop_bound l upper s)"
proof -
  obtain lo hi where lb: "lin_bounds s l = (lo, hi)" by force
  show ?thesis
  proof (cases "upper \<and> lo > 0 \<or> \<not> upper \<and> hi < 0")
    case True
    have "\<not> bound_rel l upper \<sigma>" if "admits s \<sigma>" for \<sigma>
      using lin_bounds_ok[OF assms(1) that assms(2) lb] True by (auto simp: bound_rel_def)
    then show ?thesis using True sound_false[OF assms(1)] by (simp add: prop_bound_def lb)
  next
    case False
    show ?thesis
      unfolding prop_bound_def lb Let_def case_prod_conv if_not_P[OF False]
      by (rule prop_terms_sound[OF assms lb, of "[]"]) (simp_all add: narrows_refl assms(1))
  qed
qed

end
