(* ===== verification/Csp_Wrap.thy ===== *)
theory Csp_Wrap
  imports Csp_Enforce Csp_Lin_Props
begin

text \<open>
  Relations whose operands wrap: the residue classes and the sets of wrapped values that the solver
  keeps lose no value that satisfies the relation.
\<close>

section \<open>The open variable\<close>

lemma fixed_val_eq: "admits s \<sigma> \<Longrightarrow> v < length (st_d s) \<Longrightarrow> st_fixed s v = Some x \<Longrightarrow> \<sigma> v = x"
  using dom_fixed_has[of "st_d s ! v" x "\<sigma> v"] by (simp add: admits_def st_fixed_def)

definition free_val :: "(nat \<Rightarrow> int) \<Rightarrow> (nat \<times> int) option \<Rightarrow> int" where
  "free_val \<sigma> fr = (case fr of None \<Rightarrow> 0 | Some (v, c) \<Rightarrow> c * \<sigma> v)"

lemma one_free_val:
  assumes "one_free s t free rest = Some (fr, r)" and "admits s \<sigma>" and "\<forall>v\<in>fst ` set t. v < length (st_d s)"
  shows "free_val \<sigma> fr + r = free_val \<sigma> free + rest + term_val \<sigma> t"
  using assms(1,3)
proof (induction t arbitrary: free rest)
  case (Cons vc t)
  obtain v c where vc: "vc = (v, c)" by force
  show ?case
  proof (cases "st_fixed s v")
    case None
    then have "free = None" "one_free s t (Some (v, c)) rest = Some (fr, r)" using Cons.prems(1) by (auto simp: vc split: if_splits)
    then show ?thesis using Cons.IH[of "Some (v, c)" rest] Cons.prems(2) by (simp add: vc free_val_def)
  next
    case (Some x)
    then have "\<sigma> v = x" using fixed_val_eq[OF assms(2), of v x] Cons.prems(2) by (simp add: vc)
    then show ?thesis using Cons.IH[of free "rest + c * x"] Cons.prems Some by (simp add: vc)
  qed
qed simp

lemma one_free_in: "one_free s t free rest = Some (Some (v, c), r) \<Longrightarrow> (v, c) \<in> set t \<or> free = Some (v, c)"
  by (induction t arbitrary: free rest) (fastforce split: option.splits if_splits)+

text \<open>For a whole form.\<close>

lemma one_free_lin:
  assumes "one_free s (lin_t l) None (lin_k l) = Some (fr, r)" and "admits s \<sigma>" and "vars_in s l"
  shows "lin_val \<sigma> l = free_val \<sigma> fr + r"
  using one_free_val[OF assms(1,2)] assms(3) by (simp add: vars_in_def lin_val_def free_val_def)

lemma one_free_var:
  assumes "one_free s (lin_t l) None (lin_k l) = Some (Some (v, c), r)" and "vars_in s l" and "lin_ok l"
  shows "v < length (st_d s)" "c \<noteq> 0" "\<bar>c\<bar> \<le> coef_max"
  using one_free_in[OF assms(1)] assms(2,3) by (force simp: vars_in_def lin_ok_def)+

lemma fixed_val_lin:
  assumes "fixed_val s l = Some x" and "admits s \<sigma>" and "vars_in s l"
  shows "lin_val \<sigma> l = x"
proof -
  have "k + term_val \<sigma> t = x" if "fixed_sum s t k = Some x" "\<forall>v\<in>fst ` set t. v < length (st_d s)" for t k
    using that
  proof (induction t arbitrary: k)
    case (Cons vc t)
    obtain v c where vc: "vc = (v, c)" by force
    obtain y where y: "st_fixed s v = Some y" "fixed_sum s t (k + c * y) = Some x"
      using Cons.prems(1) by (auto simp: vc split: option.splits)
    then have "\<sigma> v = y" using fixed_val_eq[OF assms(2), of v y] Cons.prems(2) by (simp add: vc)
    then show ?case using Cons.IH[OF y(2)] Cons.prems(2) by (simp add: vc)
  qed simp
  then show ?thesis using assms(1,3) by (fastforce simp: fixed_val_def lin_val_def vars_in_def)
qed

section \<open>Residue classes\<close>

lemma residues_mem:
  assumes "residues n x m hi = Some xs" and "0 < m"
  shows "y \<in> set xs \<longleftrightarrow> (\<exists>k\<ge>0. y = x + k * m) \<and> y \<le> hi"
  using assms(1)
proof (induction n arbitrary: x xs)
  case 0
  then have x: "\<not> x \<le> hi" "xs = []" by (auto split: if_splits)
  have "hi < x + k * m" if "0 \<le> k" for k using mult_nonneg_nonneg[of k m] that x(1) assms(2) by linarith
  then show ?case using x(2) by (auto simp: not_le)
next
  case (Suc n)
  show ?case
  proof (cases "x \<le> hi")
    case True
    then obtain ys where ys: "residues n (x + m) m hi = Some ys" "xs = x # ys" using Suc.prems by (auto split: if_splits)
    have "(\<exists>k\<ge>0. y = x + k * m) \<longleftrightarrow> y = x \<or> (\<exists>k\<ge>0. y = x + m + k * m)"
    proof
      assume "\<exists>k\<ge>0. y = x + k * m"
      then obtain k where k: "0 \<le> k" "y = x + k * m" by blast
      show "y = x \<or> (\<exists>k\<ge>0. y = x + m + k * m)"
      proof (cases "k = 0")
        case False
        then show ?thesis using k by (intro disjI2 exI[of _ "k - 1"]) (auto simp: algebra_simps)
      qed (use k in simp)
    next
      assume "y = x \<or> (\<exists>k\<ge>0. y = x + m + k * m)"
      then show "\<exists>k\<ge>0. y = x + k * m"
      proof
        assume "\<exists>k\<ge>0. y = x + m + k * m"
        then obtain k where "0 \<le> k" "y = x + m + k * m" by blast
        then show ?thesis by (intro exI[of _ "k + 1"]) (simp add: algebra_simps)
      qed (auto intro: exI[of _ 0])
    qed
    then show ?thesis using Suc.IH[OF ys(1)] ys(2) True by auto
  next
    case False
    have "hi < x + k * m" if "0 \<le> k" for k using mult_nonneg_nonneg[of k m] that False assms(2) by linarith
    then show ?thesis using False Suc.prems by (auto simp: not_le)
  qed
qed

lemma residues_low: "residues n x m hi = Some xs \<Longrightarrow> 0 < m \<Longrightarrow> y \<in> set xs \<Longrightarrow> x \<le> y \<and> y \<le> hi"
  by (auto simp: residues_mem)

lemma points_has [simp]: "dom_has (points xs) y \<longleftrightarrow> y \<in> set xs"
  by (induction xs) (auto simp: points_def)

lemma residues_ok: "residues n x m hi = Some xs \<Longrightarrow> 0 < m \<Longrightarrow> dom_ok (points xs)"
proof (induction n arbitrary: x xs)
  case (Suc n)
  show ?case
  proof (cases "x \<le> hi")
    case True
    then obtain ys where ys: "residues n (x + m) m hi = Some ys" "xs = x # ys" using Suc.prems by (auto split: if_splits)
    have "x < y" if "y \<in> set ys" for y using residues_low[OF ys(1) Suc.prems(2) that] Suc.prems(2) by simp
    then show ?thesis using Suc.IH[OF ys(1) Suc.prems(2)] ys(2) by (auto simp: points_def)
  qed (use Suc.prems in \<open>auto simp: points_def\<close>)
qed (auto simp: points_def split: if_splits)

text \<open>The members of a class from \<open>lo\<close> on.\<close>

lemma residues_class:
  assumes "residues n (r + ceil_div (lo - r) m * m) m hi = Some xs" and m: "0 < m"
    and y: "lo \<le> y" "y \<le> hi" "(y - r) mod m = 0"
  shows "y \<in> set xs"
proof -
  obtain q where q: "y = r + m * q" using y(3) by (metis add.commute diff_add_cancel mod_0_imp_dvd dvd_def)
  then have "ceil_div (lo - r) m \<le> q" using y(1) ceil_le(1)[OF m] by simp
  then show ?thesis
    using y(2) q by (auto simp: residues_mem[OF assms(1) m] algebra_simps intro!: exI[of _ "q - ceil_div (lo - r) m"])
qed

lemma points_norm_ok: "\<forall>x\<in>set xs. x \<le> i128_max \<Longrightarrow> dom_ok (dom_norm (points xs))"
  by (intro norm_ok) (auto simp: points_def)

lemma points_norm_has [simp]: "dom_has (dom_norm (points xs)) y \<longleftrightarrow> y \<in> set xs"
  by (auto simp: norm_has points_def)

lemma meet_sound:
  assumes "st_ok s" and "v < length (st_d s)" and "dom_ok nd" and "\<And>\<sigma>. admits s \<sigma> \<Longrightarrow> A \<sigma> \<Longrightarrow> dom_has nd (\<sigma> v)"
  shows "sound A s (st_set v (dom_meet (st_d s ! v) nd) s)"
  using assms by (intro sound_set) (auto simp: meet_has meet_ok st_okD admits_def)

lemma minus_sound:
  assumes "st_ok s" and "v < length (st_d s)" and "dom_ok nd" and "\<And>\<sigma>. admits s \<sigma> \<Longrightarrow> A \<sigma> \<Longrightarrow> \<not> dom_has nd (\<sigma> v)"
  shows "sound A s (st_set v (dom_minus (st_d s ! v) nd) s)"
  using assms by (intro sound_set) (auto simp: minus_has minus_ok st_okD admits_def)

text \<open>An equality modulo \<open>2 ^ w\<close>.\<close>

lemma wrap_eq_sound:
  assumes eq: "wrap_eq l w s = Some r" and s: "st_ok s" "vars_in s l" "lin_ok l"
  shows "sound (\<lambda>\<sigma>. 2 ^ w dvd lin_val \<sigma> l) s r"
proof -
  let ?m = "2 ^ w :: int"
  obtain fr rest where of': "one_free s (lin_t l) None (lin_k l) = Some (fr, rest)"
    using eq by (cases "one_free s (lin_t l) None (lin_k l)") (auto simp: wrap_eq_def Let_def split: if_splits)
  note val = one_free_lin[OF of' _ s(2)]
  show ?thesis
  proof (cases fr)
    case None
    then have r: "r = (rest mod ?m = 0, s)" using eq of' by (auto simp: wrap_eq_def split: if_splits)
    show ?thesis
    proof (cases "rest mod ?m = 0")
      case False
      then show ?thesis unfolding r using val None by (auto simp: free_val_def dvd_eq_mod_eq_0 intro!: sound_false s(1))
    qed (simp add: r sound_true s(1))
  next
    case (Some vc)
    obtain v c where vc: "vc = (v, c)" by force
    obtain lo hi where b: "st_bounds s v = (lo, hi)" by force
    have c: "c = 1 \<or> c = - 1" using eq of' by (auto simp: wrap_eq_def Some vc Let_def split: if_splits)
    have v: "v < length (st_d s)" using one_free_var(1)[OF _ s(2,3)] of' by (simp add: Some vc)
    let ?q = "(- rest * c) mod ?m"
    obtain cands where cands: "residues 8 (?q + ceil_div (lo - ?q) ?m * ?m) ?m hi = Some cands"
      and r: "r = st_set v (dom_meet (st_d s ! v) (points cands)) s"
      using eq of' c by (auto simp: wrap_eq_def Some vc b Let_def split: if_splits)
    show ?thesis unfolding r
    proof (rule meet_sound[OF s(1) v residues_ok[OF cands]])
      show "dom_has (points cands) (\<sigma> v)" if adm: "admits s \<sigma>" and d: "?m dvd lin_val \<sigma> l" for \<sigma>
      proof -
        have "?m dvd c * \<sigma> v + rest" using d val[OF adm] by (simp add: Some vc free_val_def)
        then have "?m dvd c * (c * \<sigma> v + rest)" by (rule dvd_mult)
        moreover have "c * (c * \<sigma> v + rest) = \<sigma> v - (- rest * c)" using c by auto
        ultimately have "(\<sigma> v - ?q) mod ?m = 0" by (simp add: mod_diff_right_eq dvd_eq_mod_eq_0)
        then show ?thesis using residues_class[OF cands] bounds_ok[OF s(1) adm v b] by simp
      qed
    qed simp
  qed
qed

section \<open>Wrapped values in a set\<close>

lemma wrapv_mod: "wrapv w sg y = fst (ws_range w sg) + (y - fst (ws_range w sg)) mod 2 ^ w"
  by (simp add: wrapv_def Let_def)

lemma ws_range_size: "0 < w \<Longrightarrow> w \<le> 64 \<Longrightarrow> ws_range w sg = (rlo, rhi) \<Longrightarrow> rhi = rlo + 2 ^ w - 1"
  by (cases w) (auto simp: ws_range_def Let_def split: if_splits)

lemma wrapv_range:
  assumes "0 < w" and "w \<le> 64" and "ws_range w sg = (rlo, rhi)"
  shows "rlo \<le> wrapv w sg y" "wrapv w sg y \<le> rhi"
  using pos_mod_bound[of "2 ^ w" "y - rlo"] assms ws_range_size[OF assms] by (simp_all add: wrapv_mod)

text \<open>A value is its wrapped value plus a multiple of \<open>2 ^ w\<close>.\<close>

lemma wrapv_split:
  assumes "0 < w" and "w \<le> 64" and "ws_range w sg = (rlo, rhi)"
  shows "y = wrapv w sg y + ((y - rlo) div 2 ^ w) * 2 ^ w"
  using div_mult_mod_eq[of "y - rlo" "2 ^ w"] assms(3) by (simp add: wrapv_mod)

lemma shifted_has:
  assumes "c = 1 \<or> c = - 1"
  shows "dom_has (shifted_cands c rest m ylo yhi j tgt) x \<longleftrightarrow>
    ylo \<le> c * x + rest \<and> c * x + rest \<le> yhi \<and> dom_has tgt (c * x + rest - j * m)"
  using assms by (induction tgt) (auto simp: shifted_cands_def)

lemma shifted_bound:
  assumes "(a, b) \<in> set (shifted_cands c rest m ylo yhi j tgt)"
  shows "a \<le> b"
  using assms by (auto simp: shifted_cands_def split: if_splits)

lemma concat_has: "dom_has (concat ds) x \<longleftrightarrow> (\<exists>d\<in>set ds. dom_has d x)"
  by (induction ds) auto

lemma newton_step: "1 - a * (iv * (2 - a * iv)) = (1 - a * iv) ^ 2" for a iv :: "128 word"
  by (simp add: power2_eq_square algebra_simps)

lemma newton_err: "1 - a * (((\<lambda>iv. iv * (2 - a * iv)) ^^ n) a) = (1 - a * a) ^ (2 ^ n)" for a :: "128 word"
proof (induction n)
  case (Suc n)
  then show ?case by (simp add: newton_step power_mult[symmetric] mult.commute)
qed simp

lemma newton_inv_ok: "odd a \<Longrightarrow> a * newton_inv a = 1"
proof -
  assume "odd a"
  then have "even (1 - a * a)" by simp
  then obtain t where t: "1 - a * a = 2 * t" by blast
  have zero: "(2 :: 128 word) ^ 128 = 0" using exp_eq_zero_iff[where 'a = 128, of 128] by simp
  have "(1 - a * a) ^ 128 = 0" unfolding t power_mult_distrib zero by simp
  then show ?thesis using newton_err[of a 7] by (simp add: newton_inv_def)
qed

lemma tz_dvd: "2 ^ trailing_zeros n c dvd c"
proof (induction n c rule: trailing_zeros.induct)
  case (2 n c)
  then show ?case by (cases "odd c") (auto elim: evenE)
qed simp

lemma tz_odd: "c \<noteq> 0 \<Longrightarrow> \<bar>c\<bar> < 2 ^ n \<Longrightarrow> odd (c div 2 ^ trailing_zeros n c)"
proof (induction n c rule: trailing_zeros.induct)
  case (2 n c)
  show ?case
  proof (cases "odd c")
    case False
    then obtain d where d: "c = 2 * d" by blast
    then have "odd (d div 2 ^ trailing_zeros n d)" using 2 False by auto
    then show ?thesis using False d by (simp add: zdiv_zmult2_eq mult.commute)
  qed simp
qed auto

lemma smod_pos: "0 \<le> r \<Longrightarrow> 0 < g \<Longrightarrow> r smod g = r mod g" "0 \<le> r \<Longrightarrow> 0 < g \<Longrightarrow> r sdiv g = r div g" for r g :: int
  by (simp_all add: signed_modulo_int_def signed_divide_int_def sgn_if)

text \<open>Even coefficients.\<close>

lemma inverse_cand:
  assumes mg: "mg = 2 ^ n" "0 < n" "n \<le> 64" and c: "odd c'" and iv: "iv = newton_inv (word_of_int (c' mod mg))"
    and x: "mg dvd c' * x - q"
  shows "(x - uint ((word_of_int q * iv) AND word_of_int (mg - 1))) mod mg = 0"
proof -
  let ?A = "word_of_int (c' mod mg) :: 128 word" and ?I = "uint iv"
  have dv: "mg dvd 2 ^ 128" unfolding mg(1) using mg(3) by (intro le_imp_power_dvd) simp
  have "odd (c' mod mg)" using c mg by (simp add: odd_iff_mod_2_eq_one mod_mod_cancel)
  then have "odd ?A" by transfer simp
  then have "?A * iv = 1" unfolding iv by (rule newton_inv_ok)
  then have "word_of_int ((c' mod mg) * ?I) = (1 :: 128 word)" by simp
  then have "uint (word_of_int ((c' mod mg) * ?I) :: 128 word) = 1" by simp
  moreover have "uint (word_of_int k :: 128 word) = k mod 2 ^ 128" for k by (simp add: uint_word_of_int)
  ultimately have "((c' mod mg) * ?I) mod 2 ^ 128 = 1" by metis
  then have "((c' mod mg) * ?I) mod mg = 1 mod mg" using mod_mod_cancel[OF dv, of "(c' mod mg) * ?I"] by simp
  then have one: "mg dvd c' * ?I - 1" by (metis mod_mult_left_eq mod_eq_dvd_iff)
  have "x - q * ?I = ?I * (c' * x - q) - x * (c' * ?I - 1)" by (simp add: algebra_simps)
  then have d: "mg dvd x - q * ?I" using one x by simp
  have tb: "uint (take_bit n W) = uint W mod 2 ^ n" for W :: "128 word"
    by (simp add: unsigned_take_bit_eq flip: take_bit_eq_mod)
  have "(word_of_int q * iv) AND word_of_int (mg - 1) = take_bit n (word_of_int q * iv)"
    using mg by (simp add: take_bit_eq_mask mask_eq_exp_minus_1)
  moreover have "uint (word_of_int q * iv) = (q * ?I) mod 2 ^ 128" by (simp add: uint_word_ariths uint_word_of_int mod_mult_left_eq)
  ultimately have "uint ((word_of_int q * iv) AND word_of_int (mg - 1)) = (q * ?I) mod mg"
    using mod_mod_cancel[OF dv, of "q * ?I"] mg(1) by (simp only: tb)
  then show ?thesis using d by (simp add: mod_diff_right_eq dvd_eq_mod_eq_0)
qed

lemma even_cands_mem:
  assumes m: "m = 2 ^ w" "w \<le> 64" "g = 2 ^ tz" "tz < w" "mg = 2 ^ (w - tz)" and c: "c = g * c'" "odd c'"
    and iv: "iv = newton_inv (word_of_int (c' mod mg))"
    and "even_cands rest m g mg iv lo hi ts allowed = Some xs"
  shows "set allowed \<subseteq> set xs \<and> (\<forall>x\<in>set xs. x \<in> set allowed \<or> x \<le> hi) \<and>
    (\<forall>t\<in>set ts. \<forall>x. lo \<le> x \<longrightarrow> x \<le> hi \<longrightarrow> (c * x + rest - t) mod m = 0 \<longrightarrow> x \<in> set xs)"
  using assms(9)
proof (induction ts arbitrary: allowed)
  case (Cons t ts)
  have mg: "0 < mg" "m = g * mg" "0 < g" "0 < m" using m by (auto simp: power_add[symmetric])
  let ?r = "(t - rest) mod m"
  have r: "?r smod g = ?r mod g" "?r sdiv g = ?r div g" using smod_pos[of ?r g] mg by simp_all
  have dvd: "g dvd ?r \<and> mg dvd c' * x - ?r div g" if x: "(c * x + rest - t) mod m = 0" for x
  proof -
    have md: "m dvd c * x + rest - t" using x by auto
    have "m dvd c * x - (t - rest)" using md by (simp add: algebra_simps)
    then have "(c * x) mod m = ?r mod m" by (simp add: mod_eq_dvd_iff)
    then have "m dvd c * x - ?r" by (simp add: mod_eq_dvd_iff del: mod_mod_trivial)
    then have "g dvd c * x - ?r" by (rule dvd_trans[rotated]) (simp add: mg(2))
    moreover have "g dvd c * x" using c(1) by simp
    ultimately have "g dvd c * x - (c * x - ?r)" by (rule dvd_diff[rotated])
    then have "g dvd ?r" by simp
    then obtain q where q: "?r = g * q" by blast
    then have "g * mg dvd g * (c' * x - q)" using \<open>m dvd c * x - ?r\<close> mg(2) c(1) by (simp add: algebra_simps)
    then have "mg dvd c' * x - q" using mg(3) by simp
    then show ?thesis using q mg(3) by simp
  qed
  show ?case
  proof (cases "?r smod g = 0")
    case False
    then have "\<not> g dvd ?r" using r(1) by (metis dvd_eq_mod_eq_0)
    then have none: "(c * x + rest - t) mod m \<noteq> 0" for x using dvd[of x] by metis
    have "even_cands rest m g mg iv lo hi ts allowed = Some xs"
      using Cons.prems False by (simp only: even_cands.simps Let_def not_False_eq_True if_True)
    note ih = Cons.IH[OF this]
    have "\<forall>u\<in>set (t # ts). \<forall>x. lo \<le> x \<longrightarrow> x \<le> hi \<longrightarrow> (c * x + rest - u) mod m = 0 \<longrightarrow> x \<in> set xs"
      unfolding list.set(2) using conjunct2[OF conjunct2[OF ih]] none by (metis insert_iff)
    then show ?thesis using conjunct1[OF ih] conjunct1[OF conjunct2[OF ih]] by metis
  next
    case True
    let ?x0 = "uint ((word_of_int (?r sdiv g) * iv) AND word_of_int (mg - 1))"
    obtain ys where ys: "residues (64 - length allowed) (?x0 + ceil_div (lo - ?x0) mg * mg) mg hi = Some ys"
      and rest: "even_cands rest m g mg iv lo hi ts (allowed @ ys) = Some xs"
      using Cons.prems True by (auto simp: Let_def split: option.splits)
    have t: "x \<in> set ys" if "lo \<le> x" "x \<le> hi" "(c * x + rest - t) mod m = 0" for x
      using residues_class[OF ys mg(1) that(1,2)] inverse_cand[OF m(5) _ _ c(2) iv] dvd[OF that(3)] m(2,4) r(2) by simp
    have low: "\<And>x. x \<in> set ys \<Longrightarrow> x \<le> hi" using residues_low[OF ys mg(1)] by simp
    note ih = Cons.IH[OF rest, unfolded set_append]
    note ih3 = conjunct2[OF conjunct2[OF ih]]
    have a: "set allowed \<subseteq> set xs" "set ys \<subseteq> set xs" using ih by simp_all
    have b: "\<forall>x\<in>set xs. x \<in> set allowed \<or> x \<le> hi"
    proof
      fix x assume "x \<in> set xs"
      then have "x \<in> set allowed \<union> set ys \<or> x \<le> hi" by (rule bspec[OF conjunct1[OF conjunct2[OF ih]]])
      then show "x \<in> set allowed \<or> x \<le> hi" using low[of x] by blast
    qed
    have "\<forall>u\<in>set (t # ts). \<forall>x. lo \<le> x \<longrightarrow> x \<le> hi \<longrightarrow> (c * x + rest - u) mod m = 0 \<longrightarrow> x \<in> set xs"
    proof (intro ballI allI impI)
      fix u x assume u: "u \<in> set (t # ts)" and x: "lo \<le> x" "x \<le> hi" "(c * x + rest - u) mod m = 0"
      show "x \<in> set xs"
      proof (cases "u = t")
        case True
        then have "x \<in> set ys" using t[OF x(1,2)] x(3) by metis
        then show ?thesis by (rule subsetD[OF a(2)])
      next
        case False
        then have "u \<in> set ts" using u by simp
        then show ?thesis using ih3 x by metis
      qed
    qed
    then show ?thesis using a(1) b by blast
  qed
qed simp

end
