(* ===== verification/Csp_Wrap_Set.thy ===== *)
theory Csp_Wrap_Set
  imports Csp_Wrap
begin

text \<open>
  The soundness of \<^verbatim>\<open>wrap_set\<close> and \<^verbatim>\<open>wrap_rel\<close>: sets of wrapped values, and relations between two
  operands that wrap.
\<close>

definition wrap_target :: "dom \<Rightarrow> bool \<Rightarrow> nat \<Rightarrow> bool \<Rightarrow> dom" where
  "wrap_target tgt neg w sg = (let (rlo, rhi) = ws_range w sg in if neg then dom_minus [(rlo, rhi)] tgt else dom_clip tgt rlo rhi)"

lemma wrap_target_ok:
  assumes "dom_ok tgt" and "0 < w" and "w \<le> 64"
  shows "dom_ok (wrap_target tgt neg w sg)" 
    and "dom_has (wrap_target tgt neg w sg) (wrapv w sg y) \<longleftrightarrow> dom_has tgt (wrapv w sg y) \<noteq> neg"
proof -
  obtain rlo rhi where r: "ws_range w sg = (rlo, rhi)" by force
  have le: "rlo \<le> rhi" using ws_range_size[OF assms(2,3) r] by simp
  then have one: "dom_ok [(rlo, rhi)]" by simp
  show "dom_ok (wrap_target tgt neg w sg)"
    using minus_ok[OF one assms(1)] clip_ok[OF assms(1)] unfolding wrap_target_def r by (simp del: dom_minus.simps)
  show "dom_has (wrap_target tgt neg w sg) (wrapv w sg y) \<longleftrightarrow> dom_has tgt (wrapv w sg y) \<noteq> neg"
    using minus_has[OF one assms(1), of "wrapv w sg y"] wrapv_range[OF assms(2,3) r, of y]
    by (auto simp: wrap_target_def r clip_has)
qed

lemma dom_ok_iv: "dom_ok d \<Longrightarrow> (l, h) \<in> set d \<Longrightarrow> l \<le> h"
  by (induction d rule: dom_ok.induct) auto

lemma st_hi_max:
  assumes "st_ok s" and "v < length (st_d s)" and "st_bounds s v = (lo, hi)" and "lo \<le> hi"
  shows "hi \<le> i128_max"
proof -
  have ne: "st_d s ! v \<noteq> []" using assms(3,4) by (auto simp: st_bounds_def)
  have ok: "dom_ok (st_d s ! v)" by (rule st_okD(1)[OF assms(1,2)])
  have "last (st_d s ! v) \<in> set (st_d s ! v)" using ne by simp
  moreover have h: "last (st_d s ! v) = (fst (last (st_d s ! v)), hi)"
    using assms(3) ne by (simp add: st_bounds_def Let_def prod_eq_iff)
  ultimately have "(fst (last (st_d s ! v)), hi) \<in> set (st_d s ! v)" by simp
  then have "dom_has (st_d s ! v) hi" using dom_ok_iv[OF ok] by (force simp: dom_has_set)
  then show ?thesis using st_okD(2)[OF assms(1,2)] by blast
qed

text \<open>A variable with coefficient 1 or \<open>- 1\<close>.\<close>

lemma unit_cands:
  assumes w: "0 < w" "w \<le> 64" and r: "ws_range w sg = (rlo, rhi)" and c: "c = 1 \<or> c = - 1"
    and b: "lo \<le> x" "x \<le> hi" and t: "dom_has T (wrapv w sg (c * x + rest))"
    and y: "(ylo, yhi) = (if c = 1 then (lo + rest, hi + rest) else (rest - hi, rest - lo))"
  shows "dom_has (concat (map (\<lambda>j. shifted_cands c rest (2 ^ w) ylo yhi j T)
    [floor_div (ylo - rlo) (2 ^ w)..floor_div (yhi - rlo) (2 ^ w)])) x"
proof -
  let ?m = "2 ^ w :: int" and ?y = "c * x + rest"
  let ?j = "(?y - rlo) div ?m"
  have y: "ylo \<le> ?y" "?y \<le> yhi" using y b c by (auto split: if_splits)
  then have "floor_div (ylo - rlo) ?m \<le> ?j" "?j \<le> floor_div (yhi - rlo) ?m"
    by (simp_all add: floor_div_div zdiv_mono1)
  then have j: "?j \<in> set [floor_div (ylo - rlo) ?m..floor_div (yhi - rlo) ?m]" by simp
  have "?y - ?j * ?m = wrapv w sg ?y" using wrapv_split[OF w r, of ?y] by simp
  then have "dom_has (shifted_cands c rest ?m ylo yhi ?j T) x" using y t shifted_has[OF c] by simp
  then show ?thesis using j unfolding concat_has by (metis (no_types, lifting) image_eqI list.set_map)
qed

lemma shifted_low:
  assumes "(a, b) \<in> set (shifted_cands c rest m ylo yhi j T)" and "c = 1 \<or> c = - 1"
    and y: "(ylo, yhi) = (if c = 1 then (lo + rest, hi + rest) else (rest - hi, rest - lo))"
  shows "a \<le> hi"
proof -
  have "a \<le> b" by (rule shifted_bound[OF assms(1)])
  then have "dom_has (shifted_cands c rest m ylo yhi j T) a" using assms(1) by (force simp: dom_has_set)
  then have "ylo \<le> c * a + rest" "c * a + rest \<le> yhi" using shifted_has[OF assms(2)] by auto
  then show ?thesis using y assms(2) by (auto split: if_splits)
qed

text \<open>The set of the values whose wrapped value is wanted.\<close>

lemma in_values: "t \<in> set (concat (map (\<lambda>(a, b). [a..b]) d)) \<longleftrightarrow> dom_has d t"
  by (auto simp: dom_has_set)

lemma tz_power: "m = trailing_zeros 128 c \<Longrightarrow> 2 ^ m dvd c"
  using tz_dvd by blast

lemma wrapv_cong: "2 ^ w dvd y - z \<Longrightarrow> wrapv w sg y = wrapv w sg z"
proof -
  assume "2 ^ w dvd y - z"
  then have "2 ^ w dvd (y - fst (ws_range w sg)) - (z - fst (ws_range w sg))" by simp
  then show ?thesis by (simp add: wrapv_mod mod_eq_dvd_iff)
qed

lemma even_case:
  assumes w: "w \<le> 64" and tz: "tz = trailing_zeros 128 c" "tz < w" and c: "c \<noteq> 0" "\<bar>c\<bar> \<le> coef_max"
    and xs: "even_cands rest (2 ^ w) (2 ^ tz) (2 ^ w div 2 ^ tz)
      (newton_inv (word_of_int ((c div 2 ^ tz) mod (2 ^ w div 2 ^ tz)))) lo hi ts [] = Some xs"
  shows "\<forall>x\<in>set xs. x \<le> hi"
    and "t \<in> set ts \<Longrightarrow> lo \<le> x \<Longrightarrow> x \<le> hi \<Longrightarrow> (c * x + rest - t) mod 2 ^ w = 0 \<Longrightarrow> x \<in> set xs"
proof -
  have mg: "(2 :: int) ^ w div 2 ^ tz = 2 ^ (w - tz)" using tz(2) by (simp add: power_diff)
  have "\<bar>c\<bar> < 2 ^ 128" using c(2) by (simp add: coef_max_def)
  then have o': "odd (c div 2 ^ tz)" using tz_odd[OF c(1)] tz(1) by simp
  have cc: "c = 2 ^ tz * (c div 2 ^ tz)" using tz_dvd[of 128 c] tz(1) by simp
  note m = even_cands_mem[OF refl w refl tz(2) mg cc o' refl xs]
  show "\<forall>x\<in>set xs. x \<le> hi" using m by simp
  show "x \<in> set xs" if "t \<in> set ts" "lo \<le> x" "x \<le> hi" "(c * x + rest - t) mod 2 ^ w = 0"
    using conjunct2[OF conjunct2[OF m]] that by metis
qed

lemma wrap_set_sound:
  assumes eq: "wrap_set l tgt neg w sg s = Some r" and s: "st_ok s" "vars_in s l" "lin_ok l" and tgt: "dom_ok tgt"
  shows "sound (\<lambda>\<sigma>. dom_has tgt (wrapv w sg (lin_val \<sigma> l)) \<noteq> neg) s r"
proof -
  let ?T = "wrap_target tgt neg w sg" and ?A = "\<lambda>\<sigma>. dom_has tgt (wrapv w sg (lin_val \<sigma> l)) \<noteq> neg"
  obtain rlo rhi where r: "ws_range w sg = (rlo, rhi)" by force
  have w: "0 < w" "w \<le> 64" using eq by (auto simp: wrap_set_def split: if_splits)
  obtain fr rest where of': "one_free s (lin_t l) None (lin_k l) = Some (fr, rest)"
    using eq r by (cases "one_free s (lin_t l) None (lin_k l)") (auto simp: wrap_set_def Let_def split: if_splits)
  note val = one_free_lin[OF of' _ s(2)]
  have T: "?T = (if neg then dom_minus [(rlo, rhi)] tgt else dom_clip tgt rlo rhi)" by (simp add: wrap_target_def r)
  have A: "dom_has ?T (wrapv w sg (free_val \<sigma> fr + rest))" if "admits s \<sigma>" "?A \<sigma>" for \<sigma>
    using that val wrap_target_ok(2)[OF tgt w] by simp
  have eqT: "wrap_set l tgt neg w sg s =
    (case fr of
       None \<Rightarrow> Some (dom_has ?T (wrapv w sg rest), s)
     | Some (v, c) \<Rightarrow>
         let (lo, hi) = st_bounds s v
         in if lo > hi then Some (False, s)
            else if c = 1 \<or> c = - 1
            then (let (ylo, yhi) = (if c = 1 then (lo + rest, hi + rest) else (rest - hi, rest - lo));
                      j0 = floor_div (ylo - rlo) (2 ^ w); j1 = floor_div (yhi - rlo) (2 ^ w)
                  in if j1 - j0 > 8 then None
                     else let allowed = concat (map (\<lambda>j. shifted_cands c rest (2 ^ w) ylo yhi j ?T) [j0..j1])
                          in Some (st_set v (dom_meet (st_d s ! v) (dom_norm allowed)) s))
            else if dom_size ?T > 64 then None
            else let tz = min (trailing_zeros 128 c) w
                 in if tz = w then Some (dom_has ?T (wrapv w sg rest), s)
                    else map_option (\<lambda>xs. st_set v (dom_meet (st_d s ! v) (dom_norm (points xs))) s)
                           (even_cands rest (2 ^ w) (2 ^ tz) (2 ^ w div 2 ^ tz)
                             (newton_inv (word_of_int ((c div 2 ^ tz) mod (2 ^ w div 2 ^ tz)))) lo hi
                             (concat (map (\<lambda>(a, b). [a..b]) ?T)) []))"
    using w unfolding wrap_set_def Let_def r of' option.case prod.case T[symmetric] wrapv_mod fst_conv by simp
  have all: "sound ?A s (dom_has ?T (wrapv w sg rest), s)"
    if "\<And>\<sigma>. admits s \<sigma> \<Longrightarrow> wrapv w sg (free_val \<sigma> fr + rest) = wrapv w sg rest"
    using A that s(1) by (auto simp: sound_def keeps_def narrows_refl)
  show ?thesis
  proof (cases fr)
    case None
    then show ?thesis using all eq eqT by (simp add: free_val_def)
  next
    case (Some vc)
    obtain v c where vc: "fr = Some (v, c)" using Some by force
    obtain lo hi where b: "st_bounds s v = (lo, hi)" by force
    have v: "v < length (st_d s)" "c \<noteq> 0" "\<bar>c\<bar> \<le> coef_max" using one_free_var[OF _ s(2,3)] of' by (simp_all add: vc)
    note bo = bounds_ok[OF s(1) _ v(1) b]
    note eqS = eq[unfolded eqT vc, simplified b option.case prod.case Let_def]
    show ?thesis
    proof (cases "lo > hi")
      case True
      have "\<not> admits s \<sigma>" for \<sigma> using bo[of \<sigma>] True by linarith
      then show ?thesis using eqS True by (auto simp: intro!: sound_false s(1))
    next
      case False
      then have hi: "hi \<le> i128_max" using st_hi_max[OF s(1) v(1) b] by simp
      show ?thesis
      proof (cases "c = 1 \<or> c = - 1")
        case c: True
        obtain ylo yhi where y: "(ylo, yhi) = (if c = 1 then (lo + rest, hi + rest) else (rest - hi, rest - lo))" by force
        let ?al = "concat (map (\<lambda>j. shifted_cands c rest (2 ^ w) ylo yhi j ?T)
          [floor_div (ylo - rlo) (2 ^ w)..floor_div (yhi - rlo) (2 ^ w)])"
        have rr: "r = st_set v (dom_meet (st_d s ! v) (dom_norm ?al)) s"
          using eqS False c unfolding y[symmetric] by (simp split: if_splits)
        show ?thesis unfolding rr
        proof (rule meet_sound[OF s(1) v(1)])
          show "dom_ok (dom_norm ?al)" using shifted_low[OF _ c y] hi by (intro norm_ok) fastforce
          show "dom_has (dom_norm ?al) (\<sigma> v)" if "admits s \<sigma>" "?A \<sigma>" for \<sigma>
            using unit_cands[OF w r c bo[OF that(1)] _ y] A[OF that] unfolding vc norm_has dom_has_set[symmetric]
            by (simp add: free_val_def)
        qed
      next
        case c: False
        have small: "\<not> dom_size ?T > 64" using eqS False c by (simp split: if_splits)
        show ?thesis
        proof (cases "min (trailing_zeros 128 c) w = w")
          case True
          then have "2 ^ w dvd c" using tz_dvd[of 128 c] le_imp_power_dvd[of w "trailing_zeros 128 c" "2 :: int"]
            by (metis dvd_trans min.absorb_iff2)
          then show ?thesis using all eqS False c True small by (simp add: vc free_val_def wrapv_cong)
        next
          case tz: False
          then have tz: "min (trailing_zeros 128 c) w = trailing_zeros 128 c" "trailing_zeros 128 c < w" by auto
          obtain xs where xs: "even_cands rest (2 ^ w) (2 ^ trailing_zeros 128 c) (2 ^ w div 2 ^ trailing_zeros 128 c)
              (newton_inv (word_of_int ((c div 2 ^ trailing_zeros 128 c) mod (2 ^ w div 2 ^ trailing_zeros 128 c)))) lo hi
              (concat (map (\<lambda>(a, b). [a..b]) ?T)) [] = Some xs"
            and rr: "r = st_set v (dom_meet (st_d s ! v) (dom_norm (points xs))) s"
            using eqS False c small tz by auto
          note ev = even_case[OF w(2) refl tz(2) v(2,3) xs]
          show ?thesis unfolding rr
          proof (rule meet_sound[OF s(1) v(1)])
            show "dom_ok (dom_norm (points xs))" using ev(1) hi by (intro points_norm_ok) fastforce
            show "dom_has (dom_norm (points xs)) (\<sigma> v)" if "admits s \<sigma>" "?A \<sigma>" for \<sigma>
            proof -
              let ?y = "c * \<sigma> v + rest"
              have "dom_has ?T (wrapv w sg ?y)" using A[OF that] by (simp add: vc free_val_def)
              moreover have "(?y - wrapv w sg ?y) mod 2 ^ w = 0" using wrapv_split[OF w r, of ?y] by (metis add_diff_cancel_left' mod_mult_self2_is_0)
              ultimately have "\<sigma> v \<in> set xs" by (intro ev(2)[OF in_values[THEN iffD2] bo[OF that(1)]])
              then show ?thesis by simp
            qed
          qed
        qed
      qed
    qed
  qed
qed

text \<open>The relation between the wrapped operands of a node.\<close>

definition wrapped_rel :: "lin \<Rightarrow> rel \<Rightarrow> fit list \<Rightarrow> wrap \<Rightarrow> (nat \<Rightarrow> int) \<Rightarrow> bool" where
  "wrapped_rel l rl fits wr \<sigma> =
     (let la = fit_lin (fits ! wr_n wr); lb = fit_lin (fits ! (wr_n wr + 1)); sg = wr_sg wr;
          delta = lin_k l - sg * (lin_k la - lin_k lb)
      in rel_holds rl (sg * (wrapv (wr_w wr) (wr_s wr) (lin_val \<sigma> la) - wrapv (wr_w wr) (wr_s wr) (lin_val \<sigma> lb)) + delta))"

definition rel_target :: "rel \<Rightarrow> int \<Rightarrow> int \<Rightarrow> int \<Rightarrow> int \<Rightarrow> bool \<Rightarrow> int \<Rightarrow> dom \<times> bool" where
  "rel_target rl sg rlo rhi delta left k =
     (case rl of
        RelLe \<Rightarrow>
          let up = ((sg = 1) = left); (a, b) = (if up then (rlo, k - delta) else (k + delta, rhi))
          in (if a \<le> b then [(a, b)] else [], False)
      | _ \<Rightarrow> let t = (if left then k - sg * delta else k + sg * delta) in ([(t, t)], rl = RelNe))"

lemma rel_target_ok:
  assumes "rel_target rl sg rlo rhi delta left k = (tgt, neg)" and "sg = 1 \<or> sg = - 1" and "rlo \<le> y" "y \<le> rhi"
  shows "dom_ok tgt"
    and "dom_has tgt y \<noteq> neg \<longleftrightarrow> rel_holds rl (sg * (if left then y - k else k - y) + delta)"
  using assms by (auto simp: rel_target_def rel_holds_def Let_def split: rel.splits if_splits)

lemma wrap_rel_sound:
  assumes eq: "wrap_rel l rl fits wr s = Some r" and s: "st_ok s" and sg: "wr_sg wr = 1 \<or> wr_sg wr = - 1"
    and f: "\<forall>f\<in>set fits. vars_in s (fit_lin f) \<and> lin_ok (fit_lin f)"
  shows "sound (wrapped_rel l rl fits wr) s r"
proof -
  define la lb w where "la = fit_lin (fits ! wr_n wr)" and "lb = fit_lin (fits ! (wr_n wr + 1))" and "w = wr_w wr"
  define delta where "delta = lin_k l - wr_sg wr * (lin_k la - lin_k lb)"
  obtain rlo rhi where r: "ws_range w (wr_s wr) = (rlo, rhi)" by force
  let ?wv = "wrapv w (wr_s wr)"
  let ?go = "\<lambda>x k left. case rel_target rl (wr_sg wr) rlo rhi delta left k of (tgt, neg) \<Rightarrow> wrap_set x tgt neg w (wr_s wr) s"
  have n: "wr_n wr + 1 < length fits" and w: "0 < w" "w \<le> 64" using eq by (auto simp: wrap_rel_def w_def Let_def split: if_splits)
  have ok: "vars_in s la" "lin_ok la" "vars_in s lb" "lin_ok lb" using f n by (auto simp: la_def lb_def)
  have eqR: "Some r = (case (fixed_val s la, fixed_val s lb) of
      (Some a, Some b) \<Rightarrow> Some (rel_holds rl (wr_sg wr * (?wv a - ?wv b) + delta), s)
    | (None, Some b) \<Rightarrow> ?go la (?wv b) True
    | (Some a, None) \<Rightarrow> ?go lb (?wv a) False
    | (None, None) \<Rightarrow> None)"
    using eq n w r unfolding wrap_rel_def rel_target_def la_def[symmetric] lb_def[symmetric] w_def[symmetric] Let_def delta_def
    by simp
  have A: "wrapped_rel l rl fits wr \<sigma> \<longleftrightarrow> rel_holds rl (wr_sg wr * (?wv (lin_val \<sigma> la) - ?wv (lin_val \<sigma> lb)) + delta)" for \<sigma>
    unfolding wrapped_rel_def Let_def la_def[symmetric] lb_def[symmetric] w_def[symmetric] delta_def ..
  note range = wrapv_range[OF w r]
  have go: "sound (wrapped_rel l rl fits wr) s r"
    if "Some r = ?go x k left" "vars_in s x" "lin_ok x"
      "\<And>\<sigma>. admits s \<sigma> \<Longrightarrow> wrapped_rel l rl fits wr \<sigma> \<longleftrightarrow>
        rel_holds rl (wr_sg wr * (if left then ?wv (lin_val \<sigma> x) - k else k - ?wv (lin_val \<sigma> x)) + delta)" for x k left
  proof -
    obtain tgt neg where t: "rel_target rl (wr_sg wr) rlo rhi delta left k = (tgt, neg)" by force
    have "sound (\<lambda>\<sigma>. dom_has tgt (?wv (lin_val \<sigma> x)) \<noteq> neg) s r"
      using that(1) t by (intro wrap_set_sound s that(2,3) rel_target_ok(1)[OF t sg range]) simp
    then show ?thesis using rel_target_ok(2)[OF t sg range] that(4) by (auto elim: sound_weaken)
  qed
  show ?thesis
  proof (cases "fixed_val s la")
    case None
    then obtain b where b: "fixed_val s lb = Some b" using eqR by (cases "fixed_val s lb") auto
    show ?thesis using eqR None b fixed_val_lin[OF b _ ok(3)] by (intro go[where x = la and k = "?wv b" and left = True] ok) (auto simp: A)
  next
    case a: (Some a)
    show ?thesis
    proof (cases "fixed_val s lb")
      case None
      show ?thesis using eqR None a fixed_val_lin[OF a _ ok(1)] by (intro go[where x = lb and k = "?wv a" and left = False] ok) (auto simp: A)
    next
      case (Some b)
      then have "r = (rel_holds rl (wr_sg wr * (?wv a - ?wv b) + delta), s)" using eqR a by simp
      then show ?thesis
        using fixed_val_lin[OF a _ ok(1)] fixed_val_lin[OF Some _ ok(3)] s by (auto simp: A sound_def keeps_def narrows_refl)
    qed
  qed
qed

end
