(* ===== verification/Csp_Sem.thy ===== *)
theory Csp_Sem
  imports Csp_Wrap_Set
begin

text \<open>
  What the nodes of the constraint solver mean, and that \<open>csp_status\<close> judges them right.  A node
  stands for a source constraint that the interpreter evaluates; \<open>node_law\<close> collects what the code
  relies on: that the linear form, the set or the comparison kept beside a source agrees with the
  interpreter wherever the node's ranges hold, and that a source depends on its variables alone.
  \<open>L\<close> are the assignments in which the variables the solver adds (carries, counts) have the values
  that define them.
\<close>

type_synonym asg = "nat \<Rightarrow> int"

fun csp_holds :: "csp \<Rightarrow> csp_node \<Rightarrow> asg \<Rightarrow> bool" where
  "csp_holds P NTrue \<sigma> = True"
| "csp_holds P NFalse \<sigma> = False"
| "csp_holds P (NLin l rl fits src sneg wr) \<sigma> = (ev_holds P src \<sigma> \<noteq> sneg)"
| "csp_holds P (NIn l tgt neg fits src wr) \<sigma> = (ev_holds P src \<sigma> \<noteq> neg)"
| "csp_holds P (NAllDiff vs) \<sigma> = distinct (map \<sigma> vs)"
| "csp_holds P (NPop x c w) \<sigma> = (\<sigma> c = ones_at (\<sigma> x) w)"
| "csp_holds P (NEval src neg) \<sigma> = (ev_holds P src \<sigma> \<noteq> neg)"
| "csp_holds P (NFun var cop other whole neg) \<sigma> = (ev_holds P whole \<sigma> \<noteq> neg)"
| "csp_holds P (NAnd ns) \<sigma> = (\<forall>n\<in>set ns. csp_holds P n \<sigma>)"
| "csp_holds P (NOr ns) \<sigma> = (\<exists>n\<in>set ns. csp_holds P n \<sigma>)"
| "csp_holds P (NIf cond ncond thn els) \<sigma> = (if csp_holds P cond \<sigma> then csp_holds P thn \<sigma> else csp_holds P els \<sigma>)"

fun cmp_holds :: "cmp_op \<Rightarrow> int \<Rightarrow> int \<Rightarrow> bool" where
  "cmp_holds OpEq x k = (x = k)"
| "cmp_holds OpCaseEq x k = (x = k)"
| "cmp_holds OpNeq x k = (x \<noteq> k)"
| "cmp_holds OpCaseNeq x k = (x \<noteq> k)"
| "cmp_holds OpLt x k = (x < k)"
| "cmp_holds OpLeq x k = (x \<le> k)"
| "cmp_holds OpGt x k = (x > k)"
| "cmp_holds OpGeq x k = (x \<ge> k)"

section \<open>The contract of the nodes\<close>

definition fit_in :: "asg \<Rightarrow> fit \<Rightarrow> bool" where
  "fit_in \<sigma> f \<longleftrightarrow> fit_lo f \<le> lin_val \<sigma> (fit_lin f) \<and> lin_val \<sigma> (fit_lin f) \<le> fit_hi f"

definition fits_in_mod :: "asg \<Rightarrow> fit list \<Rightarrow> wrap \<Rightarrow> bool" where
  "fits_in_mod \<sigma> fits wr \<longleftrightarrow> (\<forall>f\<in>set (take (wr_n wr) fits). fit_modw f \<ge> wr_w wr \<or> fit_in \<sigma> f)"

definition form_ok :: "nat \<Rightarrow> lin \<Rightarrow> bool" where
  "form_ok nv l \<longleftrightarrow> lin_ok l \<and> (\<forall>v\<in>fst ` set (lin_t l). v < nv)"

text \<open>A source reads the variables it lists; its \<^verbatim>\<open>to_u64\<close> is a \<^verbatim>\<open>u64\<close>.\<close>

definition src_law :: "csp \<Rightarrow> nat \<Rightarrow> nat \<Rightarrow> bool" where
  "src_law P nv src \<longleftrightarrow> (\<forall>v\<in>set (cs_deps P ! src). v < nv) \<and>
     (\<forall>\<sigma>. case cv_u64 (ev_value P src \<sigma>) of None \<Rightarrow> True | Some x \<Rightarrow> x < 2 ^ 64) \<and>
     (\<forall>\<sigma> \<tau>. (\<forall>v\<in>set (cs_deps P ! src). \<sigma> v = \<tau> v) \<longrightarrow>
        ev_holds P src \<sigma> = ev_holds P src \<tau> \<and> ev_value P src \<sigma> = ev_value P src \<tau>)"

definition lin_law :: "csp \<Rightarrow> (asg \<Rightarrow> bool) \<Rightarrow> lin \<Rightarrow> rel \<Rightarrow> fit list \<Rightarrow> nat \<Rightarrow> bool \<Rightarrow> wrap option \<Rightarrow> bool" where
  "lin_law P L l rl fits src sneg wr \<longleftrightarrow>
     (case wr of None \<Rightarrow> True | Some wr \<Rightarrow> wr_sg wr = 1 \<or> wr_sg wr = - 1) \<and>
     (\<forall>\<sigma>. L \<sigma> \<longrightarrow>
        ((\<forall>f\<in>set fits. fit_in \<sigma> f) \<longrightarrow> (ev_holds P src \<sigma> \<noteq> sneg) = rel_holds rl (lin_val \<sigma> l)) \<and>
        (case wr of None \<Rightarrow> True
         | Some wr \<Rightarrow> fits_in_mod \<sigma> fits wr \<longrightarrow>
             (ev_holds P src \<sigma> \<noteq> sneg) =
               (if rl = RelEq then 2 ^ wr_w wr dvd lin_val \<sigma> l else wrapped_rel l rl fits wr \<sigma>)))"

definition in_law :: "csp \<Rightarrow> (asg \<Rightarrow> bool) \<Rightarrow> lin \<Rightarrow> dom \<Rightarrow> bool \<Rightarrow> fit list \<Rightarrow> nat \<Rightarrow> wrap option \<Rightarrow> bool" where
  "in_law P L l tgt neg fits src wr \<longleftrightarrow> (\<forall>\<sigma>. L \<sigma> \<longrightarrow>
     ((\<forall>f\<in>set fits. fit_in \<sigma> f) \<longrightarrow> (ev_holds P src \<sigma> \<noteq> neg) = (dom_has tgt (lin_val \<sigma> l) \<noteq> neg)) \<and>
     (case wr of None \<Rightarrow> True
      | Some wr \<Rightarrow> fits_in_mod \<sigma> fits wr \<longrightarrow>
          (ev_holds P src \<sigma> \<noteq> neg) = (dom_has tgt (wrapv (wr_w wr) (wr_s wr) (lin_val \<sigma> l)) \<noteq> neg)))"

text \<open>
  A comparison with a known value, as the variable compares with it.  Where the object has rand
  sub-objects, \<open>node_law\<close> asks that no signed value is compared with an unsigned variable: the code
  sign-extends the value there (\<open>combo_value\<close>) and zero-extends it elsewhere (\<open>fun_value\<close>).
\<close>

definition fun_law :: "csp \<Rightarrow> (asg \<Rightarrow> bool) \<Rightarrow> nat \<Rightarrow> cmp_op \<Rightarrow> nat \<Rightarrow> nat \<Rightarrow> bool \<Rightarrow> bool" where
  "fun_law P L var cop other whole neg \<longleftrightarrow> (\<forall>\<sigma>. L \<sigma> \<longrightarrow> (let c = ev_value P other \<sigma> in
     (cv_unknown c \<longrightarrow> ev_holds P whole \<sigma> = neg) \<and>
     (\<not> cv_unknown c \<longrightarrow> cv_width c \<le> 64 \<longrightarrow> cv_u64 c \<noteq> None) \<and>
     (\<forall>lo k. lo \<le> \<sigma> var \<longrightarrow> \<not> cv_unknown c \<longrightarrow> fun_value (cs_width P ! var) (cs_signed P ! var) lo c = Some k \<longrightarrow>
        (ev_holds P whole \<sigma> \<noteq> neg) = cmp_holds cop (\<sigma> var) k)))"

fun node_law :: "csp \<Rightarrow> nat \<Rightarrow> (asg \<Rightarrow> bool) \<Rightarrow> csp_node \<Rightarrow> bool" where
  "node_law P nv L NTrue = True"
| "node_law P nv L NFalse = True"
| "node_law P nv L (NLin l rl fits src sneg wr) =
     (form_ok nv l \<and> (\<forall>f\<in>set fits. form_ok nv (fit_lin f)) \<and> src_law P nv src \<and> lin_law P L l rl fits src sneg wr)"
| "node_law P nv L (NIn l tgt neg fits src wr) =
     (form_ok nv l \<and> (\<forall>f\<in>set fits. form_ok nv (fit_lin f)) \<and> src_law P nv src \<and>
      dom_ok tgt \<and> (\<forall>x. dom_has tgt x \<longrightarrow> - big \<le> x \<and> x \<le> big) \<and> in_law P L l tgt neg fits src wr)"
| "node_law P nv L (NAllDiff vs) = ((\<forall>v\<in>set vs. v < nv) \<and> length vs \<le> u128_max)"
| "node_law P nv L (NPop x c w) = (x < nv \<and> c < nv \<and> x \<noteq> c \<and> w \<le> 64 \<and> (\<forall>\<sigma>. L \<sigma> \<longrightarrow> \<sigma> x < 2 ^ w))"
| "node_law P nv L (NEval src neg) = src_law P nv src"
| "node_law P nv L (NFun var cop other whole neg) =
     (var < nv \<and> src_law P nv other \<and> src_law P nv whole \<and> fun_law P L var cop other whole neg \<and>
      (\<forall>\<sigma>. L \<sigma> \<longrightarrow> - big \<le> \<sigma> var \<and> \<sigma> var \<le> big) \<and>
      (cs_has_subs P \<longrightarrow> \<not> cs_signed P ! var \<longrightarrow> (\<forall>\<sigma>. L \<sigma> \<longrightarrow> \<not> cv_signed (ev_value P other \<sigma>))))"
| "node_law P nv L (NAnd ns) = (\<forall>n\<in>set ns. node_law P nv L n)"
| "node_law P nv L (NOr ns) = (\<forall>n\<in>set ns. node_law P nv L n)"
| "node_law P nv L (NIf cond ncond thn els) =
     (node_law P nv L cond \<and> node_law P nv L ncond \<and> node_law P nv L thn \<and> node_law P nv L els \<and>
      (\<forall>\<sigma>. L \<sigma> \<longrightarrow> csp_holds P ncond \<sigma> = (\<not> csp_holds P cond \<sigma>)))"

section \<open>The judgement\<close>

abbreviation state_of :: "nat \<Rightarrow> st \<Rightarrow> bool" where
  "state_of nv s \<equiv> st_ok s \<and> length (st_d s) = nv"

lemma form_in: "form_ok nv l \<Longrightarrow> length (st_d s) = nv \<Longrightarrow> vars_in s l \<and> lin_ok l"
  by (simp add: form_ok_def vars_in_def)

lemma fit_holds_in:
  assumes "fit_holds s f" and "state_of nv s" and "admits s \<sigma>" and "form_ok nv (fit_lin f)"
  shows "fit_in \<sigma> f"
proof -
  obtain lo hi where b: "lin_bounds s (fit_lin f) = (lo, hi)" by force
  show ?thesis
    using lin_bounds_ok[OF _ assms(3) _ b] form_in[OF assms(4)] assms(1,2) b by (fastforce simp: fit_in_def fit_holds_def)
qed

lemma fits_hold_in:
  assumes "fits_hold s fits" and "state_of nv s" and "admits s \<sigma>" and "\<forall>f\<in>set fits. form_ok nv (fit_lin f)"
  shows "\<forall>f\<in>set fits. fit_in \<sigma> f"
  using assms fit_holds_in[OF _ assms(2,3)] by (simp add: fits_hold_def list_all_iff)

lemma fits_mod_in:
  assumes "fits_hold_mod s (take (wr_n wr) fits) (wr_w wr)" and "state_of nv s" and "admits s \<sigma>"
    and "\<forall>f\<in>set fits. form_ok nv (fit_lin f)"
  shows "fits_in_mod \<sigma> fits wr"
  using assms fit_holds_in[OF _ assms(2,3)] in_set_takeD[of _ "wr_n wr" fits]
  by (fastforce simp: fits_hold_mod_def fits_in_mod_def list_all_iff)

lemma written_eq: "all_fixed s vs \<Longrightarrow> \<forall>v\<in>set vs. v < length (st_d s) \<Longrightarrow> admits s \<sigma> \<Longrightarrow> v \<in> set vs \<Longrightarrow> written s v = \<sigma> v"
  using fixed_val_eq[of s \<sigma> v] by (force simp: all_fixed_def list_all_iff written_def)

lemma eval_fixed:
  assumes "src_fixed P s src" and "src_law P nv src" and "state_of nv s" and "admits s \<sigma>"
  shows "eval_src P s src = ev_holds P src \<sigma>" "ev_value P src (written s) = ev_value P src \<sigma>"
proof -
  have "\<forall>v\<in>set (cs_deps P ! src). written s v = \<sigma> v"
    using assms written_eq[of s "cs_deps P ! src" \<sigma>] by (auto simp: src_fixed_def src_law_def)
  then show "eval_src P s src = ev_holds P src \<sigma>" "ev_value P src (written s) = ev_value P src \<sigma>"
    using assms(2) by (auto simp: eval_src_def src_law_def)
qed

lemma status_lin_sound:
  assumes "status_lin P s l rl fits src sneg = Some b" and "node_law P nv L (NLin l rl fits src sneg wr)"
    and s: "state_of nv s" "admits s \<sigma>" and "L \<sigma>"
  shows "(ev_holds P src \<sigma> \<noteq> sneg) = b"
proof (cases "fits_hold s fits")
  case True
  obtain lo hi where b: "lin_bounds s l = (lo, hi)" by force
  have "lo \<le> lin_val \<sigma> l" "lin_val \<sigma> l \<le> hi" using lin_bounds_ok[OF _ s(2) _ b] s form_in[of nv l s] assms(2) by auto
  moreover have "(ev_holds P src \<sigma> \<noteq> sneg) = rel_holds rl (lin_val \<sigma> l)"
    using fits_hold_in[OF True s] assms(2,5) by (simp add: lin_law_def)
  ultimately show ?thesis
    using assms(1) True b by (auto simp: status_lin_def rel_holds_def split: rel.splits if_splits)
next
  case False
  then show ?thesis using assms eval_fixed(1)[OF _ _ s] by (auto simp: status_lin_def split: if_splits)
qed

lemma clip_empty: "dom_clip d lo hi = [] \<Longrightarrow> dom_has d x \<Longrightarrow> \<not> (lo \<le> x \<and> x \<le> hi)"
  using clip_has[of d lo hi x] by auto

lemma status_in_sound:
  assumes "status_in P s l tgt neg fits src = Some b" and "node_law P nv L (NIn l tgt neg fits src wr)"
    and s: "state_of nv s" "admits s \<sigma>" and "L \<sigma>"
  shows "(ev_holds P src \<sigma> \<noteq> neg) = b"
proof (cases "fits_hold s fits")
  case True
  obtain lo hi where b: "lin_bounds s l = (lo, hi)" by force
  have v: "lo \<le> lin_val \<sigma> l" "lin_val \<sigma> l \<le> hi" using lin_bounds_ok[OF _ s(2) _ b] s form_in[of nv l s] assms(2) by auto
  have "dom_has tgt (lin_val \<sigma> l)" if ex: "list_ex (\<lambda>(l, h). l \<le> lo \<and> hi \<le> h) tgt"
  proof -
    obtain x y where "(x, y) \<in> set tgt" "x \<le> lo" "hi \<le> y" using ex by (auto simp: list_ex_iff)
    then show ?thesis using v unfolding dom_has_set by (intro bexI[of _ "(x, y)"]) auto
  qed
  then have "(dom_has tgt (lin_val \<sigma> l) \<noteq> neg) = b"
    using assms(1) True b v clip_empty[of tgt lo hi "lin_val \<sigma> l"] by (auto simp: status_in_def split: if_splits)
  then show ?thesis using fits_hold_in[OF True s] assms(2,5) by (simp add: in_law_def)
next
  case False
  then show ?thesis using assms eval_fixed(1)[OF _ _ s] by (auto simp: status_in_def split: if_splits)
qed

lemma status_alldiff:
  assumes "all_fixed s vs" and "\<forall>v\<in>set vs. v < length (st_d s)" and "admits s \<sigma>"
  shows "map (\<lambda>v. the (st_fixed s v)) vs = map \<sigma> vs"
  using assms fixed_val_eq[OF assms(3)] by (force simp: all_fixed_def list_all_iff)

lemma status_all_none: "status_all P ns False s \<noteq> Some True" "status_any P ns False s \<noteq> Some False"
  by (induction ns) (auto split: option.splits bool.splits)

lemma status_sound:
  shows "csp_status P n s = Some b \<Longrightarrow> node_law P nv L n \<Longrightarrow> state_of nv s \<Longrightarrow> admits s \<sigma> \<Longrightarrow> L \<sigma> \<Longrightarrow> csp_holds P n \<sigma> = b"
    and "status_all P ns al s = Some b \<Longrightarrow> \<forall>n\<in>set ns. node_law P nv L n \<Longrightarrow> state_of nv s \<Longrightarrow> admits s \<sigma> \<Longrightarrow> L \<sigma> \<Longrightarrow>
      (\<forall>n\<in>set ns. csp_holds P n \<sigma>) = b"
    and "status_any P ns no s = Some b \<Longrightarrow> \<forall>n\<in>set ns. node_law P nv L n \<Longrightarrow> state_of nv s \<Longrightarrow> admits s \<sigma> \<Longrightarrow> L \<sigma> \<Longrightarrow>
      (\<exists>n\<in>set ns. csp_holds P n \<sigma>) = b"
proof (induction P n s and P ns al s and P ns no s arbitrary: b and b and b
    rule: csp_status_status_all_status_any.induct)
  case (3 P l rl fits src sneg wr s)
  then show ?case using status_lin_sound[of P s l rl fits src sneg b nv L wr \<sigma>] by simp
next
  case (4 P l tgt neg fits src wr s)
  then show ?case using status_in_sound[of P s l tgt neg fits src b nv L wr \<sigma>] by simp
next
  case (5 P x c w s)
  then have v: "x < length (st_d s)" "c < length (st_d s)" by auto
  obtain k where k: "st_fixed s x = Some k" using 5(1) by (auto split: option.splits)
  have x: "\<sigma> x = k" by (rule fixed_val_eq[OF 5(4) v(1) k])
  have c: "dom_has (st_d s ! c) (\<sigma> c)" using 5(4) v by (simp add: admits_def)
  show ?case
  proof (cases "st_fixed s c")
    case None
    then show ?thesis using 5(1) k c x by (auto split: if_splits)
  next
    case (Some y)
    then have "dom_has (st_d s ! c) z \<longleftrightarrow> z = \<sigma> c" for z
      using fixed_val_eq[OF 5(4) v(2) Some] dom_fixed_has[of "st_d s ! c" y] by (simp add: st_fixed_def)
    then show ?thesis using 5(1) k x Some by (auto split: if_splits)
  qed
next
  case (6 P vs s)
  then have f: "all_fixed s vs" "b = distinct (map (\<lambda>v. the (st_fixed s v)) vs)" by (auto split: if_splits)
  show ?case using f(2) 6 status_alldiff[OF f(1), of \<sigma>] by (simp del: map_eq_conv)
next
  case (7 P src neg s)
  then show ?case using eval_fixed(1)[of P s src nv \<sigma>] by (auto split: if_splits)
next
  case (8 P var cop other whole neg s)
  then show ?case using eval_fixed(1)[of P s whole nv \<sigma>] by (auto split: if_splits)
next
  case (11 P cond ncond thn els s)
  show ?case
  proof (cases "csp_status P cond s")
    case None
    then have t: "csp_status P thn s = Some b" "csp_status P els s = Some b" using 11(6) by (auto simp: Let_def split: if_splits)
    then show ?thesis using 11 None by simp
  next
    case (Some c)
    then show ?thesis using 11 by (cases c) auto
  qed
next
  case (13 P m ms al s)
  then show ?case using status_all_none[of P ms s] by (auto split: option.splits bool.splits)
next
  case (15 P m ms no s)
  then show ?case using status_all_none[of P ms s] by (auto split: option.splits bool.splits)
qed (auto split: if_splits)

end
