(* ===== verification/Csp_Sound.thy ===== *)
theory Csp_Sound
  imports Csp_Sem
begin

text \<open>
  \<open>csp_enforce\<close> loses no assignment that satisfies the node, kind by kind.
\<close>

lemma sound_keep: "st_ok s \<Longrightarrow> (\<And>\<sigma>. admits s \<sigma> \<Longrightarrow> A \<sigma> \<Longrightarrow> b) \<Longrightarrow> sound A s (b, s)"
  by (auto simp: sound_def keeps_def narrows_refl)

lemma sound_both:
  assumes "sound A s r" and "\<And>t. narrows s t \<Longrightarrow> sound A t (f t)"
  shows "sound A s (case r of (ok, t) \<Rightarrow> if ok then f t else (False, t))"
  using assms(1) assms(2)[of "snd r"] sound_then[of A s "fst r" "snd r" "f (snd r)"]
  by (cases r) (auto simp: sound_def)

lemma judge_sound:
  assumes "src_law P nv src" and "state_of nv s"
  shows "sound (\<lambda>\<sigma>. ev_holds P src \<sigma> \<noteq> neg) s (judge P src neg s)"
  using assms eval_fixed(1)[OF _ assms] unfolding judge_def by (intro sound_keep) auto

section \<open>Linear relations\<close>

lemma smod_dvd: "(- rest) smod c \<noteq> 0 \<longleftrightarrow> \<not> c dvd rest" for c rest :: int
  by (simp add: smod_zero)

lemma enforce_ne_sound:
  assumes s: "st_ok s" "vars_in s l" "lin_ok l"
  shows "sound (\<lambda>\<sigma>. lin_val \<sigma> l \<noteq> 0) s (enforce_ne l s)"
proof (cases "one_free s (lin_t l) None (lin_k l)")
  case None
  then show ?thesis by (simp add: enforce_ne_def sound_true s)
next
  case (Some fr_rest)
  obtain fr rest where of': "one_free s (lin_t l) None (lin_k l) = Some (fr, rest)" using Some by (cases fr_rest) simp
  note val = one_free_lin[OF of' _ s(2)]
  show ?thesis
  proof (cases fr)
    case None
    then show ?thesis using of' val by (auto simp: enforce_ne_def free_val_def intro!: sound_keep s)
  next
    case (Some vc)
    obtain v c where vc: "fr = Some (v, c)" using Some by force
    note v = one_free_var[OF _ s(2,3), of v c rest]
    show ?thesis
    proof (cases "c dvd rest")
      case True
      then obtain q where q: "- rest = c * q" by (metis dvd_def dvd_minus_iff)
      have "c * ((- rest) sdiv c) = - rest" using mult_sdiv_smod_eq[of c "- rest"] True
        by (simp only: smod_zero[THEN iffD2, OF dvd_minus_iff[THEN iffD2]] add_0_right)
      then have "(- rest) sdiv c = q" using v(2) of' q by (simp add: vc)
      then have e: "enforce_ne l s = st_set v (dom_minus (st_d s ! v) [(q, q)]) s"
        using True of' by (simp add: enforce_ne_def vc smod_zero)
      have "\<sigma> v \<noteq> q" if "admits s \<sigma>" "lin_val \<sigma> l \<noteq> 0" for \<sigma>
        using that val[OF that(1)] q by (auto simp: vc free_val_def)
      then show ?thesis unfolding e using v(1) of' by (intro minus_sound s) (auto simp: vc)
    next
      case False
      then show ?thesis using of' by (simp add: enforce_ne_def vc smod_zero sound_true s)
    qed
  qed
qed

lemma enforce_lin_sound:
  assumes "node_law P nv L (NLin l rl fits src sneg wr)" and s: "state_of nv s"
  shows "sound (\<lambda>\<sigma>. L \<sigma> \<and> ev_holds P src \<sigma> \<noteq> sneg) s (enforce_lin P l rl fits src sneg wr s)"
proof -
  have n: "src_law P nv src" "lin_law P L l rl fits src sneg wr" "\<forall>f\<in>set fits. form_ok nv (fit_lin f)" using assms(1) by auto
  have l: "vars_in s l" "lin_ok l" using assms form_in[of nv l s] by auto
  have lt: "vars_in t l" if "narrows s t" for t using l(1) that by (simp add: vars_in_def narrows_def)
  have j: "sound (\<lambda>\<sigma>. L \<sigma> \<and> ev_holds P src \<sigma> \<noteq> sneg) s (judge P src sneg s)"
    using judge_sound[OF n(1) s] by (rule sound_weaken) simp
  show ?thesis
  proof (cases "fits_hold s fits")
    case True
    have A: "rel_holds rl (lin_val \<sigma> l)" if "admits s \<sigma>" "L \<sigma> \<and> ev_holds P src \<sigma> \<noteq> sneg" for \<sigma>
      using fits_hold_in[OF True s that(1) n(3)] n(2) that by (auto simp: lin_law_def)
    note pb = prop_bound_sound[OF _ _ l(2)]
    have "sound (\<lambda>\<sigma>. rel_holds rl (lin_val \<sigma> l)) s
      (case rl of RelLe \<Rightarrow> prop_bound l True s
       | RelEq \<Rightarrow> (case prop_bound l True s of (ok, s) \<Rightarrow> if ok then prop_bound l False s else (False, s))
       | RelNe \<Rightarrow> enforce_ne l s)"
    proof (cases rl)
      case RelLe
      then show ?thesis using pb[of s True] s l(1) by (auto simp: rel_holds_def bound_rel_def elim: sound_weaken)
    next
      case RelEq
      have "sound (\<lambda>\<sigma>. lin_val \<sigma> l = 0) s (prop_bound l True s)"
        using pb[of s True] s l(1) by (auto simp: bound_rel_def elim: sound_weaken)
      moreover have "sound (\<lambda>\<sigma>. lin_val \<sigma> l = 0) t (prop_bound l False t)" if "narrows s t" for t
        using pb[of t False] that lt[OF that] by (auto simp: narrows_def bound_rel_def elim: sound_weaken)
      ultimately show ?thesis using RelEq sound_both[of _ s] by (simp add: rel_holds_def)
    next
      case RelNe
      then show ?thesis using enforce_ne_sound s l by (simp add: rel_holds_def)
    qed
    then show ?thesis using A True by (auto simp: enforce_lin_def elim: sound_weaken)
  next
    case False
    show ?thesis
    proof (cases wr)
      case None
      then show ?thesis using False j by (simp add: enforce_lin_def)
    next
      case (Some w)
      show ?thesis
      proof (cases "fits_hold_mod s (take (wr_n w) fits) (wr_w w)")
        case True
        let ?W = "\<lambda>\<sigma>. if rl = RelEq then 2 ^ wr_w w dvd lin_val \<sigma> l else wrapped_rel l rl fits w \<sigma>"
        let ?r = "case rl of RelEq \<Rightarrow> wrap_eq l (wr_w w) s | _ \<Rightarrow> wrap_rel l rl fits w s"
        have e: "enforce_lin P l rl fits src sneg wr s = (case ?r of Some r \<Rightarrow> r | None \<Rightarrow> judge P src sneg s)"
          using False Some True by (simp add: enforce_lin_def)
        have A: "?W \<sigma>" if "admits s \<sigma>" "L \<sigma> \<and> ev_holds P src \<sigma> \<noteq> sneg" for \<sigma>
          using fits_mod_in[OF True s that(1) n(3)] n(2) that(2) Some by (auto simp: lin_law_def)
        have f: "\<forall>f\<in>set fits. vars_in s (fit_lin f) \<and> lin_ok (fit_lin f)" using n(3) s form_in by blast
        show ?thesis
        proof (cases ?r)
          case None
          then show ?thesis using j e by simp
        next
          case (Some r)
          have sg: "wr_sg w = 1 \<or> wr_sg w = - 1" using n(2) \<open>wr = Some w\<close> by (auto simp: lin_law_def)
          have W: "sound ?W s r"
            using wrap_eq_sound[of l "wr_w w" s r] wrap_rel_sound[of l rl fits w s r] Some s l sg f by (cases rl) auto
          have r: "enforce_lin P l rl fits src sneg wr s = r" unfolding e Some by simp
          show ?thesis unfolding r by (rule sound_weaken[OF W A])
        qed
      next
        case w: False
        then show ?thesis using False Some j by (simp add: enforce_lin_def)
      qed
    qed
  qed
qed

section \<open>Membership\<close>

lemma shift_ok: "dom_ok d \<Longrightarrow> dom_ok (map (\<lambda>(a, b). (a - k, b - k)) d)" for k :: int
  by (induction d rule: dom_ok.induct) auto

lemma shift_has: "dom_has (map (\<lambda>(a, b). (a - k, b - k)) d) x \<longleftrightarrow> dom_has d (x + k)" for k :: int
  by (induction d rule: dom_ok.induct) auto

lemma flip_has: "dom_has (dom_norm (map (\<lambda>(a, b). (k - b, k - a)) d)) x \<longleftrightarrow> dom_has d (k - x)" for k :: int
  unfolding norm_has by (induction d) auto

lemma flip_ok:
  assumes "\<forall>x. dom_has d x \<longrightarrow> - big \<le> x \<and> x \<le> big" and "dom_ok d" and "\<bar>k\<bar> \<le> konst_max"
  shows "dom_ok (dom_norm (map (\<lambda>(a, b). (k - b, k - a)) d))"
proof (rule norm_ok)
  have "- big \<le> b" if "(a, b) \<in> set d" for a b
    using assms(1) dom_ok_iv[OF assms(2) that] that by (force simp: dom_has_set)
  then show "\<forall>(l, h)\<in>set (map (\<lambda>(a, b). (k - b, k - a)) d). l \<le> i128_max"
    using assms(3) by (fastforce simp: big_def i128_max_def konst_max_def)
qed

text \<open>A set between its bounds.\<close>

lemma in_bounded_sound:
  assumes s: "st_ok s" "vars_in s l" "lin_ok l" and tgt: "dom_ok tgt"
  shows "sound (\<lambda>\<sigma>. dom_has tgt (lin_val \<sigma> l) \<noteq> neg) s
    (in_bounded l tgt neg s)"
proof -
  obtain lo hi where b: "lin_bounds s l = (lo, hi)" by force
  note bo = lin_bounds_ok[OF s(1) _ s(2) b]
  consider "lo = hi" | "lo \<noteq> hi" "neg \<or> tgt = []" | "lo \<noteq> hi" "\<not> neg" "tgt \<noteq> []" by blast
  then show ?thesis
  proof cases
    case 1
    then have "lin_val \<sigma> l = lo" if "admits s \<sigma>" for \<sigma> using bo[OF that] by simp
    then show ?thesis using 1 by (auto simp: in_bounded_def b intro!: sound_keep s)
  next
    case 2
    then show ?thesis by (auto simp: in_bounded_def b intro!: sound_keep s)
  next
    case 3
    show ?thesis
    proof (cases "lin_shift l (- snd (last tgt)) = None \<or> lin_shift l (- fst (hd tgt)) = None")
      case True
      then show ?thesis using 3 by (auto simp: in_bounded_def b sound_true s split: option.splits)
    next
      case False
      then obtain up dn where ud: "lin_shift l (- snd (last tgt)) = Some up" "lin_shift l (- fst (hd tgt)) = Some dn" by auto
      note ok = lin_shift_ok[OF ud(1) s(3)] lin_shift_ok[OF ud(2) s(3)] and val = lin_shift_val[OF ud(1)] lin_shift_val[OF ud(2)]
      let ?A = "\<lambda>\<sigma>. dom_has tgt (lin_val \<sigma> l)"
      have "sound ?A s (prop_bound up True s)"
        using prop_bound_sound[of s up True] ok s dom_bounds(2)[OF tgt] val
        by (auto simp: vars_in_def bound_rel_def elim!: sound_weaken)
      moreover have "sound ?A t (prop_bound dn False t)" if "narrows s t" for t
        using prop_bound_sound[of t dn False] ok s dom_bounds(1)[OF tgt] val that
        by (auto simp: vars_in_def bound_rel_def narrows_def elim!: sound_weaken)
      ultimately show ?thesis using 3 ud sound_both[of ?A s] by (simp add: in_bounded_def b)
    qed
  qed
qed

lemma enforce_in_sound:
  assumes "node_law P nv L (NIn l tgt neg fits src wr)" and s: "state_of nv s"
  shows "sound (\<lambda>\<sigma>. L \<sigma> \<and> ev_holds P src \<sigma> \<noteq> neg) s (enforce_in P l tgt neg fits src wr s)"
proof -
  have n: "src_law P nv src" "in_law P L l tgt neg fits src wr" "\<forall>f\<in>set fits. form_ok nv (fit_lin f)" "dom_ok tgt"
    "\<forall>x. dom_has tgt x \<longrightarrow> - big \<le> x \<and> x \<le> big" using assms(1) by auto
  have l: "vars_in s l" "lin_ok l" using assms form_in[of nv l s] by auto
  have j: "sound (\<lambda>\<sigma>. L \<sigma> \<and> ev_holds P src \<sigma> \<noteq> neg) s (judge P src neg s)"
    using judge_sound[OF n(1) s] by (rule sound_weaken) simp
  let ?A = "\<lambda>\<sigma>. dom_has tgt (lin_val \<sigma> l) \<noteq> neg"
  show ?thesis
  proof (cases "fits_hold s fits")
    case True
    have A: "?A \<sigma>" if "admits s \<sigma>" "L \<sigma> \<and> ev_holds P src \<sigma> \<noteq> neg" for \<sigma>
      using fits_hold_in[OF True s that(1) n(3)] n(2) that by (auto simp: in_law_def)
    have "sound ?A s (enforce_in P l tgt neg fits src wr s)"
    proof (cases "\<exists>v c. lin_t l = [(v, c)] \<and> (c = 1 \<or> c = - 1)")
      case one: True
      then obtain v c where t: "lin_t l = [(v, c)]" "c = 1 \<or> c = - 1" by blast
      let ?al = "if c = 1 then map (\<lambda>(a, b). (a - lin_k l, b - lin_k l)) tgt else dom_norm (map (\<lambda>(a, b). (lin_k l - b, lin_k l - a)) tgt)"
      have v: "v < length (st_d s)" "\<bar>lin_k l\<bar> \<le> konst_max" using l t by (auto simp: vars_in_def lin_ok_def)
      have ok: "dom_ok ?al" using shift_ok[OF n(4)] flip_ok[OF n(5,4) v(2)] by simp
      have "dom_has ?al (\<sigma> v) \<longleftrightarrow> dom_has tgt (lin_val \<sigma> l)" for \<sigma>
        using t by (auto simp: shift_has flip_has lin_val_def)
      moreover have "enforce_in P l tgt neg fits src wr s = st_set v (if neg then dom_minus (st_d s ! v) ?al else dom_meet (st_d s ! v) ?al) s"
        using True t by (auto simp: enforce_in_def)
      ultimately show ?thesis using s v(1) ok by (auto intro!: minus_sound meet_sound)
    next
      case False
      then show ?thesis using in_bounded_sound[OF _ l n(4), of neg] s True
        unfolding enforce_in_def by (auto split: list.splits)
    qed
    then show ?thesis using A by (rule sound_weaken)
  next
    case False
    show ?thesis
    proof (cases "\<exists>w r. wr = Some w \<and> fits_hold_mod s (take (wr_n w) fits) (wr_w w) \<and> wrap_set l tgt neg (wr_w w) (wr_s w) s = Some r")
      case True
      then obtain w r where w: "wr = Some w" "fits_hold_mod s (take (wr_n w) fits) (wr_w w)" "wrap_set l tgt neg (wr_w w) (wr_s w) s = Some r"
        by blast
      have "dom_has tgt (wrapv (wr_w w) (wr_s w) (lin_val \<sigma> l)) \<noteq> neg" if "admits s \<sigma>" "L \<sigma> \<and> ev_holds P src \<sigma> \<noteq> neg" for \<sigma>
        using fits_mod_in[OF w(2) s that(1) n(3)] n(2) that(2) w(1) by (auto simp: in_law_def)
      then show ?thesis using wrap_set_sound[OF w(3) _ l n(4)] s w False by (auto simp: enforce_in_def elim: sound_weaken)
    next
      case none: False
      then have "enforce_in P l tgt neg fits src wr s = judge P src neg s"
        using False by (auto simp: enforce_in_def split: option.splits)
      then show ?thesis using j by simp
    qed
  qed
qed

end
