(* ===== verification/Csp_Sound_Vars.thy ===== *)
theory Csp_Sound_Vars
  imports Csp_Sound
begin

text \<open>
  \<open>csp_enforce\<close> loses no assignment that satisfies the node: the nodes on variables themselves
  (all different, counts of ones) and the sources that the evaluator judges value by value.
\<close>

section \<open>Sizes and enumerations of domains\<close>

lemma dom_values_set: "x \<in> set (dom_values d) \<longleftrightarrow> dom_has d x"
  by (auto simp: dom_values_def dom_has_set)

lemma size_fold: "a \<le> u128_max \<Longrightarrow> fold (\<lambda>(l, h) a. min (a + (nat (h - l) + 1)) u128_max) d a =
    min (a + sum_list (map (\<lambda>(l, h). nat (h - l) + 1) d)) u128_max"
  by (induction d arbitrary: a) auto

lemma dom_size_sum: "dom_size d = min (sum_list (map (\<lambda>(l, h). nat (h - l) + 1) d)) u128_max"
  unfolding dom_size_def by (subst size_fold) simp_all

lemma dom_finite [simp]: "finite {x. dom_has d x}"
  unfolding dom_values_set[symmetric] by simp

lemma dom_card: "dom_ok d \<Longrightarrow> card {x. dom_has d x} = sum_list (map (\<lambda>(l, h). nat (h - l) + 1) d)"
proof (induction d rule: dom_ok.induct)
  case (2 l h d)
  have u: "{x. dom_has ((l, h) # d) x} = {l..h} \<union> {x. dom_has d x}" by auto
  have "{l..h} \<inter> {x. dom_has d x} = {}" using 2(2) dom_has_above[of d h] by fastforce
  then have "card {x. dom_has ((l, h) # d) x} = card {l..h} + card {x. dom_has d x}"
    unfolding u by (intro card_Un_disjoint) simp_all
  moreover have "card {l..h} = nat (h - l) + 1" using 2(2) by (simp add: Suc_nat_eq_nat_zadd1 add.commute)
  ultimately show ?case using 2 by simp
qed simp

lemma dom_size_card: "dom_ok d \<Longrightarrow> dom_size d = min (card {x. dom_has d x}) u128_max"
  by (simp add: dom_size_sum dom_card)

lemma dom_nth_has: "dom_ok d \<Longrightarrow> d \<noteq> [] \<Longrightarrow> dom_has d (dom_nth d k)"
  by (induction d k rule: dom_nth.induct) (auto simp: Let_def)

lemma dom_nth_all: "dom_ok d \<Longrightarrow> dom_has d x \<Longrightarrow> \<exists>k < sum_list (map (\<lambda>(l, h). nat (h - l) + 1) d). dom_nth d k = x"
proof (induction d rule: dom_ok.induct)
  case (2 l h d)
  let ?n = "nat (h - l) + 1"
  show ?case
  proof (cases "l \<le> x \<and> x \<le> h")
    case True
    then show ?thesis by (intro exI[of _ "nat (x - l)"]) (auto simp: Let_def)
  next
    case False
    then have d: "dom_has d x" "d \<noteq> []" using 2(3) by auto
    then obtain k where "k < sum_list (map (\<lambda>(l, h). nat (h - l) + 1) d)" "dom_nth d k = x" using 2 by auto
    then show ?thesis using d by (intro exI[of _ "k + ?n"]) (auto simp: Let_def)
  qed
qed simp

lemma dom_nths:
  assumes "dom_ok d" and "dom_size d \<le> 64"
  shows "set (map (dom_nth d) [0..<dom_size d]) = {x. dom_has d x}"
proof (cases "d = []")
  case False
  have "dom_size d = sum_list (map (\<lambda>(l, h). nat (h - l) + 1) d)" using assms(2) by (auto simp: dom_size_sum u128_max_def)
  then show ?thesis using dom_nth_all[OF assms(1)] dom_nth_has[OF assms(1) False] by fastforce
qed (simp add: dom_size_def)

section \<open>All different\<close>

lemma fixed_stays:
  assumes "narrows s t" and "st_fixed s v = Some x" and "v < length (st_d s)" and "admits t \<sigma>"
  shows "st_fixed t v = Some x"
proof -
  let ?d = "st_d t ! v"
  have only: "y = x" if "dom_has ?d y" for y
    using assms(1,2,3) that dom_fixed_has[of "st_d s ! v" x y] by (auto simp: narrows_def st_fixed_def)
  have ok: "dom_ok ?d" "dom_has ?d (\<sigma> v)" using assms by (auto simp: narrows_def admits_def st_okD)
  then obtain l h d where d: "?d = (l, h) # d" by (cases ?d) auto
  have lh: "l = x" "h = x" using only[of l] only[of h] ok(1) by (auto simp: d)
  have "d = []"
  proof (rule ccontr)
    assume "d \<noteq> []"
    then obtain l' h' d' where e: "d = (l', h') # d'" by (cases d) auto
    then have "dom_has ?d l'" "h < l'" using ok(1) by (auto simp: d)
    then show False using only lh by auto
  qed
  then show ?thesis by (simp add: st_fixed_def d lh dom_fixed_def)
qed

lemma distinct_size:
  assumes "distinct (map \<sigma> us)" and "\<forall>u\<in>set us. dom_has d (\<sigma> u)" and "dom_ok d" and "length us \<le> u128_max"
  shows "length us \<le> dom_size d"
proof -
  have "length us = card (set (map \<sigma> us))" using distinct_card[OF assms(1)] by simp
  also have "\<dots> \<le> card {x. dom_has d x}" using assms(2) by (intro card_mono) auto
  finally show ?thesis using assms(3,4) by (simp add: dom_size_card)
qed

lemma alldiff_loop_sound:
  assumes "set us \<union> set vs \<subseteq> set ws" "length us + length vs \<le> u128_max" "narrows s0 s" "\<forall>v\<in>set ws. v < length (st_d s0)"
    and "dom_ok T" "\<forall>x. dom_has T x \<longrightarrow> (\<exists>w\<in>set ws. st_fixed s0 w = Some x)"
    and "\<forall>(l, h)\<in>set pool. l \<le> i128_max" "\<And>\<sigma> u. admits s \<sigma> \<Longrightarrow> u \<in> set us \<Longrightarrow> dom_has pool (\<sigma> u)"
  shows "sound (\<lambda>\<sigma>. distinct (map \<sigma> ws) \<and> distinct (map \<sigma> (us @ vs))) s (alldiff_loop T vs (length us) pool s)"
  using assms
proof (induction vs arbitrary: us pool s)
  case Nil
  have ok: "dom_ok (dom_norm pool)" by (rule norm_ok[OF Nil.prems(7)])
  have "length us \<le> dom_size (dom_norm pool)" if "admits s \<sigma>" "distinct (map \<sigma> us)" for \<sigma>
    using distinct_size[OF that(2) _ ok] Nil.prems(2,8) that(1) by (auto simp: norm_has dom_has_set[of pool])
  then show ?case using Nil.prems(3) by (auto simp: narrows_def intro!: sound_keep)
next
  case (Cons v vs)
  have v: "v \<in> set ws" "v < length (st_d s)" using Cons.prems(1,3,4) by (auto simp: narrows_def)
  have s: "st_ok s" using Cons.prems(3) by (simp add: narrows_def)
  show ?case
  proof (cases "st_fixed s v = None")
    case False
    have "sound (\<lambda>\<sigma>. distinct (map \<sigma> ws) \<and> distinct (map \<sigma> (us @ vs))) s (alldiff_loop T vs (length us) pool s)"
      using Cons.prems by (intro Cons.IH) auto
    then show ?thesis using False by (auto elim: sound_weaken)
  next
    case True
    let ?A = "\<lambda>\<sigma>. distinct (map \<sigma> ws) \<and> distinct (map \<sigma> (us @ v # vs))"
    let ?r = "st_set v (dom_minus (st_d s ! v) T) s"
    have out: "\<not> dom_has T (\<sigma> v)" if a: "admits s \<sigma>" "?A \<sigma>" for \<sigma>
    proof
      assume "dom_has T (\<sigma> v)"
      then obtain w where w: "w \<in> set ws" "st_fixed s0 w = Some (\<sigma> v)" using Cons.prems(6) by blast
      then have f: "st_fixed s w = Some (\<sigma> v)" using fixed_stays[OF Cons.prems(3) _ _ a(1)] Cons.prems(4) by blast
      then have "\<sigma> w = \<sigma> v" using fixed_val_eq[OF a(1)] w(1) Cons.prems(3,4) by (auto simp: narrows_def)
      then have "w = v" using a(2) w(1) v(1) by (auto simp: distinct_map dest: inj_onD)
      then show False using f True by simp
    qed
    have one: "sound ?A s ?r" using out by (intro minus_sound s v(2) Cons.prems(5))
    have rest: "sound ?A t (alldiff_loop T vs (length us + 1) (pool @ st_d t ! v) t)" if n: "narrows s t" for t
    proof -
      have t: "st_ok t" "v < length (st_d t)" using n v(2) by (auto simp: narrows_def)
      have low: "\<forall>(l, h)\<in>set (st_d t ! v). l \<le> i128_max"
        using dom_within[OF st_okD(1)[OF t], of i128_min i128_max] st_okD(2)[OF t] dom_ok_iv[OF st_okD(1)[OF t]] by fastforce
      have "sound (\<lambda>\<sigma>. distinct (map \<sigma> ws) \<and> distinct (map \<sigma> ((us @ [v]) @ vs))) t
          (alldiff_loop T vs (length (us @ [v])) (pool @ st_d t ! v) t)"
      proof (rule Cons.IH)
        show "set (us @ [v]) \<union> set vs \<subseteq> set ws" "length (us @ [v]) + length vs \<le> u128_max" using Cons.prems(1,2) by auto
        show "narrows s0 t" by (rule narrows_trans[OF Cons.prems(3) n])
        show "\<forall>(l, h)\<in>set (pool @ st_d t ! v). l \<le> i128_max" using Cons.prems(7) low by auto
        show "dom_has (pool @ st_d t ! v) (\<sigma> u)" if "admits t \<sigma>" "u \<in> set (us @ [v])" for \<sigma> u
          using that Cons.prems(8)[OF admits_narrow[OF n that(1)]] t(2) by (auto simp: admits_def)
      qed (use Cons.prems in auto)
      then show ?thesis by simp
    qed
    show ?thesis using sound_both[OF one rest] True by simp
  qed
qed

lemma enforce_alldiff_sound:
  assumes "\<forall>v\<in>set vs. v < length (st_d s)" and "length vs \<le> u128_max" and s: "st_ok s"
  shows "sound (\<lambda>\<sigma>. distinct (map \<sigma> vs)) s (enforce_alldiff vs s)"
proof -
  let ?xs = "List.map_filter (st_fixed s) vs"
  let ?T = "dom_norm (points ?xs)"
  have xs: "x \<in> set ?xs \<longleftrightarrow> (\<exists>v\<in>set vs. st_fixed s v = Some x)" for x by (force simp: List.map_filter_def)
  have max: "x \<le> i128_max" if "x \<in> set ?xs" for x
    using that xs dom_fixed_has[of _ x x] st_okD(2)[OF s] assms(1) by (fastforce simp: st_fixed_def)
  then have ok: "dom_ok ?T" by (intro points_norm_ok) blast
  have e: "enforce_alldiff vs s = (if dom_size ?T < length ?xs then (False, s) else alldiff_loop ?T vs 0 [] s)"
    by (simp add: enforce_alldiff_def points_def Let_def)
  show ?thesis
  proof (cases "dom_size ?T < length ?xs")
    case True
    have "\<not> distinct (map \<sigma> vs)" if a: "admits s \<sigma>" for \<sigma>
    proof
      assume d: "distinct (map \<sigma> vs)"
      have "?xs = map \<sigma> (filter (\<lambda>v. st_fixed s v \<noteq> None) vs)"
        using fixed_val_eq[OF a] assms(1) by (force simp: List.map_filter_def)
      then have "distinct ?xs" using d by (simp add: distinct_map_filter)
      moreover have "length ?xs \<le> u128_max" using assms(2) by (simp add: List.map_filter_def) (metis le_trans length_filter_le)
      ultimately have "length ?xs \<le> dom_size ?T" using distinct_size[of "\<lambda>x. x" ?xs ?T] ok by simp
      then show False using True by simp
    qed
    then show ?thesis using e True sound_false[OF s] by auto
  next
    case False
    have "sound (\<lambda>\<sigma>. distinct (map \<sigma> vs) \<and> distinct (map \<sigma> ([] @ vs))) s (alldiff_loop ?T vs (length ([] :: nat list)) [] s)"
      using assms xs ok by (intro alldiff_loop_sound) (auto simp: narrows_refl)
    then show ?thesis using e False by simp
  qed
qed

end
