(* ===== verification/Csp_Sound_Eval.thy ===== *)
theory Csp_Sound_Eval
  imports Csp_Sound_Vars
begin

text \<open>
  \<open>csp_enforce\<close> loses no assignment that satisfies the node: counts of ones, the sources judged value
  by value, comparisons with a function of a few variables, and the connectives.
\<close>

section \<open>Counts of ones\<close>

lemma pop_le_len: "pop_cnt n \<le> u128_len n"
proof (induction n rule: pop_cnt.induct)
  case (1 n)
  then show ?case by (subst pop_cnt.simps, subst u128_len.simps) (auto simp: less_Suc_eq_le intro: order_trans[OF _ le_SucI])
qed

lemma pop_full: "pop_cnt n = u128_len n \<Longrightarrow> n + 1 = 2 ^ u128_len n"
proof (induction n rule: pop_cnt.induct)
  case (1 n)
  show ?case
  proof (cases "n = 0")
    case False
    have e: "pop_cnt n = n mod 2 + pop_cnt (n div 2)" "u128_len n = Suc (u128_len (n div 2))"
      using False by (simp_all add: pop_cnt.simps[of n] u128_len.simps[of n])
    moreover have "n mod 2 < 2" by simp
    ultimately have m: "n mod 2 = 1" "pop_cnt (n div 2) = u128_len (n div 2)" using 1(2) pop_le_len[of "n div 2"] by linarith+
    have "n div 2 + 1 = 2 ^ u128_len (n div 2)" by (rule 1(1)[OF False m(2)])
    then show ?thesis using e(2) m(1) div_mult_mod_eq[of n 2] by simp
  qed (simp add: u128_len.simps)
qed

lemma len_bound: "n < 2 ^ u128_len n"
proof (induction n rule: u128_len.induct)
  case (1 n)
  then show ?case by (cases "n = 0") (auto simp: u128_len.simps[of n])
qed

lemma len_mono: "n \<le> h \<Longrightarrow> u128_len n \<le> u128_len h"
proof (induction h arbitrary: n rule: u128_len.induct)
  case (1 h)
  show ?case
  proof (cases "n = 0")
    case False
    then have "u128_len (n div 2) \<le> u128_len (h div 2)" using 1 div_le_mono[OF 1(2), of 2] by simp
    then show ?thesis using False 1(2) by (simp add: u128_len.simps[of n] u128_len.simps[of h])
  qed (simp add: u128_len.simps)
qed

lemma pop_bound:
  assumes "n \<le> h" shows "pop_cnt n \<le> max (pop_cnt h) (u128_len h - 1)"
proof (cases "u128_len n < u128_len h \<or> pop_cnt n < u128_len n")
  case True
  then show ?thesis using pop_le_len[of n] len_mono[OF assms] by linarith
next
  case False
  then have l: "u128_len n = u128_len h" "pop_cnt n = u128_len n" using pop_le_len[of n] len_mono[OF assms] by linarith+
  then have "n + 1 = 2 ^ u128_len h" using pop_full[of n] by simp
  then have "n = h" using len_bound[of h] assms by simp
  then show ?thesis by simp
qed

lemma pop_pos: "0 < n \<Longrightarrow> 0 < pop_cnt n"
proof (induction n rule: pop_cnt.induct)
  case (1 n)
  then show ?case by (cases "n mod 2 = 0") (auto simp: pop_cnt.simps[of n])
qed

lemma ones_small: "w \<le> 64 \<Longrightarrow> 0 \<le> v \<Longrightarrow> v < 2 ^ w \<Longrightarrow> ones_at v w = int (pop_cnt (nat v))"
  by (simp add: ones_at_def bits_at_def)

lemma st_set_other: "u \<noteq> v \<Longrightarrow> st_d (snd (st_set v d s)) ! u = st_d s ! u"
  by (simp add: st_set_def)

lemma st_set_admits: "v < length (st_d s) \<Longrightarrow> admits (snd (st_set v d s)) \<sigma> \<Longrightarrow> dom_has d (\<sigma> v)"
  by (auto simp: st_set_def admits_def split: if_splits)

lemma points_set:
  assumes "st_ok s" and "v < length (st_d s)" and "\<And>x. x \<in> set xs \<Longrightarrow> dom_has (st_d s ! v) x"
    and "\<And>\<sigma>. admits s \<sigma> \<Longrightarrow> A \<sigma> \<Longrightarrow> \<sigma> v \<in> set xs"
  shows "sound A s (st_set v (dom_norm (points xs)) s)"
  using assms st_okD(2)[OF assms(1,2)] by (intro sound_set points_norm_ok) auto

lemma enforce_pop_sound:
  assumes v: "x < length (st_d s)" "c < length (st_d s)" "x \<noteq> c" "w \<le> 64" and s: "st_ok s" and L: "\<And>\<sigma>. L \<sigma> \<Longrightarrow> \<sigma> x < 2 ^ w"
  shows "sound (\<lambda>\<sigma>. L \<sigma> \<and> \<sigma> c = ones_at (\<sigma> x) w) s (enforce_pop x c w s)"
proof -
  let ?A = "\<lambda>\<sigma>. L \<sigma> \<and> \<sigma> c = ones_at (\<sigma> x) w"
  have in_dom: "dom_has (st_d s ! x) (\<sigma> x)" "dom_has (st_d s ! c) (\<sigma> c)" if "admits s \<sigma>" for \<sigma>
    using that v by (auto simp: admits_def)
  show ?thesis
  proof (cases "st_fixed s x")
    case (Some k)
    have "\<sigma> c = ones_at k w" if "admits s \<sigma>" "?A \<sigma>" for \<sigma> using fixed_val_eq[OF that(1) v(1) Some] that(2) by simp
    then show ?thesis using Some by (auto simp: enforce_pop_def intro!: meet_sound s v)
  next
    case None
    show ?thesis
    proof (cases "dom_size (st_d s ! x) \<le> 64")
      case True
      let ?xs = "filter (\<lambda>v. dom_has (st_d s ! c) (ones_at v w)) (dom_values (st_d s ! x))"
      let ?ns = "map (\<lambda>v. ones_at v w) ?xs"
      let ?r = "st_set x (dom_norm (points ?xs)) s"
      have one: "sound ?A s ?r"
      proof (rule points_set[OF s v(1)])
        show "\<sigma> x \<in> set ?xs" if "admits s \<sigma>" "?A \<sigma>" for \<sigma> using in_dom[OF that(1)] that(2) by (simp add: dom_values_set)
      qed (simp add: dom_values_set)
      have t: "st_ok (snd ?r)" "length (st_d (snd ?r)) = length (st_d s)" using one by (auto simp: sound_def narrows_def)
      have "sound ?A (snd ?r) (st_set c (dom_norm (points ?ns)) (snd ?r))"
      proof (rule points_set[OF t(1)])
        show "c < length (st_d (snd ?r))" using v t(2) by simp
        show "dom_has (st_d (snd ?r) ! c) n" if "n \<in> set ?ns" for n using that st_set_other[of c x] v(3) by auto
        show "\<sigma> c \<in> set ?ns" if "admits (snd ?r) \<sigma>" "?A \<sigma>" for \<sigma> using st_set_admits[OF v(1) that(1)] that(2) by auto
      qed
      then show ?thesis using None True sound_then[of ?A s "fst ?r" "snd ?r"] one
        by (simp add: enforce_pop_def Let_def case_prod_beta)
    next
      case False
      obtain lo hi where b: "st_bounds s x = (lo, hi)" by force
      show ?thesis
      proof (cases "lo \<ge> 0")
        case True
        let ?m = "int (max (pop_cnt (nat hi)) (u128_len (nat hi) - 1))"
        have "(if lo > 0 then 1 else 0) \<le> \<sigma> c \<and> \<sigma> c \<le> ?m" if a: "admits s \<sigma>" "?A \<sigma>" for \<sigma>
        proof -
          have x: "lo \<le> \<sigma> x" "\<sigma> x \<le> hi" using bounds_ok[OF s a(1) v(1) b] by auto
          then have "\<sigma> c = int (pop_cnt (nat (\<sigma> x)))" using a(2) L[of \<sigma>] True v(4) ones_small[of w "\<sigma> x"] by simp
          then show ?thesis using pop_bound[of "nat (\<sigma> x)" "nat hi"] pop_pos[of "nat (\<sigma> x)"] x True by auto
        qed
        then have "sound ?A s (st_set c (dom_clip (st_d s ! c) (if lo > 0 then 1 else 0) ?m) s)"
          by (intro clip_sound s v) auto
        then show ?thesis using None False True by (simp add: enforce_pop_def b Let_def)
      next
        case neg: False
        then show ?thesis using None False by (simp add: enforce_pop_def b sound_true s)
      qed
    qed
  qed
qed

section \<open>Value by value\<close>

lemma sound_work [simp]: "sound A (s\<lparr>st_work := w\<rparr>) r \<longleftrightarrow> sound A s r"
  by (simp add: sound_def keeps_def narrows_def admits_def)

lemma work_simps [simp]:
  "written (s\<lparr>st_work := w\<rparr>) = written s" "st_fixed (s\<lparr>st_work := w\<rparr>) = st_fixed s" "st_ok (s\<lparr>st_work := w\<rparr>) = st_ok s"
  "admits (s\<lparr>st_work := w\<rparr>) = admits s"
  by (auto simp: written_def st_fixed_def st_ok_def admits_def fun_eq_iff)

lemma eval_forward_sound:
  assumes "src_law P nv src" and s: "state_of nv s"
  shows "sound (\<lambda>\<sigma>. ev_holds P src \<sigma> \<noteq> neg) s (eval_forward P src neg s)"
proof (cases "\<exists>v. filter (\<lambda>v. st_fixed s v = None) (cs_deps P ! src) = [v] \<and> \<not> cs_stale P ! src \<and> dom_size (st_d s ! v) \<le> 64")
  case True
  then obtain v where v: "filter (\<lambda>v. st_fixed s v = None) (cs_deps P ! src) = [v]" "\<not> cs_stale P ! src" "dom_size (st_d s ! v) \<le> 64" by blast
  let ?n = "dom_size (st_d s ! v)" and ?s = "s\<lparr>st_work := st_work s + dom_size (st_d s ! v)\<rparr>"
  let ?xs = "filter (\<lambda>x. ev_holds P src ((written s)(v := x)) \<noteq> neg) (map (dom_nth (st_d s ! v)) [0..<?n])"
  have "v \<in> set (filter (\<lambda>v. st_fixed s v = None) (cs_deps P ! src))" using v(1) by simp
  then have nv: "v < length (st_d s)" using assms by (auto simp: src_law_def)
  have vals: "set (map (dom_nth (st_d s ! v)) [0..<?n]) = {x. dom_has (st_d s ! v) x}" using s nv v(3) by (intro dom_nths) (auto simp: st_okD)
  have "sound (\<lambda>\<sigma>. ev_holds P src \<sigma> \<noteq> neg) ?s (st_set v (dom_norm (points ?xs)) ?s)"
  proof (rule points_set)
    show "dom_has (st_d ?s ! v) x" if "x \<in> set ?xs" for x
    proof -
      have "x \<in> set (map (dom_nth (st_d s ! v)) [0..<?n])" using that by (simp only: set_filter mem_Collect_eq)
      then show ?thesis unfolding vals by simp
    qed
    show "\<sigma> v \<in> set ?xs" if a: "admits ?s \<sigma>" "ev_holds P src \<sigma> \<noteq> neg" for \<sigma>
    proof -
      have a': "admits s \<sigma>" using a(1) by simp
      have "((written s)(v := \<sigma> v)) u = \<sigma> u" if u: "u \<in> set (cs_deps P ! src)" for u
      proof (cases "u = v")
        case False
        then have "u \<notin> set (filter (\<lambda>v. st_fixed s v = None) (cs_deps P ! src))" using v(1) by simp
        then obtain x where "st_fixed s u = Some x" using u by auto
        moreover have "u < length (st_d s)" using u assms by (auto simp: src_law_def)
        ultimately show ?thesis using fixed_val_eq[OF a'] False by (simp add: written_def)
      qed simp
      then have "ev_holds P src ((written s)(v := \<sigma> v)) = ev_holds P src \<sigma>" using assms(1) by (simp add: src_law_def)
      moreover have "\<sigma> v \<in> set (map (dom_nth (st_d s ! v)) [0..<?n])" unfolding vals using a' nv by (simp add: admits_def)
      ultimately show ?thesis using a(2) by simp
    qed
  qed (use s nv in simp_all)
  then have "sound (\<lambda>\<sigma>. ev_holds P src \<sigma> \<noteq> neg) s (st_set v (dom_norm (points ?xs)) ?s)" by (simp only: sound_work)
  then show ?thesis using v s by (simp add: eval_forward_def est_max_dom_def Let_def sound_true)
next
  case False
  then have "eval_forward P src neg s = (True, s)"
    by (auto simp: eval_forward_def Let_def est_max_dom_def split: list.splits)
  then show ?thesis using s by (simp add: sound_true)
qed

section \<open>Comparisons with a value\<close>

lemma cmp_narrow_sound:
  assumes "st_ok s" and "v < length (st_d s)" and "\<And>\<sigma>. admits s \<sigma> \<Longrightarrow> A \<sigma> \<Longrightarrow> cmp_holds cop (\<sigma> v) k \<and> - big \<le> \<sigma> v \<and> \<sigma> v \<le> big"
  shows "sound A s (st_set v (cmp_narrow cop k (st_d s ! v)) s)"
proof (cases cop)
  case OpEq
  then show ?thesis using assms by (auto simp: cmp_narrow_def intro!: meet_sound)
next
  case OpCaseEq
  then show ?thesis using assms by (auto simp: cmp_narrow_def intro!: meet_sound)
next
  case OpNeq
  then show ?thesis using assms(3)[unfolded OpNeq cmp_holds.simps] unfolding OpNeq cmp_narrow_def cmp_op.case by (intro minus_sound assms(1,2)) auto
next
  case OpCaseNeq
  then show ?thesis using assms(3)[unfolded OpCaseNeq cmp_holds.simps] unfolding OpCaseNeq cmp_narrow_def cmp_op.case by (intro minus_sound assms(1,2)) auto
qed (use assms in \<open>force simp: cmp_narrow_def intro!: clip_sound\<close>)+

lemma combos_in: "xs \<in> set (combos xss) \<longleftrightarrow> list_all2 (\<lambda>x ys. x \<in> set ys) xs xss"
  by (induction xss arbitrary: xs) (auto simp: list_all2_Cons2)

lemma combo_upd: "v \<in> set ds \<Longrightarrow> fold (\<lambda>(d, x) f. f(d := x)) (zip ds (map \<sigma> ds)) f v = \<sigma> v"
proof (induction ds arbitrary: f)
  case (Cons d ds)
  have keep: "fold (\<lambda>(d, x) f. f(d := x)) (zip es (map \<sigma> es)) f v = f v" if "v \<notin> set es" for es f
    using that by (induction es arbitrary: f) auto
  show ?case
  proof (cases "v \<in> set ds")
    case True
    then show ?thesis using Cons.IH[of "f(d := \<sigma> d)"] by simp
  next
    case False
    then have "v = d" using Cons.prems by simp
    then show ?thesis using keep[OF False, of "f(d := \<sigma> d)"] by (simp only: list.map zip_Cons_Cons fold_simps o_apply prod.case fun_upd_same)
  qed
qed simp

lemma sext64_max: "sext64 x w \<le> i128_max"
proof -
  have "sint (y :: 64 word) < 2 ^ 63" for y using sint_lt[of y] by simp
  then have "sext64 x w < 2 ^ 63" by (simp only: sext64_def Let_def)
  then show ?thesis by (simp add: i128_max_def)
qed

lemma src_lawD: "src_law P nv src \<Longrightarrow> \<forall>v\<in>set (cs_deps P ! src). \<sigma> v = \<tau> v \<Longrightarrow> ev_value P src \<sigma> = ev_value P src \<tau>"
  by (simp add: src_law_def)

text \<open>The values that the other side takes.\<close>

lemma combo_value_val:
  assumes k: "combo_value P s var other (map \<sigma> (cs_deps P ! other)) = Some k"
    and n: "node_law P nv L (NFun var cop other whole neg)" and sub: "cs_has_subs P" and s: "admits s \<sigma>" "L \<sigma>"
    and h: "ev_holds P whole \<sigma> \<noteq> neg"
  shows "cmp_holds cop (\<sigma> var) k"
proof -
  let ?f = "fold (\<lambda>(d, x) f. f(d := x)) (zip (cs_deps P ! other) (map \<sigma> (cs_deps P ! other))) (written s)"
  let ?c = "ev_value P other \<sigma>" and ?vw = "cs_width P ! var" and ?vs = "cs_signed P ! var"
  have src: "src_law P nv other" using n by simp
  have "ev_value P other ?f = ?c" by (rule src_lawD[OF src]) (rule ballI, rule combo_upd)
  then have c: "\<not> cv_unknown ?c" "cv_width ?c \<le> 64" "?vs = cv_signed ?c \<or> \<not> ?vs"
      "k = (let x = (case cv_u64 ?c of Some x \<Rightarrow> x | None \<Rightarrow> 0) in if cv_signed ?c then sext64 x (cv_width ?c) else int x)"
    using k by (auto simp: combo_value_def Let_def split: if_splits)
  obtain x where x: "cv_u64 ?c = Some x" using n s(2) c(1,2) by (auto simp: fun_law_def Let_def)
  have "\<not> ?vs \<longrightarrow> \<not> cv_signed ?c" using n sub s(2) by auto
  then have "fun_value ?vw ?vs (\<sigma> var) ?c = Some k" using c x by (cases ?vs) (auto simp: fun_value_def)
  then show ?thesis using n s(2) c(1) h by (auto simp: fun_law_def Let_def)
qed

lemma combo_value_max:
  assumes "src_law P nv other" and "combo_value P s var other xs = Some k"
  shows "k \<le> i128_max"
proof -
  have "int x \<le> i128_max" if "cv_u64 (ev_value P other \<tau>) = Some x" for x \<tau>
  proof -
    have "x < 2 ^ 64" using assms(1) that by (auto simp: src_law_def dest!: spec[of _ \<tau>])
    then show ?thesis by (simp add: i128_max_def)
  qed
  moreover have "0 \<le> i128_max" by (simp add: i128_max_def)
  ultimately show ?thesis
    using assms(2) sext64_max by (auto simp: combo_value_def Let_def split: if_splits option.splits)
qed

lemma vals_sound:
  assumes s: "st_ok s" "v < length (st_d s)" and ok: "dom_ok vals"
    and k: "\<And>\<sigma>. admits s \<sigma> \<Longrightarrow> A \<sigma> \<Longrightarrow> (\<exists>k. dom_has vals k \<and> cmp_holds cop (\<sigma> v) k) \<and> - big \<le> \<sigma> v \<and> \<sigma> v \<le> big"
  shows "sound A s
    (case cop of
       OpEq \<Rightarrow> st_set v (dom_meet (st_d s ! v) vals) s | OpCaseEq \<Rightarrow> st_set v (dom_meet (st_d s ! v) vals) s
     | OpLt \<Rightarrow> st_set v (dom_clip (st_d s ! v) (- big) (snd (last vals) - 1)) s
     | OpLeq \<Rightarrow> st_set v (dom_clip (st_d s ! v) (- big) (snd (last vals))) s
     | OpGt \<Rightarrow> st_set v (dom_clip (st_d s ! v) (fst (hd vals) + 1) big) s
     | OpGeq \<Rightarrow> st_set v (dom_clip (st_d s ! v) (fst (hd vals)) big) s
     | _ \<Rightarrow> (True, s))"
  using k dom_bounds(1)[OF ok] dom_bounds(2)[OF ok]
  by (cases cop) (force intro!: meet_sound[OF s ok] clip_sound[OF s] sound_true[OF s(1)])+

lemma fun_range_sound:
  assumes n: "node_law P nv L (NFun var cop other whole neg)" and sub: "cs_has_subs P" and s: "state_of nv s"
  shows "sound (\<lambda>\<sigma>. L \<sigma> \<and> ev_holds P whole \<sigma> \<noteq> neg) s (fun_range P var cop other s)"
proof -
  let ?A = "\<lambda>\<sigma>. L \<sigma> \<and> ev_holds P whole \<sigma> \<noteq> neg" and ?deps = "cs_deps P ! other"
  let ?n = "fold (\<lambda>d n. min (n * dom_size (st_d s ! d)) u128_max) ?deps 1"
  let ?s = "s\<lparr>st_work := st_work s + ?n\<rparr>"
  let ?ks = "map (combo_value P ?s var other) (combos (map (\<lambda>d. dom_values (st_d ?s ! d)) ?deps))"
  show ?thesis
  proof (cases "(?deps = [] \<or> length ?deps > 4 \<or> var \<in> set ?deps \<or> ?n > max_combos) \<or> None \<in> set ?ks")
    case True
    then have "fun_range P var cop other s = (True, s) \<or> fun_range P var cop other s = (True, ?s)"
      unfolding fun_range_def Let_def by meson
    then show ?thesis using s sound_true[of s] sound_true[of ?s ?A] by auto
  next
    case False
    let ?vals = "dom_norm (points (map the ?ks))"
    have vs: "var < length (st_d s)" "src_law P nv other" using n s by auto
    have max: "\<forall>k\<in>set (map the ?ks). k \<le> i128_max"
      using False combo_value_max[OF vs(2)] by (auto simp: image_iff)
    then have ok: "dom_ok ?vals" by (rule points_norm_ok)
    have k: "\<exists>k. dom_has ?vals k \<and> cmp_holds cop (\<sigma> var) k" and big: "- big \<le> \<sigma> var" "\<sigma> var \<le> big"
      if a: "admits s \<sigma>" "?A \<sigma>" for \<sigma>
    proof -
      show "- big \<le> \<sigma> var" "\<sigma> var \<le> big" using n a(2) by auto
      have "map \<sigma> ?deps \<in> set (combos (map (\<lambda>d. dom_values (st_d ?s ! d)) ?deps))"
        using a(1) vs(2) s by (auto simp: combos_in list_all2_map1 list_all2_map2 dom_values_set admits_def src_law_def intro!: list.rel_refl_strong)
      then have "combo_value P ?s var other (map \<sigma> ?deps) \<in> set ?ks" by (simp only: list.set_map imageI)
      then have in': "combo_value P ?s var other (map \<sigma> ?deps) \<in> set ?ks" .
      obtain k where k: "combo_value P ?s var other (map \<sigma> ?deps) = Some k"
        using False in' by (cases "combo_value P ?s var other (map \<sigma> ?deps)") (simp_all only: not_False_eq_True disj_absorb de_Morgan_disj)
      have "the (Some k) \<in> the ` set ?ks" using in' unfolding k by (rule imageI)
      then have "dom_has ?vals k" by (simp only: option.sel points_norm_has list.set_map)
      moreover have "cmp_holds cop (\<sigma> var) k" using combo_value_val[OF k n sub] a by simp
      ultimately show "\<exists>k. dom_has ?vals k \<and> cmp_holds cop (\<sigma> var) k" by blast
    qed
    note lo = dom_bounds(1)[OF ok] and hi = dom_bounds(2)[OF ok]
    have c: "\<not> (?deps = [] \<or> length ?deps > 4 \<or> var \<in> set ?deps \<or> ?n > max_combos)" "\<not> None \<in> set ?ks" using False by blast+
    let ?d = "st_d ?s ! var"
    have e: "fun_range P var cop other s =
      (case cop of
         OpEq \<Rightarrow> st_set var (dom_meet ?d ?vals) ?s | OpCaseEq \<Rightarrow> st_set var (dom_meet ?d ?vals) ?s
       | OpLt \<Rightarrow> st_set var (dom_clip ?d (- big) (snd (last ?vals) - 1)) ?s
       | OpLeq \<Rightarrow> st_set var (dom_clip ?d (- big) (snd (last ?vals))) ?s
       | OpGt \<Rightarrow> st_set var (dom_clip ?d (fst (hd ?vals) + 1) big) ?s
       | OpGeq \<Rightarrow> st_set var (dom_clip ?d (fst (hd ?vals)) big) ?s
       | _ \<Rightarrow> (True, ?s))"
      unfolding fun_range_def Let_def if_not_P[OF c(1)] if_not_P[OF c(2)] by (cases cop) simp_all
    have s': "st_ok ?s" "var < length (st_d ?s)" using s vs(1) by simp_all
    have "sound ?A ?s (fun_range P var cop other s)"
      unfolding e
    proof (rule vals_sound[OF s' ok])
      show "(\<exists>k. dom_has ?vals k \<and> cmp_holds cop (\<sigma> var) k) \<and> - big \<le> \<sigma> var \<and> \<sigma> var \<le> big"
        if "admits ?s \<sigma>" "?A \<sigma>" for \<sigma> using k[of \<sigma>] big[of \<sigma>] that unfolding work_simps by blast
    qed
    then show ?thesis by (simp only: sound_work)
  qed
qed

lemma enforce_fun_sound:
  assumes n: "node_law P nv L (NFun var cop other whole neg)" and s: "state_of nv s"
  shows "sound (\<lambda>\<sigma>. L \<sigma> \<and> ev_holds P whole \<sigma> \<noteq> neg) s (enforce_fun P var cop other whole neg s)"
proof -
  let ?A = "\<lambda>\<sigma>. L \<sigma> \<and> ev_holds P whole \<sigma> \<noteq> neg"
  have v: "var < length (st_d s)" "src_law P nv other" "src_law P nv whole" using n s by auto
  have t: "sound ?A s (True, s)" using s by (simp add: sound_true)
  show ?thesis
  proof (cases "src_fixed P s other")
    case False
    then show ?thesis using fun_range_sound[OF n _ s] t by (simp add: enforce_fun_def)
  next
    case f: True
    show ?thesis
    proof (cases "src_fixed P s whole")
      case True
      have "sound ?A s (eval_src P s whole \<noteq> neg, s)"
        using eval_fixed(1)[OF True v(3) s] s by (intro sound_keep) auto
      then show ?thesis using f True by (simp add: enforce_fun_def)
    next
      case w: False
      let ?c = "ev_value P other (written s)"
      have c: "ev_value P other \<sigma> = ?c" if "admits s \<sigma>" for \<sigma> using eval_fixed(2)[OF f v(2) s that] by simp
      show ?thesis
      proof (cases "cv_unknown ?c")
        case True
        have "\<not> ?A \<sigma>" if "admits s \<sigma>" for \<sigma> using n c[OF that] True by (auto simp: fun_law_def Let_def)
        then have "sound ?A s (False, s)" using s by (intro sound_false) auto
        then show ?thesis using f w True by (simp add: enforce_fun_def)
      next
        case k: False
        obtain lo hi where b: "st_bounds s var = (lo, hi)" by force
        show ?thesis
        proof (cases "fun_value (cs_width P ! var) (cs_signed P ! var) lo ?c")
          case None
          then show ?thesis using f w k t by (simp add: enforce_fun_def b)
        next
          case (Some x)
          have "cmp_holds cop (\<sigma> var) x \<and> - big \<le> \<sigma> var \<and> \<sigma> var \<le> big" if a: "admits s \<sigma>" "?A \<sigma>" for \<sigma>
          proof -
            have "lo \<le> \<sigma> var" using bounds_ok(1)[OF _ a(1) v(1) b] s by simp
            then have "cmp_holds cop (\<sigma> var) x" using n a(2) c[OF a(1)] k Some by (auto simp: fun_law_def Let_def)
            then show ?thesis using n a(2) by auto
          qed
          then have "sound ?A s (st_set var (cmp_narrow cop x (st_d s ! var)) s)" using s v(1) by (intro cmp_narrow_sound) auto
          then show ?thesis using f w k Some by (simp add: enforce_fun_def b)
        qed
      qed
    qed
  qed
qed

section \<open>The connectives\<close>

lemma or_open_holds:
  assumes "or_open P ns s = Some os" and "\<forall>n\<in>set ns. node_law P nv L n" and "state_of nv s" "admits s \<sigma>" "L \<sigma>"
    and "\<exists>n\<in>set ns. csp_holds P n \<sigma>"
  shows "\<exists>n\<in>set os. csp_holds P n \<sigma>"
  using assms(1,2,6)
proof (induction ns arbitrary: os)
  case (Cons m ns)
  show ?case
  proof (cases "csp_status P m s")
    case None
    then obtain z where z: "or_open P ns s = Some z" "os = m # z" using Cons.prems(1) by auto
    show ?thesis using Cons.IH[OF z(1)] Cons.prems(2,3) z(2) by auto
  next
    case (Some b)
    then have "csp_holds P m \<sigma> = b" using status_sound(1)[where L = L, OF Some _ assms(3-5)] Cons.prems(2) by simp
    then show ?thesis using Cons Some by (cases b) auto
  qed
qed simp

lemma enforce_sound:
  shows "node_law P nv L n \<Longrightarrow> state_of nv s \<Longrightarrow> sound (\<lambda>\<sigma>. L \<sigma> \<and> csp_holds P n \<sigma>) s (csp_enforce P n s)"
    and "\<forall>n\<in>set ns. node_law P nv L n \<Longrightarrow> state_of nv s \<Longrightarrow>
      sound (\<lambda>\<sigma>. L \<sigma> \<and> (\<forall>n\<in>set ns. csp_holds P n \<sigma>)) s (enforce_all P ns s)"
proof (induction P n s and P ns s rule: csp_enforce_enforce_all.induct)
  case (3 P l rl fits src sneg wr s)
  then show ?case using enforce_lin_sound[of P nv L l rl fits src sneg wr s] by simp
next
  case (4 P l tgt neg fits src wr s)
  then show ?case using enforce_in_sound[of P nv L l tgt neg fits src wr s] by simp
next
  case (5 P vs s)
  then have "sound (\<lambda>\<sigma>. distinct (map \<sigma> vs)) s (enforce_alldiff vs s)" by (intro enforce_alldiff_sound) auto
  then show ?case by (auto elim: sound_weaken)
next
  case (6 P x c w s)
  then have "sound (\<lambda>\<sigma>. L \<sigma> \<and> \<sigma> c = ones_at (\<sigma> x) w) s (enforce_pop x c w s)" by (intro enforce_pop_sound) auto
  then show ?case by simp
next
  case (7 P src neg s)
  show ?case
  proof (cases "src_fixed P s src")
    case True
    then show ?thesis using 7 eval_fixed(1)[OF True, of nv] by (auto intro!: sound_keep)
  next
    case False
    have "sound (\<lambda>\<sigma>. ev_holds P src \<sigma> \<noteq> neg) s (eval_forward P src neg s)" using 7 by (intro eval_forward_sound) auto
    then show ?thesis using False by (auto elim: sound_weaken)
  qed
next
  case (8 P var cop other whole neg s)
  then show ?case using enforce_fun_sound[of P nv L var cop other whole neg s] by simp
next
  case (9 P ns s)
  then show ?case by simp
next
  case (10 P ns s)
  let ?A = "\<lambda>\<sigma>. L \<sigma> \<and> csp_holds P (NOr ns) \<sigma>"
  show ?case
  proof (cases "or_open P ns s")
    case None
    then show ?thesis using 10 by (simp add: sound_true)
  next
    case (Some os)
    have o': "\<exists>n\<in>set os. csp_holds P n \<sigma>" if "admits s \<sigma>" "?A \<sigma>" for \<sigma>
      using or_open_holds[OF Some _ 10(3) that(1)] 10(2) that(2) by simp
    consider "os = []" | m where "os = [m]" | "\<exists>m m' ms. os = m # m' # ms" by (metis list.exhaust)
    then show ?thesis
    proof cases
      case 1
      then show ?thesis using Some o' 10(3) by (auto intro!: sound_false)
    next
      case 2
      then have "node_law P nv L m" using or_open_in[OF Some, of m] 10(2) by simp
      then have "sound (\<lambda>\<sigma>. L \<sigma> \<and> csp_holds P m \<sigma>) s (csp_enforce P m s)" using 10(1)[OF Some 2 refl] 10(3) by simp
      then have "sound ?A s (csp_enforce P m s)" by (rule sound_weaken) (use o' 2 in auto)
      then show ?thesis using Some 2 by simp
    next
      case 3
      then show ?thesis using Some 10(3) by (auto simp: sound_true)
    qed
  qed
next
  case (11 P cond ncond thn els s)
  let ?A = "\<lambda>\<sigma>. L \<sigma> \<and> csp_holds P (NIf cond ncond thn els) \<sigma>"
  have n: "node_law P nv L cond" "node_law P nv L ncond" "node_law P nv L thn" "node_law P nv L els"
    "\<And>\<sigma>. L \<sigma> \<Longrightarrow> csp_holds P ncond \<sigma> = (\<not> csp_holds P cond \<sigma>)" using 11(5) by auto
  have st: "csp_holds P m \<sigma> = b" if "csp_status P m s = Some b" "node_law P nv L m" "admits s \<sigma>" "L \<sigma>" for m b \<sigma>
    using status_sound(1)[where L = L, OF that(1,2) 11(6) that(3,4)] .
  consider "csp_status P cond s = Some True" | "csp_status P cond s = Some False"
    | "csp_status P cond s = None" "csp_status P thn s = Some False"
    | "csp_status P cond s = None" "csp_status P thn s \<noteq> Some False" "csp_status P els s = Some False"
    | "csp_status P cond s = None" "csp_status P thn s \<noteq> Some False" "csp_status P els s \<noteq> Some False"
    by (cases "csp_status P cond s") auto
  then show ?case
  proof cases
    case 1
    have "sound ?A s (csp_enforce P thn s)"
      by (rule sound_weaken[OF 11(3)[OF 1 refl n(3) 11(6)]]) (use st[OF 1 n(1)] in auto)
    then show ?thesis using 1 by simp
  next
    case 2
    have "sound ?A s (csp_enforce P els s)"
      by (rule sound_weaken[OF 11(4)[OF 2 _ n(4) 11(6)]]) (use st[OF 2 n(1)] in simp_all)
    then show ?thesis using 2 by simp
  next
    case 3
    have "sound ?A s (csp_enforce P ncond s)"
      by (rule sound_weaken[OF 11(1)[OF 3 n(2) 11(6)]]) (use st[OF 3(2) n(3)] n(5) in \<open>auto split: if_splits\<close>)
    then show ?thesis using 3 by simp
  next
    case 4
    have "sound ?A s (csp_enforce P cond s)"
      by (rule sound_weaken[OF 11(2)[OF 4 n(1) 11(6)]]) (use st[OF 4(3) n(4)] in \<open>auto split: if_splits\<close>)
    then show ?thesis using 4 by simp
  next
    case 5
    then show ?thesis using 11(6) by (simp add: sound_true)
  qed
next
  case (13 P m ms s)
  have one: "sound (\<lambda>\<sigma>. L \<sigma> \<and> (\<forall>n\<in>set (m # ms). csp_holds P n \<sigma>)) s (csp_enforce P m s)"
    by (rule sound_weaken[OF 13(1)]) (use 13(3,4) in auto)
  obtain ok t where r: "csp_enforce P m s = (ok, t)" by force
  have "sound (\<lambda>\<sigma>. L \<sigma> \<and> (\<forall>n\<in>set (m # ms). csp_holds P n \<sigma>)) t (enforce_all P ms t)" if ok
    by (rule sound_weaken[OF 13(2)[OF r[symmetric] that]]) (use 13(3,4) one r in \<open>auto simp: sound_def narrows_def\<close>)
  then show ?case using sound_then[of _ s ok t "enforce_all P ms t"] one by (simp add: r)
qed (auto intro!: sound_true sound_false)

end
