(* ===== verification/Csp_Unsat.thy ===== *)
theory Csp_Unsat
  imports Csp_Search Csp_Sound_Eval
begin

text \<open>
  What an exhausted search proves: a constraint set that the solver calls unsatisfiable has no
  solution.  A solution is a legal assignment under which every node holds.
\<close>

definition solves :: "csp \<Rightarrow> (asg \<Rightarrow> bool) \<Rightarrow> asg \<Rightarrow> bool" where
  "solves P L \<sigma> \<longleftrightarrow> L \<sigma> \<and> (\<forall>n\<in>set (cs_nodes P). csp_holds P n \<sigma>)"

abbreviation vars_of :: "csp \<Rightarrow> nat" where
  "vars_of P \<equiv> length (cs_dom0 P)"

definition csp_law :: "csp \<Rightarrow> (asg \<Rightarrow> bool) \<Rightarrow> bool" where
  "csp_law P L \<longleftrightarrow> (\<forall>n\<in>set (cs_nodes P). node_law P (vars_of P) L n) \<and>
     (\<forall>d\<in>set (cs_dom0 P). dom_ok d \<and> (\<forall>x. dom_has d x \<longrightarrow> i128_min \<le> x \<and> x \<le> i128_max))"

definition watch_ok :: "csp \<Rightarrow> nat list list \<Rightarrow> bool" where
  "watch_ok P watch \<longleftrightarrow> (\<forall>v < vars_of P. \<forall>j\<in>set (watch ! v). j < length (cs_nodes P))"

lemma csp_watch_ok: "watch_ok P (csp_watch P)"
  by (auto simp: watch_ok_def csp_watch_def)

section \<open>Propagation\<close>

lemma enqueue_set: "set (fst (enqueue js q qd)) \<subseteq> set q \<union> set js"
  by (induction js q qd rule: enqueue.induct) auto

text \<open>A run of the queue keeps every solution, or finds that there is none.\<close>

definition runs_sound :: "csp \<Rightarrow> (asg \<Rightarrow> bool) \<Rightarrow> st \<Rightarrow> bool option \<times> st \<Rightarrow> bool" where
  "runs_sound P L s r \<longleftrightarrow> narrows s (snd r) \<and>
     (\<forall>\<sigma>. admits s \<sigma> \<longrightarrow> solves P L \<sigma> \<longrightarrow> (fst r = Some True \<longrightarrow> admits (snd r) \<sigma>) \<and> (fst r = Some False \<longrightarrow> st_cut (snd r)))"

lemma runs_sound_step:
  assumes "narrows s t" and "\<And>\<sigma>. admits s \<sigma> \<Longrightarrow> solves P L \<sigma> \<Longrightarrow> admits t \<sigma>" and "runs_sound P L t r"
  shows "runs_sound P L s r"
  using assms by (auto simp: runs_sound_def intro: narrows_trans)

lemma loop_sound:
  assumes "csp_law P L" and "watch_ok P watch"
  shows "state_of (vars_of P) s \<Longrightarrow> \<forall>i\<in>set q. i < length (cs_nodes P) \<Longrightarrow>
    runs_sound P L s (propagate_loop P watch stall q queued runs s)"
  using assms
proof (induction P watch stall q queued runs s rule: propagate_loop.induct)
  case (1 P watch stall queued runs s)
  then show ?case by (simp add: runs_sound_def narrows_refl)
next
  case (2 P watch stall i q queued runs s)
  let ?s1 = "s\<lparr>st_work := st_work s + 1\<rparr>" and ?runs = "runs[i := runs ! i + 1]" and ?qd = "queued[i := False]"
  have n: "node_law P (vars_of P) L (cs_nodes P ! i)" using 2(3-5) by (auto simp: csp_law_def)
  consider "?runs ! i > stall" | "\<not> ?runs ! i > stall" "st_work ?s1 \<ge> work_budget"
    | "\<not> ?runs ! i > stall" "\<not> st_work ?s1 \<ge> work_budget" by blast
  then show ?case
  proof cases
    case 1
    then show ?thesis using 2(2) by (simp add: runs_sound_def narrows_def st_ok_def Let_def)
  next
    case b: 2
    then show ?thesis using 2(2) by (simp add: runs_sound_def narrows_def st_ok_def Let_def)
  next
    case go: 3
    let ?s2 = "?s1\<lparr>st_dirty := []\<rparr>"
    obtain ok t where t: "csp_enforce P (cs_nodes P ! i) ?s2 = (ok, t)" by force
    have ok2: "state_of (vars_of P) ?s2" using 2(2) by (simp add: st_ok_def)
    have snd': "sound (\<lambda>\<sigma>. L \<sigma> \<and> csp_holds P (cs_nodes P ! i) \<sigma>) ?s2 (ok, t)"
      using enforce_sound(1)[OF n ok2] unfolding t .
    then have nar: "narrows s t" and dirty: "set (st_dirty t) \<subseteq> {..<vars_of P}"
      using 2(2) by (auto simp: sound_def narrows_def)
    have keep: "ok \<and> admits t \<sigma>" if "admits s \<sigma>" "solves P L \<sigma>" for \<sigma>
    proof -
      have "L \<sigma> \<and> csp_holds P (cs_nodes P ! i) \<sigma>" using that(2) 2(3) by (simp add: solves_def)
      moreover have "admits ?s2 \<sigma>" using that(1) by (simp add: admits_def)
      ultimately show ?thesis using snd' by (auto simp: sound_def keeps_def)
    qed
    show ?thesis
    proof (cases ok)
      case False
      then have "propagate_loop P watch stall (i # q) queued runs s = (Some False, t)" using go t by (simp add: Let_def)
      then show ?thesis using nar keep False by (auto simp: runs_sound_def)
    next
      case True
      obtain q' qd' where q': "enqueue (concat (map ((!) watch) (st_dirty t))) q ?qd = (q', qd')" by force
      let ?t = "t\<lparr>st_dirty := []\<rparr>"
      have e: "propagate_loop P watch stall (i # q) queued runs s = propagate_loop P watch stall q' qd' ?runs ?t"
        using go t True q' by (simp add: Let_def)
      have w: "j < length (cs_nodes P)" if "v \<in> set (st_dirty t)" "j \<in> set (watch ! v)" for v j
        using 2(5) subsetD[OF dirty that(1)] that(2) unfolding watch_ok_def lessThan_iff by blast
      have "set q' \<subseteq> set q \<union> (\<Union>v\<in>set (st_dirty t). set (watch ! v))"
        using enqueue_set[of "concat (map ((!) watch) (st_dirty t))" q ?qd] unfolding q' by simp
      moreover have "\<forall>j\<in>set q. j < length (cs_nodes P)" using 2(3) by simp
      ultimately have "\<forall>j\<in>set q'. j < length (cs_nodes P)" using w by blast
      moreover have "state_of (vars_of P) ?t" using nar 2(2) by (simp add: narrows_def st_ok_def)
      ultimately have run: "runs_sound P L ?t (propagate_loop P watch stall q' qd' ?runs ?t)"
        using 2(1)[OF refl refl go(1) refl go(2) t[symmetric] _ q'[symmetric]] True 2(4,5) by simp
      have nt: "narrows s ?t" using nar by (auto simp: narrows_def st_ok_def)
      have kt: "admits ?t \<sigma>" if "admits s \<sigma>" "solves P L \<sigma>" for \<sigma> using keep[OF that] by (simp add: admits_def)
      show ?thesis unfolding e by (rule runs_sound_step[OF nt kt run])
    qed
  qed
qed

lemma propagate_sound:
  assumes "csp_law P L" and "watch_ok P watch" and "state_of (vars_of P) s" and "\<forall>i\<in>set start. i < length (cs_nodes P)"
  shows "runs_sound P L s (csp_propagate P watch start s)"
proof -
  obtain q qd where e: "enqueue start [] (replicate (length (cs_nodes P)) False) = (q, qd)" by force
  then have "\<forall>i\<in>set q. i < length (cs_nodes P)" using assms(4) enqueue_set[of start "[]" "replicate (length (cs_nodes P)) False"] by auto
  then show ?thesis using loop_sound[OF assms(1,2,3)] by (simp add: csp_propagate_def Let_def e)
qed

lemma loop_grows: "grows s (snd (propagate_loop P watch stall q queued runs s))"
proof (induction P watch stall q queued runs s rule: propagate_loop.induct)
  case (2 P watch stall i q queued runs s)
  let ?s1 = "s\<lparr>st_work := st_work s + 1\<rparr>" and ?runs = "runs[i := runs ! i + 1]" and ?qd = "queued[i := False]"
  let ?s2 = "?s1\<lparr>st_dirty := []\<rparr>"
  consider "?runs ! i > stall" | "\<not> ?runs ! i > stall" "st_work ?s1 \<ge> work_budget"
    | "\<not> ?runs ! i > stall" "\<not> st_work ?s1 \<ge> work_budget" by blast
  then show ?case
  proof cases
    case 1
    then show ?thesis using grows_cut[OF grows_refl] by (simp add: Let_def)
  next
    case b: 2
    then show ?thesis using grows_work1[of s 1] by (simp add: Let_def)
  next
    case go: 3
    obtain ok t where t: "csp_enforce P (cs_nodes P ! i) ?s2 = (ok, t)" by force
    have g: "grows s t" using grows_trans[OF enforce_grows(1)[of ?s2 P "cs_nodes P ! i"] grows_dirty[OF grows_work1[of s 1]]] unfolding t by simp
    obtain q' qd' where q': "enqueue (concat (map ((!) watch) (st_dirty t))) q ?qd = (q', qd')" by force
    show ?thesis
    proof (cases ok)
      case False
      then show ?thesis using go t g by (simp add: Let_def)
    next
      case True
      have "propagate_loop P watch stall (i # q) queued runs s = propagate_loop P watch stall q' qd' ?runs (t\<lparr>st_dirty := []\<rparr>)"
        using go t True q' by (simp add: Let_def)
      moreover have "grows (t\<lparr>st_dirty := []\<rparr>) (snd (propagate_loop P watch stall q' qd' ?runs (t\<lparr>st_dirty := []\<rparr>)))"
        using 2[OF refl refl go(1) refl go(2) t[symmetric] _ q'[symmetric]] True by simp
      ultimately show ?thesis using grows_trans[OF _ grows_dirty[OF g]] by simp
    qed
  qed
qed (simp add: grows_refl)

lemma propagate_grows: "grows s (snd (csp_propagate P watch start s))"
  by (simp add: csp_propagate_def Let_def case_prod_beta loop_grows)

lemma set_and_run_grows: "grows s (snd (set_and_run P watch v d s))"
  unfolding set_and_run_def Let_def
  by (rule grows_trans[OF propagate_grows]) (intro grows_dirty grows_set grows_refl)

text \<open>A propagation that runs out of budget has spent it.\<close>

lemma loop_none: "propagate_loop P watch stall q queued runs s = (None, t) \<Longrightarrow> work_budget \<le> st_work t"
proof (induction P watch stall q queued runs s rule: propagate_loop.induct)
  case (2 P watch stall i q queued runs s)
  then show ?case by (auto simp: Let_def split: if_splits prod.splits)
qed simp

lemma run_none: "set_and_run P watch v d s = (None, t) \<Longrightarrow> work_budget \<le> st_work t"
  "csp_propagate P watch start s = (None, t) \<Longrightarrow> work_budget \<le> st_work t"
  by (auto simp: set_and_run_def csp_propagate_def Let_def split: prod.splits intro: loop_none)

section \<open>Choices\<close>

text \<open>Weighing leaves the domains and the trail as they were.\<close>

definition same_search :: "st \<Rightarrow> st \<Rightarrow> bool" where
  "same_search s t \<longleftrightarrow> st_d t = st_d s \<and> st_trail t = st_trail s \<and> (st_cut s \<longrightarrow> st_cut t) \<and>
     level_tries t = level_tries s \<and> level_cut t = level_cut s \<and> st_work t = st_work s"

lemma grows_back:
  assumes "grows s t"
  shows "st_d (st_undo (length (st_trail s)) t) = st_d s" "st_trail (st_undo (length (st_trail s)) t) = st_trail s"
  using grows_undo[OF assms, of "length (st_trail s)"] by (auto simp: st_undo_def Let_def split: prod.splits)

lemma undo_rest [simp]:
  "st_cut (st_undo m s) = st_cut s" "level_tries (st_undo m s) = level_tries s" "level_cut (st_undo m s) = level_cut s"
  "st_work (st_undo m s) = st_work s"
  by (simp_all add: st_undo_def Let_def split: prod.splits)

lemma probe_same: "weigh_probe P watch v x s = (res, t, u) \<Longrightarrow> same_search s u"
  using grows_back[OF set_and_run_grows[of s P watch v "[(x, x)]"]] grows_counts[OF set_and_run_grows[of s P watch v "[(x, x)]"]]
  by (auto simp: weigh_probe_def same_search_def split: prod.splits)

lemma probes_same: "weigh_probes P watch v xs s = (ls, u) \<Longrightarrow> same_search s u \<and> (\<forall>ks. ls = Some ks \<longrightarrow> length ks = length xs)"
proof (induction xs arbitrary: s ls u)
  case (Cons x xs)
  obtain res t s1 where p: "weigh_probe P watch v x s = (res, t, s1)" by (metis prod_cases3)
  obtain rest u1 where r: "weigh_probes P watch v xs s1 = (rest, u1)" by force
  show ?case using Cons.IH[OF r] Cons.prems probe_same[OF p] by (auto simp: p r same_search_def split: if_splits)
qed (simp add: same_search_def)

text \<open>A value is an \<^verbatim>\<open>i128\<close>, and an index drawn by weight is one of the values.\<close>

definition draws_ok :: "'r draws \<Rightarrow> bool" where
  "draws_ok D \<longleftrightarrow>
     (\<forall>r s v. case fst (dr_first D r s v) of None \<Rightarrow> True | Some x \<Rightarrow> i128_min \<le> x \<and> x \<le> i128_max) \<and>
     (\<forall>r s v ls. case fst (dr_weigh D r s v ls) of None \<Rightarrow> True | Some i \<Rightarrow> i < length ls)"

lemma dom_nth_i128:
  assumes "st_ok s" and "v < length (st_d s)"
  shows "i128_min \<le> dom_nth (st_d s ! v) k \<and> dom_nth (st_d s ! v) k \<le> i128_max"
proof (cases "st_d s ! v = []")
  case True
  then show ?thesis by (simp add: i128_min_def i128_max_def)
next
  case False
  then show ?thesis using st_okD[OF assms] dom_nth_has by blast
qed

lemma pick_val_ok:
  assumes "pick_val D A P watch s v r = (x, t, r')" and "draws_ok D"
  shows "same_search s t" "st_ok s \<Longrightarrow> v < length (st_d s) \<Longrightarrow> i128_min \<le> x \<and> x \<le> i128_max"
proof -
  let ?ok = "st_ok s \<and> v < length (st_d s)"
  have nth: "?ok \<longrightarrow> i128_min \<le> dom_nth (st_d s ! v) k \<and> dom_nth (st_d s ! v) k \<le> i128_max" for k using dom_nth_i128[of s v] by blast
  have val: "?ok \<longrightarrow> i128_min \<le> dom_values (st_d s ! v) ! i \<and> dom_values (st_d s ! v) ! i \<le> i128_max"
    if "i < length (dom_values (st_d s ! v))" for i
    using st_okD(2)[of s v] nth_mem[OF that] dom_values_set by blast
  have refl: "same_search s s" by (simp add: same_search_def)
  obtain first r1 where f: "dr_first D r s v = (first, r1)" by force
  have "same_search s t \<and> (?ok \<longrightarrow> i128_min \<le> x \<and> x \<le> i128_max)"
  proof (cases first)
    case (Some y)
    then show ?thesis using assms(1,2) f refl by (auto simp: pick_val_def draws_ok_def dest!: spec[of _ r] spec[of _ s] spec[of _ v])
  next
    case None
    obtain ls u where p: "weigh_probes P watch v (dom_values (st_d s ! v)) s = (ls, u)" by force
    note ps = probes_same[OF p]
    then have sd: "st_d u = st_d s" by (simp add: same_search_def)
    show ?thesis
    proof (cases "ax_guard_var A ! v \<and> dom_size (st_d s ! v) \<le> est_max_dom \<and> est_work s < est_budget")
      case False
      then show ?thesis using assms(1) f None refl nth by (auto simp: pick_val_def Let_def split: prod.splits)
    next
      case weigh: True
      show ?thesis
      proof (cases ls)
        case None
        then show ?thesis using assms(1) f \<open>first = None\<close> weigh p ps sd nth by (auto simp: pick_val_def Let_def split: prod.splits)
      next
        case (Some ks)
        obtain w r2 where w: "dr_weigh D r1 u v ks = (w, r2)" by force
        show ?thesis
        proof (cases w)
          case None
          then show ?thesis using assms(1) f \<open>first = None\<close> weigh p ps sd Some w nth by (auto simp: pick_val_def Let_def split: prod.splits)
        next
          case (Some i)
          have "case fst (dr_weigh D r1 u v ks) of None \<Rightarrow> True | Some i \<Rightarrow> i < length ks" using assms(2) unfolding draws_ok_def by blast
          then have "i < length (dom_values (st_d s ! v))" using ps w Some \<open>ls = Some ks\<close> by simp
          then show ?thesis using assms(1) f \<open>first = None\<close> weigh p ps \<open>ls = Some ks\<close> w Some val by (auto simp: pick_val_def Let_def)
        qed
      qed
    qed
  qed
  then show "same_search s t" "st_ok s \<Longrightarrow> v < length (st_d s) \<Longrightarrow> i128_min \<le> x \<and> x \<le> i128_max" by simp_all
qed

lemma pick_loop_some: "pick_loop D A P s vs best ties cv r = (Some v, r') \<Longrightarrow>
    (v \<in> set vs \<and> st_fixed s v = None) \<or> (\<exists>a b. best = Some (a, b, v)) \<or> cv = Some v"
proof (induction vs arbitrary: best ties cv r)
  case (Cons u vs)
  show ?case using Cons.prems
    by (auto simp: Let_def split: if_splits option.splits prod.splits dest!: Cons.IH)
qed (auto split: option.splits)

lemma pick_loop_none: "pick_loop D A P s vs best ties cv r = (None, r') \<Longrightarrow>
    best = None \<and> cv = None \<and> (\<forall>v\<in>set vs. st_fixed s v \<noteq> None)"
proof (induction vs arbitrary: best ties cv r)
  case (Cons u vs)
  show ?case using Cons.prems
    by (auto simp: Let_def split: if_splits option.splits prod.splits dest!: Cons.IH)
qed (auto split: option.splits)

lemma pick_var_some: "pick_var D A P s r = (Some v, r') \<Longrightarrow> v < length (st_d s) \<and> st_fixed s v = None"
  using pick_loop_some[of D A P s "[0..<length (st_d s)]" None 0 None r v r'] by (simp add: pick_var_def)

lemma pick_var_none: "pick_var D A P s r = (None, r') \<Longrightarrow> v < length (st_d s) \<Longrightarrow> st_fixed s v \<noteq> None"
  using pick_loop_none[of D A P s "[0..<length (st_d s)]" None 0 None r r'] by (simp add: pick_var_def)

section \<open>Setting a domain and propagating\<close>

lemma set_run_sound:
  assumes law: "csp_law P L" "watch_ok P watch" and s: "state_of (vars_of P) s" and v: "v < vars_of P"
    and d: "dom_ok d" "\<forall>x. dom_has d x \<longrightarrow> i128_min \<le> x \<and> x \<le> i128_max"
    and r: "set_and_run P watch v d s = (res, t)"
  shows "res = Some True \<Longrightarrow> state_of (vars_of P) t"
    and "res = Some True \<Longrightarrow> admits s \<sigma> \<Longrightarrow> dom_has d (\<sigma> v) \<Longrightarrow> solves P L \<sigma> \<Longrightarrow> admits t \<sigma>"
    and "res = Some False \<Longrightarrow> admits s \<sigma> \<Longrightarrow> dom_has d (\<sigma> v) \<Longrightarrow> solves P L \<sigma> \<Longrightarrow> st_cut t"
proof -
  let ?u = "snd (st_set v d (s\<lparr>st_dirty := []\<rparr>))"
  let ?w = "?u\<lparr>st_dirty := []\<rparr>"
  have w: "state_of (vars_of P) ?w"
    using s d by (auto simp: st_ok_def st_set_def dest!: set_update_subset_insert[THEN subsetD])
  have dirty: "set (st_dirty ?u) \<subseteq> {v}" by (simp add: st_set_def)
  have idx: "\<forall>i\<in>set (csp_watchers watch (st_dirty ?u)). i < length (cs_nodes P)"
    using dirty law(2) v by (auto simp: csp_watchers_def watch_ok_def)
  have rs: "runs_sound P L ?w (res, t)"
    using propagate_sound[OF law w idx] unfolding r[unfolded set_and_run_def Let_def] .
  have aw: "admits ?w \<sigma>" if "admits s \<sigma>" "dom_has d (\<sigma> v)" for \<sigma>
    using that s v by (auto simp: admits_def st_set_def nth_list_update)
  show "state_of (vars_of P) t" using rs w by (simp add: runs_sound_def narrows_def)
  show "admits t \<sigma>" if "res = Some True" "admits s \<sigma>" "dom_has d (\<sigma> v)" "solves P L \<sigma>"
    using rs aw[OF that(2,3)] that(1,4) by (auto simp: runs_sound_def)
  show "st_cut t" if "res = Some False" "admits s \<sigma>" "dom_has d (\<sigma> v)" "solves P L \<sigma>"
    using rs aw[OF that(2,3)] that(1,4) by (auto simp: runs_sound_def)
qed

section \<open>The stack of decisions\<close>

text \<open>A solution is covered when, undoing to some decision, it takes another value there.\<close>

fun covered :: "frame list \<Rightarrow> st \<Rightarrow> asg \<Rightarrow> bool" where
  "covered [] s \<sigma> = False"
| "covered ((v, x, mark) # fr) s \<sigma> = (let t = st_undo mark s in (admits t \<sigma> \<and> \<sigma> v \<noteq> x) \<or> covered fr t \<sigma>)"

fun frames_ok :: "nat \<Rightarrow> frame list \<Rightarrow> st \<Rightarrow> bool" where
  "frames_ok nv [] s = True"
| "frames_ok nv ((v, x, mark) # fr) s =
     (mark \<le> length (st_trail s) \<and> v < nv \<and> (let t = st_undo mark s in state_of nv t \<and> frames_ok nv fr t))"

definition same_doms :: "st \<Rightarrow> st \<Rightarrow> bool" where
  "same_doms s t \<longleftrightarrow> st_d s = st_d t \<and> st_trail s = st_trail t"

lemma undo_doms: "undo_trail m (st_d s) (st_trail s) = undo_trail m (st_d t) (st_trail t) \<Longrightarrow> same_doms (st_undo m s) (st_undo m t)"
  by (auto simp: same_doms_def st_undo_def Let_def split: prod.splits)

lemma doms_admits: "same_doms s t \<Longrightarrow> admits s \<sigma> = admits t \<sigma>" "same_doms s t \<Longrightarrow> st_ok s = st_ok t"
  "same_doms s t \<Longrightarrow> length (st_d s) = length (st_d t)"
  by (auto simp: same_doms_def admits_def st_ok_def)

lemma frames_doms: "same_doms s t \<Longrightarrow> covered fr s \<sigma> = covered fr t \<sigma> \<and> frames_ok nv fr s = frames_ok nv fr t"
proof (induction fr arbitrary: s t)
  case (Cons f fr)
  obtain v x mark where f: "f = (v, x, mark)" by (metis prod_cases3)
  have u: "same_doms (st_undo mark s) (st_undo mark t)" using Cons.prems by (intro undo_doms) (simp add: same_doms_def)
  show ?case using Cons.IH[OF u] doms_admits[OF u] Cons.prems by (simp add: f same_doms_def Let_def)
qed simp

lemma frames_grow:
  assumes "grows s t" and "frames_ok nv fr s"
  shows "frames_ok nv fr t" "covered fr t \<sigma> = covered fr s \<sigma>"
proof -
  have "frames_ok nv fr t \<and> (covered fr t \<sigma> = covered fr s \<sigma>)"
  proof (cases fr)
    case (Cons f fs)
    obtain v x mark where f: "f = (v, x, mark)" by (metis prod_cases3)
    have m: "mark \<le> length (st_trail s)" using assms(2) by (simp add: Cons f)
    note g = grows_undo[OF assms(1) m]
    then have u: "same_doms (st_undo mark t) (st_undo mark s)" by (intro undo_doms) simp
    show ?thesis using assms(2) g m frames_doms[OF u, of fs \<sigma> nv] doms_admits[OF u] by (simp add: Cons f Let_def)
  qed simp
  then show "frames_ok nv fr t" "covered fr t \<sigma> = covered fr s \<sigma>" by simp_all
qed

section \<open>The search\<close>

text \<open>The solutions within the first domains.\<close>

definition solution :: "csp \<Rightarrow> (asg \<Rightarrow> bool) \<Rightarrow> asg \<Rightarrow> bool" where
  "solution P L \<sigma> \<longleftrightarrow> solves P L \<sigma> \<and> (\<forall>v < vars_of P. dom_has (cs_dom0 P ! v) (\<sigma> v))"

definition decide_inv :: "csp \<Rightarrow> (asg \<Rightarrow> bool) \<Rightarrow> frame list \<Rightarrow> st \<Rightarrow> bool" where
  "decide_inv P L fr s \<longleftrightarrow> state_of (vars_of P) s \<and> frames_ok (vars_of P) fr s \<and>
     (st_cut s \<or> (\<forall>\<sigma>. solution P L \<sigma> \<longrightarrow> admits s \<sigma> \<or> covered fr s \<sigma>))"

definition undo_inv :: "csp \<Rightarrow> (asg \<Rightarrow> bool) \<Rightarrow> frame list \<Rightarrow> st \<Rightarrow> bool" where
  "undo_inv P L fr s \<longleftrightarrow> frames_ok (vars_of P) fr s \<and> (st_cut s \<or> (\<forall>\<sigma>. solution P L \<sigma> \<longrightarrow> covered fr s \<sigma>))"

text \<open>A state in which every solution is covered or has \<open>A\<close>, after a domain that keeps \<open>A\<close> is set.\<close>

lemma set_run_inv:
  assumes law: "csp_law P L" "watch_ok P watch" and s: "state_of (vars_of P) s" and v: "v < vars_of P"
    and d: "dom_ok d" "\<forall>x. dom_has d x \<longrightarrow> i128_min \<le> x \<and> x \<le> i128_max" and fr: "frames_ok (vars_of P) fr s"
    and inv: "st_cut s \<or> (\<forall>\<sigma>. solution P L \<sigma> \<longrightarrow> (admits s \<sigma> \<and> dom_has d (\<sigma> v)) \<or> covered fr s \<sigma>)"
    and r: "set_and_run P watch v d s = (res, t)"
  shows "res = Some True \<Longrightarrow> decide_inv P L fr t" "res = Some False \<Longrightarrow> undo_inv P L fr t"
proof -
  have g: "grows s t" using set_and_run_grows[of s P watch v d] r by simp
  note fg = frames_grow[OF g fr] and cut = grows_counts(2)[OF g] and ss = set_run_sound[OF law s v d r]
  show "decide_inv P L fr t" if "res = Some True"
    using that inv fg cut ss(1,2) by (auto simp: decide_inv_def solution_def)
  show "undo_inv P L fr t" if "res = Some False"
    using that inv fg cut ss(3) by (fastforce simp: undo_inv_def solution_def)
qed

lemma decide_step:
  assumes law: "csp_law P L" "watch_ok P watch" and inv: "decide_inv P L fr s" and same: "same_search s u"
    and v: "v < vars_of P" and x: "i128_min \<le> x" "x \<le> i128_max"
    and r: "set_and_run P watch v [(x, x)] u = (res, t)"
  shows "res = Some True \<Longrightarrow> decide_inv P L ((v, x, length (st_trail u)) # fr) t"
    "res = Some False \<Longrightarrow> undo_inv P L ((v, x, length (st_trail u)) # fr) t"
proof -
  have sd: "same_doms s u" using same by (simp add: same_search_def same_doms_def)
  have ud: "same_doms (st_undo (length (st_trail u)) u) u" by (simp add: same_doms_def st_undo_def)
  have u: "state_of (vars_of P) u" "frames_ok (vars_of P) fr u"
    "st_cut u \<or> (\<forall>\<sigma>. solution P L \<sigma> \<longrightarrow> admits u \<sigma> \<or> covered fr u \<sigma>)"
    using inv doms_admits[OF sd] frames_doms[OF sd] same by (auto simp: decide_inv_def same_search_def)
  have fr: "frames_ok (vars_of P) ((v, x, length (st_trail u)) # fr) u"
    using u(1,2) v doms_admits[OF ud] frames_doms[OF ud] by (simp add: Let_def)
  have c: "st_cut u \<or> (\<forall>\<sigma>. solution P L \<sigma> \<longrightarrow> (admits u \<sigma> \<and> dom_has [(x, x)] (\<sigma> v)) \<or> covered ((v, x, length (st_trail u)) # fr) u \<sigma>)"
    using u(3) doms_admits[OF ud] frames_doms[OF ud] by (auto simp: Let_def)
  have d: "\<forall>y. dom_has [(x, x)] y \<longrightarrow> i128_min \<le> y \<and> y \<le> i128_max" using x by simp
  note st = set_run_inv[OF law u(1) v point_ok(1) d fr c r]
  show "res = Some True \<Longrightarrow> decide_inv P L ((v, x, length (st_trail u)) # fr) t" by (rule st(1))
  show "res = Some False \<Longrightarrow> undo_inv P L ((v, x, length (st_trail u)) # fr) t" by (rule st(2))
qed

text \<open>The state in which a decision is reversed; \<open>u\<close> has other counters.\<close>

lemma undo_step:
  assumes law: "csp_law P L" "watch_ok P watch" and inv: "undo_inv P L ((v, x, mark) # fr) s"
    and u: "same_doms (st_undo mark s) u" "st_cut u = st_cut s"
  shows "st_cut u \<Longrightarrow> undo_inv P L fr u"
    and "\<not> fst (st_set v (dom_minus (st_d u ! v) [(x, x)]) u) \<Longrightarrow> undo_inv P L fr (snd (st_set v (dom_minus (st_d u ! v) [(x, x)]) u))"
    and "set_and_run P watch v (dom_minus (st_d u ! v) [(x, x)]) u = (Some True, t) \<Longrightarrow> decide_inv P L fr t"
    and "set_and_run P watch v (dom_minus (st_d u ! v) [(x, x)]) u = (Some False, t) \<Longrightarrow> undo_inv P L fr t"
proof -
  let ?nd = "dom_minus (st_d u ! v) [(x, x)]"
  have st: "state_of (vars_of P) u" "frames_ok (vars_of P) fr u" "v < vars_of P"
    using inv doms_admits[OF u(1)] frames_doms[OF u(1)] by (auto simp: undo_inv_def Let_def)
  have ok: "dom_ok (st_d u ! v)" using st by (auto simp: st_okD)
  have has: "dom_has ?nd y \<longleftrightarrow> dom_has (st_d u ! v) y \<and> y \<noteq> x" for y using minus_has[OF ok point_ok(1), of x y] by auto
  have nd: "dom_ok ?nd" "\<forall>y. dom_has ?nd y \<longrightarrow> i128_min \<le> y \<and> y \<le> i128_max"
    using minus_ok[OF ok point_ok(1)] has st_okD(2)[of u v] st by auto
  have c: "st_cut u \<or> (\<forall>\<sigma>. solution P L \<sigma> \<longrightarrow> (admits u \<sigma> \<and> dom_has ?nd (\<sigma> v)) \<or> covered fr u \<sigma>)"
    using inv u(2) doms_admits(1)[OF u(1)] frames_doms[OF u(1)] has st(1,3) by (auto simp: undo_inv_def Let_def admits_def)
  show "undo_inv P L fr u" if "st_cut u" using that st by (simp add: undo_inv_def)
  show "undo_inv P L fr (snd (st_set v ?nd u))" if f: "\<not> fst (st_set v ?nd u)"
  proof -
    have "?nd = []" using f by (auto simp: st_set_def split: if_splits)
    then have "\<not> dom_has ?nd y" for y by simp
    then show ?thesis using c frames_grow[OF grows_set1 st(2), of v ?nd] grows_counts(2)[OF grows_set1, of u v ?nd]
      by (auto simp: undo_inv_def)
  qed
  show "decide_inv P L fr t" if "set_and_run P watch v ?nd u = (Some True, t)"
    by (rule set_run_inv(1)[OF law st(1,3) nd st(2) c that refl])
  show "undo_inv P L fr t" if "set_and_run P watch v ?nd u = (Some False, t)"
    by (rule set_run_inv(2)[OF law st(1,3) nd st(2) c that refl])
qed

end
