(* ===== verification/Csp_Exhaust.thy ===== *)
theory Csp_Exhaust
  imports Csp_Unsat
begin

text \<open>
  The search as a relation, and what its outcomes mean: exhausted without a cut it has shown that
  there is no solution, and it always ends, with every domain fixed, exhausted or out of budget.
\<close>

text \<open>
  One derivation for each way through \<open>search_decide\<close> (the flag) and \<open>search_undo\<close>, without the
  random choices; the last three places are the result, the budget left and the state.
\<close>

inductive searches :: "csp \<Rightarrow> nat list list \<Rightarrow> bool \<Rightarrow> nat \<Rightarrow> frame list \<Rightarrow> st \<Rightarrow> bool option \<Rightarrow> nat \<Rightarrow> st \<Rightarrow> bool"
  for P watch where
  s_done: "(\<And>v. v < length (st_d s) \<Longrightarrow> st_fixed s v \<noteq> None) \<Longrightarrow> searches P watch True b fr s (Some True) b s"
| s_out: "searches P watch True 0 fr s None 0 s"
| s_decide: "v < length (st_d s) \<Longrightarrow> same_search s u \<Longrightarrow> (st_ok s \<Longrightarrow> i128_min \<le> x \<and> x \<le> i128_max) \<Longrightarrow>
    set_and_run P watch v [(x, x)] u = (Some ok, w) \<Longrightarrow>
    searches P watch ok b ((v, x, length (st_trail u)) # fr) w res b' t \<Longrightarrow> searches P watch True (Suc b) fr s res b' t"
| s_decide_out: "set_and_run P watch v d u = (None, w) \<Longrightarrow> searches P watch True (Suc b) fr s None b w"
| u_end: "searches P watch False b [] s (Some False) b s"
| u_abandon: "same_doms (st_undo mark s) u \<Longrightarrow> st_cut u \<Longrightarrow>
    searches P watch False b fr u res b' t \<Longrightarrow> searches P watch False b ((v, x, mark) # fr) s res b' t"
| u_out: "searches P watch False 0 fr s None 0 u"
| u_work: "work_budget \<le> st_work u \<Longrightarrow> searches P watch False (Suc b) fr s None b u"
| u_empty: "same_doms (st_undo mark s) u \<Longrightarrow> st_cut u = st_cut s \<Longrightarrow>
    \<not> fst (st_set v (dom_minus (st_d u ! v) [(x, x)]) u) \<Longrightarrow>
    searches P watch False b fr (snd (st_set v (dom_minus (st_d u ! v) [(x, x)]) u)) res b' t \<Longrightarrow>
    searches P watch False (Suc b) ((v, x, mark) # fr) s res b' t"
| u_reverse: "same_doms (st_undo mark s) u \<Longrightarrow> st_cut u = st_cut s \<Longrightarrow>
    set_and_run P watch v (dom_minus (st_d u ! v) [(x, x)]) u = (Some ok, w) \<Longrightarrow>
    searches P watch ok b fr w res b' t \<Longrightarrow> searches P watch False (Suc b) ((v, x, mark) # fr) s res b' t"
| u_reverse_out: "set_and_run P watch v d u = (None, w) \<Longrightarrow> searches P watch False (Suc b) fr s None b w"

lemma search_searches:
  assumes "draws_ok D"
  shows "search_decide D A P watch b fr refuted s r = (res, b', t, r') \<Longrightarrow> searches P watch True b fr s res b' t"
    and "search_undo D A P watch b fr refuted s r = (res, b', t, r') \<Longrightarrow> searches P watch False b fr s res b' t"
  using assms
proof (induction D A P watch b fr refuted s r and D A P watch b fr refuted s r rule: search_decide_search_undo.induct)
  case (1 D A P watch b fr refuted s r)
  obtain pv r1 where pv: "pick_var D A P s r = (pv, r1)" by force
  show ?case
  proof (cases pv)
    case None
    then show ?thesis using 1(3) pv pick_var_none[of D A P s r r1] by (auto intro: s_done)
  next
    case (Some v)
    obtain x u r2 where pk: "pick_val D A P watch s v r1 = (x, u, r2)" by (metis prod_cases3)
    obtain out w where sr: "set_and_run P watch v [(x, x)] u = (out, w)" by force
    have v: "v < length (st_d s)" using pick_var_some[of D A P s r v r1] pv Some by simp
    note ok = pick_val_ok[OF pk 1(4)]
    let ?fr = "(v, x, length (st_trail u)) # fr"
    show ?thesis
    proof (cases b)
      case 0
      then show ?thesis using 1(3) pv Some by (auto intro: s_out)
    next
      case (Suc c)
      note ih = 1(1,2)[OF pv[symmetric] Some _ pk[symmetric] refl refl sr[symmetric]]
      show ?thesis
      proof (cases out)
        case None
        then show ?thesis using 1(3) pv Some pk sr Suc by (auto intro: s_decide_out)
      next
        case out: (Some okk)
        have "searches P watch okk c ?fr w res b' t"
          using ih 1(3,4) pv Some pk sr Suc out by (cases okk) auto
        then show ?thesis using s_decide[OF v ok(1) _ sr[unfolded out]] ok(2) v Suc by blast
      qed
    qed
  qed
next
  case (2 D A P watch b refuted s r)
  then show ?case by (auto intro: u_end)
next
  case (3 D A P watch b v x mark fr refuted s r)
  let ?s = "st_undo mark s" and ?d = "length fr"
  let ?rf = "if level_tries ?s > 0 then count_refuted ?d refuted else refuted"
  let ?cut = "level_tries ?s > 0 \<and> ?rf ! ?d > level_tries ?s \<and> dom_size (st_d ?s ! v) > 2"
  let ?u = "?s\<lparr>st_work := st_work ?s + length (st_d ?s ! v), st_dirty := []\<rparr>"
  let ?nd = "dom_minus (st_d ?u ! v) [(x, x)]"
  have same: "same_doms ?s ?u" "st_cut ?u = st_cut s" by (simp_all add: same_doms_def)
  have e: "search_undo D A P watch b ((v, x, mark) # fr) refuted s r =
    (if ?cut then search_undo D A P watch b fr (take ?d ?rf) (?s\<lparr>st_cut := True, level_cut := True\<rparr>) r
     else if b = 0 then (None, b, ?s, r)
     else if st_work ?u \<ge> work_budget then (None, b - 1, ?u, r)
     else if \<not> fst (st_set v ?nd ?u) then search_undo D A P watch (b - 1) fr ?rf (snd (st_set v ?nd ?u)) r
     else case set_and_run P watch v ?nd ?u of
            (Some True, s) \<Rightarrow> search_decide D A P watch (b - 1) fr ?rf s r
          | (Some False, s) \<Rightarrow> search_undo D A P watch (b - 1) fr ?rf s r
          | (None, s) \<Rightarrow> (None, b - 1, s, r))"
    unfolding search_undo.simps(2) Let_def by (rule refl)
  note run = 3(5)[unfolded e]
  show ?case
  proof (cases ?cut)
    case True
    have "searches P watch False b fr (?s\<lparr>st_cut := True, level_cut := True\<rparr>) res b' t"
      using 3(1)[OF refl refl refl True] run[unfolded if_P[OF True]] 3(6) by blast
    then show ?thesis by (rule u_abandon[rotated 2]) (simp_all add: same_doms_def)
  next
    case nc: False
    note run = run[unfolded if_not_P[OF nc]]
    show ?thesis
    proof (cases b)
      case 0
      then show ?thesis using run by (simp add: u_out)
    next
      case (Suc c)
      then have b: "b \<noteq> 0" "b - 1 = c" by simp_all
      note run = run[unfolded if_not_P[OF b(1)] b(2)]
      show ?thesis
      proof (cases "work_budget \<le> st_work ?u")
        case True
        then show ?thesis using run[unfolded if_P[OF True]] Suc u_work[OF True] by blast
      next
        case w: False
        note run = run[unfolded if_not_P[OF w]] and ih = 3(2-4)[OF refl refl refl nc b(1) refl w refl, unfolded b(2)]
        show ?thesis
        proof (cases "fst (st_set v ?nd ?u)")
          case False
          then have "searches P watch False c fr (snd (st_set v ?nd ?u)) res b' t"
            using ih(1)[OF False] run[unfolded if_P[OF False]] 3(6) by blast
          then show ?thesis unfolding Suc by (rule u_empty[OF same False])
        next
          case True
          then have nn: "\<not> \<not> fst (st_set v ?nd ?u)" by simp
          obtain out z where sr: "set_and_run P watch v ?nd ?u = (out, z)" by force
          note run = run[unfolded if_not_P[OF nn] sr prod.case]
          show ?thesis
          proof (cases out)
            case None
            then show ?thesis using run Suc u_reverse_out[of P watch v ?nd ?u z] sr by auto
          next
            case out: (Some okk)
            have "searches P watch okk c fr z res b' t"
              using ih(2)[OF nn sr[symmetric] out] ih(3)[OF nn sr[symmetric] out] run 3(6) out by (cases okk) auto
            then show ?thesis unfolding Suc by (rule u_reverse[OF same sr[unfolded out]])
          qed
        qed
      qed
    qed
  qed
qed

section \<open>What the outcomes mean\<close>

lemma searches_sound:
  assumes "searches P watch d b fr s res b' t" and law: "csp_law P L" "watch_ok P watch"
  shows "if d then decide_inv P L fr s else undo_inv P L fr s \<Longrightarrow> res = Some False \<Longrightarrow> \<not> st_cut t \<Longrightarrow> \<not> solution P L \<sigma>"
  using assms(1)
proof (induction rule: searches.induct)
  case (s_decide v s u x ok w b fr res b' t)
  have inv: "decide_inv P L fr s" using s_decide.prems(1) by simp
  then have s: "st_ok s" "v < vars_of P" using s_decide.hyps(1) by (auto simp: decide_inv_def)
  note st = decide_step[OF law inv s_decide.hyps(2) s(2) _ _ s_decide.hyps(4)]
  show ?case using s_decide.IH s_decide.prems(2,3) st s_decide.hyps(3)[OF s(1)] by (cases ok) auto
next
  case (u_abandon mark s u b fr res b' t v x)
  have inv: "frames_ok (vars_of P) ((v, x, mark) # fr) s" using u_abandon.prems(1) by (simp add: undo_inv_def)
  then have "undo_inv P L fr u"
    using u_abandon.hyps(2) frames_doms[OF u_abandon.hyps(1)] by (simp add: undo_inv_def Let_def)
  then show ?case using u_abandon.IH u_abandon.prems(2,3) by simp
next
  case (u_empty mark s u v x b fr res b' t)
  have inv: "undo_inv P L ((v, x, mark) # fr) s" using u_empty.prems(1) by simp
  show ?case using u_empty.IH u_empty.prems(2,3) undo_step(2)[OF law inv u_empty.hyps(1-3)] by simp
next
  case (u_reverse mark s u v x ok w b fr res b' t)
  have inv: "undo_inv P L ((v, x, mark) # fr) s" using u_reverse.prems(1) by simp
  show ?case using u_reverse.IH u_reverse.prems(2,3) undo_step(3,4)[OF law inv u_reverse.hyps(1,2)] u_reverse.hyps(3)
    by (cases ok) auto
qed (auto simp: undo_inv_def)

lemma searches_budget: "searches P watch d b fr s res b' t \<Longrightarrow> b' \<le> b"
  by (induction rule: searches.induct) auto

lemma searches_none: "searches P watch d b fr s res b' t \<Longrightarrow> res = None \<Longrightarrow> b' = 0 \<or> work_budget \<le> st_work t"
  by (induction rule: searches.induct) (auto intro: run_none)

text \<open>A level is abandoned only after a decision.\<close>

lemma searches_level: "searches P watch d b fr s res b' t \<Longrightarrow> d \<Longrightarrow> level_cut t = level_cut s \<or> b' < b"
  by (induction rule: searches.induct) (auto dest: searches_budget)

lemma searches_found: "searches P watch d b fr s res b' t \<Longrightarrow> res = Some True \<Longrightarrow> v < length (st_d t) \<Longrightarrow> st_fixed t v \<noteq> None"
  by (induction rule: searches.induct) auto

lemma undo_trail_length: "length (fst (undo_trail m d tr)) = length d"
  by (induction m d tr rule: undo_trail.induct) auto

lemma doms_length: "same_doms (st_undo m s) u \<Longrightarrow> length (st_d u) = length (st_d s)"
  using undo_trail_length[of m "st_d s" "st_trail s"] by (auto simp: same_doms_def st_undo_def Let_def split: prod.splits)

lemma run_length: "set_and_run P watch v d s = (res, t) \<Longrightarrow> length (st_d t) = length (st_d s)"
  using grows_counts(6)[OF set_and_run_grows[of s P watch v d]] by simp

lemma searches_length: "searches P watch d b fr s res b' t \<Longrightarrow> res = Some True \<Longrightarrow> length (st_d t) = length (st_d s)"
proof (induction rule: searches.induct)
  case (u_reverse mark s u v x ok w b fr res b' t)
  then show ?case using run_length[OF u_reverse.hyps(3)] doms_length[OF u_reverse.hyps(1)] by simp
qed (auto simp: same_search_def st_set_def dest: doms_length run_length)

text \<open>One search from the first domains.\<close>

definition start_state :: "csp \<Rightarrow> st \<Rightarrow> bool" where
  "start_state P s \<longleftrightarrow> st_d s = cs_dom0 P \<and> st_trail s = [] \<and> level_cut s = False"

lemma csp_search_cases:
  assumes "csp_search D A P watch b s r = (res, b', t, r')" and "draws_ok D"
  obtains (first) "csp_propagate P watch [0..<length (cs_nodes P)] s = (res, t)" "res \<noteq> Some True" "b' = b"
    | (rest) u where "csp_propagate P watch [0..<length (cs_nodes P)] s = (Some True, u)" "searches P watch True b [] u res b' t"
proof -
  obtain p u where p: "csp_propagate P watch [0..<length (cs_nodes P)] s = (p, u)" by force
  show ?thesis
  proof (cases "p = Some True")
    case True
    then have "search_decide D A P watch b [] [] u r = (res, b', t, r')" using assms(1) p by (simp add: csp_search_def)
    then show ?thesis using rest p True search_searches(1)[OF assms(2)] by blast
  next
    case False
    then show ?thesis using first assms(1) p by (cases p) (auto simp: csp_search_def split: bool.splits)
  qed
qed

lemma csp_search_unsat:
  assumes "csp_search D A P (csp_watch P) b s r = (Some False, b', t, r')" and "\<not> st_cut t"
    and law: "csp_law P L" and D: "draws_ok D" and s: "start_state P s"
  shows "\<not> solution P L \<sigma>"
proof
  assume sol: "solution P L \<sigma>"
  note w = csp_watch_ok
  have s': "state_of (vars_of P) s" "admits s \<sigma>" using s law sol by (auto simp: start_state_def csp_law_def st_ok_def solution_def admits_def)
  have run: "runs_sound P L s (csp_propagate P (csp_watch P) [0..<length (cs_nodes P)] s)"
    by (rule propagate_sound[OF law w s'(1)]) simp
  show False using assms(1) D
  proof (cases rule: csp_search_cases)
    case first
    then show ?thesis using run s'(2) sol assms(2) by (auto simp: runs_sound_def solution_def)
  next
    case (rest u)
    have adm: "admits u \<tau>" if "solution P L \<tau>" for \<tau>
    proof -
      have "admits s \<tau>" using that s by (simp add: solution_def admits_def start_state_def)
      then show ?thesis using run rest(1) that by (auto simp: runs_sound_def solution_def)
    qed
    have "state_of (vars_of P) u" using run rest(1) s'(1) by (simp add: runs_sound_def narrows_def)
    then have "decide_inv P L [] u" using adm by (simp add: decide_inv_def)
    then show ?thesis using searches_sound[OF rest(2) law w] assms(2) sol by auto
  qed
qed

text \<open>A search that is to be repeated has used some of the budget.\<close>

lemma csp_search_left:
  assumes "csp_search D A P watch b s r = (res, b', t, r')" and "draws_ok D" and "\<not> level_cut s"
  shows "b' \<le> b" "level_cut t \<Longrightarrow> b' < b" "res = None \<Longrightarrow> st_work t < work_budget \<Longrightarrow> b' = 0"
    "res = Some True \<Longrightarrow> v < length (st_d s) \<Longrightarrow> st_fixed t v \<noteq> None"
proof -
  have level: "level_cut u = level_cut s" if "csp_propagate P watch start s = (p, u)" for start p u
    using grows_counts(4)[OF propagate_grows[of s P watch start]] that by simp
  have "b' \<le> b \<and> (level_cut t \<longrightarrow> b' < b) \<and> (res = None \<longrightarrow> st_work t < work_budget \<longrightarrow> b' = 0) \<and>
    (res = Some True \<longrightarrow> v < length (st_d s) \<longrightarrow> st_fixed t v \<noteq> None)"
    using assms(1,2)
  proof (cases rule: csp_search_cases)
    case first
    then show ?thesis using level[OF first(1)] assms(3) run_none(2)[of P watch "[0..<length (cs_nodes P)]" s t] by (cases res) auto
  next
    case (rest u)
    have len: "length (st_d u) = length (st_d s)"
      using grows_counts(6)[OF propagate_grows[of s P watch "[0..<length (cs_nodes P)]"]] rest(1) by simp
    show ?thesis
      using level[OF rest(1)] assms(3) searches_budget[OF rest(2)] searches_level[OF rest(2)] searches_none[OF rest(2)]
        searches_found[OF rest(2), of v] searches_length[OF rest(2)] len by auto
  qed
  then show "b' \<le> b" "level_cut t \<Longrightarrow> b' < b" "res = None \<Longrightarrow> st_work t < work_budget \<Longrightarrow> b' = 0"
    "res = Some True \<Longrightarrow> v < length (st_d s) \<Longrightarrow> st_fixed t v \<noteq> None" by blast+
qed

definition answer_ok :: "csp \<Rightarrow> (asg \<Rightarrow> bool) \<Rightarrow> found \<Rightarrow> bool" where
  "answer_ok P L y \<longleftrightarrow>
     (case y of Found t \<Rightarrow> (\<forall>v < vars_of P. st_fixed t v \<noteq> None) | Unsat \<Rightarrow> csp_law P L \<longrightarrow> (\<forall>\<sigma>. \<not> solution P L \<sigma>) | GaveUp \<Rightarrow> True)"

lemma find_loop_answer:
  assumes "draws_ok D" and "0 < budget" and "0 < run_budget"
  shows "\<exists>y. find_loop D A P budget run_budget tries s r = Some y \<and> answer_ok P L y"
  using assms(2,3)
proof (induction budget arbitrary: run_budget tries s r rule: less_induct)
  case (less budget)
  let ?s = "s\<lparr>st_d := cs_dom0 P, st_trail := [], st_dirty := [], level_tries := (if cs_has_subs P then tries else 0), level_cut := False\<rparr>"
  let ?run = "min run_budget budget"
  obtain res left t r1 where c: "csp_search D A P (csp_watch P) ?run ?s r = (res, left, t, r1)" by (metis prod_cases4)
  let ?b = "budget - (?run - left)"
  have e: "find_loop D A P budget run_budget tries s r =
    (if res = Some True then Some (Found t)
     else if res = Some False
     then (if level_cut t \<and> ?b > 0 \<and> st_work t < work_budget
           then find_loop D A P ?b (2 * run_budget) (min (2 * tries) tries_max) t r1
           else Some (if st_cut t then GaveUp else Unsat))
     else if ?b = 0 \<or> st_work t \<ge> work_budget then Some GaveUp
     else find_loop D A P ?b (2 * run_budget) tries t r1)"
    by (subst find_loop.simps) (simp only: Let_def c prod.case)
  have st: "start_state P ?s" "\<not> level_cut ?s" by (simp_all add: start_state_def)
  note left = csp_search_left[OF c assms(1) st(2)]
  have unsat: "csp_law P L \<Longrightarrow> res = Some False \<Longrightarrow> \<not> st_cut t \<Longrightarrow> \<not> solution P L \<sigma>" for \<sigma>
    using csp_search_unsat[OF _ _ _ assms(1) st(1), of A ?run r left t r1 L \<sigma>] c by simp
  consider "res = Some True" | "res = Some False" | "res = None" by (metis (full_types) not_Some_eq)
  then show ?case
  proof cases
    case 1
    then show ?thesis using e left(4) by (auto simp: answer_ok_def)
  next
    case 2
    show ?thesis
    proof (cases "level_cut t \<and> ?b > 0 \<and> st_work t < work_budget")
      case True
      then have "?b < budget" using left(2) less.prems by auto
      then show ?thesis using less.IH[of ?b "2 * run_budget"] True e 2 less.prems by simp
    next
      case False
      have "find_loop D A P budget run_budget tries s r = Some (if st_cut t then GaveUp else Unsat)"
        using e[unfolded if_not_P[OF False]] 2 by simp
      then show ?thesis using unsat 2 by (simp add: answer_ok_def)
    qed
  next
    case 3
    show ?thesis
    proof (cases "?b = 0 \<or> st_work t \<ge> work_budget")
      case True
      then show ?thesis using e 3 by (simp add: answer_ok_def)
    next
      case False
      then have "?b < budget" using left(3)[OF 3] less.prems by simp
      then show ?thesis using less.IH[of ?b "2 * run_budget"] False e 3 less.prems by simp
    qed
  qed
qed

lemma csp_find_answer: "draws_ok D \<Longrightarrow> \<exists>y. csp_find D A P r = Some y \<and> answer_ok P L y"
  unfolding csp_find_def by (rule find_loop_answer) (simp_all add: node_budget_def)

end
