(* ===== verification/Csp_Examples.thy ===== *)
theory Csp_Examples
  imports Csp_Exhaust
begin

text \<open>
  Constraint sets on which the solver's definitions are run.
\<close>

section \<open>Two variables of two values, different and equal\<close>

definition ne_node :: "nat \<Rightarrow> nat \<Rightarrow> nat \<Rightarrow> csp_node" where
  "ne_node a b src = NLin \<lparr>lin_t = [(a, 1), (b, - 1)], lin_k = 0\<rparr> RelNe [] src False None"

definition no_val :: cval where
  "no_val = \<lparr>cv_unknown = True, cv_signed = False, cv_width = 0, cv_u64 = None\<rparr>"

definition ne_csp :: csp where
  "ne_csp = \<lparr>cs_width = [1, 1], cs_signed = [False, False], cs_deps = [[0, 1]],
     cs_stale = [False], cs_wide = (\<lambda>_. False), cs_seg = (\<lambda>_. False), cs_base = (\<lambda>_. None),
     cs_has_subs = False, cs_nodes = [ne_node 0 1 0, NEval 0 True],
     cs_dom0 = [[(0, 1)], [(0, 1)]],
     ev_holds = (\<lambda>src \<sigma>. \<sigma> 0 \<noteq> \<sigma> 1),
     ev_value = (\<lambda>_ _. no_val)\<rparr>"

definition plain_aux :: aux where
  "plain_aux = \<lparr>ax_guards = [], ax_dists = [[], []], ax_preds = [[], []], ax_seg_hi = [[], []],
     ax_composite = [False, False], ax_guard_var = [False, False]\<rparr>"

text \<open>The draws of a generator that always gives 0.\<close>

definition zero_draws :: "unit draws" where
  "zero_draws = \<lparr>dr_tie = (\<lambda>r k. (True, r)), dr_first = (\<lambda>r s v. (None, r)), dr_weigh = (\<lambda>r s v ls. (None, r)), dr_any = (\<lambda>r k. (0, r))\<rparr>"

lemma ne_sel [simp]:
  "cs_width ne_csp = [1, 1]" "cs_signed ne_csp = [False, False]" "cs_deps ne_csp = [[0, 1]]" "cs_stale ne_csp = [False]"
  "cs_wide ne_csp v = False" "cs_seg ne_csp v = False" "cs_base ne_csp v = None" "cs_has_subs ne_csp = False"
  "cs_nodes ne_csp = [ne_node 0 1 0, NEval 0 True]" "cs_dom0 ne_csp = [[(0, 1)], [(0, 1)]]"
  "ev_holds ne_csp src \<sigma> = (\<sigma> 0 \<noteq> \<sigma> 1)"
  by (simp_all add: ne_csp_def)

lemmas run_simps = csp_propagate_def csp_watchers_def set_and_run_def work_budget_def st_set_def st_undo_def st_fixed_def
  st_bounds_def dom_fixed_def dom_norm_def dom_clip_def dom_size_def points_def written_def eval_src_def src_fixed_def
  all_fixed_def eval_forward_def est_max_dom_def u128_max_def i128_max_def upt_rec

lemma ne_watch: "csp_watch ne_csp = [[0, 1], [0, 1]]"
  by (simp add: csp_watch_def ne_node_def upt_rec)

abbreviation ne_st :: "dom list \<Rightarrow> (nat \<times> dom) list \<Rightarrow> nat \<Rightarrow> st" where
  "ne_st d tr w \<equiv> \<lparr>st_d = d, st_trail = tr, st_dirty = [], st_work = w, est_work = 0, st_cut = False, level_tries = 0, level_cut = False\<rparr>"

lemma ne_first: "csp_propagate ne_csp [[0, 1], [0, 1]] [0, Suc 0] (ne_st [[(0, 1)], [(0, 1)]] [] 0) = (Some True, ne_st [[(0, 1)], [(0, 1)]] [] 2)"
  by (simp add: run_simps ne_node_def enforce_lin_def fits_hold_def enforce_ne_def)

lemma plain_sel [simp]:
  "ax_dists plain_aux = [[], []]" "ax_preds plain_aux = [[], []]" "ax_seg_hi plain_aux = [[], []]"
  "ax_composite plain_aux = [False, False]" "ax_guard_var plain_aux = [False, False]"
  "dr_tie zero_draws = (\<lambda>r k. (True, r))" "dr_first zero_draws = (\<lambda>r s v. (None, r))"
  "dr_weigh zero_draws = (\<lambda>r s v ls. (None, r))" "dr_any zero_draws = (\<lambda>r k. (0, r))"
  by (simp_all add: plain_aux_def zero_draws_def)

lemma ne_unsat: "csp_find zero_draws plain_aux ne_csp () = Some Unsat"
  unfolding csp_find_def node_budget_def
  by (subst find_loop.simps) (simp add: ne_watch csp_search_def pick_var_def pick_val_def var_rank_def run_simps
      ne_node_def enforce_lin_def fits_hold_def enforce_ne_def Let_def)

lemma zero_draws_ok: "draws_ok zero_draws"
  by (simp add: draws_ok_def)

lemma ne_law: "csp_law ne_csp (\<lambda>_. True)"
proof -
  have deps: "src_law ne_csp 2 0" by (auto simp: src_law_def ne_csp_def no_val_def)
  have lin: "lin_law ne_csp (\<lambda>_. True) \<lparr>lin_t = [(0, 1), (Suc 0, - 1)], lin_k = 0\<rparr> RelNe [] 0 False None"
    by (simp add: lin_law_def rel_holds_def lin_val_def)
  have form: "form_ok 2 \<lparr>lin_t = [(0, 1), (Suc 0, - 1)], lin_k = 0\<rparr>" by (auto simp: form_ok_def lin_ok_def coef_max_def konst_max_def)
  show ?thesis using deps lin form by (auto simp: csp_law_def ne_node_def numeral_2_eq_2 i128_max_def i128_min_def)
qed

section \<open>A signed value against an unsigned variable\<close>

text \<open>
  Variable 0 is an unsigned byte, variable 1 a signed one of a sub-object; the constraint is that
  variable 0 equals a signed function of variable 1, here its value, read as eight bits.
\<close>

definition byte_val :: "int \<Rightarrow> cval" where
  "byte_val x = \<lparr>cv_unknown = False, cv_signed = True, cv_width = 8, cv_u64 = Some (nat (x mod 256))\<rparr>"

definition sub_csp :: "bool \<Rightarrow> csp" where
  "sub_csp subs = \<lparr>cs_width = [8, 8], cs_signed = [False, True], cs_deps = [[1], [0, 1]],
     cs_stale = [False, False], cs_wide = (\<lambda>_. False), cs_seg = (\<lambda>_. False), cs_base = (\<lambda>_. None),
     cs_has_subs = subs, cs_nodes = [NFun 0 OpEq 0 1 False],
     cs_dom0 = [[(0, 255)], [(- 2, - 1)]],
     ev_holds = (\<lambda>src \<sigma>. \<sigma> 0 = \<sigma> 1 mod 256),
     ev_value = (\<lambda>src \<sigma>. byte_val (\<sigma> 1))\<rparr>"

lemma sub_sel [simp]:
  "cs_width (sub_csp b) = [8, 8]" "cs_signed (sub_csp b) = [False, True]" "cs_deps (sub_csp b) = [[1], [0, 1]]"
  "cs_stale (sub_csp b) = [False, False]" "cs_has_subs (sub_csp b) = b" "cs_nodes (sub_csp b) = [NFun 0 OpEq 0 1 False]"
  "cs_dom0 (sub_csp b) = [[(0, 255)], [(- 2, - 1)]]" "ev_holds (sub_csp b) src \<sigma> = (\<sigma> 0 = \<sigma> 1 mod 256)"
  "ev_value (sub_csp b) src \<sigma> = byte_val (\<sigma> 1)"
  by (simp_all add: sub_csp_def)

lemma sub_watch: "csp_watch (sub_csp b) = [[0], [0]]"
  by (simp add: csp_watch_def upt_rec)

lemma sext_bytes: "sext64 255 8 = - 1" "sext64 254 8 = - 2"
  by code_simp+

lemma sub_combos: "combo_value (sub_csp True) s 0 0 [- 1] = Some (- 1)" "combo_value (sub_csp True) s 0 0 [- 2] = Some (- 2)"
  by (simp_all add: combo_value_def byte_val_def sext_bytes Let_def)

abbreviation sub_st :: "dom list \<Rightarrow> (nat \<times> dom) list \<Rightarrow> nat list \<Rightarrow> nat \<Rightarrow> st" where
  "sub_st d tr dirty w \<equiv>
     \<lparr>st_d = d, st_trail = tr, st_dirty = dirty, st_work = w, est_work = 0, st_cut = False, level_tries = 16, level_cut = False\<rparr>"

lemma sub_values: "dom_values [(- 2, - 1)] = [- 2, - 1]"
  by code_simp

lemma sub_range: "fun_range (sub_csp True) 0 OpEq 0 (sub_st [[(0, 255)], [(- 2, - 1)]] [] [] (Suc 0))
    = (False, sub_st [[], [(- 2, - 1)]] [(0, [(0, 255)])] [0] 3)"
  by (simp add: fun_range_def run_simps sub_values sub_combos max_combos_def Let_def)

lemma sub_unsat: "csp_find D A (sub_csp True) r = Some Unsat"
  unfolding csp_find_def node_budget_def
  by (subst find_loop.simps) (simp add: sub_watch csp_search_def csp_propagate_def work_budget_def upt_rec enforce_fun_def
      src_fixed_def all_fixed_def st_fixed_def dom_fixed_def sub_range Let_def)

lemma sub_found: "\<exists>t. csp_find zero_draws plain_aux (sub_csp False) () = Some (Found t) \<and> st_d t = [[(254, 254)], [(- 2, - 2)]]"
  unfolding csp_find_def node_budget_def
  by (subst find_loop.simps) (simp add: sub_watch csp_search_def pick_var_def pick_val_def var_rank_def run_simps enforce_fun_def
      byte_val_def fun_value_def cmp_narrow_def Let_def)

end
