(* ===== verification/Spec2Isabelle.thy ===== *)
theory Spec2Isabelle
  imports Ts_Fuse_Sim Ts_Unfuse Ts_X_Agree Ts_X_Sound Delayed_Examples Gates_Examples Wheel_Examples Csp_Examples Examples
begin

text \<open>
  The execution core of the SystemVerilog simulator xezim, from the Rust sources under
  \<^verbatim>\<open>src/src/compiler/\<close>.

  \<^bold>\<open>The program.\<close>  The front end (crates outside the repository) yields an elaborated design; the
  bytecode compiler lowers procedural blocks to streams of two-state instructions over 64-bit registers
  (\<^verbatim>\<open>bytecode.rs\<close>, type \<^verbatim>\<open>TsInsn\<close>), fuses adjacent instructions and hands the streams to executors.
  Continuous logic becomes a list of entries: one-bit gates, vectors of gates, user-defined primitives.
  Executors and entries write the table of signals; every write is observed (edge blocks are armed,
  dirty signals marked).  Non-blocking assignments wait in a queue, delayed updates in another, and
  processes on a timing wheel.  A signal value is the type \<^verbatim>\<open>Value\<close> of the crate \<^verbatim>\<open>xezim-core\<close>: it is a
  type variable here, and what the code uses of it are fields of the records \<open>vops\<close>, \<open>env\<close>, \<open>denv\<close> and
  \<open>genv\<close>, with its documented behaviour in named hypotheses (\<open>mirror_env\<close>, \<open>queue_env\<close>, \<open>bit_laws\<close>,
  \<open>plane_laws\<close>), which the example theories show to hold for concrete values.

  \<^bold>\<open>Shared.\<close>  \<open>Xz_Prelude\<close>: 64-bit words, shifts, lists of pairs, the collection of step rules.
  \<open>Run_Loop\<close>: the loop of an executor as a partial function, with locales for invariants and
  simulations (\<open>steps\<close>, \<open>run_loop\<close>) that the executors interpret.

  \<^bold>\<open>Two-state streams.\<close>
  \<^item> \<open>Ts_Insn\<close>: the instructions and their payloads, the masks of bit spans, the screen of streams for
    the x-plane executor (\<^verbatim>\<open>bytecode.rs\<close>).  \<open>Planes\<close>: replication and the splice of a range into planes
    (\<^verbatim>\<open>simulator.rs\<close>, \<^verbatim>\<open>profiling.rs\<close>).
  \<^item> \<open>Ts_State\<close>: the state of a block and the store helpers (\<^verbatim>\<open>two_state.rs\<close>, \<^verbatim>\<open>ts_x.rs\<close>,
    \<^verbatim>\<open>signal_commits.rs\<close>); \<open>Nba\<close>: the queue of non-blocking assignments and its index; \<open>Ts_Inv\<close>: the
    mirror of planes and the index are invariants.
  \<^item> \<open>Ts_Exec\<close>, \<open>Ts_Run\<close>: the straight-line and the control executor, equal on streams without branches.
    \<open>Ts_X\<close>, \<open>Kleene\<close>: the executor on value and x planes; \<open>Ts_X_Agree\<close>: it agrees with the
    control executor where there is no x; \<open>Ts_X_Sound\<close>: it never claims a bit it does not know.
  \<^item> \<open>Ts_Fuse\<close>, \<open>Ts_Fuse_Sim\<close>: the peephole pass and its simulation.  \<open>Ts_Unfuse\<close>: the expansion
    for the JIT and its round trip (\<^verbatim>\<open>ts_jit.rs\<close>).

  \<^bold>\<open>Primitives.\<close>  \<open>Udp\<close>, \<open>Udp_Eval\<close>, \<open>Udp_Batch\<close>, \<open>Udp_Drive\<close> (\<^verbatim>\<open>udp.rs\<close>): matching of rows, compilation to
  ternary tables and event filters, the evaluation of an instance and of a batch, the output;
  \<open>Udp_Props\<close>: tables and filters agree with the rows.

  \<^bold>\<open>Time.\<close>  \<open>Wheel\<close> and its lemma theories (\<^verbatim>\<open>simulator.rs\<close>, \<^verbatim>\<open>TimingWheel\<close>): 4096 slots with a bitmap and
  an overflow map, refined to a function from times to lists of events; \<open>Event_Queue\<close>: the loop that
  drains the active region (\<^verbatim>\<open>event_loop.rs\<close>).  \<open>Delayed\<close>, \<open>Delayed_Props\<close>, \<open>Delayed_Queue\<close>: the queue of
  delayed updates and module path delays (\<^verbatim>\<open>process_scopes.rs\<close>, \<^verbatim>\<open>module_paths.rs\<close>).

  \<^bold>\<open>Gates.\<close>
  \<^item> \<open>Observers\<close>, \<open>Observers_Props\<close>: what a write notes (\<^verbatim>\<open>after_signal_write_inner\<close>), the commit plans and
    quiet bits that skip parts of it, the fanout of armed inputs (\<^verbatim>\<open>signal_commits.rs\<close>, \<^verbatim>\<open>settling.rs\<close>).
  \<^item> \<open>Gates\<close>, \<open>Vector_Gates\<close>: one-bit gates and their four-state algebra, fanouts, vector and scatter
    gates, the coalescing of runs, the commits (\<^verbatim>\<open>signal_commits.rs\<close>, \<^verbatim>\<open>class_access.rs\<close>,
    \<^verbatim>\<open>isolated_gates.rs\<close>, \<^verbatim>\<open>comb_compilation.rs\<close>).  \<open>Gates_Props\<close>, \<open>Gates_Exec\<close>, \<open>Gate_Commits\<close>,
    \<open>Gate_Lut3\<close>: lanes, runs, commits and packed tables against the one-bit gates.
  \<^item> \<open>Gate_Control\<close>, \<open>Gate_Control_Props\<close>: gates that ignore an input while the other controls them
    (\<^verbatim>\<open>profiling.rs\<close>), with the step relation of everything that can happen to one and its invariant.

  \<^bold>\<open>Constraint solver\<close> (\<^verbatim>\<open>rand_csp.rs\<close>): \<^verbatim>\<open>randomize()\<close> with constraints over several variables.
  \<^item> \<open>Csp_Dom\<close>, \<open>Csp_Lin\<close>, \<open>Csp_Lin_Props\<close>: domains as lists of intervals, linear forms, the search state
    \<^verbatim>\<open>St\<close> with its trail, the propagation of bounds (\<^verbatim>\<open>prop_bound\<close>).
  \<^item> \<open>Csp_Node\<close>, \<open>Csp_Enforce\<close>: the nodes, \<^verbatim>\<open>csp_status\<close> and \<^verbatim>\<open>csp_enforce\<close> with \<^verbatim>\<open>csp_wrap_eq\<close>,
    \<^verbatim>\<open>csp_wrap_set\<close>, \<^verbatim>\<open>csp_wrap_rel\<close>, \<^verbatim>\<open>csp_fun_range\<close> and \<^verbatim>\<open>csp_eval_forward\<close>.  \<open>Csp_Sem\<close> says what a node
    means; \<open>Csp_Wrap\<close>, \<open>Csp_Wrap_Set\<close>, \<open>Csp_Sound\<close>, \<open>Csp_Sound_Vars\<close>, \<open>Csp_Sound_Eval\<close> prove, kind by
    kind, that judging is right and narrowing loses no solution.
  \<^item> \<open>Csp_Search\<close>: \<^verbatim>\<open>csp_propagate\<close>, \<^verbatim>\<open>csp_pick_var\<close>, \<^verbatim>\<open>csp_pick_val\<close>, \<^verbatim>\<open>csp_search\<close>, \<^verbatim>\<open>csp_find\<close>; \<open>Csp_Grows\<close>: what
    every operation keeps of the state; \<open>Csp_Unsat\<close>, \<open>Csp_Exhaust\<close>: an exhausted search proves that there
    is no solution, and the search answers.
  The evaluator of expressions is the AST interpreter: \<open>ev_holds\<close> and \<open>ev_value\<close> are fields of the problem.
  The random draws, which weigh with floating point numbers, are the fields of \<open>draws\<close>; \<open>draws_ok\<close> says only
  that a drawn value is an \<^verbatim>\<open>i128\<close> and a drawn position lies in its list.  \<open>csp_law\<close> is what the solver relies on of the translated nodes and
  the evaluator: legal assignments give the added variables the values that define them, forms stand for
  their source where their fits hold, and a source is judged from the variables it names.

  \<^bold>\<open>Examples.\<close>  \<open>Examples\<close>, \<open>Udp_Examples\<close>, \<open>Wheel_Examples\<close>, \<open>Delayed_Examples\<close>, \<open>Gates_Examples\<close>,
  \<open>Csp_Examples\<close> hold the concrete instances on which the witnesses of this theory evaluate.

  \<^bold>\<open>Bounds and termination.\<close>  Registers are 64-bit words.  Instruction indices, signal ids, times and
  positions are natural numbers (sums of times, which are \<^verbatim>\<open>u64\<close> in the code, do not wrap); where the
  code's arithmetic can wrap (a dynamic index, \<^verbatim>\<open>dyn_slice_bounds\<close>), words are kept.  The executors are
  partial functions: a stream that does not end has the value \<open>None\<close>, as has a panic.  The loops of the
  wheel and of the queues end by structural recursion or a measure; the draining of the active region
  is partial, and its end is proved when the handlers schedule finitely many events.  An \<^verbatim>\<open>i128\<close> of the
  constraint solver is an integer, with the saturation and the checks of the code; its propagation ends
  by the budget of 1 000 000 node runs, its search by the budget of 40 000 decisions and the height of
  the stack, and the restarts, a partial function, because each uses up budget.

  \<^bold>\<open>Findings.\<close>  The bounds check of a dynamic slice wraps; a primitive terminal tied to z indexes its
  table out of range; the store of an array element from a signal differs from its two components on x;
  \<^verbatim>\<open>remove_pid\<close> leaves overflow events; \<^verbatim>\<open>apply_delayed_updates\<close> reorders the updates of a net; the vector
  multiplexer passes z where the scalar one gives x; the fast commits overwrite a net forced to a constant.  \<^verbatim>\<open>csp_fun_range\<close> sign-extends a signed value that
  is compared with an unsigned variable, where \<^verbatim>\<open>csp_enforce\<close> zero-extends it: a satisfiable set is then
  called unsatisfiable.  A negated function node whose other side is unknown fails when it is
  enforced and holds when it is judged.

  \<^bold>\<open>Not modelled.\<close>  The front end (outside the repository), the bytecode compiler and the four-state
  virtual machine and AST interpreter, which work on the types of \<^verbatim>\<open>xezim-core\<close>; code generation; the
  foreign interfaces, file input and output, reports; coverage but for the counters of blocks; the
  order in which the settle loop picks entries; the translation of constraints to nodes, the order of
  the variables (\<^verbatim>\<open>csp_aux\<close>, whose tables are an argument) and the size phase of the constraint solver.
\<close>

section \<open>Fusion of lowered streams\<close>

text \<open>C1: The peephole pass \<open>fuse_ts_pairs\<close> keeps every execution of a lowered stream without
  element stores: fused and original stream return the same flag, registers and state, panic
  together, and diverge together.  The stream holds none of the forms that only later passes
  produce.\<close>

theorem fuse_ts_pairs_correct:
  assumes "\<forall>i\<in>set out. fusable i" and "elem_free out"
  shows "exec_two_state_ctrl E (fuse_ts_pairs out) r s = exec_two_state_ctrl E out r s"
  using fuse_run[of out E s r] assms by (auto simp: fuse_inv_def)

definition loop_stream :: "unit ts_insn list" where
  "loop_stream =
     [TBasic (LoadSig 0 0), TCmp (LogNot 1 0), TCtrl (BrNz 1 8),
      TBasic (LoadSig 2 1), TBasic (LoadSig 3 0), TBasic (Add 4 2 3 255), TStore (Store 1 4 255),
      TCtrl (Jmp 9), TStore (Store 2 1 255), TTail (CovHit 1)]"

lemma fuse_ts_pairs_correct_witness:
  "fuse_ts_pairs loop_stream =
     [TFused (LoadSigNot 0 1 0), TCtrl (BrNz 1 6), TFused2 (LoadSig2 2 1 3 0),
      TBasic (Add 4 2 3 255), TStore (Store 1 4 255), TCtrl (Jmp 7), TStore (Store 2 1 255),
      TTail (CovHit 1)] \<and>
   exec_two_state_ctrl c_env (fuse_ts_pairs loop_stream) (\<lambda>_. 0) (c_sim [3, 4]) =
   exec_two_state_ctrl c_env loop_stream (\<lambda>_. 0) (c_sim [3, 4])"
proof
  show "fuse_ts_pairs loop_stream =
     [TFused (LoadSigNot 0 1 0), TCtrl (BrNz 1 6), TFused2 (LoadSig2 2 1 3 0),
      TBasic (Add 4 2 3 255), TStore (Store 1 4 255), TCtrl (Jmp 7), TStore (Store 2 1 255),
      TTail (CovHit 1)]"
    by code_simp
  show "exec_two_state_ctrl c_env (fuse_ts_pairs loop_stream) (\<lambda>_. 0) (c_sim [3, 4]) =
   exec_two_state_ctrl c_env loop_stream (\<lambda>_. 0) (c_sim [3, 4])"
    by (rule fuse_ts_pairs_correct) (simp_all add: loop_stream_def elem_free_def)
qed

text \<open>C2: With element stores the fused stream still gives every result of the original that is
  not a bail-out (return value \<open>False\<close>), if the two loads of a triple have different destinations
  and the plane mirror agrees with the signal table.\<close>

theorem fuse_ts_pairs_elem:
  assumes "\<forall>i\<in>set out. fusable i" and "no_alias out" and "mirror_env E" and "mirror_ok E s"
    and "exec_two_state_ctrl E out r s = Some (b, r', s')" and "b \<noteq> Some False"
  shows "exec_two_state_ctrl E (fuse_ts_pairs out) r s = Some (b, r', s')"
  using fuse_run[of out E s r] assms by (auto simp: fuse_inv_def)

definition elem_op :: ts_elem_op where
  "elem_op = \<lparr>el_first = 2, el_lo = 0, el_hi = 3, el_idx = 1, el_s = 0, el_w = 8, el_mask = 255\<rparr>"

definition elem_stream :: "unit ts_insn list" where
  "elem_stream = [TBasic (LoadSig 0 0), TBasic (LoadSig 1 1), TElem (ElemStoreNba elem_op)]"

lemma elem_stream_runs:
  "\<exists>r' s'. exec_two_state_ctrl c_env elem_stream (\<lambda>_. 0) (c_sim [7, 1]) = Some (Some True, r', s') \<and>
     nba_queue s' = [\<lparr>nf_signal_id = 3, nf_value = c_inline 7 0 8, nf_block_index = 0\<rparr>]"
  by (simp add: run_eval elem_stream_def elem_op_def)

lemma fuse_ts_pairs_elem_witness:
  "\<exists>r' s'. exec_two_state_ctrl c_env (fuse_ts_pairs elem_stream) (\<lambda>_. 0) (c_sim [7, 1]) =
       Some (Some True, r', s') \<and>
     nba_queue s' = [\<lparr>nf_signal_id = 3, nf_value = c_inline 7 0 8, nf_block_index = 0\<rparr>]"
proof -
  from elem_stream_runs obtain r' s' where
    run: "exec_two_state_ctrl c_env elem_stream (\<lambda>_. 0) (c_sim [7, 1]) = Some (Some True, r', s')"
    and q: "nba_queue s' = [\<lparr>nf_signal_id = 3, nf_value = c_inline 7 0 8, nf_block_index = 0\<rparr>]"
    by blast
  have "exec_two_state_ctrl c_env (fuse_ts_pairs elem_stream) (\<lambda>_. 0) (c_sim [7, 1]) = Some (Some True, r', s')"
    by (rule fuse_ts_pairs_elem[OF _ _ c_mirror_env c_mirror_ok run])
      (auto simp: elem_stream_def no_alias_def less_Suc_eq)
  with q show ?thesis by blast
qed

section \<open>The executors\<close>

text \<open>C3: On a stream without branches the straight-line executor and the control executor, which
  the source writes arm by arm twice, give the same result.\<close>

theorem line_equals_ctrl:
  assumes "\<forall>i\<in>set insns. straight i"
  shows "exec_two_state_ctrl E insns r s = Some (exec_two_state_line E insns r s)"
  using ctrl_run_line[OF assms, of 0 E r s]
  by (simp add: exec_two_state_ctrl_def exec_two_state_ctrl_from_def)

lemma line_equals_ctrl_witness:
  "exec_two_state_ctrl c_env elem_stream (\<lambda>_. 0) (c_sim [7, 1]) =
   Some (exec_two_state_line c_env elem_stream (\<lambda>_. 0) (c_sim [7, 1]))"
  by (rule line_equals_ctrl) (simp add: elem_stream_def)



text \<open>The x-plane executor reports failure only for an instruction it does not carry: a stream
  screened with \<open>tsx_insn_ok\<close> never makes it return \<open>False\<close>.\<close>

theorem x_plane_carries:
  assumes "\<forall>i\<in>set insns. tsx_insn_ok i" and "exec_two_state_x E insns p s = Some (b, p', s')"
  shows "b \<noteq> Some False"
proof -
  obtain k where "steps (x_step E insns) k (0, p, s) = Inr (b, p', s')"
    using assms(2) by (auto simp: exec_two_state_x_def run_loop_Some_iff)
  then show ?thesis by (rule x_steps_carry[OF assms(1)])
qed

text \<open>The AND of an x and a 0 is 0, so the branch is not taken.\<close>

definition x_stream :: "unit ts_insn list" where
  "x_stream = [TBasic (And 2 0 1), TCtrl (BrNz 2 3), TBasic (Const 3 1)]"

lemma x_plane_carries_witness:
  "\<exists>b p' s'. exec_two_state_x c_env x_stream ((\<lambda>_. (0, 0))(0 := (0, 1))) (c_sim []) = Some (b, p', s') \<and>
     b \<noteq> Some False \<and> p' 2 = (0, 0) \<and> p' 3 = (1, 0)"
proof -
  have "\<exists>b p' s'. exec_two_state_x c_env x_stream ((\<lambda>_. (0, 0))(0 := (0, 1))) (c_sim []) = Some (b, p', s') \<and>
     p' 2 = (0, 0) \<and> p' 3 = (1, 0)"
    by (simp add: exec_two_state_x_def run_loop.simps x_step_def x_stream_def op_p_def and_p_def t3r_def t3_def)
  then show ?thesis
    using x_plane_carries[of x_stream c_env "(\<lambda>_. (0, 0))(0 := (0, 1))" "c_sim []"]
    by (auto simp: x_stream_def)
qed


text \<open>C5: The x-plane executor never claims to know a bit that depends on an unknown one.  If the
  register pairs cover the registers, then after an arithmetic, logic, comparison, selection or
  concatenation instruction the pairs it computes cover the words the two-state executor computes;
  both only change registers.\<close>

theorem x_registers_sound:
  assumes "alu i p" and "covers_all p r" and "snd (snd (ctrl_insn E i r s)) = Next"
  shows "covers_all (fst (x_insn E i p s)) (fst (ctrl_insn E i r s)) \<and>
    snd (x_insn E i p s) = (s, Next) \<and> snd (ctrl_insn E i r s) = (s, Next)"
  using x_insn_sound[OF assms] by (simp add: sound_pair_def)

lemma x_registers_sound_witness:
  "fst (x_insn c_env (TBasic (And 2 0 1)) ((\<lambda>_. (0, 0))(0 := (0, 5), 1 := (4, 0))) (c_sim [])) 2 = (0, 4) \<and>
   covers_all (fst (x_insn c_env (TBasic (And 2 0 1)) ((\<lambda>_. (0, 0))(0 := (0, 5), 1 := (4, 0))) (c_sim [])))
     (fst (ctrl_insn c_env (TBasic (And 2 0 1)) ((\<lambda>_. 0)(0 := 4, 1 := 4)) (c_sim [])))"
proof
  show "fst (x_insn c_env (TBasic (And 2 0 1)) ((\<lambda>_. (0, 0))(0 := (0, 5), 1 := (4, 0))) (c_sim [])) 2 = (0, 4)"
    by (simp add: op_p_def and_p_def)
  show "covers_all (fst (x_insn c_env (TBasic (And 2 0 1)) ((\<lambda>_. (0, 0))(0 := (0, 5), 1 := (4, 0))) (c_sim [])))
     (fst (ctrl_insn c_env (TBasic (And 2 0 1)) ((\<lambda>_. 0)(0 := 4, 1 := 4)) (c_sim [])))"
    using x_registers_sound[of "TBasic (And 2 0 1) :: unit ts_insn" "(\<lambda>_. (0, 0))(0 := (0, 5), 1 := (4, 0))"
        "(\<lambda>_. 0)(0 := 4, 1 := 4)" c_env "c_sim []"]
    by (simp add: covers_all_def covers_def)
qed

section \<open>Invariants of the state\<close>

text \<open>C6: The plane mirror stays the image of the signal table through every run.\<close>

theorem mirror_kept:
  assumes "mirror_env E" and "mirror_ok E s" and "exec_two_state_ctrl E insns r s = Some (b, r', s')"
  shows "mirror_ok E s'"
  using mirror.ctrl_run_keeps[of E s insns 0 r b r' s'] assms by (simp add: exec_two_state_ctrl_def)

definition store_stream :: "unit ts_insn list" where
  "store_stream = [TBasic (Const 0 9), TStore (Store 1 0 255)]"

definition mirrored_sim :: "(cvalue, nat list) sim" where
  "mirrored_sim = (c_sim [7, 1])\<lparr>signal_inline_bits := [(7, 0), (1, 0)], signal_has_xz := [False, False]\<rparr>"

lemma store_stream_runs:
  "\<exists>r' s'. exec_two_state_ctrl c_env store_stream (\<lambda>_. 0) mirrored_sim = Some (Some True, r', s') \<and>
     signal_inline_bits s' = [(7, 0), (9, 0)] \<and> observers s' = [1]"
  by (simp add: run_eval store_stream_def mirrored_sim_def)

lemma mirror_kept_witness:
  "\<exists>r' s'. exec_two_state_ctrl c_env store_stream (\<lambda>_. 0) mirrored_sim = Some (Some True, r', s') \<and>
     signal_inline_bits s' = [(7, 0), (9, 0)] \<and> mirror_ok c_env s'"
proof -
  have "mirror_ok c_env mirrored_sim"
    by (auto simp: mirror_ok_def mirrored_sim_def less_Suc_eq sig_raw_def c_defs ts_mask_def shl64_def)
  with store_stream_runs mirror_kept[OF c_mirror_env] show ?thesis by blast
qed

text \<open>C7: The index of pending non-blocking assignments finds every queued entry and only those,
  and no signal is queued twice, through every run that leaves less than \<open>2 ^ 32\<close> entries.\<close>

theorem pending_index_kept:
  assumes "queue_env E" and "nba_ok s" and "exec_two_state_ctrl E insns r s = Some (b, r', s')"
    and "length (nba_queue s') \<le> u32_max"
  shows "(nbi_get (nba_index s') sid = Some i \<longleftrightarrow> i < length (nba_queue s') \<and> nf_signal_id (nba_queue s' ! i) = sid) \<and>
    distinct (map nf_signal_id (nba_queue s'))"
proof -
  have "nba_ok s'"
    using queue.ctrl_run_keeps[of E s insns 0 r b r' s'] assms by (simp add: exec_two_state_ctrl_def)
  then have linked: "linked (nbi_get (nba_index s')) (nba_queue s')" by (simp add: nba_ok_def)
  show ?thesis using linked_distinct[OF linked] linked by (auto simp: linked_def)
qed

lemma pending_index_kept_witness:
  "\<exists>r' s'. exec_two_state_ctrl c_env elem_stream (\<lambda>_. 0) (c_sim [7, 1]) = Some (Some True, r', s') \<and>
     nbi_get (nba_index s') 3 = Some 0"
proof -
  from elem_stream_runs obtain r' s' where
    run: "exec_two_state_ctrl c_env elem_stream (\<lambda>_. 0) (c_sim [7, 1]) = Some (Some True, r', s')"
    and q: "nba_queue s' = [\<lparr>nf_signal_id = 3, nf_value = c_inline 7 0 8, nf_block_index = 0\<rparr>]"
    by blast
  have "nbi_get (nba_index s') 3 = Some 0"
    using pending_index_kept[OF c_queue_env c_nba_ok run] q by (simp add: u32_max_def)
  with run show ?thesis by blast
qed

text \<open>C8: A non-blocking store of a whole signal makes its value the pending one, whatever was
  pending before; it is dropped only if nothing is pending and the signal holds the value.\<close>

theorem last_nba_wins:
  assumes "nba_ok s"
  shows "pending (ts_store_nba E sid v w s) =
    (if sid \<in> dom (pending s) \<or> value_ne (vo E) (signal_table s sid) (from_u64 (vo E) v w)
     then (pending s)(sid \<mapsto> from_u64 (vo E) v w) else pending s)"
  unfolding ts_store_nba_as_val by (rule pending_store_nba_val[OF assms])

lemma last_nba_wins_witness:
  "pending (ts_store_nba c_env 1 6 8 (ts_store_nba c_env 1 5 8 (c_sim [7, 1]))) 1 = Some (c_inline 6 0 8)"
proof -
  have ok: "nba_ok (ts_store_nba c_env 1 5 8 (c_sim [7, 1]))"
    using nba_ok_store_nba[OF c_nba_ok, of "[7, 1]"]
    by (simp add: ts_store_nba_as_val c_sim_def u32_max_def)
  have ne: "value_ne (vo c_env) (signal_table (c_sim [7, 1]) 1) (from_u64 (vo c_env) 5 8)"
    and val: "from_u64 (vo c_env) v 8 = c_inline v 0 8" for v
    by (simp_all add: c_defs ts_mask_def shl64_def)
  have "pending (ts_store_nba c_env 1 5 8 (c_sim [7, 1])) 1 = Some (c_inline 5 0 8)"
    unfolding last_nba_wins[OF c_nba_ok] using ne val by simp
  then show ?thesis
    unfolding last_nba_wins[OF ok] using val by (simp add: domIff)
qed


section \<open>The constraint solver\<close>

text \<open>C9: A constraint set that the solver calls unsatisfiable has no solution: no assignment within the
  first domains, with the added variables at the values that define them, under which every node
  holds.  \<open>csp_law\<close> is what the solver relies on of the nodes and the evaluator; the random draws are
  arbitrary.\<close>

theorem unsat_no_solution:
  assumes "csp_law P L" and "draws_ok D" and "csp_find D A P r = Some Unsat"
  shows "\<not> solution P L \<sigma>"
  using csp_find_answer[OF assms(2), of A P r L] assms(1,3) by (auto simp: answer_ok_def)

lemma unsat_no_solution_witness:
  "csp_find zero_draws plain_aux ne_csp () = Some Unsat \<and> (\<forall>\<sigma>. \<not> solution ne_csp (\<lambda>_. True) \<sigma>)"
  using unsat_no_solution[OF ne_law zero_draws_ok ne_unsat] ne_unsat by blast

text \<open>C10: The solver always answers, within its budget of decisions: it finds a state in which every
  variable has a single value, or it has exhausted the search, or it gives up.\<close>

theorem csp_find_answers:
  assumes "draws_ok D"
  shows "(\<exists>t. csp_find D A P r = Some (Found t) \<and> (\<forall>v < length (cs_dom0 P). st_fixed t v \<noteq> None)) \<or>
    csp_find D A P r = Some Unsat \<or> csp_find D A P r = Some GaveUp"
proof -
  obtain y where y: "csp_find D A P r = Some y" "answer_ok P (\<lambda>_. True) y" using csp_find_answer[OF assms] by blast
  show ?thesis using y by (cases y) (simp_all add: answer_ok_def)
qed

lemma csp_find_answers_witness:
  "csp_find zero_draws plain_aux ne_csp () \<noteq> None \<and>
   (\<exists>t. csp_find zero_draws plain_aux (sub_csp False) () = Some (Found t) \<and> (\<forall>v < 2. st_fixed t v \<noteq> None))"
proof -
  obtain t where "csp_find zero_draws plain_aux (sub_csp False) () = Some (Found t)" using sub_found by blast
  then show ?thesis
    using csp_find_answers[OF zero_draws_ok, of plain_aux ne_csp "()"] csp_find_answers[OF zero_draws_ok, of plain_aux "sub_csp False" "()"]
    by auto
qed

text \<open>C11: Under any domains a node is judged right, and enforcing it loses no assignment that
  satisfies it: the judgement, when there is one, is whether the node holds, and the narrowed domains,
  which are subsets, keep every legal assignment under which it holds.\<close>

theorem csp_node_sound:
  assumes "node_law P nv L n" and "st_ok s" and "length (st_d s) = nv" and "csp_enforce P n s = (ok, t)"
  shows "(\<forall>\<sigma>. L \<sigma> \<and> admits s \<sigma> \<longrightarrow>
      (\<forall>b. csp_status P n s = Some b \<longrightarrow> csp_holds P n \<sigma> = b) \<and> (csp_holds P n \<sigma> \<longrightarrow> ok \<and> admits t \<sigma>)) \<and>
    (\<forall>v < nv. \<forall>x. dom_has (st_d t ! v) x \<longrightarrow> dom_has (st_d s ! v) x)"
  using enforce_sound(1)[OF assms(1), of s] status_sound(1)[where L = L and nv = nv] assms
  by (auto simp: sound_def keeps_def narrows_def)

lemma csp_node_sound_witness:
  "\<exists>t. csp_enforce ne_csp (ne_node 0 1 0) (ne_st [[(0, 0)], [(0, 1)]] [] 0) = (True, t) \<and> st_d t = [[(0, 0)], [(1, 1)]] \<and>
     (\<forall>\<sigma>. \<sigma> 0 = 0 \<and> \<sigma> 1 = 1 \<longrightarrow> admits t \<sigma>)"
proof -
  obtain t where t: "csp_enforce ne_csp (ne_node 0 1 0) (ne_st [[(0, 0)], [(0, 1)]] [] 0) = (True, t)" "st_d t = [[(0, 0)], [(1, 1)]]"
    by (simp add: ne_node_def enforce_lin_def fits_hold_def enforce_ne_def run_simps Let_def)
  have "node_law ne_csp 2 (\<lambda>_. True) (ne_node 0 1 0)" using ne_law by (simp add: csp_law_def numeral_2_eq_2)
  moreover have "st_ok (ne_st [[(0, 0)], [(0, 1)]] [] 0)" by (simp add: st_ok_def i128_min_def i128_max_def)
  ultimately have "\<forall>\<sigma>. admits (ne_st [[(0, 0)], [(0, 1)]] [] 0) \<sigma> \<and> csp_holds ne_csp (ne_node 0 1 0) \<sigma> \<longrightarrow> admits t \<sigma>"
    using csp_node_sound[OF _ _ _ t(1), of 2 "\<lambda>_. True"] by simp
  then show ?thesis using t by (auto simp: admits_def ne_node_def less_Suc_eq)
qed

text \<open>C12: The operations on domains keep them sorted, disjoint and without empty intervals, and compute
  the intersection, the difference, the restriction to a range and the union of their arguments; the
  size is the number of values, up to the largest \<^verbatim>\<open>u128\<close>.\<close>

theorem dom_ops_exact:
  assumes "dom_ok a" and "dom_ok b" and "\<forall>(l, h)\<in>set v. l \<le> i128_max"
  shows "dom_ok (dom_meet a b) \<and> dom_ok (dom_minus a b) \<and> dom_ok (dom_clip a lo hi) \<and> dom_ok (dom_norm v) \<and>
    (dom_has (dom_meet a b) x = (dom_has a x \<and> dom_has b x)) \<and> (dom_has (dom_minus a b) x = (dom_has a x \<and> \<not> dom_has b x)) \<and>
    (dom_has (dom_clip a lo hi) x = (dom_has a x \<and> lo \<le> x \<and> x \<le> hi)) \<and>
    (dom_has (dom_norm v) x = (\<exists>(l, h)\<in>set v. l \<le> x \<and> x \<le> h)) \<and> dom_size a = min (card {y. dom_has a y}) u128_max"
  by (simp add: meet_ok meet_has minus_ok minus_has clip_ok clip_has norm_ok norm_has dom_size_card assms)

lemma dom_ops_exact_witness:
  "dom_has (dom_minus [(0, 9)] [(3, 4), (7, 20)]) 5 \<and> \<not> dom_has (dom_minus [(0, 9)] [(3, 4), (7, 20)]) 8 \<and>
   dom_norm [(5, 6), (1, 2), (3, 3)] = [(1, 3), (5, 6)]"
proof -
  have "dom_norm [(5, 6), (1, 2), (3, 3)] = [(1, 3), (5, 6)]" by code_simp
  then show ?thesis
    using dom_ops_exact[of "[(0, 9)]" "[(3, 4), (7, 20)]" "[]" 0 9 5] dom_ops_exact[of "[(0, 9)]" "[(3, 4), (7, 20)]" "[]" 0 9 8]
    by (auto simp del: dom_minus.simps)
qed

text \<open>C13: In an object with rand sub-objects the solver can call a satisfiable constraint set
  unsatisfiable.  An unsigned byte that shall equal a signed function of a sub-object's variable,
  whose values are negative, is narrowed to the sign-extended values, of which it has none, while the
  relation, as the same arm enforces it elsewhere, zero-extends them.\<close>

theorem signed_value_unsat:
  "csp_find D A (sub_csp True) r = Some Unsat \<and> solution (sub_csp True) (\<lambda>_. True) (\<lambda>v. if v = 0 then 255 else - 1)"
  using sub_unsat by (auto simp: solution_def solves_def less_Suc_eq)

section \<open>Expansion for the JIT\<close>

text \<open>C14: The instructions the JIT expands a fused instruction to execute like it, in order and with
  the same outcome.  For an element store from a signal this needs a clean signal and its own load
  register as the data operand.\<close>

theorem unfuse_preserves:
  assumes "unfuse i = Some is" and "clean_elem_source E i s"
  shows "exec_seq E is r s = ctrl_insn E i r s"
  by (rule unfuse_exec[OF assms])

lemma unfuse_preserves_witness:
  "exec_seq c_env [TBasic (And 2 0 1), TStore (RangeStore 1 7 4 2 15)] ((\<lambda>_. 0)(0 := 12, 1 := 10)) (c_sim [7, 1]) =
   ctrl_insn c_env (TFused (AndRangeStore 2 0 1 1 7 4)) ((\<lambda>_. 0)(0 := 12, 1 := 10)) (c_sim [7, 1])"
  by (rule unfuse_preserves)
    (simp_all add: unfuse_def clean_elem_source_def range_mask_def range_width_def shl64_def)

text \<open>C15: Expanding what the fusion of a pair produced gives the pair back; only fusions that absorb
  a branch have no expansion.\<close>

theorem unfuse_after_fuse:
  assumes "fuse_pair i j = Some f"
  shows "unfuse f = (if has_branch i \<or> has_branch j then None else Some [i, j])"
  by (rule unfuse_fuse_pair[OF assms])

lemma unfuse_after_fuse_witness:
  "unfuse (TFused (LogAndStore 2 0 1 7 1) :: unit ts_insn) = Some [TCmp (LogAnd 2 0 1), TStore (Store 7 2 1)]"
  using unfuse_after_fuse[of "TCmp (LogAnd 2 0 1) :: unit ts_insn" "TStore (Store 7 2 1)" "TFused (LogAndStore 2 0 1 7 1)"]
  by (simp add: fuse_pair_def fuse_log_and_def)

section \<open>Planes\<close>

text \<open>Two spans of a signal that share a bit below the width share a bit of their chunk masks,
  so a reader of one is woken by a writer of the other.\<close>

theorem shared_bit_shared_chunk:
  assumes "lo \<le> b" and "b < lo + n" and "lo' \<le> b" and "b < lo' + n'" and "b < width" and "width < 2 ^ 32"
  shows "sig_span_mask width lo n AND sig_span_mask width lo' n' \<noteq> 0"
proof -
  let ?k = "min (b div 2 ^ sig_chunk_shift width) 63"
  have "b < 2 ^ 32" using assms by simp
  then have "bit (sig_span_mask width lo n) ?k" "bit (sig_span_mask width lo' n') ?k"
    using assms by (simp_all add: span_mask_shared_bit)
  then have "bit (sig_span_mask width lo n AND sig_span_mask width lo' n') ?k" by (simp add: bit_and_iff)
  then show ?thesis by (metis bit_0_eq bot_apply bot_bool_def)
qed

lemma shared_bit_shared_chunk_witness:
  "sig_span_mask 200 70 10 AND sig_span_mask 200 79 64 \<noteq> 0"
  by (rule shared_bit_shared_chunk[where b = 79]) simp_all

text \<open>Splicing a range into the planes of a value changes exactly the bits of the range, in both
  planes.\<close>

theorem compose_exact:
  assumes "low \<le> high" and "high < 64" and "i < 64"
  shows "(bit (fst (compose_inline_range_bits bv bx sv sx low high)) i,
          bit (snd (compose_inline_range_bits bv bx sv sx low high)) i) =
         (if low \<le> i \<and> i \<le> high then (bit sv (i - low), bit sx (i - low)) else (bit bv i, bit bx i))"
  using compose_bits[OF assms] by simp

lemma compose_exact_witness:
  "bit (snd (compose_inline_range_bits 0 0xFF 5 2 4 7)) 5 \<and> \<not> bit (snd (compose_inline_range_bits 0 0xFF 5 2 4 7)) 6"
  using compose_exact[of 4 7 5 0 "0xFF" 5 2] compose_exact[of 4 7 6 0 "0xFF" 5 2] by simp

text \<open>The replication of a part, by a multiplication or by doubling, gives the copies side by
  side.\<close>

theorem replicate_exact:
  assumes "part = take_bit w part" and "0 < w" and "w * copies \<le> 64"
  shows "bit (replicate_narrow part w copies) i \<longleftrightarrow> i < w * copies \<and> bit part (i mod w)"
  unfolding replicate_narrow_ref[OF assms] by (rule bit_rep_ref[OF assms])

lemma replicate_exact_witness:
  "bit (replicate_narrow 5 3 4) 11 \<and> \<not> bit (replicate_narrow 5 3 4) 10"
  using replicate_exact[of 5 3 4 11] replicate_exact[of 5 3 4 10] by (simp add: take_bit_eq_mod)

text \<open>C16: The bounds check of a slice at a computed offset rejects every offset past the end except
  those for which the 64-bit sum of offset and width wraps, which it accepts.\<close>

theorem dyn_slice_bounds:
  assumes "w \<le> sw" and "sw < 2 ^ 32"
  shows "ts_sig_range_dyn E s sig lo w sw = DynOob \<longleftrightarrow> sw < unat lo + w \<and> unat lo + w < 2 ^ 64"
proof -
  have "unat (of_nat w :: u64) = w" "unat (of_nat sw :: u64) = sw"
    using assms by (simp_all add: unat_of_nat)
  moreover have "unat (lo + of_nat w) = (unat lo + w) mod 2 ^ 64"
    using calculation by (simp add: unat_word_ariths)
  moreover have "(unat lo + w) mod 2 ^ 64 = (if unat lo + w < 2 ^ 64 then unat lo + w else unat lo + w - 2 ^ 64)"
    using assms unsigned_less[of lo, where ?'a = nat] by (auto simp: mod_if)
  moreover have "unat lo + w - 2 ^ 64 < w" if "\<not> unat lo + w < 2 ^ 64"
    using that unsigned_less[of lo, where ?'a = nat] by simp
  ultimately have "lo + of_nat w > (of_nat sw :: u64) \<longleftrightarrow> sw < unat lo + w \<and> unat lo + w < 2 ^ 64"
    using assms by (auto simp: word_less_nat_alt)
  then show ?thesis by (simp add: ts_sig_range_dyn_def split: prod.splits)
qed

lemma dyn_slice_bounds_witness:
  "ts_sig_range_dyn c_env (c_sim []) 0 9 4 12 = DynOob \<and> ts_sig_range_dyn c_env (c_sim []) 0 (- 2) 4 12 \<noteq> DynOob"
  using dyn_slice_bounds[of 4 12 c_env "c_sim []" 0 9] dyn_slice_bounds[of 4 12 c_env "c_sim []" 0 "- 2"]
  by simp


section \<open>User-defined primitives\<close>

text \<open>C17: The compiled transition table holds, at the index the evaluation computes, the next state
  that the first matching row of the table gives.\<close>

theorem udp_table_exact:
  assumes "compile_udp_transition_lut rs n is_seq = Some (lut, states)"
    and "st < 3" and "length prev = n" and "length cur = n" and "trits prev" and "trits cur"
  shows "lut ! lut_index states st (encode_ternary prev) (encode_ternary cur) = udp_next rs cur prev st is_seq"
  using lut_lookup[OF assms(1-4)] assms(5,6) by (simp add: trits_def)

lemma udp_table_exact_witness: "dff_lut ! lut_index 9 2 3 4 = 1"
  using udp_table_exact[OF dff_compile, of 2 "[0, 1]" "[1, 1]"] dff_rise by (simp add: trits_def)

text \<open>C18: The event filter is sound.  A change that leaves the event terminal alone holds the state, and
  so does a transition of the event terminal alone whose mask bit is clear.\<close>

theorem udp_filter_sound:
  assumes "compile_udp_transition_lut rs n is_seq = Some (lut, states)"
    and "compile_udp_event_filter lut states n = Some (e, m)"
    and "st < 3" and "length prev = n" and "length cur = n" and "trits prev" and "trits cur" and "prev \<noteq> cur"
    and "prev ! e = cur ! e \<or> prev = cur[e := prev ! e] \<and> \<not> bit m (prev ! e * 3 + cur ! e)"
  shows "udp_next rs cur prev st is_seq = st"
proof (cases "prev ! e = cur ! e")
  case True
  then show ?thesis using filter_passive[OF assms(1-7)] assms(8) by simp
next
  case False
  have e: "e < n" using False assms(4,5,8,9) by (metis list_update_beyond not_le)
  then have "prev ! e < 3" using assms(4,6) by (auto simp: trits_def)
  then show ?thesis using filter_transition[OF assms(1-3,5,7), of "prev ! e"] False assms(9) by metis
qed

lemma udp_filter_sound_witness:
  "udp_next dff_rows [1, 0] [1, 2] 2 True = 2 \<and> udp_next dff_rows [0, 1] [1, 1] 2 True = 2"
  using udp_filter_sound[OF dff_compile dff_filter, of 2 "[1, 2]" "[1, 0]"]
    udp_filter_sound[OF dff_compile dff_filter, of 2 "[1, 1]" "[0, 1]"] dff_mask_fall
  by (simp add: trits_def)





text \<open>In a batch an instance gets the same state and drives the same level as alone, and both
  cache the same level of the event terminal; only the cached levels of the other terminals may
  differ.\<close>

theorem udp_batch_as_single:
  assumes "udp_ok rt" and "event_input rt = Some e" and "initialized rt" and "shared_ok rd forced shared rt e"
  shows "\<exists>a b d. batch_udp_rt rd forced shared rt = Some (a, d) \<and> eval_udp_rt rd rt = Some (b, d) \<and> same_event a b"
proof -
  have "eval_udp_rt rd rt = eval_filtered rd rt e"
    using assms by (simp add: eval_udp_rt_def udp_ok_def udp_built_def)
  then show ?thesis
    using eval_filtered_result[OF assms(1,2), of rd] batch_result[OF assms] assms(2,3)
    by (auto simp: filtered_result_def same_event_def event_digit_def)
qed

lemma udp_batch_as_single_witness:
  "\<exists>a b d. batch_udp_rt (\<lambda>_ _. 1) (\<lambda>_. False) 1 (dff True 3) = Some (a, d) \<and>
     eval_udp_rt (\<lambda>_ _. 1) (dff True 3) = Some (b, d) \<and> same_event a b"
  by (rule udp_batch_as_single[OF dff_ok, where e = 0])
    (simp_all add: dff_def shared_ok_def levels_def term_code_def u32_max_def)

section \<open>The event queue\<close>



text \<open>C22: \<open>pop_front\<close> at the time of the scheduler gives the oldest event of that time and removes
  it alone; events of later times that share its slot or wait in the map are untouched.\<close>

theorem wheel_pop_front:
  assumes "wheel_reachable w" and "current_time w \<le> t" and "nothing_before t w"
  shows "fst (pop_front t w) = (case queue_at w t of [] \<Rightarrow> None | e # _ \<Rightarrow> Some e) \<and>
    queue_at (snd (pop_front t w)) = (queue_at w)(t := tl (queue_at w t)) \<and>
    wheel_reachable (snd (pop_front t w))"
  using pop_front_ok[OF reachable_ok[OF assms(1)] assms(2)] nothing_before_queue[OF reachable_ok[OF assms(1)] assms(3)]
    wheel_reachable.pop_front[OF assms] by blast

lemma wheel_pop_front_witness:
  "fst (pop_front 10 ex_wheel) = Some (3, ''a'') \<and>
   queue_at (snd (pop_front 10 ex_wheel)) 10 = [(4, ''b'')] \<and>
   queue_at (snd (pop_front 10 ex_wheel)) 5000 = [(7, ''far'')]"
  using wheel_pop_front[OF ex_reachable _ ex_due] by (simp add: ex_time ex_queue)



text \<open>C24: When the processes of a time slot ask only for later events, the active-region loop ends,
  having run each event queued at that time once and in order.\<close>

theorem drain_active_ends:
  assumes "wheel_reachable w" and "current_time w \<le> t" and "nothing_before t w"
    and "\<And>e s r. r \<in> set (snd (run e s)) \<Longrightarrow> 0 < delay_of r"
  shows "\<exists>w'. drain_active t (\<lambda>_. False) run (w, s) = Some (w', fst (run_all run (queue_at w t) s)) \<and>
    wheel_ok w' \<and> queue_at w' t = []"
proof -
  have due: "wq.due t w"
    using assms(1-3) nothing_before_queue[OF reachable_ok] by (auto simp: wheel_due reachable_ok)
  obtain rs where "spec_drain t (\<lambda>_. False) run (queue_at w, s) =
      Some (fold (spec_serve t) rs ((queue_at w)(t := [])), fst (run_all run (queue_at w t) s))"
    and "\<forall>r\<in>set rs. 0 < delay_of r"
    using spec_drain_batch[of "\<lambda>_. False" run t "queue_at w" s] run_all_later[of run] assms(4) by metis
  then obtain w' where w': "drain_active t (\<lambda>_. False) run (w, s) = Some (w', fst (run_all run (queue_at w t) s))"
    "queue_at w' t = []"
    using drain_active_refines[OF due, of "\<lambda>_. False" run s] by (auto simp: serve_list_later)
  then show ?thesis using drain_active_due[OF due w'(1)] by (auto simp: wheel_due)
qed

lemma drain_active_ends_witness:
  "\<exists>w'. drain_active 10 (\<lambda>_. False) ex_run (ex_wheel, []) = Some (w', [''a'', ''b'']) \<and> wheel_ok w' \<and> queue_at w' 10 = []"
proof -
  have "fst (run_all ex_run (queue_at ex_wheel 10) []) = [''a'', ''b'']" by (simp add: ex_queue ex_run_def)
  moreover have "\<And>e s r. r \<in> set (snd (ex_run e s)) \<Longrightarrow> 0 < delay_of r" by (auto simp: ex_run_def)
  ultimately show ?thesis
    using drain_active_ends[OF ex_reachable _ ex_due, of ex_run "[]"] by (simp add: ex_time)
qed

text \<open>C25: \<open>remove_pid\<close> on a process with one pending event gives that event with its time and takes
  it out of the queue, and nothing else.\<close>

theorem wheel_remove_pid:
  assumes "wheel_reachable w" and "pid_counts w pid = Some 1"
  shows "fst (remove_pid pid w) = first_event pid (queue_at w) \<and>
    queue_at (snd (remove_pid pid w)) = (\<lambda>t. without pid (queue_at w t)) \<and>
    wheel_ok (snd (remove_pid pid w)) \<and> \<not> has_pid pid (snd (remove_pid pid w))"
proof -
  note r = remove_pid_ok[OF reachable_ok[OF assms(1)] assms(2)]
  then have "\<not> has_pid pid (snd (remove_pid pid w))" by (auto simp: has_pid_ok without_def)
  then show ?thesis using r by blast
qed

lemma wheel_remove_pid_witness:
  "fst (remove_pid 5 ex_wheel) = Some (20, ''d'') \<and> queue_at (snd (remove_pid 5 ex_wheel)) 20 = [] \<and>
   \<not> has_pid 5 (snd (remove_pid 5 ex_wheel))"
proof -
  have "first_event 5 (queue_at ex_wheel) = Some (20, ''d'')"
    by (rule first_event_SomeI) (simp_all add: ex_queue)
  then show ?thesis
    using wheel_remove_pid[OF ex_reachable ex_counts(2)] by (simp add: ex_queue without_def)
qed

text \<open>C26: On a process whose events, two or more, all lie beyond the window, \<open>remove_pid\<close> gives
  only the first and leaves the others queued, while the process count is dropped: \<open>has_pid\<close> then denies
  them.\<close>

theorem wheel_remove_pid_leaves:
  assumes "wheel_reachable w" and "pid_counts w pid = Some n" and "2 \<le> n"
    and "\<forall>t < current_time w + wheel_size. map_of (queue_at w t) pid = None"
  shows "fst (remove_pid pid w) = first_event pid (queue_at w) \<and>
    (\<exists>t c. (pid, c) \<in> set (queue_at (snd (remove_pid pid w)) t)) \<and> \<not> has_pid pid (snd (remove_pid pid w))"
proof -
  have ok: "wheel_ok w" and none: "\<And>t. t < current_time w + wheel_size \<Longrightarrow> map_of (queue_at w t) pid = None"
    using reachable_ok assms by blast+
  have "pid_total w pid = n" using ok assms(2,3) by (auto simp: wheel_ok_def counts_ok_def split: if_splits)
  then show ?thesis
    using remove_pid_leaves[OF ok none] remove_pid_far[OF ok none] assms by (simp add: has_pid_def)
qed

lemma wheel_remove_pid_leaves_witness:
  "fst (remove_pid 7 ex_wheel) = Some (5000, ''far'') \<and>
   (\<exists>t c. (7, c) \<in> set (queue_at (snd (remove_pid 7 ex_wheel)) t)) \<and> \<not> has_pid 7 (snd (remove_pid 7 ex_wheel))"
proof -
  have "first_event 7 (queue_at ex_wheel) = Some (5000, ''far'')"
    by (rule first_event_SomeI) (simp_all add: ex_queue)
  then show ?thesis
    using wheel_remove_pid_leaves[OF ex_reachable ex_counts(1)]
    by (simp add: ex_queue ex_time wheel_size_def)
qed

text \<open>The queries agree with the queue: emptiness, the number of events of a time, whether a
  process has a pending event, and the earliest time after a given one (which breaks a zero-delay
  livelock).\<close>

theorem wheel_queries:
  assumes "wheel_reachable w"
  shows "wheel_is_empty w = (\<forall>t. queue_at w t = []) \<and> len_at t w = length (queue_at w t) \<and>
    has_pid pid w = (\<exists>t c. (pid, c) \<in> set (queue_at w t)) \<and>
    next_time_after t w = earliest (\<lambda>u. if t < u then queue_at w u else [])"
  using reachable_ok[OF assms] wheel_is_empty_ok len_at_ok has_pid_ok next_time_after_ok by blast

lemma wheel_queries_witness:
  "\<not> wheel_is_empty ex_wheel \<and> len_at 10 ex_wheel = 2 \<and> has_pid 7 ex_wheel \<and> next_time_after 20 ex_wheel = Some 5000"
proof -
  have "earliest (\<lambda>u. if 20 < u then queue_at ex_wheel u else []) = Some 5000"
    by (rule earliest_SomeI) (simp_all add: ex_queue)
  moreover have "\<exists>t c. (7, c) \<in> set (queue_at ex_wheel t)" by (rule exI[of _ 5000]) (simp add: ex_queue)
  moreover have "queue_at ex_wheel 10 \<noteq> []" by (simp add: ex_queue)
  ultimately show ?thesis
    using wheel_queries[OF ex_reachable, of 10 7] wheel_queries[OF ex_reachable, of 20 7] by (auto simp: ex_queue)
qed

section \<open>Delayed updates\<close>

text \<open>C27: A slice that is scheduled on a net composes onto the value the net is already on its way to: the
  net ends up with the bits of the slice inside it and with its earlier eventual bits outside, other
  nets are not touched, and the queue keeps the latest update of every net first.\<close>

theorem slice_composes:
  assumes "bit_laws D" and "width_of D (eventual sid s) = width_of D (table s sid)"
    and "lo + n \<le> width_of D (table s sid)"
  shows "(\<forall>b < width_of D (table s sid).
      get_bit_code D (eventual sid (schedule_delayed_slice D sid lo n sel delay s)) b =
        (if lo \<le> b \<and> b < lo + n then get_bit_code D sel (b - lo) else get_bit_code D (eventual sid s) b)) \<and>
    (\<forall>i. i \<noteq> sid \<longrightarrow> eventual i (schedule_delayed_slice D sid lo n sel delay s) = eventual i s) \<and>
    (latest_first s \<longrightarrow> latest_first (schedule_delayed_slice D sid lo n sel delay s))"
  by (intro conjI allI impI) (rule slice_eventual[OF assms] slice_others slice_latest_first, assumption)+

lemma slice_composes_witness:
  "get_bit_code l_denv (eventual 1 (schedule_delayed_slice l_denv 1 1 1 [1] 0 l_queued)) 0 = 1 \<and>
   get_bit_code l_denv (eventual 1 (schedule_delayed_slice l_denv 1 1 1 [1] 0 l_queued)) 1 = 1 \<and>
   latest_first (schedule_delayed_slice l_denv 1 1 1 [1] 0 l_queued)"
proof -
  have w: "width_of l_denv (eventual 1 l_queued) = width_of l_denv (table l_queued 1)"
    "1 + 1 \<le> width_of l_denv (table l_queued 1)" "0 < width_of l_denv (table l_queued 1)" "1 < width_of l_denv (table l_queued 1)"
    unfolding l_queued_eventual(1,2) by (simp_all add: l_denv_sel)
  have "get_bit_code l_denv (eventual 1 l_queued) 0 = 1" "get_bit_code l_denv [1] 0 = 1"
    unfolding l_queued_eventual(1) by (simp_all add: l_denv_sel l_get_def)
  with slice_composes[OF l_laws w(1,2), of "[1]" 0] w(3,4) l_queued_eventual(3) show ?thesis by simp
qed

text \<open>C28: A net with module path delays gets, for a new value, one update at each time at which a bit
  of it is due, the latest first, and each update carries exactly the bits whose time has come: every
  other bit still has its old level.\<close>

theorem path_bits_on_time:
  assumes "bit_laws D" and "width_of D val = width_of D (table s sid)"
  shows "fst ` set (updates_of sid (delayed_updates (schedule_module_path D sid k val s))) =
      {t. \<exists>b < width_of D val. change_time D sid k val s b = Some t} \<and>
    sorted_wrt (>) (map fst (updates_of sid (delayed_updates (schedule_module_path D sid k val s)))) \<and>
    (\<forall>(at, v) \<in> set (updates_of sid (delayed_updates (schedule_module_path D sid k val s))).
      \<forall>b < width_of D val. get_bit_code D v b =
        (case change_time D sid k val s b of
           Some t \<Rightarrow> if at < t then get_bit_code D (table s sid) b else get_bit_code D val b
         | None \<Rightarrow> get_bit_code D val b))"
  using path_update_bits[OF assms] path_update_times[of sid D k val s] path_latest_first[of sid D k val s]
    changes_times[OF assms(2), of k]
  by auto

lemma path_bits_on_time_witness:
  "fst ` set (updates_of 1 (delayed_updates (schedule_module_path l_denv 1 0 [1, 0] (l_sim 0)))) = {7, 10}"
proof -
  have "b < Suc (Suc 0) \<longleftrightarrow> b = 0 \<or> b = Suc 0" for b :: nat by auto
  then show ?thesis
    using path_bits_on_time[OF l_laws, of "[1, 0]" "l_sim 0" 1 0] l_change_times l_tables(1)[of 0]
    by (auto simp: l_denv_sel)
qed

text \<open>C29: \<open>apply_delayed_updates\<close> takes exactly the due updates out of the queue, whatever its order:
  a net with no due update keeps its value, a net with one gets that value unless it is forced, and the
  time of the next update is the least one left.\<close>

theorem apply_due_exact:
  assumes "bit_laws D"
  shows "mset (delayed_updates (snd (apply_delayed_updates D s))) =
      filter_mset (\<lambda>u. \<not> due (sim_time s) u) (mset (delayed_updates s)) \<and>
    (due_of sid s = {#} \<longrightarrow> table (snd (apply_delayed_updates D s)) sid = table s sid) \<and>
    (forced_signals s sid = None \<and> due_of sid s = {#u#} \<longrightarrow>
      (\<forall>b. get_bit_code D (table (snd (apply_delayed_updates D s)) sid) b = get_bit_code D (snd (snd u)) b)) \<and>
    next_delayed_time s = (if pending_times s = {} then None else Some (Min (pending_times s)))"
  using apply_loop_ok[OF assms, of 0 s False sid u] next_delayed_time_ok[of s]
  by (simp add: apply_delayed_updates_def)

lemma apply_due_exact_witness:
  "(\<forall>b. get_bit_code l_denv (table (snd (apply_delayed_updates l_denv l_late)) 0) b = get_bit_code l_denv [1, 1] b) \<and>
   table (snd (apply_delayed_updates l_denv l_late)) 1 = table l_late 1"
  using apply_due_exact[OF l_laws, of l_late 0 "(3, 0, [1, 1])"] apply_due_exact[OF l_laws, of l_late 1]
  by (simp add: due_of_def l_late_def l_queued_eq l_sim_def)

text \<open>C30: Applying the updates that are due can reorder the queue, as it moves the last update into
  the place of the one it removes, and then a net with several updates no longer has its latest one
  first: its eventual value, onto which the next slice composes, changes although none of its updates
  was due.\<close>

theorem apply_reorders_updates:
  "latest_first l_late \<and> due_of 1 l_late = {#} \<and> eventual 1 l_late = [1, 0] \<and>
   eventual 1 (snd (apply_delayed_updates l_denv l_late)) = [0, 0] \<and>
   \<not> latest_first (snd (apply_delayed_updates l_denv l_late))"
proof (intro conjI)
  show "latest_first l_late" and "eventual 1 l_late = [1, 0]" by (fact l_late_eventual)+
  show "due_of 1 l_late = {#}" by (simp add: due_of_def l_late_def l_queued_eq)
  show "eventual 1 (snd (apply_delayed_updates l_denv l_late)) = [0, 0]"
    by (simp add: eventual_def pending_value_def l_applied)
  have "\<not> sorted_wrt (>) (map fst (updates_of 1 (delayed_updates (snd (apply_delayed_updates l_denv l_late)))))"
    by (simp add: l_applied updates_of_def)
  then show "\<not> latest_first (snd (apply_delayed_updates l_denv l_late))" unfolding latest_first_def by blast
qed



text \<open>C32: Driving the output of a primitive makes the new level the one its output bit has once the
  pending assignment or the delayed update is in: a delayed instance composes a one-bit update, a
  sequential one a non-blocking assignment onto what is queued, a combinational one writes at once.\<close>

theorem udp_output_reaches:
  assumes "bit_laws D" and "c < 4" and "br_bit (out_ref rt) < width_of D (table s (br_sig (out_ref rt)))"
    and "width_of D (eventual (br_sig (out_ref rt)) s) = width_of D (table s (br_sig (out_ref rt)))"
    and "width_of D (value_new (vo (base D)) 1) = 1" and "nba_ok (core s)"
    and "\<forall>e\<in>set (nba_queue (core s)). width_of D (nf_value e) = width_of D (table s (nf_signal_id e))"
  shows "output_code D rt (drive_udp_output D rt c s) = c"
  by (rule drive_reaches[OF assms])

lemma udp_output_reaches_witness:
  "output_code l_denv ((dff True 0)\<lparr>out_ref := \<lparr>br_sig = 1, br_bit = 0\<rparr>, delay_rise := 5\<rparr>)
     (drive_udp_output l_denv ((dff True 0)\<lparr>out_ref := \<lparr>br_sig = 1, br_bit = 0\<rparr>, delay_rise := 5\<rparr>) 1 l_late) = 1 \<and>
   output_code l_denv (dff True 0) (drive_udp_output l_denv (dff True 0) 1 l_late) = 1"
  using udp_output_reaches[OF l_laws, of 1 "(dff True 0)\<lparr>out_ref := \<lparr>br_sig = 1, br_bit = 0\<rparr>, delay_rise := 5\<rparr>" l_late]
    udp_output_reaches[OF l_laws, of 1 "dff True 0" l_late] l_late_nba l_late_eventual l_tables l_late_out
  by (simp add: l_denv_sel l_value_new dff_out)

section \<open>Observers of writes\<close>

text \<open>C33: Commit plans and the bitmap of quiet signals leave out no observation.  Built from the tables of the
  simulator they are exact; with them a write has the effect of the full observation, and keeps them exact.\<close>

theorem writes_observed:
  assumes "0 < table_len o'" and "\<not> profile_report (observers s)"
  shows "plans_ok (rebuild_signal_commit_plans True o') \<and>
    (signal_commit_plan o' = [] \<longrightarrow> plans_ok (build_quiet_bits o')) \<and>
    (plans_ok (observers s) \<and> sid < table_len (observers s) \<longrightarrow>
       after_signal_write_inner E now sid pre s = after_signal_write_observed E now sid pre True True s \<and>
       plans_ok (observers (after_signal_write_inner E now sid pre s)))"
  using plans_built[of o'] inner_observes_all[of s sid E now pre] observed_plans[of E now sid pre True True s] assms
  by simp

text \<open>Signal 1 is edge-sensitive, signal 0 is not.\<close>

lemma writes_observed_witness:
  "changed_edge_pos (observers (after_signal_write_inner g_env 0 1 True
      (g_core (\<lambda>_. [0, 0]) (rebuild_signal_commit_plans True g_obs)))) = [0] \<and>
   after_signal_write_inner g_env 0 0 True (g_core (\<lambda>_. [0, 0]) (rebuild_signal_commit_plans True g_obs)) =
     g_core (\<lambda>_. [0, 0]) (rebuild_signal_commit_plans True g_obs)"
proof -
  let ?o = "rebuild_signal_commit_plans True g_obs"
  let ?s = "g_core (\<lambda>_. [0, 0]) ?o"
  have fields: "observers ?s = ?o" "signal_inline_bits ?s = []" "table_len ?o = 8"
    by (simp_all add: g_core_def rebuild_signal_commit_plans_def g_obs_def)
  have pre: "0 < table_len g_obs" "\<not> profile_report (observers ?s)"
    by (simp_all add: g_core_def rebuild_signal_commit_plans_def g_obs_def)
  have idle: "value_trace_ids ?o = None" "\<not> dump_dirty_active ?o" "\<not> has_active_forces ?o" "armed_edge ?o"
    "\<not> armed_input_set sid ?o" "edge_pos 0 ?o = None" "edge_pos (Suc 0) ?o = Some 0" "\<not> in_edge_block ?o" "\<not> in_edge_cont ?o"
    "dirty_edge ?o" "edge_pos_seen ?o = [False]" "changed_edge_pos ?o = []" for sid
    by (simp_all add: rebuild_signal_commit_plans_def g_obs_def armed_input_set_def edge_pos_def)
  have armed: "note_armed_write sid ?o = ?o" for sid by (rule note_armed_idle) (simp add: idle)
  note written = writes_observed[OF pre]
  have "after_signal_write_inner g_env 0 sid True ?s = after_signal_write_observed g_env 0 sid True True True ?s" if "sid < 8" for sid
    using written[THEN conjunct1] written[THEN conjunct2, THEN conjunct2] that unfolding fields by blast
  moreover have "after_signal_write_observed g_env 0 0 True True True ?s = ?s"
    by (rule observed_quiet) (use idle in \<open>auto simp: needs_armed_def needs_edge_def global_observer_def fields Let_def\<close>)
  moreover have "changed_edge_pos (observers (after_signal_write_observed g_env 0 1 True True True ?s)) = [0]"
    by (simp add: after_signal_write_observed_def Let_def fields trace_idle idle armed note_edge_write_def vcd_mark_def
        bump_force_epoch_def stamp_change_def)
  ultimately show ?thesis by simp
qed

text \<open>C34: After the fanout of armed inputs is built, any sequence of writes arms exactly the gateable edge
  blocks that read one of the signals written or have one as an arm-only input; the others keep their state.\<close>

theorem armed_blocks_exact:
  assumes "armed_edge o'" and "event_skip o'" and "arm_census o' = None" and "length as = length gateable" and "bi < length gateable"
  shows "edge_block_armed (fold note_armed_write sids
      ((build_armed_edge_state gateable reads wide_reads extra o')\<lparr>edge_block_armed := as\<rparr>)) ! bi =
    (if gateable ! bi \<and> (\<exists>sid\<in>set sids. sid \<in> set (reads bi) \<or> bi < length extra \<and> sid \<in> set (extra ! bi))
     then as ! bi OR edge_armed else as ! bi)"
  using armed_exact[OF assms, where reads = reads and wide = wide_reads and extra = extra and sids = sids] by (auto simp: block_reads_def)

text \<open>Blocks 0 and 1 are gateable; block 0 reads signals 3 and 70, block 1 signal 5.\<close>

lemma armed_blocks_exact_witness:
  "edge_block_armed (fold note_armed_write [70, 4]
      ((build_armed_edge_state [True, True] (\<lambda>bi. if bi = 0 then [3, 70] else [5]) (\<lambda>_. False) [] g_obs)\<lparr>edge_block_armed := [0, 0]\<rparr>)) ! 0 = 1 \<and>
   edge_block_armed (fold note_armed_write [70, 4]
      ((build_armed_edge_state [True, True] (\<lambda>bi. if bi = 0 then [3, 70] else [5]) (\<lambda>_. False) [] g_obs)\<lparr>edge_block_armed := [0, 0]\<rparr>)) ! 1 = 0"
  by (subst (1 2) armed_blocks_exact) (simp_all add: g_obs_def edge_armed_def)

section \<open>Gates\<close>

text \<open>C35: Every lane of a vector gate gets the code its one-bit gate would compute, but for one case: a
  multiplexer whose select is x or z passes z when both branches are z, where the one-bit gate gives x.\<close>

theorem vector_gate_lanes:
  assumes "plane_laws G" and "sources_in G s vg" and "passes_z G vg" and "i < vector_width vg"
  shows "pcode (snd (snd (vector_gate_eval G s vg))) i =
    (if mux_passes_z (codes G s) vg i then 3 else snd (fused_gate_eval G (codes G s) (lane_gate vg i)))"
  by (rule vector_gate_lane(2)[OF assms])

text \<open>Signal 0 selects x and 0; signals 1 and 2 are z and 1, z and 0.\<close>

definition mux_sim :: "(nat list, unit) gsim" where
  "mux_sim = g_sim (\<lambda>sid. if sid = 0 then [2, 0] else if sid = 1 then [3, 1] else if sid = 2 then [3, 0] else [0, 0]) g_obs"

definition mux_vec :: vector_gate where
  "mux_vec = VecMux \<lparr>vr_sig = 3, vr_lo = 0\<rparr> \<lparr>vr_sig = 0, vr_lo = 0\<rparr> \<lparr>vr_sig = 1, vr_lo = 0\<rparr> \<lparr>vr_sig = 2, vr_lo = 0\<rparr> 2"

lemma vector_gate_lanes_witness:
  "pcode (snd (snd (vector_gate_eval g_genv mux_sim mux_vec))) 0 = 3 \<and>
   snd (fused_gate_eval g_genv (codes g_genv mux_sim) (lane_gate mux_vec 0)) = 2 \<and>
   pcode (snd (snd (vector_gate_eval g_genv mux_sim mux_vec))) 1 = 0"
proof -
  have "sources_in g_genv mux_sim mux_vec" by (auto simp: sources_in_def mux_vec_def mux_sim_def)
  note lanes = vector_gate_lanes[OF g_plane_laws this]
  show ?thesis
    using lanes[of 0] lanes[of 1] by (simp add: mux_vec_def mux_sim_def lane_ref_def rd_ref_def mux4_def l_get_def)
qed

text \<open>C36: Executing the vector gate that a run of one-bit gates is coalesced to leaves every bit of every
  signal as executing the gates of the run one after the other does (no lane in the case of the
  multiplexer above, net neither forced nor SDF-delayed).\<close>

theorem coalesced_run_exact:
  assumes "bit_laws (den G)" and "plane_laws G" and "\<forall>i < length widths. widths ! i = wid G s i"
    and "coalesce_run widths (dst, sh) lo (length ops) = Some vg"
    and "\<forall>k < length ops. coalesce_key G (ops ! k) = Some (dst, sh) \<and> br_bit (gate_dst (ops ! k)) = lo + k"
    and "free_dst dst s" and "\<forall>k < length ops. \<not> mux_passes_z (codes G s) vg k" and "j < wid G s i"
  shows "codes G (exec_vector_gate G vg s) i j = codes G (fold (exec_fused_gate G) ops s) i j"
proof -
  have members: "run_members G (dst, sh) lo ops" using assms(5) by (simp add: run_members_def)
  note pl = coalesce_places[OF assms(4)]
    have "passes_z G vg" using coalesce_lane(3)[OF _ _ assms(4), of G "ops ! 0" 0] assms(5) pl(1) by fastforce
  then show ?thesis
    using vector_as_lanes[OF assms(1,2) coalesce_setup[OF assms(4,3)], of j i] assms(6,7,8) pl(3,4)
    unfolding coalesce_gates[OF members assms(4)] by simp
qed

text \<open>Two AND gates of the bits of signals 0 and 1.\<close>

definition and_ops :: "fused_gate list" where
  "and_ops = map (\<lambda>b. Bin2 \<lparr>br_sig = 3, br_bit = b\<rparr> \<lparr>br_sig = 0, br_bit = b\<rparr> \<lparr>br_sig = 1, br_bit = b\<rparr> GateAnd False) [0, 1]"

definition and_vec :: vector_gate where
  "and_vec = VecBin \<lparr>vr_sig = 3, vr_lo = 0\<rparr> \<lparr>vr_sig = 0, vr_lo = 0\<rparr> \<lparr>vr_sig = 1, vr_lo = 0\<rparr> 2 GateAnd False"

lemma and_vec_run: "coalesce_run [2, 2, 2, 2] (3, ShBin 0 0 1 0 GateAnd False) 0 (length and_ops) = Some and_vec"
  by (simp add: coalesce_run_def and_ops_def and_vec_def source_run_def Let_def)

lemma coalesced_run_exact_witness:
  "map (codes g_genv (exec_vector_gate g_genv and_vec mux_sim) 3) [0, 1] =
   map (codes g_genv (fold (exec_fused_gate g_genv) and_ops mux_sim) 3) [0, 1]"
proof -
  have "codes g_genv (exec_vector_gate g_genv and_vec mux_sim) 3 j = codes g_genv (fold (exec_fused_gate g_genv) and_ops mux_sim) 3 j"
    if "j < 2" for j
    using that by (intro coalesced_run_exact[OF _ g_plane_laws _ and_vec_run])
      (auto simp: g_bit_laws mux_sim_def less_Suc_eq numeral_eq_Suc and_ops_def and_vec_def coalesce_key_def)
  then show ?thesis by simp
qed

text \<open>C37: The commit of the gate lane and the planned commit of scalar nets agree with the generic commit of a
  bit: the same result, the same codes, observers and other state, for a net that is neither forced
  nor SDF-delayed.\<close>

theorem fast_commits_exact:
  assumes "bit_laws (den G)" and "plane_laws G" and "commit_ok G (br_sig dst) s" and "free_dst (br_sig dst) s"
    and "br_bit dst < wid G s (br_sig dst)" and "c < 4"
    and "br_sig dst < length widths" and "widths ! br_sig dst = wid G s (br_sig dst)"
  shows "rel_prod (=) (same_codes G)
      (gate_lane_commit G dst c (gate_obs (br_sig dst) widths (observers (core s))) (gate_lane_slow s) s)
      (fused_bit_commit G dst c (sdf_any s) s) \<and>
    (fused_batch_commit_state s = Some (edge, armed) \<and> wid G s (br_sig dst) = 1 \<longrightarrow>
     rel_prod (=) (same_codes G) (fused_scalar_commit_planned G (br_sig dst) c (sdf_any s) edge armed s)
       (fused_bit_commit G dst c (sdf_any s) s))"
proof -
  have "dst = \<lparr>br_sig = br_sig dst, br_bit = 0\<rparr>" if "wid G s (br_sig dst) = 1"
    using assms(5) that by (cases dst) simp
  then show ?thesis
    using lane_commit_ok[OF assms] planned_commit_ok[OF assms(1-4) _ assms(6), of edge armed] by metis
qed

text \<open>Bit 1 of signal 1, which is edge-sensitive, becomes 1.\<close>

definition zero_sim :: "(nat list, unit) gsim" where
  "zero_sim = g_sim (\<lambda>_. [0, 0]) g_obs"

lemma g_commit_ok: "sid < 8 \<Longrightarrow> commit_ok g_genv sid (g_sim tab g_obs)"
  by (simp add: commit_ok_def plans_ok_def) (simp add: g_obs_def)

lemma fast_commits_exact_witness:
  "codes g_genv (snd (gate_lane_commit g_genv \<lparr>br_sig = 1, br_bit = 1\<rparr> 1 (gate_obs 1 [2, 2] g_obs) (gate_lane_slow zero_sim) zero_sim)) 1 1 = 1"
proof -
  let ?dst = "\<lparr>br_sig = 1, br_bit = 1\<rparr>"
  let ?l = "gate_lane_commit g_genv ?dst 1 (gate_obs 1 [2, 2] g_obs) (gate_lane_slow zero_sim) zero_sim"
    and ?f = "fused_bit_commit g_genv ?dst 1 (sdf_any zero_sim) zero_sim"
  have laws: "bit_laws (den g_genv)" by (simp add: g_bit_laws)
  have free: "free_dst (br_sig ?dst) zero_sim" "br_bit ?dst < wid g_genv zero_sim (br_sig ?dst)" by (simp_all add: zero_sim_def)
  have "rel_prod (=) (same_codes g_genv) ?l ?f"
    using fast_commits_exact[OF laws g_plane_laws _ free, of 1 "[2, 2]"] g_commit_ok[of 1 "\<lambda>_. [0, 0]"] by (simp add: zero_sim_def)
  then have "same_codes g_genv (snd ?l) (snd ?f)" by (auto simp: rel_prod_sel)
  moreover have "codes g_genv (snd ?f) 1 1 = 1"
    using bit_commit_ok(1)[OF laws free, of 1 "sdf_any zero_sim" 1 1] by simp
  moreover have "wid g_genv (snd ?f) 1 = 2" using bit_commit_ok(2)[OF laws free, of 1 "sdf_any zero_sim" 1] by (simp add: zero_sim_def)
  ultimately show ?thesis by (simp add: same_codes_def)
qed

text \<open>C38: On a forced net they do not: when no other observer is active the commit of the gate lane replaces the
  forced level, which the generic commit keeps.\<close>

theorem fast_commit_breaks_force:
  assumes "bit_laws (den G)" and "plane_laws G" and "forced_signals s (br_sig dst) = Some fv"
    and "\<not> gate_lane_slow s" and "wid G s (br_sig dst) \<le> 64" and "ob AND 4 = 0"
    and "br_bit dst < wid G s (br_sig dst)" and "c < 4"
    and "codes G s (br_sig dst) (br_bit dst) = get_bit_code (den G) fv (br_bit dst)"
    and "get_bit_code (den G) fv (br_bit dst) \<noteq> c"
  shows "codes G (snd (gate_lane_commit G dst c ob (gate_lane_slow s) s)) (br_sig dst) (br_bit dst) = c \<and>
    codes G (snd (fused_bit_commit G dst c (sdf_any s) s)) (br_sig dst) (br_bit dst) = get_bit_code (den G) fv (br_bit dst)"
  using lane_overrides_force[OF assms] by blast

lemma fast_commit_breaks_force_witness:
  "codes g_genv (snd (gate_lane_commit g_genv \<lparr>br_sig = 1, br_bit = 1\<rparr> 1 (gate_obs 1 [2, 2] g_obs) False
     (zero_sim\<lparr>forced_signals := [1 \<mapsto> [0, 0]]\<rparr>))) 1 1 = 1"
proof -
  let ?s = "zero_sim\<lparr>forced_signals := [1 \<mapsto> [0, 0]]\<rparr>"
  have slow: "\<not> gate_lane_slow ?s"
    by (simp add: gate_lane_slow_def observed_globally_def global_observer_def Let_def sdf_any_def zero_sim_def g_sim_def g_core_def g_obs_def)
  then show ?thesis
    using fast_commit_breaks_force[of g_genv ?s "\<lparr>br_sig = 1, br_bit = 1\<rparr>" "[0, 0]" "gate_obs 1 [2, 2] g_obs" 1]
    by (simp add: g_bit_laws g_plane_laws gate_obs_bits(3)[of 1 "[2, 2]" g_obs, simplified] wid_def zero_sim_def l_get_def)
qed

text \<open>The isolated evaluator of a gate leaves the table of signals as the main one does, and reports the
  net as changed exactly when the main commit does.\<close>

theorem isolated_gate_exact:
  assumes "free_dst (br_sig (gate_dst op)) s"
  shows "exec_fused_gate_isolated G op (table s, dirtied) =
    (table (exec_fused_gate G op s),
     if fst (fused_bit_commit G (gate_dst op) (snd (fused_gate_eval G (codes G s) op)) (sdf_any s) s)
     then dirtied @ [br_sig (gate_dst op)] else dirtied)"
  by (rule isolated_table[OF assms])

lemma isolated_gate_exact_witness:
  "fst (exec_fused_gate_isolated g_genv (Buf1 \<lparr>br_sig = 3, br_bit = 1\<rparr> \<lparr>br_sig = 0, br_bit = 1\<rparr> True) (table zero_sim, [])) 3 = [0, 1]"
  using isolated_gate_exact[of "Buf1 \<lparr>br_sig = 3, br_bit = 1\<rparr> \<lparr>br_sig = 0, br_bit = 1\<rparr> True" zero_sim g_genv "[]"]
  by (simp add: zero_sim_def exec_fused_gate_def fused_bit_commit_def sdf_any_def Let_def mark_if_def rd_ref_def l_get_def not4_def l_set_def
      with_table_upd)

text \<open>C39: The packed table of a combinational primitive gives what the first matching row gives for the current
  levels, whatever the previous levels and state.\<close>

theorem lut3_gate_exact:
  assumes "compile_udp_transition_lut rs n False = Some (lut, states)" and "n \<le> 3" and "n \<le> length inputs" and "level_rows rs"
  shows "fused_gate_eval G rd (UdpLut3 dst inputs n (pack_lut3 lut states)) =
    (dst, udp_next rs (map (\<lambda>r. min (rd_ref rd r) 2) (take n inputs)) prev st False)"
  using lut3_rows[OF assms(1-3), of rd] level_rows_next[OF assms(4), of _ prev st "replicate n 2" 2] by simp

definition and_rows :: "udp_row list" where
  "and_rows =
     [\<lparr>row_inputs = [SymLevel CHR ''1'', SymLevel CHR ''1''], row_state = None, row_output = OutLevel CHR ''1''\<rparr>,
      \<lparr>row_inputs = [SymLevel CHR ''0'', SymAnyQ], row_state = None, row_output = OutLevel CHR ''0''\<rparr>,
      \<lparr>row_inputs = [SymAnyQ, SymLevel CHR ''0''], row_state = None, row_output = OutLevel CHR ''0''\<rparr>]"

lemma lut3_gate_exact_witness:
  "snd (fused_gate_eval g_genv (\<lambda>sid b. if sid = 0 then 0 else 3)
     (UdpLut3 \<lparr>br_sig = 2, br_bit = 0\<rparr> [\<lparr>br_sig = 0, br_bit = 0\<rparr>, \<lparr>br_sig = 1, br_bit = 0\<rparr>] 2
        (pack_lut3 (lut_entries and_rows 2 False 9) 9))) = 0"
proof -
  have "compile_udp_transition_lut and_rows 2 False = Some (lut_entries and_rows 2 False 9, 9)"
    by (simp add: compile_udp_transition_lut_def max_lut_entries_def)
  note exact = lut3_gate_exact[OF this]
  show ?thesis
    by (subst exact) (simp_all add: level_rows_def and_rows_def rd_ref_def row_eval)
qed










end
